(* ===== verification/Prelude.thy ===== *)
theory Prelude
  imports Main "HOL-Library.Word"
begin

text \<open>
  Shared vocabulary of the development.

  \<^item> \<open>outcome\<close> is the result of a Go call: a value, an \<open>error\<close>, or a run-time panic (index or
    slice out of range, nil dereference). Every early return of the source is a branch of it.
  \<^item> \<open>go_slice\<close> and \<open>go_prefix\<close> are Go's \<open>s[i:j]\<close> and \<open>s[:n]\<close> with their panics; Go strings are byte
    strings, as is Isabelle's \<open>string\<close>.
  \<^item> \<open>hex_encode\<close> and \<open>itoa\<close> are \<open>hex.EncodeToString\<close> and the \<open>%d\<close> verb; \<open>hasPrefix\<close>, \<open>containsStr\<close>,
    \<open>toLower\<close> and \<open>trimSpace\<close> are the functions of package \<open>strings\<close> on ASCII text.
  \<^item> the arithmetic of one tree level (\<open>(n + 1) / 2\<close>, the sibling index \<open>i ^ 1\<close>) and list lemmas used
    by several components.
\<close>

unbundle bit_operations_syntax

named_theorems outcome_simps "case distinctions on outcomes"
named_theorems str_simps "string functions of the Go library"

subsection \<open>Results of a Go call\<close>

datatype ('e, 'a) outcome = Ok 'a | Err 'e | Panic

primrec is_Ok :: "('e, 'a) outcome \<Rightarrow> bool" where
  "is_Ok (Ok x) = True"
| "is_Ok (Err e) = False"
| "is_Ok Panic = False"

primrec bind_outcome :: "('e, 'a) outcome \<Rightarrow> ('a \<Rightarrow> ('e, 'b) outcome) \<Rightarrow> ('e, 'b) outcome" where
  "bind_outcome (Ok x) f = f x"
| "bind_outcome (Err e) f = Err e"
| "bind_outcome Panic f = Panic"

lemma bind_outcome_Ok_iff [outcome_simps]:
  "bind_outcome m f = Ok y \<longleftrightarrow> (\<exists>x. m = Ok x \<and> f x = Ok y)"
  by (cases m) auto

lemma bind_outcome_assoc:
  "bind_outcome (bind_outcome m f) g = bind_outcome m (\<lambda>x. bind_outcome (f x) g)"
  by (cases m) auto

type_synonym time = int
type_synonym duration = int

subsection \<open>Invariants of step relations\<close>

text \<open>
  A system is given by its initial states and its steps; \<open>inv\<close> is inductive. The components that
  interleave the operations of several callers interpret this locale.
\<close>

locale step_system =
  fixes init :: "'s \<Rightarrow> bool"
    and step :: "'s \<Rightarrow> 's \<Rightarrow> bool"
    and inv :: "'s \<Rightarrow> bool"
  assumes init_inv: "init s \<Longrightarrow> inv s"
    and step_inv: "step s t \<Longrightarrow> inv s \<Longrightarrow> inv t"
begin

lemma run_inv: "step\<^sup>*\<^sup>* s t \<Longrightarrow> inv s \<Longrightarrow> inv t"
  by (induction rule: rtranclp_induct) (auto intro: step_inv)

lemma reachable_inv: "init s \<Longrightarrow> step\<^sup>*\<^sup>* s t \<Longrightarrow> inv t"
  by (blast intro: run_inv init_inv)

end

subsection \<open>Strings\<close>

definition go_prefix :: "string \<Rightarrow> nat \<Rightarrow> string option" where
  "go_prefix s n = (if n \<le> length s then Some (take n s) else None)"

definition go_slice :: "'a list \<Rightarrow> nat \<Rightarrow> nat \<Rightarrow> 'a list option" where
  "go_slice s i j = (if i \<le> j \<and> j \<le> length s then Some (take (j - i) (drop i s)) else None)"

definition hasPrefix :: "string \<Rightarrow> string \<Rightarrow> bool" where
  "hasPrefix s p \<longleftrightarrow> take (length p) s = p"

lemma hasPrefix_append [simp, str_simps]: "hasPrefix (p @ s) p"
  by (simp add: hasPrefix_def)

fun containsStr :: "string \<Rightarrow> string \<Rightarrow> bool" where
  "containsStr [] p \<longleftrightarrow> p = []"
| "containsStr (c # s) p \<longleftrightarrow> hasPrefix (c # s) p \<or> containsStr s p"

lemma containsStr_iff: "containsStr s p \<longleftrightarrow> (\<exists>u v. s = u @ p @ v)"
proof (induction s)
  case Nil
  then show ?case by auto
next
  case (Cons c s)
  have pre: "hasPrefix (c # s) p \<longleftrightarrow> (\<exists>v. c # s = p @ v)"
    by (metis append_eq_conv_conj hasPrefix_def)
  show ?case
  proof
    assume "containsStr (c # s) p"
    then consider v where "c # s = p @ v" | u v where "s = u @ p @ v"
      using Cons.IH pre by auto
    then show "\<exists>u v. c # s = u @ p @ v"
    proof cases
      case 1
      then show ?thesis by (metis append_Nil)
    next
      case 2
      then show ?thesis by (metis append_Cons)
    qed
  next
    assume "\<exists>u v. c # s = u @ p @ v"
    then obtain u v where uv: "c # s = u @ p @ v" by blast
    show "containsStr (c # s) p"
    proof (cases u)
      case Nil
      then have "hasPrefix (c # s) p" using uv pre by auto
      then show ?thesis by simp
    next
      case (Cons d u')
      with uv have "s = u' @ p @ v" by simp
      then show ?thesis using Cons.IH by auto
    qed
  qed
qed

definition toLowerC :: "char \<Rightarrow> char" where
  "toLowerC c = (let n = of_char c :: nat in if 65 \<le> n \<and> n \<le> 90 then char_of (n + 32) else c)"

definition toLower :: "string \<Rightarrow> string" where
  "toLower s = map toLowerC s"

lemma toLowerC_idem: "toLowerC (toLowerC c) = toLowerC c"
proof -
  have "of_char (char_of (n + 32) :: char) = n + 32" if "n \<le> 90" for n :: nat
    using that by (simp add: of_char_of)
  then show ?thesis by (auto simp: toLowerC_def Let_def)
qed

lemma toLower_idem [simp]: "toLower (toLower s) = toLower s"
  by (simp add: toLower_def toLowerC_idem)

definition isSpaceC :: "char \<Rightarrow> bool" where
  "isSpaceC c \<longleftrightarrow> (let n = of_char c :: nat in n = 32 \<or> (9 \<le> n \<and> n \<le> 13))"

definition trimSpace :: "string \<Rightarrow> string" where
  "trimSpace s = rev (dropWhile isSpaceC (rev (dropWhile isSpaceC s)))"

definition hex_digit :: "nat \<Rightarrow> char" where
  "hex_digit n = ''0123456789abcdef'' ! (n mod 16)"

definition hex_byte :: "8 word \<Rightarrow> string" where
  "hex_byte b = [hex_digit (unat b div 16), hex_digit (unat b mod 16)]"

definition hex_encode :: "8 word list \<Rightarrow> string" where
  "hex_encode bs = concat (map hex_byte bs)"

lemma length_hex_encode [simp]: "length (hex_encode bs) = 2 * length bs"
  by (induction bs) (auto simp: hex_encode_def hex_byte_def)

definition is_hex_char :: "char \<Rightarrow> bool" where
  "is_hex_char c \<longleftrightarrow> c \<in> set ''0123456789abcdef''"

lemma hex_digit_is_hex: "is_hex_char (hex_digit n)"
  unfolding is_hex_char_def hex_digit_def by (rule nth_mem) simp

lemma hex_encode_chars: "c \<in> set (hex_encode bs) \<Longrightarrow> is_hex_char c"
  by (auto simp: hex_encode_def hex_byte_def hex_digit_is_hex)

definition byte_of :: "char \<Rightarrow> 8 word" where
  "byte_of c = word_of_nat (of_char c)"

lemma inj_byte_of: "inj byte_of"
proof (rule injI)
  fix c d :: char
  assume "byte_of c = byte_of d"
  then have "unat (byte_of c) = unat (byte_of d)" by simp
  moreover have "unat (byte_of x) = (of_char x :: nat)" for x
    using nat_of_char_less_256 [of x] by (simp add: byte_of_def unat_of_nat)
  ultimately show "c = d" by simp
qed

definition bytes_of :: "string \<Rightarrow> 8 word list" where
  "bytes_of s = map byte_of s"

lemma length_bytes_of [simp]: "length (bytes_of s) = length s"
  by (simp add: bytes_of_def)

lemma bytes_of_append [simp]: "bytes_of (s @ t) = bytes_of s @ bytes_of t"
  by (simp add: bytes_of_def)

lemma inj_bytes_of: "bytes_of s = bytes_of t \<Longrightarrow> s = t"
  using inj_byte_of by (simp add: bytes_of_def inj_map_eq_map)

fun itoa_nat :: "nat \<Rightarrow> string" where
  "itoa_nat n = (if n < 10 then [char_of (48 + n)] else itoa_nat (n div 10) @ [char_of (48 + n mod 10)])"

declare itoa_nat.simps [simp del]

definition itoa :: "int \<Rightarrow> string" where
  "itoa i = (if i < 0 then ''-'' @ itoa_nat (nat (- i)) else itoa_nat (nat i))"

lemma itoa_nat_nonempty [simp]: "itoa_nat n \<noteq> []"
  by (subst itoa_nat.simps) simp

lemma itoa_nonempty [simp]: "itoa i \<noteq> []"
  by (simp add: itoa_def)

text \<open>The wrap-around of Go's 64-bit \<open>int\<close>.\<close>

definition wrap64 :: "int \<Rightarrow> int" where
  "wrap64 i = (i + 2 ^ 63) mod 2 ^ 64 - 2 ^ 63"

lemma wrap64_id: "- (2 ^ 63) \<le> i \<Longrightarrow> i < 2 ^ 63 \<Longrightarrow> wrap64 i = i"
  by (simp add: wrap64_def)

subsection \<open>Levels of a binary tree\<close>

definition half_up :: "nat \<Rightarrow> nat" where
  "half_up n = (n + 1) div 2"

lemma half_up_less: "1 < n \<Longrightarrow> half_up n < n"
  by (simp add: half_up_def)

lemma half_up_pos: "0 < n \<Longrightarrow> 0 < half_up n"
  by (simp add: half_up_def)

definition sibling :: "nat \<Rightarrow> nat" where
  "sibling i = (if even i then i + 1 else i - 1)"

lemma xor_1_sibling: "(i :: nat) XOR 1 = sibling i"
  by (cases "even i") (simp_all add: sibling_def xor_Suc_0_eq)

lemma parent_less: "i < n \<Longrightarrow> i div 2 < half_up n"
  by (simp add: half_up_def)

lemma take_nth_drop_eq: "i < length xs \<Longrightarrow> xs = take i xs @ xs ! i # drop (Suc i) xs"
  by (simp add: id_take_nth_drop)

end
