(* ===== verification/Sha256.thy ===== *)
theory Sha256
  imports Prelude
begin

text \<open>
  The digest the program uses everywhere: \<open>crypto/sha256\<close> of the Go standard library, as FIPS 180-4
  defines it, on 32-bit words. \<open>sha256_sum\<close> is \<open>sha256.Sum256\<close> (and \<open>sha256.New\<close> followed by writes
  and \<open>Sum(nil)\<close>, which hashes the concatenation of what was written); \<open>sha256_hex\<close> is its lower-case
  hexadecimal form. The locale \<open>digest\<close> is what the hash trees rely on: a digest has a fixed length
  and prints as hexadecimal digits. Collision resistance is never assumed: soundness theorems return
  the colliding pair instead.
\<close>

subsection \<open>The compression function\<close>

text \<open>
  The constants as FIPS 180-4 defines them: the first 32 bits of the fractional parts of the cube
  roots of the first 64 primes, and of the square roots of the first eight. \<open>iroot e n\<close> is the
  integer part of the \<open>e\<close>-th root of \<open>n < 2 ^ (36 * e)\<close>, found bit by bit.
\<close>

fun iroot_bits :: "nat \<Rightarrow> nat \<Rightarrow> int \<Rightarrow> int \<Rightarrow> int" where
  "iroot_bits 0 e n r = r"
| "iroot_bits (Suc b) e n r = iroot_bits b e n (if (r + 2 ^ b) ^ e \<le> n then r + 2 ^ b else r)"

definition iroot :: "nat \<Rightarrow> int \<Rightarrow> int" where
  "iroot e n = iroot_bits 36 e n 0"

definition root_word :: "nat \<Rightarrow> int \<Rightarrow> 32 word" where
  "root_word e p = word_of_int (iroot e (p * 2 ^ (32 * e)))"

fun primes_from :: "nat \<Rightarrow> int \<Rightarrow> int list" where
  "primes_from 0 n = []"
| "primes_from (Suc b) n =
     (if list_all (\<lambda>d. n mod d \<noteq> 0) [2..n - 1] then n # primes_from b (n + 1) else primes_from b (n + 1))"

text \<open>The 64-th prime is 311.\<close>

definition sha256_K :: "32 word list" where
  "sha256_K = map (root_word 3) (primes_from 310 2)"

type_synonym hstate = "32 word \<times> 32 word \<times> 32 word \<times> 32 word \<times> 32 word \<times> 32 word \<times> 32 word \<times> 32 word"

definition sha256_init :: hstate where
  "sha256_init = (root_word 2 2, root_word 2 3, root_word 2 5, root_word 2 7,
                  root_word 2 11, root_word 2 13, root_word 2 17, root_word 2 19)"

definition rotr :: "nat \<Rightarrow> 32 word \<Rightarrow> 32 word" where
  "rotr n x = drop_bit n x OR push_bit (32 - n) x"

definition sigma0 :: "32 word \<Rightarrow> 32 word" where
  "sigma0 x = rotr 7 x XOR rotr 18 x XOR drop_bit 3 x"

definition sigma1 :: "32 word \<Rightarrow> 32 word" where
  "sigma1 x = rotr 17 x XOR rotr 19 x XOR drop_bit 10 x"

definition Sigma0 :: "32 word \<Rightarrow> 32 word" where
  "Sigma0 x = rotr 2 x XOR rotr 13 x XOR rotr 22 x"

definition Sigma1 :: "32 word \<Rightarrow> 32 word" where
  "Sigma1 x = rotr 6 x XOR rotr 11 x XOR rotr 25 x"

definition sha_ch :: "32 word \<Rightarrow> 32 word \<Rightarrow> 32 word \<Rightarrow> 32 word" where
  "sha_ch x y z = (x AND y) XOR (NOT x AND z)"

definition sha_maj :: "32 word \<Rightarrow> 32 word \<Rightarrow> 32 word \<Rightarrow> 32 word" where
  "sha_maj x y z = (x AND y) XOR (x AND z) XOR (y AND z)"

text \<open>
  One round, with the message schedule as a sliding window of sixteen words: the head is the word
  of this round, and the next word of the schedule is appended.
\<close>

fun sched_next :: "32 word list \<Rightarrow> 32 word list" where
  "sched_next [w0, w1, w2, w3, w4, w5, w6, w7, w8, w9, w10, w11, w12, w13, w14, w15] =
     [w1, w2, w3, w4, w5, w6, w7, w8, w9, w10, w11, w12, w13, w14, w15,
      sigma1 w14 + w9 + sigma0 w1 + w0]"
| "sched_next ws = ws"

fun sha_round :: "32 word \<Rightarrow> 32 word \<Rightarrow> hstate \<Rightarrow> hstate" where
  "sha_round k w (a, b, c, d, e, f, g, h) =
     (let t1 = h + Sigma1 e + sha_ch e f g + k + w; t2 = Sigma0 a + sha_maj a b c
      in (t1 + t2, a, b, c, d + t1, e, f, g))"

fun sha_rounds :: "32 word list \<Rightarrow> 32 word list \<Rightarrow> hstate \<Rightarrow> hstate" where
  "sha_rounds [] ws s = s"
| "sha_rounds (k # ks) ws s =
     (case ws of [] \<Rightarrow> s | w # _ \<Rightarrow> sha_rounds ks (sched_next ws) (sha_round k w s))"

fun hstate_add :: "hstate \<Rightarrow> hstate \<Rightarrow> hstate" where
  "hstate_add (a, b, c, d, e, f, g, h) (a', b', c', d', e', f', g', h') =
     (a + a', b + b', c + c', d + d', e + e', f + f', g + g', h + h')"

definition sha_block :: "hstate \<Rightarrow> 32 word list \<Rightarrow> hstate" where
  "sha_block s ws = hstate_add s (sha_rounds sha256_K ws s)"

subsection \<open>Padding and output\<close>

definition sha_pad :: "8 word list \<Rightarrow> 8 word list" where
  "sha_pad m = (let n = length m in
     m @ [0x80] @ replicate ((119 - n mod 64) mod 64) 0
       @ map (\<lambda>i. word_of_nat (8 * n div 256 ^ i)) [7, 6, 5, 4, 3, 2, 1, 0])"

fun words_of :: "8 word list \<Rightarrow> 32 word list" where
  "words_of (a # b # c # d # bs) =
     word_of_nat (unat a * 16777216 + unat b * 65536 + unat c * 256 + unat d) # words_of bs"
| "words_of _ = []"

fun sha_blocks :: "nat \<Rightarrow> hstate \<Rightarrow> 32 word list \<Rightarrow> hstate" where
  "sha_blocks 0 s ws = s"
| "sha_blocks (Suc n) s ws = sha_blocks n (sha_block s (take 16 ws)) (drop 16 ws)"

definition word_bytes :: "32 word \<Rightarrow> 8 word list" where
  "word_bytes w = (let n = unat w in
     [word_of_nat (n div 16777216), word_of_nat (n div 65536), word_of_nat (n div 256), word_of_nat n])"

fun hstate_bytes :: "hstate \<Rightarrow> 8 word list" where
  "hstate_bytes (a, b, c, d, e, f, g, h) = concat (map word_bytes [a, b, c, d, e, f, g, h])"

definition sha256_sum :: "8 word list \<Rightarrow> 8 word list" where
  "sha256_sum m = (let ws = words_of (sha_pad m)
     in hstate_bytes (sha_blocks (length ws div 16) sha256_init ws))"

definition sha256_hex :: "string \<Rightarrow> string" where
  "sha256_hex s = hex_encode (sha256_sum (bytes_of s))"

lemma length_hstate_bytes: "length (hstate_bytes s) = 32"
  by (cases s rule: hstate_bytes.cases) (simp add: word_bytes_def Let_def)

lemma length_sha256_sum [simp]: "length (sha256_sum m) = 32"
  by (simp add: sha256_sum_def Let_def length_hstate_bytes)

lemma length_sha256_hex [simp]: "length (sha256_hex s) = 64"
  by (simp add: sha256_hex_def)

lemma sha256_hex_chars: "c \<in> set (sha256_hex s) \<Longrightarrow> is_hex_char c"
  by (auto simp: sha256_hex_def dest: hex_encode_chars)

text \<open>The padded message is a whole number of 64-byte blocks, so no input byte is dropped.\<close>

lemma length_sha_pad: "64 dvd length (sha_pad m)"
proof -
  define r q where "r = length m mod 64" and "q = length m div 64"
  have r: "r < 64" and m: "length m = 64 * q + r" by (simp_all add: r_def q_def)
  have pad: "r + (119 - r) mod 64 + 9 = (if r < 56 then 64 else 128)"
    using r by (auto simp: mod_if)
  have "length (sha_pad m) = 64 * q + (r + (119 - r) mod 64 + 9)"
    using r by (simp add: sha_pad_def Let_def m)
  then show ?thesis unfolding pad by simp
qed

subsection \<open>What the hash trees use\<close>

locale digest =
  fixes H :: "string \<Rightarrow> string" and n :: nat
  assumes digest_length: "length (H s) = n"
begin

text \<open>
  A node of a hash tree is the digest of the concatenation of its children. When the children
  compared have the same length, two equal nodes have equal children or give a collision.
\<close>

lemma node_eqD:
  assumes "H (l @ r) = H (l' @ r')" and "length l = length l'"
  shows "(l = l' \<and> r = r') \<or> (l @ r \<noteq> l' @ r' \<and> H (l @ r) = H (l' @ r'))"
  using assms by (metis append_eq_append_conv)

end

interpretation sha: digest sha256_hex 64
  by unfold_locales simp

end
