(* ===== verification/HashTree.thy ===== *)
theory HashTree
  imports Sha256
begin

text \<open>
  The abstract hash tree that the four tree implementations of the program are compared with
  (certificate trees, the incremental tree, batch anchoring and the offline verifier).

  \<^item> \<open>pair_up\<close> is one level: neighbours are hashed, an unpaired last node is hashed with itself.
  \<^item> \<open>levels_from\<close> and \<open>tree_root\<close> are the levels and the root; \<open>tree_height\<close> counts the levels.
  \<^item> \<open>full_path\<close> is the inclusion path of an index with one entry for every level, and \<open>fold_sides\<close>
    recomputes a root from a leaf and a path; \<open>fold_full_path\<close> is completeness.
  \<^item> \<open>path_collision\<close> computes, from two different leaves that lead to one root, two different
    digest inputs with the same digest. The locale \<open>tree_hash\<close> proves it sound from the interface
    \<open>digest\<close>; this is how inclusion proofs are shown sound without an assumption on the hash.
\<close>

subsection \<open>Levels, root and height\<close>

fun pair_up :: "('a \<Rightarrow> 'a \<Rightarrow> 'a) \<Rightarrow> 'a list \<Rightarrow> 'a list" where
  "pair_up h [] = []"
| "pair_up h [a] = [h a a]"
| "pair_up h (a # b # xs) = h a b # pair_up h xs"

lemma length_pair_up [simp]: "length (pair_up h xs) = half_up (length xs)"
  by (induction h xs rule: pair_up.induct) (auto simp: half_up_def)

lemma pair_up_Nil_iff [simp]: "pair_up h xs = [] \<longleftrightarrow> xs = []"
  by (cases "(h, xs)" rule: pair_up.cases) auto

lemma nth_pair_up:
  "j < half_up (length xs) \<Longrightarrow> pair_up h xs ! j =
     h (xs ! (2 * j)) (if 2 * j + 1 < length xs then xs ! (2 * j + 1) else xs ! (2 * j))"
proof (induction h xs arbitrary: j rule: pair_up.induct)
  case (3 h a b xs)
  show ?case
  proof (cases j)
    case (Suc k)
    with 3 show ?thesis by (simp add: half_up_def)
  qed simp
qed (auto simp: half_up_def)

lemma pair_up_append:
  "even (length xs) \<Longrightarrow> pair_up h (xs @ ys) = pair_up h xs @ pair_up h ys"
  by (induction h xs rule: pair_up.induct) auto

function levels_from :: "('a \<Rightarrow> 'a \<Rightarrow> 'a) \<Rightarrow> 'a list \<Rightarrow> 'a list list" where
  "levels_from h xs = (if 1 < length xs then xs # levels_from h (pair_up h xs) else [xs])"
  by pat_completeness auto
termination
  by (relation "measure (\<lambda>(h, xs). length xs)") (auto simp: half_up_less)

declare levels_from.simps [simp del]

function tree_root :: "('a \<Rightarrow> 'a \<Rightarrow> 'a) \<Rightarrow> 'a list \<Rightarrow> 'a" where
  "tree_root h xs = (if 1 < length xs then tree_root h (pair_up h xs) else hd xs)"
  by pat_completeness auto
termination
  by (relation "measure (\<lambda>(h, xs). length xs)") (auto simp: half_up_less)

declare tree_root.simps [simp del]

function tree_height :: "nat \<Rightarrow> nat" where
  "tree_height n = (if 1 < n then Suc (tree_height (half_up n)) else 1)"
  by pat_completeness auto
termination
  by (relation "measure id") (auto simp: half_up_less)

declare tree_height.simps [simp del]

lemma levels_from_step: "1 < length xs \<Longrightarrow> levels_from h xs = xs # levels_from h (pair_up h xs)"
  by (subst levels_from.simps) simp

lemma levels_from_stop: "\<not> 1 < length xs \<Longrightarrow> levels_from h xs = [xs]"
  by (subst levels_from.simps) simp

lemma levels_from_nonempty [simp]: "levels_from h xs \<noteq> []"
  by (subst levels_from.simps) simp

lemma tree_root_step: "1 < length xs \<Longrightarrow> tree_root h xs = tree_root h (pair_up h xs)"
  by (subst tree_root.simps) simp

lemma tree_root_stop: "\<not> 1 < length xs \<Longrightarrow> tree_root h xs = hd xs"
  by (subst tree_root.simps) simp

lemma tree_height_step: "1 < n \<Longrightarrow> tree_height n = Suc (tree_height (half_up n))"
  by (subst tree_height.simps) simp

lemma tree_height_stop: "\<not> 1 < n \<Longrightarrow> tree_height n = 1"
  by (subst tree_height.simps) simp

lemma tree_height_pos [simp]: "0 < tree_height n"
  by (subst tree_height.simps) simp

lemma tree_height_neq_0 [simp]: "tree_height n \<noteq> 0"
  using tree_height_pos [of n] by linarith

lemmas tree_steps = levels_from_step tree_root_step tree_height_step
lemmas tree_stops = levels_from_stop tree_root_stop tree_height_stop

lemma last_levels_from: "xs \<noteq> [] \<Longrightarrow> last (levels_from h xs) = [tree_root h xs]"
proof (induction h xs rule: levels_from.induct)
  case (1 h xs)
  show ?case
  proof (cases "1 < length xs")
    case True
    with 1 show ?thesis by (simp add: levels_from_step tree_root_step [OF True])
  next
    case False
    with "1.prems" show ?thesis
      by (cases xs) (auto simp: tree_stops)
  qed
qed

lemma length_levels_from: "length (levels_from h xs) = tree_height (length xs)"
proof (induction h xs rule: levels_from.induct)
  case (1 h xs)
  then show ?case
    by (cases "1 < length xs") (simp_all add: tree_steps tree_stops)
qed

lemma tree_height_bounds: "0 < n \<Longrightarrow> n \<le> 2 ^ (tree_height n - 1) \<and> (1 < n \<longrightarrow> 2 ^ (tree_height n - 1) < 2 * n)"
proof (induction n rule: tree_height.induct)
  case (1 n)
  show ?case
  proof (cases "1 < n")
    case True
    let ?k = "tree_height (half_up n)"
    have IH: "half_up n \<le> 2 ^ (?k - 1)" "1 < half_up n \<Longrightarrow> 2 ^ (?k - 1) < 2 * half_up n"
      using "1.IH" True half_up_pos [of n] by auto
    obtain m where m: "?k = Suc m" using tree_height_pos gr0_implies_Suc by blast
    have up: "n \<le> 2 * half_up n" "2 * half_up n \<le> n + 1" by (auto simp: half_up_def)
    have "2 * 2 ^ m < 2 * n"
    proof (cases "1 < half_up n")
      case True
      with IH(2) m have "2 ^ m < 2 * half_up n" by simp
      with up have lt: "2 ^ m \<le> n" by simp
      show ?thesis
      proof (rule ccontr)
        assume "\<not> ?thesis"
        with lt have eq: "2 ^ m = n" by simp
        then have "half_up n = n div 2 \<or> n = 1"
          by (cases m) (auto simp: half_up_def)
        with eq \<open>1 < n\<close> \<open>2 ^ m < 2 * half_up n\<close> show False by auto
      qed
    next
      case False
      then have "half_up n = 1" using half_up_pos [of n] \<open>1 < n\<close> by linarith
      then have "?k = 1" by (simp add: tree_height_stop)
      with m True show ?thesis by simp
    qed
    then show ?thesis using IH(1) up(1) m True by (simp add: tree_height_step)
  next
    case False
    with "1.prems" have "n = 1" by simp
    then show ?thesis by (simp add: tree_height_stop)
  qed
qed


subsection \<open>Inclusion paths\<close>

text \<open>
  An entry of a path is the sibling and whether it stands on the left. \<open>full_path\<close> has an entry for
  every level below the root; an unpaired node is its own sibling.
\<close>

fun full_path :: "'a list list \<Rightarrow> nat \<Rightarrow> (bool \<times> 'a) list" where
  "full_path (level # level' # levels) i =
     (odd i, if sibling i < length level then level ! sibling i else level ! i)
       # full_path (level' # levels) (i div 2)"
| "full_path levels i = []"

fun step_up :: "('a \<Rightarrow> 'a \<Rightarrow> 'a) \<Rightarrow> 'a \<Rightarrow> bool \<times> 'a \<Rightarrow> 'a" where
  "step_up h cur (left, s) = (if left then h s cur else h cur s)"

fun fold_sides :: "('a \<Rightarrow> 'a \<Rightarrow> 'a) \<Rightarrow> 'a \<Rightarrow> (bool \<times> 'a) list \<Rightarrow> 'a" where
  "fold_sides h cur [] = cur"
| "fold_sides h cur (e # es) = fold_sides h (step_up h cur e) es"

lemma step_up_pair_up:
  assumes "i < length xs"
  shows "step_up h (xs ! i) (odd i, if sibling i < length xs then xs ! sibling i else xs ! i)
    = pair_up h xs ! (i div 2)"
proof -
  have j: "i div 2 < half_up (length xs)" using assms by (rule parent_less)
  show ?thesis
  proof (cases "even i")
    case True
    then have "2 * (i div 2) = i" by simp
    with True j assms show ?thesis by (simp add: nth_pair_up sibling_def)
  next
    case False
    then obtain k where k: "i = Suc (2 * k)" by (metis oddE Suc_eq_plus1)
    with j assms show ?thesis by (simp add: nth_pair_up sibling_def)
  qed
qed

lemma full_path_step:
  "1 < length xs \<Longrightarrow> full_path (levels_from h xs) i =
     (odd i, if sibling i < length xs then xs ! sibling i else xs ! i)
       # full_path (levels_from h (pair_up h xs)) (i div 2)"
  using levels_from_nonempty [of h "pair_up h xs"]
  by (cases "levels_from h (pair_up h xs)") (auto simp: levels_from_step)

lemma full_path_stop: "\<not> 1 < length xs \<Longrightarrow> full_path (levels_from h xs) i = []"
  by (simp add: levels_from_stop)

text \<open>Completeness: the path of every index leads to the root.\<close>

lemma fold_full_path:
  "i < length xs \<Longrightarrow> fold_sides h (xs ! i) (full_path (levels_from h xs) i) = tree_root h xs"
proof (induction h xs arbitrary: i rule: levels_from.induct)
  case (1 h xs)
  show ?case
  proof (cases "1 < length xs")
    case True
    have j: "i div 2 < length (pair_up h xs)" using "1.prems" by (simp add: parent_less)
    have "fold_sides h (xs ! i) (full_path (levels_from h xs) i) =
      fold_sides h (pair_up h xs ! (i div 2)) (full_path (levels_from h (pair_up h xs)) (i div 2))"
      unfolding full_path_step [OF True] fold_sides.simps step_up_pair_up [OF "1.prems"] ..
    also have "\<dots> = tree_root h (pair_up h xs)" by (rule "1.IH" [OF True j])
    finally show ?thesis by (simp add: tree_root_step [OF True])
  next
    case False
    with "1.prems" have "i = 0" and "xs \<noteq> []" by auto
    with False show ?thesis by (simp add: full_path_stop tree_root_stop hd_conv_nth)
  qed
qed

lemma length_full_path: "length (full_path (levels_from h xs) i) = tree_height (length xs) - 1"
proof (induction h xs arbitrary: i rule: levels_from.induct)
  case (1 h xs)
  show ?case
  proof (cases "1 < length xs")
    case True
    have "tree_height (half_up (length xs)) \<noteq> 0" by (metis less_irrefl tree_height_pos)
    with True "1.IH" [OF True, of "i div 2"] show ?thesis
      by (simp add: full_path_step tree_height_step)
  qed (simp add: full_path_stop tree_height_stop)
qed

text \<open>The sides of a path are the low bits of the index.\<close>

fun index_sides :: "nat \<Rightarrow> nat \<Rightarrow> bool list" where
  "index_sides 0 i = []"
| "index_sides (Suc k) i = odd i # index_sides k (i div 2)"

lemma sides_full_path: "map fst (full_path ls i) = index_sides (length ls - 1) i"
  by (induction ls i rule: full_path.induct) auto

subsection \<open>Soundness: a colliding pair from two leaves with one root\<close>

text \<open>
  \<open>path_collision\<close> walks up two paths at once and returns the first pair of different digest inputs
  with the same digest.
\<close>

fun path_input :: "string \<Rightarrow> bool \<times> string \<Rightarrow> string" where
  "path_input cur (left, s) = (if left then s @ cur else cur @ s)"

fun path_collision ::
  "(string \<Rightarrow> string) \<Rightarrow> string \<Rightarrow> string \<Rightarrow> (bool \<times> string) list \<Rightarrow> string \<Rightarrow> (bool \<times> string) list
     \<Rightarrow> (string \<times> string) option" where
  "path_collision H pre a (e # es) b (f # fs) =
     (let u = path_input a e; v = path_input b f
      in if u \<noteq> v \<and> H u = H v then Some (u, v)
         else path_collision H pre (pre @ H u) es (pre @ H v) fs)"
| "path_collision H pre a es b fs = None"

definition is_collision :: "(string \<Rightarrow> string) \<Rightarrow> (string \<times> string) option \<Rightarrow> bool" where
  "is_collision H c = (case c of None \<Rightarrow> False | Some (u, v) \<Rightarrow> u \<noteq> v \<and> H u = H v)"

locale tree_hash = digest +
  fixes pre :: string
begin

lemma node_length: "length (pre @ H (l @ r)) = length pre + n"
  by (simp add: digest_length)

lemma path_sound:
  assumes "fold_sides (\<lambda>l r. pre @ H (l @ r)) a es = fold_sides (\<lambda>l r. pre @ H (l @ r)) b fs"
    and "map fst es = map fst fs" and "length a = length b"
    and "list_all2 (\<lambda>e f. length (snd e) = length (snd f)) es fs"
  shows "(a = b \<and> es = fs) \<or> is_collision H (path_collision H pre a es b fs)"
  using assms
proof (induction es arbitrary: a b fs)
  case Nil
  then show ?case by simp
next
  case (Cons e es)
  obtain f fs' where fs: "fs = f # fs'" using Cons.prems(2) by (cases fs) auto
  obtain l s where e: "e = (l, s)" by (cases e)
  obtain t where f: "f = (l, t)" using Cons.prems(2) fs e by (cases f) auto
  have st: "length s = length t" and rest: "list_all2 (\<lambda>e f. length (snd e) = length (snd f)) es fs'"
    using Cons.prems(4) by (simp_all add: fs e f)
  let ?u = "path_input a e" and ?v = "path_input b f"
  have roots: "fold_sides (\<lambda>l r. pre @ H (l @ r)) (pre @ H ?u) es
      = fold_sides (\<lambda>l r. pre @ H (l @ r)) (pre @ H ?v) fs'"
    using Cons.prems(1) by (cases l) (simp_all add: fs e f)
  show ?case
  proof (cases "?u \<noteq> ?v \<and> H ?u = H ?v")
    case True
    then show ?thesis by (simp add: fs is_collision_def Let_def)
  next
    case False
    have IH: "(pre @ H ?u = pre @ H ?v \<and> es = fs') \<or>
      is_collision H (path_collision H pre (pre @ H ?u) es (pre @ H ?v) fs')"
      using Cons.prems(2) roots rest by (intro Cons.IH) (simp_all add: fs digest_length)
    show ?thesis
    proof (cases "is_collision H (path_collision H pre (pre @ H ?u) es (pre @ H ?v) fs')")
      case True
      with False show ?thesis by (auto simp: fs Let_def)
    next
      case noc: False
      with IH have "H ?u = H ?v" and "es = fs'" by auto
      with False have "?u = ?v" by auto
      then have "a = b \<and> s = t" using st Cons.prems(3) by (cases l) (auto simp: e f)
      with \<open>es = fs'\<close> show ?thesis by (simp add: fs e f)
    qed
  qed
qed

lemma full_path_entries:
  assumes "\<forall>x \<in> set xs. length x = length pre + n" and "i < length xs"
  shows "\<forall>f \<in> set (full_path (levels_from (\<lambda>l r. pre @ H (l @ r)) xs) i). length (snd f) = length pre + n"
  using assms
proof (induction "\<lambda>l r. pre @ H (l @ r)" xs arbitrary: i rule: levels_from.induct)
  case (1 xs)
  show ?case
  proof (cases "1 < length xs")
    case True
    let ?h = "\<lambda>l r. pre @ H (l @ r)"
    have "\<forall>x \<in> set (pair_up ?h xs). length x = length pre + n"
      by (induction ?h xs rule: pair_up.induct) (auto simp: digest_length)
    with "1.hyps" [OF True, of "i div 2"] "1.prems" True show ?thesis
      by (auto simp: full_path_step parent_less)
  qed (simp add: full_path_stop)
qed

text \<open>Two lists of the same length with one root are equal, or the paths of some index collide.\<close>

lemma root_sound:
  assumes "tree_root (\<lambda>l r. pre @ H (l @ r)) xs = tree_root (\<lambda>l r. pre @ H (l @ r)) ys" and "length xs = length ys"
    and "\<forall>x \<in> set xs. length x = length pre + n" and "\<forall>y \<in> set ys. length y = length pre + n"
  shows "xs = ys \<or> (\<exists>i < length xs. is_collision H
    (path_collision H pre (ys ! i) (full_path (levels_from (\<lambda>l r. pre @ H (l @ r)) ys) i)
       (xs ! i) (full_path (levels_from (\<lambda>l r. pre @ H (l @ r)) xs) i)))"
proof (rule disjCI)
  let ?h = "\<lambda>l r. pre @ H (l @ r)"
  assume none: "\<not> (\<exists>i < length xs. is_collision H (path_collision H pre (ys ! i)
    (full_path (levels_from ?h ys) i) (xs ! i) (full_path (levels_from ?h xs) i)))"
  have "ys ! i = xs ! i" if i: "i < length xs" for i
  proof -
    let ?es = "full_path (levels_from ?h ys) i" and ?fs = "full_path (levels_from ?h xs) i"
    have j: "i < length ys" using i assms(2) by simp
    have lens: "length ?es = length ?fs" by (simp add: length_full_path assms(2))
    have "list_all2 (\<lambda>e f. length (snd e) = length (snd f)) ?es ?fs"
      using full_path_entries [OF assms(4) j] full_path_entries [OF assms(3) i] lens
      by (simp add: list_all2_conv_all_nth)
    moreover have "fold_sides ?h (ys ! i) ?es = fold_sides ?h (xs ! i) ?fs"
      by (simp add: fold_full_path [OF i] fold_full_path [OF j] assms(1))
    moreover have "map fst ?es = map fst ?fs" by (simp add: sides_full_path length_levels_from assms(2))
    moreover have "length (ys ! i) = length (xs ! i)" using assms(3,4) i j by simp
    ultimately show ?thesis using path_sound none i by blast
  qed
  then show "xs = ys" using assms(2) by (intro nth_equalityI) simp_all
qed

text \<open>
  Soundness of an inclusion proof: a leaf that leads to the root of a tree along the sides of an
  index is the leaf at that index, or the two paths contain a collision.
\<close>

lemma inclusion_sound:
  assumes "i < length xs" and "\<forall>x \<in> set xs. length x = length pre + n"
    and root: "fold_sides (\<lambda>l r. pre @ H (l @ r)) a es = tree_root (\<lambda>l r. pre @ H (l @ r)) xs"
    and sides: "map fst es = index_sides (tree_height (length xs) - 1) i"
    and len: "length a = length pre + n" "\<forall>e \<in> set es. length (snd e) = length pre + n"
  shows "a = xs ! i \<or> is_collision H
    (path_collision H pre a es (xs ! i) (full_path (levels_from (\<lambda>l r. pre @ H (l @ r)) xs) i))"
proof -
  let ?h = "\<lambda>l r. pre @ H (l @ r)"
  let ?fs = "full_path (levels_from ?h xs) i"
  have lens: "length es = length ?fs"
    using sides by (metis length_map length_levels_from sides_full_path)
  have "list_all2 (\<lambda>e f. length (snd e) = length (snd f)) es ?fs"
    using full_path_entries [OF assms(2,1)] len(2) lens by (simp add: list_all2_conv_all_nth)
  moreover have "fold_sides ?h a es = fold_sides ?h (xs ! i) ?fs"
    by (simp add: root fold_full_path [OF assms(1)])
  moreover have "map fst es = map fst ?fs"
    by (simp add: sides sides_full_path length_levels_from)
  moreover have "length a = length (xs ! i)" using assms(1,2) len(1) by simp
  ultimately show ?thesis using path_sound by blast
qed

end

interpretation tree_node: tree_hash sha256_hex 64 "''sha256:''"
  by unfold_locales

interpretation plain_node: tree_hash sha256_hex 64 "[]"
  by unfold_locales

end
