(* ===== verification/Merkle.thy ===== *)
theory Merkle
  imports HashTree
begin

text \<open>
  The hash tree of a certificate: \<open>server/internal/merkle/tree.go\<close>.

  The records \<open>tree\<close>, \<open>proof_node\<close> and \<open>merkle_proof\<close> are the structs \<open>Tree\<close>, \<open>ProofNode\<close> and \<open>Proof\<close>;
  \<open>buildTree\<close>, \<open>hashPair\<close>, \<open>NewTree\<close>, \<open>GetProof\<close>, \<open>VerifyProof\<close>, \<open>GetRoot\<close>, \<open>GetLeafCount\<close> and
  \<open>GetHeight\<close> the functions of the same names, each loop a recursion on its loop variables. The lemmas
  relate the tree to the abstract tree of \<open>HashTree\<close>; the properties say which inclusion proofs
  verify, which do not, and what a verifying proof shows.
\<close>

subsection \<open>Data\<close>

record proof_node =
  pn_hash :: string
  pn_position :: string

record merkle_proof =
  pr_leaf_index :: int
  pr_leaf_hash :: string
  pr_path :: "proof_node list"
  pr_root :: string

record tree =
  t_leaves :: "string list"
  t_nodes :: "string list list"
  t_root :: string
  t_algorithm :: string

datatype merkle_error = LeavesEmpty | IndexOutOfRange

subsection \<open>Building\<close>

definition hashPair :: "string \<Rightarrow> string \<Rightarrow> string" where
  "hashPair left right = ''sha256:'' @ sha256_hex (left @ right)"

text \<open>The inner loop of \<open>buildTree\<close>: \<open>i\<close> steps by two, \<open>right\<close> defaults to \<open>left\<close>.\<close>

function build_level :: "string list \<Rightarrow> nat \<Rightarrow> string list \<Rightarrow> string list" where
  "build_level currentLevel i nextLevel =
     (if i < length currentLevel
      then let left = currentLevel ! i;
               right = (if i + 1 < length currentLevel then currentLevel ! (i + 1) else left)
           in build_level currentLevel (i + 2) (nextLevel @ [hashPair left right])
      else nextLevel)"
  by pat_completeness auto
termination
  by (relation "measure (\<lambda>(xs, i, acc). length xs - i)") auto

declare build_level.simps [simp del]

lemma build_level_pair_up:
  "even i \<Longrightarrow> build_level xs i acc = acc @ pair_up hashPair (drop i xs)"
proof (induction xs i acc rule: build_level.induct)
  case (1 xs i acc)
  show ?case
  proof (cases "i < length xs")
    case True
    let ?right = "if i + 1 < length xs then xs ! (i + 1) else xs ! i"
    have "build_level xs i acc = build_level xs (i + 2) (acc @ [hashPair (xs ! i) ?right])"
      using True by (subst build_level.simps) (simp add: Let_def)
    also have "\<dots> = acc @ hashPair (xs ! i) ?right # pair_up hashPair (drop (i + 2) xs)"
      using "1.IH" [OF True refl refl] "1.prems" by simp
    also have "hashPair (xs ! i) ?right # pair_up hashPair (drop (i + 2) xs) = pair_up hashPair (drop i xs)"
    proof (cases "i + 1 < length xs")
      case True
      then have "drop i xs = xs ! i # xs ! (i + 1) # drop (i + 2) xs"
        by (metis Cons_nth_drop_Suc Suc_eq_plus1 Suc_lessD add_2_eq_Suc')
      with True show ?thesis by simp
    next
      case False
      with True have "drop i xs = [xs ! i]" and "drop (i + 2) xs = []"
        by (simp_all add: Cons_nth_drop_Suc [symmetric])
      with False show ?thesis by simp
    qed
    finally show ?thesis .
  next
    case False
    then show ?thesis by (subst build_level.simps) simp
  qed
qed

text \<open>The outer loop of \<open>buildTree\<close>.\<close>

function build_levels :: "string list list \<Rightarrow> string list \<Rightarrow> string list list" where
  "build_levels levels currentLevel =
     (if 1 < length currentLevel
      then let nextLevel = build_level currentLevel 0 []
           in build_levels (levels @ [nextLevel]) nextLevel
      else levels)"
  by pat_completeness auto
termination
  by (relation "measure (\<lambda>(ls, xs). length xs)") (auto simp: build_level_pair_up half_up_less)

declare build_levels.simps [simp del]

definition buildTree :: "string list \<Rightarrow> string list list" where
  "buildTree leaves = (if leaves = [] then [] else build_levels [leaves] leaves)"

lemma build_levels_levels_from:
  "build_levels (ls @ [xs]) xs = ls @ levels_from hashPair xs"
proof (induction hashPair xs arbitrary: ls rule: levels_from.induct)
  case (1 xs)
  show ?case
  proof (cases "1 < length xs")
    case True
    then show ?thesis
      using "1.hyps" [OF True, of "ls @ [xs]"]
      by (subst build_levels.simps) (simp add: Let_def build_level_pair_up levels_from_step)
  next
    case False
    then show ?thesis by (subst build_levels.simps) (simp add: levels_from_stop)
  qed
qed

lemma buildTree_levels: "leaves \<noteq> [] \<Longrightarrow> buildTree leaves = levels_from hashPair leaves"
  using build_levels_levels_from [of "[]" leaves] by (simp add: buildTree_def)

definition NewTree :: "string list \<Rightarrow> (merkle_error, tree) outcome" where
  "NewTree leaves =
     (if length leaves = 0 then Err LeavesEmpty
      else let nodes = buildTree leaves in
        Ok \<lparr>t_leaves = leaves, t_nodes = nodes,
            t_root = (if 0 < length nodes \<and> 0 < length (last nodes) then last nodes ! 0 else ''''),
            t_algorithm = ''sha256''\<rparr>)"

definition GetRoot :: "tree \<Rightarrow> string" where
  "GetRoot t = t_root t"

definition GetLeafCount :: "tree \<Rightarrow> nat" where
  "GetLeafCount t = length (t_leaves t)"

definition GetHeight :: "tree \<Rightarrow> nat" where
  "GetHeight t = length (t_nodes t)"

lemma NewTree_Ok:
  "leaves \<noteq> [] \<Longrightarrow> NewTree leaves =
     Ok \<lparr>t_leaves = leaves, t_nodes = levels_from hashPair leaves,
         t_root = tree_root hashPair leaves, t_algorithm = ''sha256''\<rparr>"
  by (simp add: NewTree_def buildTree_levels last_levels_from Let_def)

subsection \<open>Proofs\<close>

text \<open>
  The loop of \<open>GetProof\<close> over the levels \<open>level < len(t.Nodes) - 1\<close>. A sibling beyond the end of its
  level is skipped.
\<close>

fun proof_path :: "string list list \<Rightarrow> nat \<Rightarrow> proof_node list" where
  "proof_path (levelNodes # upper # levels) currentIndex =
     (let siblingIndex = currentIndex XOR 1;
          rest = proof_path (upper # levels) (currentIndex div 2)
      in if siblingIndex < length levelNodes
         then \<lparr>pn_hash = levelNodes ! siblingIndex,
               pn_position = (if currentIndex mod 2 = 1 then ''left'' else ''right'')\<rparr> # rest
         else rest)"
| "proof_path levels currentIndex = []"

definition GetProof :: "tree \<Rightarrow> int \<Rightarrow> (merkle_error, merkle_proof) outcome" where
  "GetProof t index =
     (if index < 0 \<or> index \<ge> int (length (t_leaves t)) then Err IndexOutOfRange
      else Ok \<lparr>pr_leaf_index = index, pr_leaf_hash = t_leaves t ! nat index,
               pr_path = proof_path (t_nodes t) (nat index), pr_root = t_root t\<rparr>)"

fun fold_path :: "string \<Rightarrow> proof_node list \<Rightarrow> string" where
  "fold_path currentHash [] = currentHash"
| "fold_path currentHash (node # path) =
     fold_path (if pn_position node = ''right'' then hashPair currentHash (pn_hash node)
                else hashPair (pn_hash node) currentHash) path"

definition VerifyProof :: "merkle_proof \<Rightarrow> bool" where
  "VerifyProof p \<longleftrightarrow> fold_path (pr_leaf_hash p) (pr_path p) = pr_root p"

text \<open>A path read as sides and hashes; every position other than \<open>right\<close> counts as \<open>left\<close>.\<close>

definition side_of :: "proof_node \<Rightarrow> bool \<times> string" where
  "side_of n = (pn_position n \<noteq> ''right'', pn_hash n)"

lemma fold_path_sides: "fold_path cur path = fold_sides hashPair cur (map side_of path)"
  by (induction cur path rule: fold_path.induct) (auto simp: side_of_def)

text \<open>
  \<open>paired n i\<close>: on its way to the root of a tree of \<open>n\<close> leaves, the leaf \<open>i\<close> always has a sibling.
\<close>

function paired :: "nat \<Rightarrow> nat \<Rightarrow> bool" where
  "paired n i \<longleftrightarrow> (if 1 < n then sibling i < n \<and> paired (half_up n) (i div 2) else True)"
  by pat_completeness auto
termination
  by (relation "measure fst") (auto simp: half_up_less)

declare paired.simps [simp del]

lemma proof_path_step:
  "1 < length xs \<Longrightarrow> proof_path (levels_from h xs) i =
     (if sibling i < length xs
      then [\<lparr>pn_hash = xs ! sibling i, pn_position = (if odd i then ''left'' else ''right'')\<rparr>] else [])
       @ proof_path (levels_from h (pair_up h xs)) (i div 2)"
  using levels_from_nonempty [of h "pair_up h xs"] xor_1_sibling [of i]
  by (cases "levels_from h (pair_up h xs)") (auto simp: levels_from_step Let_def odd_iff_mod_2_eq_one)

lemma proof_path_paired:
  "paired (length xs) i \<Longrightarrow>
     map side_of (proof_path (levels_from h xs) i) = full_path (levels_from h xs) i"
proof (induction h xs arbitrary: i rule: levels_from.induct)
  case (1 h xs)
  show ?case
  proof (cases "1 < length xs")
    case True
    with "1.prems" have "sibling i < length xs" and "paired (length (pair_up h xs)) (i div 2)"
      by (simp_all add: paired.simps [of "length xs"])
    with "1.IH" [OF True, of "i div 2"] show ?thesis
      unfolding proof_path_step [OF True] full_path_step [OF True] by (simp add: side_of_def)
  qed (simp add: levels_from_stop)
qed

lemma paired_power: "i < 2 ^ k \<Longrightarrow> paired (2 ^ k) i"
proof (induction k arbitrary: i)
  case 0
  then show ?case by (simp add: paired.simps)
next
  case (Suc k)
  have "half_up (2 ^ Suc k) = 2 ^ k" by (simp add: half_up_def)
  moreover have "sibling i < 2 ^ Suc k"
    using Suc.prems by (cases "even i") (auto simp: sibling_def elim!: evenE)
  moreover have "i div 2 < 2 ^ k" using Suc.prems by simp
  ultimately show ?case using Suc.IH by (subst paired.simps) auto
qed


lemma GetProof_NewTree:
  assumes "NewTree leaves = Ok t" and "i < length leaves"
  shows "GetProof t (int i) = Ok \<lparr>pr_leaf_index = int i, pr_leaf_hash = leaves ! i,
    pr_path = proof_path (levels_from hashPair leaves) i, pr_root = tree_root hashPair leaves\<rparr>"
proof -
  have "leaves \<noteq> []" using assms(2) by auto
  then show ?thesis using assms NewTree_Ok [of leaves] by (auto simp: GetProof_def)
qed

lemma length_hashPair [simp]: "length (hashPair l r) = 71"
  by (simp add: hashPair_def)

lemma hashPair_fun: "hashPair = (\<lambda>l r. ''sha256:'' @ sha256_hex (l @ r))"
  by (simp add: hashPair_def fun_eq_iff)

subsection \<open>Properties\<close>

text \<open>\<open>NewTree\<close> rejects an empty list of leaves; otherwise it stores the leaves, and its root is the
  abstract root, in which every level pairs neighbours and an unpaired last node is hashed with
  itself. The number of levels is exactly one more than the logarithm of the number of leaves,
  rounded up.\<close>

theorem NewTree_correct:
  "if leaves = [] then NewTree leaves = Err LeavesEmpty
   else \<exists>t. NewTree leaves = Ok t \<and> t_leaves t = leaves \<and> GetLeafCount t = length leaves
     \<and> GetRoot t = tree_root hashPair leaves \<and> hd (t_nodes t) = leaves
     \<and> last (t_nodes t) = [GetRoot t]
     \<and> length leaves \<le> 2 ^ (GetHeight t - 1) \<and> (1 < length leaves \<longrightarrow> 2 ^ (GetHeight t - 1) < 2 * length leaves)"
proof (cases "leaves = []")
  case True
  then show ?thesis by (simp add: NewTree_def)
next
  case False
  have hd: "hd (levels_from hashPair leaves) = leaves" by (subst levels_from.simps) simp
  show ?thesis
    using False NewTree_Ok [OF False] tree_height_bounds [of "length leaves"]
    by (simp add: GetLeafCount_def GetRoot_def GetHeight_def last_levels_from length_levels_from hd)
qed

theorem NewTree_correct_witness:
  "\<exists>t. NewTree [''a'', ''b'', ''c''] = Ok t \<and> GetLeafCount t = 3
     \<and> GetRoot t = tree_root hashPair [''a'', ''b'', ''c'']"
  using NewTree_correct [of "[''a'', ''b'', ''c'']"] by (auto simp: GetLeafCount_def)

text \<open>Completeness. The proof that \<open>GetProof\<close> returns for a leaf that has a sibling on every level
  names that leaf and is accepted by \<open>VerifyProof\<close>; in a tree with a power of two of leaves this is
  every leaf.\<close>

theorem GetProof_verifies:
  assumes "NewTree leaves = Ok t" and "i < length leaves"
    and "paired (length leaves) i \<or> length leaves = 2 ^ k"
  shows "\<exists>p. GetProof t (int i) = Ok p \<and> pr_leaf_hash p = leaves ! i \<and> pr_root p = GetRoot t
    \<and> VerifyProof p"
proof -
  have ne: "leaves \<noteq> []" using assms(2) by auto
  have "paired (length leaves) i" using assms(2,3) by (auto intro: paired_power)
  then have "fold_path (leaves ! i) (proof_path (levels_from hashPair leaves) i) = tree_root hashPair leaves"
    by (simp add: fold_path_sides proof_path_paired fold_full_path assms(2))
  then show ?thesis
    using GetProof_NewTree [OF assms(1,2)] NewTree_Ok [OF ne] assms(1)
    by (auto simp: VerifyProof_def GetRoot_def)
qed

theorem GetProof_verifies_witness:
  "\<exists>t p. NewTree [''a'', ''b'', ''c'', ''d''] = Ok t \<and> GetProof t 2 = Ok p
     \<and> pr_leaf_hash p = ''c'' \<and> VerifyProof p"
proof -
  obtain t where t: "NewTree [''a'', ''b'', ''c'', ''d''] = Ok t" using NewTree_Ok by fastforce
  show ?thesis using GetProof_verifies [OF t, of 2 2] t by auto
qed

text \<open>A leaf without a sibling gets a proof that does not verify. In a tree with an odd number of
  leaves, if the levels above pair up the last leaf's ancestors, \<open>GetProof\<close> on the last leaf returns
  a path with one entry too few; were it accepted, the leaf would equal its own parent, or the path
  would contain a collision of SHA-256 (the pair that \<open>path_collision\<close> computes).\<close>

theorem GetProof_odd_last_rejected:
  assumes t: "NewTree leaves = Ok t" and n: "length leaves = Suc i" "even i" "0 < i"
    and up: "paired (half_up (Suc i)) (i div 2)" and len: "length (leaves ! i) = 71"
    and p: "GetProof t (int i) = Ok p"
  shows "Suc (length (pr_path p)) = GetHeight t - 1 \<and>
    (VerifyProof p \<longrightarrow> leaves ! i = hashPair (leaves ! i) (leaves ! i) \<or>
      is_collision sha256_hex (path_collision sha256_hex ''sha256:'' (leaves ! i) (map side_of (pr_path p))
        (hashPair (leaves ! i) (leaves ! i)) (map side_of (pr_path p))))"
proof -
  let ?x = "leaves ! i" and ?ups = "pair_up hashPair leaves"
  have ne: "leaves \<noteq> []" and one: "1 < length leaves" and i: "i < length leaves" using n by auto
  have sib: "\<not> sibling i < length leaves" using n by (simp add: sibling_def)
  have pr: "p = \<lparr>pr_leaf_index = int i, pr_leaf_hash = ?x,
      pr_path = proof_path (levels_from hashPair ?ups) (i div 2), pr_root = tree_root hashPair leaves\<rparr>"
    using p GetProof_NewTree [OF t i] sib unfolding proof_path_step [OF one] by simp
  have full: "map side_of (pr_path p) = full_path (levels_from hashPair ?ups) (i div 2)"
    using up n(1) by (simp add: pr proof_path_paired)
  have ht: "GetHeight t = tree_height (length leaves)"
    using t NewTree_Ok [OF ne] by (auto simp: GetHeight_def length_levels_from)
  have above: "?ups ! (i div 2) = hashPair ?x ?x"
    using step_up_pair_up [OF i, of hashPair] sib n by simp
  have len_path: "Suc (length (pr_path p)) = GetHeight t - 1"
    using full one length_full_path [of hashPair ?ups "i div 2"] tree_height_pos [of "half_up (length leaves)"]
    by (metis Suc_pred diff_Suc_1 ht length_map length_pair_up tree_height_step)
  have "leaves ! i = hashPair ?x ?x \<or>
      is_collision sha256_hex (path_collision sha256_hex ''sha256:'' ?x (map side_of (pr_path p))
        (hashPair ?x ?x) (map side_of (pr_path p)))" if ok: "VerifyProof p"
  proof -
    have "fold_sides hashPair ?x (map side_of (pr_path p)) = tree_root hashPair leaves"
      using ok by (simp add: VerifyProof_def fold_path_sides pr)
    also have "\<dots> = fold_sides hashPair (hashPair ?x ?x) (map side_of (pr_path p))"
      using fold_full_path [of "i div 2" ?ups hashPair] n one
      by (simp add: full above parent_less tree_root_step)
    finally show ?thesis
      using tree_node.path_sound [of ?x "map side_of (pr_path p)" "hashPair ?x ?x" "map side_of (pr_path p)"] len
      by (simp add: hashPair_fun list_all2_same)
  qed
  then show ?thesis using len_path by blast
qed

theorem GetProof_odd_last_rejected_witness:
  "\<exists>t p. NewTree [replicate 71 CHR ''a'', replicate 71 CHR ''b'', replicate 71 CHR ''c''] = Ok t
     \<and> GetProof t 2 = Ok p \<and> Suc (length (pr_path p)) = GetHeight t - 1"
proof -
  let ?ls = "[replicate 71 CHR ''a'', replicate 71 CHR ''b'', replicate 71 CHR ''c'']"
  obtain t where t: "NewTree ?ls = Ok t" using NewTree_Ok [of ?ls] by auto
  obtain p where p: "GetProof t (int 2) = Ok p" using GetProof_NewTree [OF t, of 2] by auto
  have "paired (half_up (Suc 2)) (2 div 2)" by (simp add: half_up_def paired.simps sibling_def)
  from GetProof_odd_last_rejected [OF t _ _ _ this _ p] t p show ?thesis by auto
qed

text \<open>C1. Soundness. If \<open>VerifyProof\<close> accepts a path whose sides are those of the index \<open>i\<close> and whose
  hashes have the printed length of a digest, against the root of a tree, then the leaf it vouches
  for is the leaf at \<open>i\<close>, or a collision of SHA-256 is computed from the two paths.\<close>

theorem VerifyProof_sound:
  assumes "NewTree leaves = Ok t" and "i < length leaves" and "\<forall>l \<in> set leaves. length l = 71"
    and "pr_root p = GetRoot t" and "VerifyProof p"
    and "map (\<lambda>n. pn_position n \<noteq> ''right'') (pr_path p) = index_sides (GetHeight t - 1) i"
    and "length (pr_leaf_hash p) = 71" and "\<forall>n \<in> set (pr_path p). length (pn_hash n) = 71"
  shows "pr_leaf_hash p = leaves ! i \<or>
    is_collision sha256_hex (path_collision sha256_hex ''sha256:'' (pr_leaf_hash p) (map side_of (pr_path p))
      (leaves ! i) (full_path (levels_from hashPair leaves) i))"
proof -
  have ne: "leaves \<noteq> []" using assms(2) by auto
  have t: "GetRoot t = tree_root hashPair leaves" "GetHeight t = tree_height (length leaves)"
    using assms(1) NewTree_Ok [OF ne] by (auto simp: GetRoot_def GetHeight_def length_levels_from)
  have "fold_sides hashPair (pr_leaf_hash p) (map side_of (pr_path p)) = tree_root hashPair leaves"
    using assms(4,5) t(1) by (simp add: VerifyProof_def fold_path_sides)
  moreover have "map fst (map side_of (pr_path p)) = index_sides (tree_height (length leaves) - 1) i"
    using assms(6) t(2) by (simp add: side_of_def comp_def)
  ultimately show ?thesis
    using tree_node.inclusion_sound [of i leaves "pr_leaf_hash p" "map side_of (pr_path p)"] assms(2,3,7,8)
    by (auto simp: hashPair_fun side_of_def)
qed

theorem VerifyProof_sound_witness:
  "\<exists>t p. NewTree [replicate 71 CHR ''a'', replicate 71 CHR ''b''] = Ok t \<and> GetProof t 1 = Ok p
     \<and> VerifyProof p \<and>
     (pr_leaf_hash p = replicate 71 CHR ''b'' \<or>
      is_collision sha256_hex (path_collision sha256_hex ''sha256:'' (pr_leaf_hash p) (map side_of (pr_path p))
        (replicate 71 CHR ''b'') (full_path (levels_from hashPair [replicate 71 CHR ''a'', replicate 71 CHR ''b'']) 1)))"
proof -
  let ?ls = "[replicate 71 CHR ''a'', replicate 71 CHR ''b'']"
  obtain t where t: "NewTree ?ls = Ok t" using NewTree_Ok [of ?ls] by auto
  have lev: "levels_from hashPair ?ls = [?ls, [hashPair (?ls ! 0) (?ls ! 1)]]"
    by (simp add: levels_from_step levels_from_stop)
  have root: "tree_root hashPair ?ls = hashPair (?ls ! 0) (?ls ! 1)"
    by (simp add: tree_root_step tree_root_stop)
  have tt: "t = \<lparr>t_leaves = ?ls, t_nodes = [?ls, [hashPair (?ls ! 0) (?ls ! 1)]],
      t_root = hashPair (?ls ! 0) (?ls ! 1), t_algorithm = ''sha256''\<rparr>"
    using t NewTree_Ok [of ?ls] lev root by simp
  let ?p = "\<lparr>pr_leaf_index = 1, pr_leaf_hash = ?ls ! 1,
    pr_path = [\<lparr>pn_hash = ?ls ! 0, pn_position = ''left''\<rparr>], pr_root = hashPair (?ls ! 0) (?ls ! 1)\<rparr>"
  have p: "GetProof t 1 = Ok ?p" and v: "VerifyProof ?p"
    by (simp_all add: GetProof_def tt VerifyProof_def)
  show ?thesis using VerifyProof_sound [OF t, of 1 ?p] t p v
    by (auto simp: tt GetRoot_def GetHeight_def)
qed

text \<open>The lengths matter. Hashes are concatenated without a separator and \<open>VerifyProof\<close> does not
  check their lengths, so for every split \<open>a = a' @ s\<close> of the first leaf of a two-leaf tree it
  accepts the prefix \<open>a'\<close> as a leaf, with a sibling that starts with \<open>s\<close>: no collision is needed.\<close>

theorem VerifyProof_split_forgery:
  assumes "NewTree [a' @ s, b] = Ok t"
  shows "VerifyProof \<lparr>pr_leaf_index = 0, pr_leaf_hash = a',
    pr_path = [\<lparr>pn_hash = s @ b, pn_position = ''right''\<rparr>], pr_root = GetRoot t\<rparr>"
  using assms NewTree_Ok [of "[a' @ s, b]"]
  by (auto simp: VerifyProof_def GetRoot_def tree_root_step tree_root_stop hashPair_def)

theorem VerifyProof_split_forgery_witness:
  "\<exists>t. NewTree [''sha256:aa'', ''sha256:bb''] = Ok t \<and>
     VerifyProof \<lparr>pr_leaf_index = 0, pr_leaf_hash = ''sha'',
       pr_path = [\<lparr>pn_hash = ''256:aasha256:bb'', pn_position = ''right''\<rparr>], pr_root = GetRoot t\<rparr>"
proof -
  obtain t where t: "NewTree [''sha'' @ ''256:aa'', ''sha256:bb''] = Ok t"
    using NewTree_Ok [of "[''sha'' @ ''256:aa'', ''sha256:bb'']"] by auto
  show ?thesis using VerifyProof_split_forgery [OF t] t by auto
qed

text \<open>The root does not determine the leaves: because an unpaired last leaf is hashed with itself,
  a list of odd length and the same list with its last leaf repeated have one root.\<close>

theorem NewTree_duplicate_last_same_root:
  assumes "odd (length leaves)" and "NewTree leaves = Ok t" and "NewTree (leaves @ [last leaves]) = Ok t'"
    and "1 < length leaves"
  shows "GetRoot t' = GetRoot t \<and> t_leaves t' \<noteq> t_leaves t"
proof -
  have ne: "leaves \<noteq> []" using assms(4) by auto
  have even: "even (length (butlast leaves))" using assms(1) by simp
  have "pair_up hashPair (butlast leaves @ [last leaves]) =
      pair_up hashPair (butlast leaves @ [last leaves, last leaves])"
    by (simp add: pair_up_append [OF even])
  then have "pair_up hashPair leaves = pair_up hashPair (leaves @ [last leaves])"
    using ne by (metis append_Cons append_Nil append_assoc append_butlast_last_id)
  moreover have "1 < length (leaves @ [last leaves])" using ne by simp
  ultimately have "tree_root hashPair leaves = tree_root hashPair (leaves @ [last leaves])"
    by (metis assms(4) tree_root_step)
  then show ?thesis using assms(2,3) NewTree_Ok [OF ne] NewTree_Ok [of "leaves @ [last leaves]"]
    by (auto simp: GetRoot_def)
qed

theorem NewTree_duplicate_last_same_root_witness:
  "\<exists>t t'. NewTree [''a'', ''b'', ''c''] = Ok t \<and> NewTree [''a'', ''b'', ''c'', ''c''] = Ok t'
     \<and> GetRoot t' = GetRoot t"
  using NewTree_duplicate_last_same_root [of "[''a'', ''b'', ''c'']"]
    NewTree_Ok [of "[''a'', ''b'', ''c'']"] NewTree_Ok [of "[''a'', ''b'', ''c'', ''c'']"]
  by auto

end
