(* ===== verification/Incremental.thy ===== *)
theory Incremental
  imports Merkle
begin

text \<open>
  The append-only hash tree: \<open>server/internal/merkle/incremental.go\<close>.

  \<open>inc_tree\<close> is the struct \<open>IncrementalTree\<close> (its slice of levels has \<open>maxDepth + 1\<close> entries),
  \<open>inc_proof\<close>, \<open>snapshot\<close> and \<open>consistency_proof\<close> the structs \<open>IncrementalProof\<close>, \<open>TreeSnapshot\<close> and
  \<open>ConsistencyProof\<close>. Each exported method is a definition that returns an \<open>outcome\<close>: an index past
  the end of a slice is \<open>Panic\<close>. The mutex makes each method one atomic step.

  \<open>inc_inv\<close> is the invariant: level \<open>k\<close> holds the \<open>k\<close>-th level of the abstract tree for every
  \<open>k \<le> height\<close> (one level more than the tree has), and the higher levels are empty. From it: the
  incremental root is the root \<open>NewTree\<close> computes, every inclusion proof verifies, and the tree
  holds half as many leaves as its capacity check allows.
\<close>

subsection \<open>Data and construction\<close>

record inc_tree =
  levels :: "string list list"
  leafCount :: nat
  maxDepth :: nat
  algorithm :: string

datatype inc_error = CapacityExceeded | TreeEmpty | InvalidIndex | TreeCorrupted

definition NewIncrementalTree :: "nat \<Rightarrow> inc_tree" where
  "NewIncrementalTree depth =
     \<lparr>levels = replicate (depth + 1) [], leafCount = 0, maxDepth = depth, algorithm = ''sha256''\<rparr>"

definition DefaultMaxDepth :: nat where
  "DefaultMaxDepth = 32"

text \<open>\<open>1 << t.maxDepth\<close> on a 64-bit \<open>int\<close>.\<close>

definition maxLeaves :: "nat \<Rightarrow> int" where
  "maxLeaves depth = sint (push_bit depth (1 :: 64 word))"

text \<open>\<open>currentHeight\<close>: the loop \<open>for n > 1\<close>, then one more.\<close>

function height_loop :: "nat \<Rightarrow> nat \<Rightarrow> nat" where
  "height_loop n height = (if 1 < n then height_loop ((n + 1) div 2) (height + 1) else height)"
  by pat_completeness auto
termination
  by (relation "measure fst") auto

declare height_loop.simps [simp del]

definition currentHeight :: "nat \<Rightarrow> nat" where
  "currentHeight count = (if count = 0 then 0 else height_loop count 0 + 1)"

lemma height_loop_tree_height: "height_loop n k + 1 = k + tree_height n"
proof (induction n k rule: height_loop.induct)
  case (1 n k)
  show ?case
  proof (cases "1 < n")
    case True
    then show ?thesis
      using "1.IH" by (subst height_loop.simps) (simp add: tree_height_step half_up_def)
  next
    case False
    then show ?thesis by (subst height_loop.simps) (simp add: tree_height_stop)
  qed
qed

lemma currentHeight_eq: "currentHeight n = (if n = 0 then 0 else tree_height n)"
  using height_loop_tree_height [of n 0] by (simp add: currentHeight_def)

subsection \<open>Appending\<close>

text \<open>The loop of \<open>updatePath\<close>; \<open>None\<close> is an index out of range on \<open>t.levels\<close>.\<close>

function update_loop :: "string list list \<Rightarrow> nat \<Rightarrow> nat \<Rightarrow> nat \<Rightarrow> string list list option" where
  "update_loop lvls level currentIndex height =
     (if level < height
      then if length lvls \<le> level then None
      else let parentIndex = currentIndex div 2;
             leftIndex = parentIndex * 2;
             rightIndex = leftIndex + 1;
             nodes = lvls ! level;
             left = (if leftIndex < length nodes then nodes ! leftIndex else '''');
             right = (if rightIndex < length nodes then nodes ! rightIndex else left);
             parentHash = hashPair left right;
             nextLevel = level + 1
           in if length lvls \<le> nextLevel then None
              else let nexts = lvls ! nextLevel in
                update_loop
                  (lvls[nextLevel := (if parentIndex < length nexts then nexts[parentIndex := parentHash]
                                      else nexts @ [parentHash])])
                  nextLevel parentIndex height
      else Some lvls)"
  by pat_completeness auto
termination
  by (relation "measure (\<lambda>(ls, k, i, h). h - k)") auto

declare update_loop.simps [simp del]

text \<open>The three statements \<open>Append\<close> and \<open>AppendBatch\<close> share: store the leaf, count it, update.\<close>

definition append_leaf :: "inc_tree \<Rightarrow> string \<Rightarrow> inc_tree option" where
  "append_leaf t leaf =
     (case levels t of
        [] \<Rightarrow> None
      | l0 # ls \<Rightarrow>
          let count = leafCount t + 1 in
          map_option (\<lambda>lvls. t\<lparr>levels := lvls, leafCount := count\<rparr>)
            (update_loop ((l0 @ [leaf]) # ls) 0 (count - 1) (currentHeight count)))"

definition Append :: "inc_tree \<Rightarrow> string \<Rightarrow> (inc_error, inc_tree) outcome" where
  "Append t leaf =
     (if int (leafCount t) \<ge> maxLeaves (maxDepth t) then Err CapacityExceeded
      else case append_leaf t leaf of None \<Rightarrow> Panic | Some t' \<Rightarrow> Ok t')"

fun append_all :: "inc_tree \<Rightarrow> string list \<Rightarrow> inc_tree option" where
  "append_all t [] = Some t"
| "append_all t (l # ls) = (case append_leaf t l of None \<Rightarrow> None | Some t' \<Rightarrow> append_all t' ls)"

definition AppendBatch :: "inc_tree \<Rightarrow> string list \<Rightarrow> (inc_error, inc_tree) outcome" where
  "AppendBatch t leaves =
     (if int (leafCount t + length leaves) > maxLeaves (maxDepth t) then Err CapacityExceeded
      else case append_all t leaves of None \<Rightarrow> Panic | Some t' \<Rightarrow> Ok t')"

subsection \<open>Reading\<close>

definition Root :: "inc_tree \<Rightarrow> (inc_error, string) outcome" where
  "Root t =
     (if leafCount t = 0 then Err TreeEmpty
      else let height = currentHeight (leafCount t) in
        if height = 0
        then (case levels t of (x # _) # _ \<Rightarrow> Ok x | _ \<Rightarrow> Panic)
        else if length (levels t) \<le> height - 1 then Panic
        else case levels t ! (height - 1) of [] \<Rightarrow> Err TreeCorrupted | x # _ \<Rightarrow> Ok x)"

record inc_proof =
  ip_leaf_index :: int
  ip_leaf_hash :: string
  ip_root :: string
  ip_path :: "proof_node list"

text \<open>The loop of \<open>GetProof\<close>; a missing sibling is replaced by the node itself.\<close>

function inc_path_loop :: "string list list \<Rightarrow> nat \<Rightarrow> nat \<Rightarrow> nat \<Rightarrow> proof_node list option" where
  "inc_path_loop lvls level currentIndex height =
     (if level < height - 1
      then if length lvls \<le> level then None
      else let nodes = lvls ! level;
               siblingIndex = currentIndex XOR 1;
               position = (if currentIndex mod 2 = 1 then ''left'' else ''right'')
           in if siblingIndex < length nodes \<or> currentIndex < length nodes
              then map_option
                (\<lambda>path. \<lparr>pn_hash = (if siblingIndex < length nodes then nodes ! siblingIndex
                                      else nodes ! currentIndex),
                         pn_position = position\<rparr> # path)
                (inc_path_loop lvls (level + 1) (currentIndex div 2) height)
              else None
      else Some [])"
  by pat_completeness auto
termination
  by (relation "measure (\<lambda>(ls, k, i, h). h - k)") auto

declare inc_path_loop.simps [simp del]

definition IncGetProof :: "inc_tree \<Rightarrow> int \<Rightarrow> (inc_error, inc_proof) outcome" where
  "IncGetProof t index =
     (if index < 0 \<or> index \<ge> int (leafCount t) then Err InvalidIndex
      else bind_outcome (Root t) (\<lambda>root.
        case levels t of
          [] \<Rightarrow> Panic
        | l0 # _ \<Rightarrow>
            if length l0 \<le> nat index then Panic
            else case inc_path_loop (levels t) 0 (nat index) (currentHeight (leafCount t)) of
              None \<Rightarrow> Panic
            | Some path \<Rightarrow> Ok \<lparr>ip_leaf_index = index, ip_leaf_hash = l0 ! nat index, ip_root = root,
                                ip_path = path\<rparr>))"

definition IncVerify :: "inc_proof \<Rightarrow> bool" where
  "IncVerify p \<longleftrightarrow> fold_path (ip_leaf_hash p) (ip_path p) = ip_root p"

definition LeafCount :: "inc_tree \<Rightarrow> nat" where
  "LeafCount t = leafCount t"

definition Height :: "inc_tree \<Rightarrow> nat" where
  "Height t = currentHeight (leafCount t)"

definition GetLeaf :: "inc_tree \<Rightarrow> int \<Rightarrow> (inc_error, string) outcome" where
  "GetLeaf t index =
     (if index < 0 \<or> index \<ge> int (leafCount t) then Err InvalidIndex
      else case levels t of
        [] \<Rightarrow> Panic
      | l0 # _ \<Rightarrow> if nat index < length l0 then Ok (l0 ! nat index) else Panic)"

definition GetLeaves :: "inc_tree \<Rightarrow> (inc_error, string list) outcome" where
  "GetLeaves t =
     (case levels t of
        [] \<Rightarrow> Panic
      | l0 # _ \<Rightarrow> (case go_slice l0 0 (leafCount t) of None \<Rightarrow> Panic | Some xs \<Rightarrow> Ok xs))"

subsection \<open>Snapshots and consistency proofs\<close>

record snapshot =
  s_levels :: "string list list"
  s_leafCount :: nat
  s_maxDepth :: nat
  s_algorithm :: string

definition Snapshot :: "inc_tree \<Rightarrow> snapshot" where
  "Snapshot t = \<lparr>s_levels = levels t, s_leafCount = leafCount t, s_maxDepth = maxDepth t,
                 s_algorithm = algorithm t\<rparr>"

definition RestoreFromSnapshot :: "snapshot \<Rightarrow> inc_tree" where
  "RestoreFromSnapshot s = \<lparr>levels = s_levels s, leafCount = s_leafCount s, maxDepth = s_maxDepth s,
                            algorithm = s_algorithm s\<rparr>"

record consistency_proof =
  cp_old_root :: string
  cp_new_root :: string
  cp_old_size :: int
  cp_new_size :: int
  cp_path :: "string list"

text \<open>
  \<open>oldTree.Append\<close> in a loop whose errors are discarded: on an error the tree stays as it was, a
  panic ends the call.
\<close>

fun append_ignoring :: "inc_tree \<Rightarrow> string list \<Rightarrow> inc_tree option" where
  "append_ignoring t [] = Some t"
| "append_ignoring t (l # ls) =
     (case Append t l of
        Ok t' \<Rightarrow> append_ignoring t' ls
      | Err e \<Rightarrow> append_ignoring t ls
      | Panic \<Rightarrow> None)"

definition root_or_empty :: "(inc_error, string) outcome \<Rightarrow> string option" where
  "root_or_empty r = (case r of Ok x \<Rightarrow> Some x | Err e \<Rightarrow> Some '''' | Panic \<Rightarrow> None)"

definition GetConsistencyProof :: "inc_tree \<Rightarrow> int \<Rightarrow> (inc_error, consistency_proof) outcome" where
  "GetConsistencyProof t oldSize =
     (if oldSize \<le> 0 \<or> oldSize > int (leafCount t) then Err InvalidIndex
      else case levels t of
        [] \<Rightarrow> Panic
      | l0 # _ \<Rightarrow>
          if length l0 < leafCount t then Panic
          else (case append_ignoring (NewIncrementalTree (maxDepth t)) (take (nat oldSize) l0) of
            None \<Rightarrow> Panic
          | Some oldTree \<Rightarrow>
              (case (root_or_empty (Root oldTree), root_or_empty (Root t)) of
                 (Some old, Some new) \<Rightarrow>
                   Ok \<lparr>cp_old_root = old, cp_new_root = new, cp_old_size = oldSize,
                       cp_new_size = int (leafCount t),
                       cp_path = take (leafCount t - nat oldSize) (drop (nat oldSize) l0)\<rparr>
               | _ \<Rightarrow> Panic)))"

definition ConsistencyVerify :: "consistency_proof \<Rightarrow> bool" where
  "ConsistencyVerify p =
     (if cp_old_size p \<le> 0 \<or> cp_new_size p < cp_old_size p then False
      else if cp_old_root p = '''' \<or> cp_new_root p = '''' then False
      else True)"

subsection \<open>The invariant\<close>

text \<open>\<open>lev k xs\<close>: the \<open>k\<close>-th level above the leaves \<open>xs\<close>.\<close>

fun lev :: "nat \<Rightarrow> string list \<Rightarrow> string list" where
  "lev 0 xs = xs"
| "lev (Suc k) xs = pair_up hashPair (lev k xs)"

lemma lev_Suc_left: "lev (Suc k) xs = lev k (pair_up hashPair xs)"
  by (induction k) auto

lemma lev_Nil [simp]: "lev k [] = []"
  by (induction k) auto

lemma lev_eq_Nil [simp]: "lev k xs = [] \<longleftrightarrow> xs = []"
  by (induction k) auto

lemma nth_levels_from:
  "k < tree_height (length xs) \<Longrightarrow> levels_from hashPair xs ! k = lev k xs"
proof (induction k arbitrary: xs)
  case 0
  then show ?case by (subst levels_from.simps) simp
next
  case (Suc k)
  then have one: "1 < length xs" using tree_height_stop [of "length xs"] by (cases "1 < length xs") auto
  with Suc have "levels_from hashPair (pair_up hashPair xs) ! k = lev k (pair_up hashPair xs)"
    by (simp add: tree_height_step)
  then show ?case unfolding lev_Suc_left by (simp add: levels_from_step [OF one])
qed

lemma lev_top: "xs \<noteq> [] \<Longrightarrow> lev (tree_height (length xs) - 1) xs = [tree_root hashPair xs]"
  using nth_levels_from [of "tree_height (length xs) - 1" xs] last_levels_from [of xs hashPair]
  by (simp add: last_conv_nth length_levels_from)

text \<open>The height grows by at most one per leaf.\<close>

lemma half_up_Suc: "half_up (Suc n) = half_up n \<or> half_up (Suc n) = Suc (half_up n)"
  by (simp add: half_up_def) presburger

lemma tree_height_Suc: "tree_height n \<le> tree_height (Suc n) \<and> tree_height (Suc n) \<le> Suc (tree_height n)"
proof (induction n rule: tree_height.induct)
  case (1 n)
  show ?case
  proof (cases "1 < n")
    case True
    with "1.IH" half_up_Suc [of n] show ?thesis by (auto simp: tree_height_step)
  next
    case False
    then have "n = 0 \<or> n = 1" by auto
    then show ?thesis by (auto simp: tree_height_stop tree_height_step half_up_def)
  qed
qed

definition ht :: "nat \<Rightarrow> nat" where
  "ht n = (if n = 0 then 0 else tree_height n)"

lemma ht_Suc: "ht n \<le> ht (Suc n) \<and> ht (Suc n) \<le> Suc (ht n)"
  using tree_height_Suc [of n] by (auto simp: ht_def tree_height_stop)

lemma ht_le_iff: "0 < n \<Longrightarrow> ht n \<le> d \<longleftrightarrow> 0 < d \<and> n \<le> 2 ^ (d - 1)"
proof -
  assume n: "0 < n"
  have b: "n \<le> 2 ^ (tree_height n - 1)" "1 < n \<Longrightarrow> 2 ^ (tree_height n - 1) < 2 * n"
    using tree_height_bounds [OF n] by auto
  show ?thesis
  proof
    assume "ht n \<le> d"
    then have "tree_height n - 1 \<le> d - 1" and "0 < d"
      using n tree_height_pos [of n] by (auto simp: ht_def simp del: tree_height_pos)
    then show "0 < d \<and> n \<le> 2 ^ (d - 1)"
      using b(1) by (meson order_trans one_le_numeral power_increasing)
  next
    assume d: "0 < d \<and> n \<le> 2 ^ (d - 1)"
    show "ht n \<le> d"
    proof (cases "1 < n")
      case True
      have "2 ^ (tree_height n - 1) < (2 :: nat) ^ d"
        using b(2) [OF True] d by (cases d) auto
      then have "tree_height n - 1 < d" by simp
      then show ?thesis using n by (simp add: ht_def)
    next
      case False
      with n d show ?thesis by (simp add: ht_def tree_height_stop)
    qed
  qed
qed

definition inc_inv :: "inc_tree \<Rightarrow> string list \<Rightarrow> bool" where
  "inc_inv t xs \<longleftrightarrow> length (levels t) = maxDepth t + 1 \<and> leafCount t = length xs
     \<and> ht (length xs) \<le> maxDepth t
     \<and> (\<forall>k \<le> maxDepth t. levels t ! k = (if k \<le> ht (length xs) then lev k xs else []))"

lemma inc_inv_new: "inc_inv (NewIncrementalTree d) []"
  by (auto simp: inc_inv_def NewIncrementalTree_def ht_def nth_Cons' simp del: replicate_Suc)

text \<open>
  \<open>ext ws zs\<close>: the level \<open>ws\<close> of the old tree agrees with the level \<open>zs\<close> of the new tree up to the
  last node of \<open>zs\<close>, which is new or changed.
\<close>

definition ext :: "string list \<Rightarrow> string list \<Rightarrow> bool" where
  "ext ws zs \<longleftrightarrow> zs \<noteq> [] \<and> take (length zs - 1) ws = take (length zs - 1) zs
     \<and> (length ws = length zs \<or> Suc (length ws) = length zs)"

lemma ext_append: "ext xs (xs @ [x])"
  by (simp add: ext_def)

lemma ext_pair_up:
  assumes "ext ws zs"
  shows "ext (pair_up hashPair ws) (pair_up hashPair zs)"
proof -
  let ?c = "length zs - 1" and ?p = "half_up (length zs) - 1"
  have zs: "zs \<noteq> []" and ws: "take ?c ws = take ?c zs" "length ws = length zs \<or> Suc (length ws) = length zs"
    using assms by (auto simp: ext_def)
  have same: "ws ! j = zs ! j" if "j < ?c" for j
    using ws(1) that by (metis nth_take)
  have p: "2 * ?p \<le> ?c" by (simp add: half_up_def)
  have lens: "half_up (length ws) = half_up (length zs) \<or> Suc (half_up (length ws)) = half_up (length zs)"
    using ws(2) half_up_Suc [of "length ws"] by auto
  have "take ?p (pair_up hashPair ws) = take ?p (pair_up hashPair zs)"
  proof (rule nth_equalityI)
    show "length (take ?p (pair_up hashPair ws)) = length (take ?p (pair_up hashPair zs))"
      using lens by auto
  next
    fix j assume "j < length (take ?p (pair_up hashPair ws))"
    then have j: "j < ?p" "j < half_up (length ws)" "j < half_up (length zs)" using lens by auto
    then have "2 * j + 1 < ?c" using p by simp
    then show "take ?p (pair_up hashPair ws) ! j = take ?p (pair_up hashPair zs) ! j"
      using j ws(2) by (auto simp: nth_pair_up same)
  qed
  with zs lens show ?thesis by (auto simp: ext_def)
qed

lemma ext_lev: "ext (lev k xs) (lev k (xs @ [x]))"
  by (induction k) (auto simp: ext_append ext_pair_up)

text \<open>One iteration of \<open>updatePath\<close>: the next level is complete once its last node is rehashed.\<close>

lemma update_level:
  assumes "zs \<noteq> []" and "ext ws (pair_up hashPair zs)"
  defines "p \<equiv> (length zs - 1) div 2"
  defines "left \<equiv> (if p * 2 < length zs then zs ! (p * 2) else '''')"
  defines "ph \<equiv> hashPair left (if p * 2 + 1 < length zs then zs ! (p * 2 + 1) else left)"
  shows "(if p < length ws then ws[p := ph] else ws @ [ph]) = pair_up hashPair zs"
proof -
  let ?us = "pair_up hashPair zs"
  have p: "p = length ?us - 1" using assms(1) by (cases zs) (auto simp: p_def half_up_def)
  have us: "?us \<noteq> []" "take p ws = take p ?us" "length ws = length ?us \<or> Suc (length ws) = length ?us"
    using assms(2) p by (auto simp: ext_def)
  have lt: "p < length ?us" using us(1) p by (cases ?us) auto
  have "p * 2 < length zs" using assms(1) by (cases zs) (auto simp: p_def)
  then have ph: "ph = ?us ! p"
    using lt by (simp add: ph_def left_def nth_pair_up mult.commute)
  have split: "?us = take p ?us @ [?us ! p]"
    using lt p take_Suc_conv_app_nth [of p ?us] by simp
  show ?thesis
  proof (cases "length ws = length ?us")
    case True
    then have "ws[p := ph] = take p ws @ [ph]" using lt p by (simp add: upd_conv_take_nth_drop)
    with True lt us(2) ph split show ?thesis by simp
  next
    case False
    with us(3) p have "length ws = p" by auto
    with us(2) have "ws = take p ?us" by simp
    with \<open>length ws = p\<close> ph split show ?thesis by simp
  qed
qed

text \<open>
  The whole loop. Up to level \<open>k\<close> the tree is the new one; above, it is still the old one. The loop
  panics exactly when the slice of levels is too short for the level above the new root.
\<close>

definition updating :: "nat \<Rightarrow> string list \<Rightarrow> string \<Rightarrow> nat \<Rightarrow> string list list \<Rightarrow> bool" where
  "updating d xs x k lvls \<longleftrightarrow> length lvls = d + 1 \<and> k \<le> d \<and> (\<forall>j \<le> d. lvls ! j =
     (if j \<le> k then lev j (xs @ [x]) else if j \<le> ht (length xs) then lev j xs else []))"

lemma update_loop_step:
  assumes upd: "updating d xs x k lvls" and k: "k < ht (Suc (length xs))" and d: "k < d"
    and ci: "ci = length (lev k (xs @ [x])) - 1"
  shows "\<exists>lvls'. updating d xs x (Suc k) lvls' \<and>
     update_loop lvls k ci (ht (Suc (length xs)))
     = update_loop lvls' (Suc k) (length (lev (Suc k) (xs @ [x])) - 1) (ht (Suc (length xs)))"
proof -
  let ?zs = "lev k (xs @ [x])" and ?us = "lev (Suc k) (xs @ [x])"
  let ?ws = "lvls ! Suc k"
  have len: "length lvls = d + 1" and zs: "lvls ! k = ?zs" and ne: "?zs \<noteq> []"
    using upd d by (auto simp: updating_def)
  have "ext ?ws ?us"
  proof (cases "Suc k \<le> ht (length xs)")
    case True
    then show ?thesis using upd d ext_lev [of "Suc k" xs x] by (simp add: updating_def)
  next
    case False
    then have top: "Suc k = ht (Suc (length xs))" using k ht_Suc [of "length xs"] by auto
    then have "k = tree_height (length (xs @ [x])) - 1" by (simp add: ht_def)
    then have "?zs = [tree_root hashPair (xs @ [x])]" using lev_top [of "xs @ [x]"] by simp
    then have "length ?us = 1" by simp
    moreover have "?ws = []" using upd d False by (simp add: updating_def)
    ultimately show ?thesis by (simp add: ext_def)
  qed
  note lvl = update_level [OF ne this [unfolded lev.simps]]
  let ?p = "ci div 2"
  let ?left = "if ?p * 2 < length ?zs then ?zs ! (?p * 2) else ''''"
  let ?ph = "hashPair ?left (if ?p * 2 + 1 < length ?zs then ?zs ! (?p * 2 + 1) else ?left)"
  let ?new = "if ?p < length ?ws then ?ws[?p := ?ph] else ?ws @ [?ph]"
  have new: "?new = ?us" using lvl unfolding ci by simp
  have "length ?us - 1 = ?p" using ne by (cases ?zs) (auto simp: ci half_up_def)
  moreover have "update_loop lvls k ci (ht (Suc (length xs)))
      = update_loop (lvls[Suc k := ?new]) (Suc k) ?p (ht (Suc (length xs)))"
    using k d len zs by (subst update_loop.simps) (simp add: Let_def)
  moreover have "updating d xs x (Suc k) (lvls[Suc k := ?us])"
    using upd d by (auto simp: updating_def nth_list_update simp del: lev.simps(2))
  ultimately show ?thesis unfolding new by auto
qed

lemma update_loop_run:
  assumes "updating d xs x k lvls" and "k \<le> ht (Suc (length xs))" and "ht (Suc (length xs)) \<le> d"
  shows "\<exists>lvls'. updating d xs x (ht (Suc (length xs))) lvls' \<and>
     update_loop lvls k (length (lev k (xs @ [x])) - 1) (ht (Suc (length xs))) = Some lvls'"
  using assms
proof (induction "ht (Suc (length xs)) - k" arbitrary: k lvls)
  case 0
  then have "k = ht (Suc (length xs))" by simp
  with "0.prems" show ?case by (subst update_loop.simps) simp
next
  case (Suc n)
  then have k: "k < ht (Suc (length xs))" by simp
  from update_loop_step [OF Suc.prems(1) k _ refl] Suc.prems k
  obtain lvls' where "updating d xs x (Suc k) lvls'"
    "update_loop lvls k (length (lev k (xs @ [x])) - 1) (ht (Suc (length xs)))
     = update_loop lvls' (Suc k) (length (lev (Suc k) (xs @ [x])) - 1) (ht (Suc (length xs)))"
    by auto
  with Suc.hyps(1) [of "Suc k" lvls'] Suc.hyps(2) Suc.prems k show ?case by simp
qed

lemma update_loop_panic:
  assumes "updating d xs x k lvls" and "k \<le> d" and "d < ht (Suc (length xs))"
  shows "update_loop lvls k (length (lev k (xs @ [x])) - 1) (ht (Suc (length xs))) = None"
  using assms
proof (induction "d - k" arbitrary: k lvls)
  case 0
  then show ?case by (subst update_loop.simps) (auto simp: updating_def Let_def)
next
  case (Suc n)
  then have k: "k < d" by simp
  from update_loop_step [OF Suc.prems(1) _ k refl] Suc.prems
  obtain lvls' where "updating d xs x (Suc k) lvls'"
    "update_loop lvls k (length (lev k (xs @ [x])) - 1) (ht (Suc (length xs)))
     = update_loop lvls' (Suc k) (length (lev (Suc k) (xs @ [x])) - 1) (ht (Suc (length xs)))"
    by auto
  with Suc.hyps(1) [of "Suc k" lvls'] Suc.hyps(2) Suc.prems k show ?case by simp
qed

lemma append_leaf_correct:
  assumes inv: "inc_inv t xs"
  shows "if ht (Suc (length xs)) \<le> maxDepth t
    then \<exists>t'. append_leaf t x = Some t' \<and> inc_inv t' (xs @ [x]) \<and> maxDepth t' = maxDepth t
           \<and> algorithm t' = algorithm t
    else append_leaf t x = None"
proof -
  obtain l0 ls where lv: "levels t = l0 # ls" using inv by (cases "levels t") (auto simp: inc_inv_def)
  have "levels t ! 0 = xs" using inv by (auto simp: inc_inv_def)
  then have l0: "l0 = xs" by (simp add: lv)
  have start: "updating (maxDepth t) xs x 0 ((xs @ [x]) # ls)"
  proof -
    have eq: "((xs @ [x]) # ls) ! j = (if j = 0 then xs @ [x] else levels t ! j)" for j
      by (cases j) (simp_all add: lv)
    have "length ls = maxDepth t" using inv by (simp add: inc_inv_def lv)
    then show ?thesis unfolding updating_def eq using inv by (auto simp: inc_inv_def)
  qed
  have cnt: "currentHeight (Suc (length xs)) = ht (Suc (length xs))"
    by (simp add: currentHeight_eq ht_def)
  have al: "append_leaf t x = map_option (\<lambda>lvls. t\<lparr>levels := lvls, leafCount := Suc (length xs)\<rparr>)
     (update_loop ((xs @ [x]) # ls) 0 (length (lev 0 (xs @ [x])) - 1) (ht (Suc (length xs))))"
    using inv by (simp add: append_leaf_def lv l0 inc_inv_def Let_def cnt)
  show ?thesis
  proof (cases "ht (Suc (length xs)) \<le> maxDepth t")
    case True
    from update_loop_run [OF start _ True]
    obtain lvls' where l: "updating (maxDepth t) xs x (ht (Suc (length xs))) lvls'"
      "update_loop ((xs @ [x]) # ls) 0 (length (lev 0 (xs @ [x])) - 1) (ht (Suc (length xs))) = Some lvls'"
      by auto
    have "inc_inv (t\<lparr>levels := lvls', leafCount := Suc (length xs)\<rparr>) (xs @ [x])"
      using l(1) True ht_Suc [of "length xs"] by (auto simp: inc_inv_def updating_def)
    with True l(2) al show ?thesis by simp
  next
    case False
    then show ?thesis using update_loop_panic [OF start] al by simp
  qed
qed

lemma maxLeaves_eq: "d < 63 \<Longrightarrow> maxLeaves d = 2 ^ d"
proof -
  assume d: "d < 63"
  have "(2 :: int) ^ d < 2 ^ 63" by (rule power_strict_increasing [OF d]) simp
  moreover have "- (2 ^ 63) \<le> (2 :: int) ^ d" by (rule order_trans [of _ 0]) simp_all
  ultimately have "signed_take_bit 63 ((2 :: int) ^ d) = 2 ^ d" by (intro signed_take_bit_int_eq_self)
  moreover have "push_bit d (1 :: 64 word) = word_of_int (2 ^ d)"
    by (simp add: push_bit_eq_mult)
  ultimately show ?thesis by (simp add: maxLeaves_def sint_sbintrunc' del: of_int_power)
qed

text \<open>Under the invariant, \<open>Append\<close> succeeds up to half of the capacity it checks, and then panics.\<close>

lemma Append_cases:
  assumes "inc_inv t xs" and "maxDepth t < 63"
  shows "if 0 < maxDepth t \<and> Suc (length xs) \<le> 2 ^ (maxDepth t - 1)
    then \<exists>t'. Append t x = Ok t' \<and> inc_inv t' (xs @ [x]) \<and> maxDepth t' = maxDepth t
           \<and> algorithm t' = algorithm t
    else Append t x = Panic"
proof -
  let ?d = "maxDepth t"
  have "length xs < 2 ^ ?d"
  proof (cases "xs = []")
    case False
    with assms(1) have "0 < ?d \<and> length xs \<le> 2 ^ (?d - 1)"
      using ht_le_iff [of "length xs" ?d] by (simp add: inc_inv_def)
    moreover have "(2 :: nat) ^ (?d - 1) < 2 ^ ?d"
      using calculation by (intro power_strict_increasing) auto
    ultimately show ?thesis by (blast intro: le_less_trans)
  qed simp
  then have "int (length xs) < 2 ^ ?d" by (metis of_nat_less_iff of_nat_numeral of_nat_power)
  then have "\<not> int (leafCount t) \<ge> maxLeaves ?d"
    using assms by (simp add: maxLeaves_eq inc_inv_def)
  then show ?thesis
    using append_leaf_correct [OF assms(1), of x] ht_le_iff [of "Suc (length xs)" ?d]
    by (auto simp: Append_def split: if_splits)
qed

lemma append_all_inv:
  "inc_inv t xs \<Longrightarrow> if ys = [] \<or> ht (length (xs @ ys)) \<le> maxDepth t
     then \<exists>t'. append_all t ys = Some t' \<and> inc_inv t' (xs @ ys) \<and> maxDepth t' = maxDepth t
            \<and> algorithm t' = algorithm t
     else append_all t ys = None"
proof (induction ys arbitrary: t xs)
  case Nil
  then show ?case by simp
next
  case (Cons y ys)
  have mono: "ht m \<le> ht (m + k)" for m k
  proof (induction k)
    case (Suc k)
    then show ?case using ht_Suc [of "m + k"] by simp
  qed simp
  have m: "ht (Suc (length xs)) \<le> ht (length (xs @ y # ys))"
    using mono [of "Suc (length xs)" "length ys"] by simp
  show ?case
  proof (cases "ht (Suc (length xs)) \<le> maxDepth t")
    case True
    with append_leaf_correct [OF Cons.prems, of y] obtain t'
      where t': "append_leaf t y = Some t'" "inc_inv t' (xs @ [y])" "maxDepth t' = maxDepth t"
        "algorithm t' = algorithm t" by auto
    show ?thesis using Cons.IH [OF t'(2)] t' True by (cases "ys = []") auto
  next
    case False
    with append_leaf_correct [OF Cons.prems, of y] m show ?thesis by auto
  qed
qed

lemma Root_inv:
  assumes "inc_inv t xs" and "xs \<noteq> []"
  shows "Root t = Ok (tree_root hashPair xs)"
proof -
  have h: "ht (length xs) = tree_height (length xs)" "0 < tree_height (length xs)"
    using assms(2) by (auto simp: ht_def)
  have "levels t ! (tree_height (length xs) - 1) = [tree_root hashPair xs]"
    using assms h lev_top [OF assms(2)] by (auto simp: inc_inv_def)
  moreover obtain m where "tree_height (length xs) = Suc m" using h(2) gr0_conv_Suc by blast
  ultimately show ?thesis using assms h by (auto simp: Root_def inc_inv_def currentHeight_eq Let_def)
qed

lemma inc_path_loop_full:
  assumes "inc_inv t xs" and "i < length xs" and "k < tree_height (length xs)"
    and "ys = lev k xs" and "j < length ys"
  shows "\<exists>path. inc_path_loop (levels t) k j (tree_height (length xs)) = Some path
    \<and> map side_of path = full_path (levels_from hashPair ys) j"
  using assms(3-5)
proof (induction "tree_height (length xs) - k" arbitrary: k ys j rule: less_induct)
  case less
  have h: "ht (length xs) = tree_height (length xs)" using assms(2) by (auto simp: ht_def)
  have lv: "levels t ! k = ys" "k < length (levels t)"
    using assms(1) less.prems h by (auto simp: inc_inv_def)
  have "length (levels_from hashPair xs) - k = tree_height (length ys)"
    using less.prems(1,2)
  proof (induction k arbitrary: ys)
    case 0
    then show ?case by (simp add: length_levels_from)
  next
    case (Suc k)
    then have IH: "tree_height (length (lev k xs)) = length (levels_from hashPair xs) - k" by simp
    then have "1 < tree_height (length (lev k xs))" using Suc.prems by (simp add: length_levels_from)
    then have "1 < length (lev k xs)" using tree_height_stop by (metis less_irrefl)
    with IH Suc.prems show ?case by (simp add: tree_height_step)
  qed
  then have hy: "tree_height (length xs) - k = tree_height (length ys)" by (simp add: length_levels_from)
  show ?case
  proof (cases "k < tree_height (length xs) - 1")
    case True
    with hy have "1 < tree_height (length ys)" by simp
    then have one: "1 < length ys" using tree_height_stop by (metis less_irrefl)
    have "j div 2 < length (pair_up hashPair ys)" using less.prems(3) by (simp add: parent_less)
    moreover have "tree_height (length xs) - Suc k < tree_height (length xs) - k"
      "Suc k < tree_height (length xs)" using True by simp_all
    moreover have "pair_up hashPair ys = lev (Suc k) xs" by (simp add: less.prems)
    ultimately obtain path where p: "inc_path_loop (levels t) (Suc k) (j div 2) (tree_height (length xs)) = Some path"
      "map side_of path = full_path (levels_from hashPair (pair_up hashPair ys)) (j div 2)"
      using less.hyps [of "Suc k" "pair_up hashPair ys" "j div 2"] by blast
    show ?thesis using True lv p less.prems(3) xor_1_sibling [of j]
      by (subst inc_path_loop.simps)
         (auto simp: full_path_step [OF one] Let_def side_of_def odd_iff_mod_2_eq_one)
  next
    case False
    with hy less.prems have "tree_height (length ys) = 1" by simp
    moreover have "0 < tree_height (half_up (length ys))" if "1 < length ys"
      using that half_up_pos [of "length ys"] by simp
    ultimately have "\<not> 1 < length ys" using tree_height_step [of "length ys"] by auto
    with False show ?thesis by (subst inc_path_loop.simps) (simp add: full_path_stop)
  qed
qed

subsection \<open>Properties\<close>

text \<open>Capacity. \<open>AppendBatch\<close> on a new tree of depth \<open>d\<close> (below 63, so that \<open>1 << d\<close> does not
  wrap) stores the leaves when there are at most \<open>2 ^ (d - 1)\<close> of them, and reports an error above
  \<open>2 ^ d\<close>. In between, although the capacity check passes, \<open>updatePath\<close> writes one level past the end
  of the slice and the call panics: the tree holds half of the \<open>2 ^ MaxDepth\<close> leaves it announces.\<close>

theorem AppendBatch_capacity:
  assumes "0 < d" and "d < 63"
  shows "if length xs \<le> 2 ^ (d - 1)
      then \<exists>t. AppendBatch (NewIncrementalTree d) xs = Ok t \<and> inc_inv t xs
    else if length xs \<le> 2 ^ d then AppendBatch (NewIncrementalTree d) xs = Panic
    else AppendBatch (NewIncrementalTree d) xs = Err CapacityExceeded"
proof -
  let ?t = "NewIncrementalTree d"
  have depth: "maxDepth ?t = d" "leafCount ?t = 0" by (simp_all add: NewIncrementalTree_def)
  have all: "if xs = [] \<or> ht (length xs) \<le> d
     then \<exists>t'. append_all ?t xs = Some t' \<and> inc_inv t' xs else append_all ?t xs = None"
    using append_all_inv [OF inc_inv_new, of xs d] by (auto simp: depth split: if_splits)
  have pow: "int (length xs) > 2 ^ d \<longleftrightarrow> \<not> length xs \<le> 2 ^ d"
    by (metis not_le of_nat_less_iff of_nat_numeral of_nat_power)
  have half: "length xs \<le> 2 ^ (d - 1) \<Longrightarrow> length xs \<le> 2 ^ d"
    by (rule order_trans [of _ "2 ^ (d - 1)"]) simp_all
  have "xs = [] \<or> ht (length xs) \<le> d \<longleftrightarrow> length xs \<le> 2 ^ (d - 1)"
    using ht_le_iff [of "length xs" d] assms(1) by (cases "xs = []") auto
  then show ?thesis
    using all half pow
    by (cases "length xs \<le> 2 ^ (d - 1)"; cases "length xs \<le> 2 ^ d")
       (auto simp: AppendBatch_def depth maxLeaves_eq [OF assms(2)] simp del: One_nat_def)
qed

theorem AppendBatch_capacity_witness:
  "(\<exists>t. AppendBatch (NewIncrementalTree 2) [''a'', ''b''] = Ok t)
   \<and> AppendBatch (NewIncrementalTree 2) [''a'', ''b'', ''c''] = Panic
   \<and> AppendBatch (NewIncrementalTree 2) [''a'', ''b'', ''c'', ''d'', ''e''] = Err CapacityExceeded"
  using AppendBatch_capacity [of 2 "[''a'', ''b'']"] AppendBatch_capacity [of 2 "[''a'', ''b'', ''c'']"]
    AppendBatch_capacity [of 2 "[''a'', ''b'', ''c'', ''d'', ''e'']"] by auto

text \<open>C18. The invariant. \<open>Append\<close> never reports an error on a well-formed tree: it appends the leaf
  and keeps the invariant for the longer list, or panics when the tree already holds
  \<open>2 ^ (MaxDepth - 1)\<close> leaves. The depth and the algorithm name never change.\<close>

theorem Append_invariant:
  assumes "inc_inv t xs" and "maxDepth t < 63"
  shows "(\<exists>t'. Append t x = Ok t' \<and> inc_inv t' (xs @ [x]) \<and> LeafCount t' = Suc (LeafCount t)
      \<and> maxDepth t' = maxDepth t \<and> algorithm t' = algorithm t)
    \<or> (Append t x = Panic \<and> 2 ^ (maxDepth t - 1) \<le> LeafCount t) \<or> (Append t x = Panic \<and> maxDepth t = 0)"
  using Append_cases [OF assms, of x] assms(1)
  by (auto simp: LeafCount_def inc_inv_def split: if_splits)

theorem Append_invariant_witness:
  "\<exists>t. Append (NewIncrementalTree 4) ''a'' = Ok t \<and> inc_inv t [''a''] \<and> LeafCount t = 1"
  using Append_invariant [OF inc_inv_new, of 4 "''a''"] by (auto simp: NewIncrementalTree_def LeafCount_def)

text \<open>C2. The incremental tree computes what the batch construction computes: its root is the root of
  \<open>NewTree\<close> on the same leaves, and it has as many levels.\<close>

theorem Root_eq_NewTree:
  assumes "inc_inv t xs" and "xs \<noteq> []"
  shows "\<exists>b. NewTree xs = Ok b \<and> Root t = Ok (GetRoot b) \<and> Height t = GetHeight b
    \<and> GetLeaves t = Ok (t_leaves b)"
proof -
  obtain l0 ls where lv: "levels t = l0 # ls" using assms(1) by (cases "levels t") (auto simp: inc_inv_def)
  have "levels t ! 0 = xs" using assms(1) by (auto simp: inc_inv_def)
  then have "GetLeaves t = Ok xs"
    using assms(1) by (simp add: GetLeaves_def lv go_slice_def inc_inv_def)
  then show ?thesis using assms NewTree_Ok [OF assms(2)] Root_inv [OF assms]
    by (auto simp: GetRoot_def GetHeight_def Height_def currentHeight_eq inc_inv_def length_levels_from)
qed

theorem Root_eq_NewTree_witness:
  "\<exists>t b. AppendBatch (NewIncrementalTree 3) [''a'', ''b'', ''c''] = Ok t
     \<and> NewTree [''a'', ''b'', ''c''] = Ok b \<and> Root t = Ok (GetRoot b)"
proof -
  obtain t where "append_all (NewIncrementalTree 3) [''a'', ''b'', ''c''] = Some t"
    "inc_inv t [''a'', ''b'', ''c'']"
    using append_all_inv [OF inc_inv_new, of "[''a'', ''b'', ''c'']" 3]
    by (auto simp: ht_le_iff NewIncrementalTree_def split: if_splits)
  then show ?thesis using Root_eq_NewTree [of t "[''a'', ''b'', ''c'']"]
    by (auto simp: AppendBatch_def NewIncrementalTree_def maxLeaves_eq)
qed

text \<open>Completeness for every leaf: since a missing sibling is replaced by the node itself, the
  proof \<open>GetProof\<close> of the incremental tree returns is accepted by \<open>Verify\<close> for every index, also for
  the last leaf of an odd level.\<close>

theorem IncGetProof_verifies:
  assumes "inc_inv t xs" and "i < length xs"
  shows "\<exists>p. IncGetProof t (int i) = Ok p \<and> ip_leaf_hash p = xs ! i \<and> Root t = Ok (ip_root p)
    \<and> length (ip_path p) = Height t - 1 \<and> IncVerify p"
proof -
  have ne: "xs \<noteq> []" using assms(2) by auto
  obtain l0 ls where lv: "levels t = l0 # ls" using assms(1) by (cases "levels t") (auto simp: inc_inv_def)
  have "levels t ! 0 = xs" using assms(1) by (auto simp: inc_inv_def)
  then have l0: "l0 = xs" by (simp add: lv)
  obtain path where path: "inc_path_loop (levels t) 0 i (tree_height (length xs)) = Some path"
    "map side_of path = full_path (levels_from hashPair xs) i"
    using inc_path_loop_full [OF assms, of 0 xs i] assms(2) by auto
  have ch: "currentHeight (leafCount t) = tree_height (length xs)"
    using assms by (auto simp: currentHeight_eq inc_inv_def)
  have "length path = tree_height (length xs) - 1"
    using path(2) length_full_path [of hashPair xs i] by (metis length_map)
  moreover have "fold_path (xs ! i) path = tree_root hashPair xs"
    by (simp add: fold_path_sides path(2) fold_full_path assms(2))
  moreover have "leafCount t = length xs" using assms(1) by (simp add: inc_inv_def)
  ultimately show ?thesis using assms(2) path(1) Root_inv [OF assms(1) ne]
    by (simp add: IncGetProof_def lv [symmetric] ch)
       (use ne in \<open>simp add: lv l0 IncVerify_def Height_def ch currentHeight_eq\<close>)
qed

theorem IncGetProof_verifies_witness:
  "\<exists>t p. AppendBatch (NewIncrementalTree 3) [''a'', ''b'', ''c''] = Ok t \<and> IncGetProof t 2 = Ok p
     \<and> ip_leaf_hash p = ''c'' \<and> IncVerify p"
proof -
  obtain t where "append_all (NewIncrementalTree 3) [''a'', ''b'', ''c''] = Some t"
    "inc_inv t [''a'', ''b'', ''c'']"
    using append_all_inv [OF inc_inv_new, of "[''a'', ''b'', ''c'']" 3]
    by (auto simp: ht_le_iff NewIncrementalTree_def split: if_splits)
  then show ?thesis using IncGetProof_verifies [of t "[''a'', ''b'', ''c'']" 2]
    by (auto simp: AppendBatch_def NewIncrementalTree_def maxLeaves_eq)
qed

lemma append_ignoring_inv:
  "\<lbrakk>inc_inv t xs; maxDepth t < 63; xs @ ys = [] \<or> ht (length (xs @ ys)) \<le> maxDepth t\<rbrakk>
   \<Longrightarrow> \<exists>t'. append_ignoring t ys = Some t' \<and> inc_inv t' (xs @ ys)"
proof (induction ys arbitrary: t xs)
  case Nil
  then show ?case by simp
next
  case (Cons y ys)
  have "0 < maxDepth t \<and> length (xs @ y # ys) \<le> 2 ^ (maxDepth t - 1)"
    using Cons.prems(3) ht_le_iff [of "length (xs @ y # ys)" "maxDepth t"] by simp
  then obtain t' where t': "Append t y = Ok t'" "inc_inv t' (xs @ [y])" "maxDepth t' = maxDepth t"
    using Append_cases [OF Cons.prems(1,2), of y] by auto
  then show ?case using Cons.IH [OF t'(2)] Cons.prems by simp
qed

lemma ht_mono: "m \<le> n \<Longrightarrow> ht m \<le> ht n"
  by (rule lift_Suc_mono_le [of ht]) (simp_all add: ht_Suc)

text \<open>A consistency proof describes the growth of the log: its old root is the root \<open>NewTree\<close>
  computes on the first \<open>oldSize\<close> leaves, its new root the root on all of them, and its path is the
  list of the leaves appended in between. It passes \<open>Verify\<close> when the two roots are not empty strings.\<close>

theorem GetConsistencyProof_correct:
  assumes "inc_inv t xs" and "maxDepth t < 63" and "0 < n" and "n \<le> length xs"
  shows "\<exists>p old new. GetConsistencyProof t (int n) = Ok p
    \<and> NewTree (take n xs) = Ok old \<and> cp_old_root p = GetRoot old
    \<and> NewTree xs = Ok new \<and> cp_new_root p = GetRoot new
    \<and> cp_path p = drop n xs \<and> cp_old_size p = int n \<and> cp_new_size p = int (length xs)
    \<and> (ConsistencyVerify p \<longleftrightarrow> GetRoot old \<noteq> '''' \<and> GetRoot new \<noteq> '''')"
proof -
  have ne: "xs \<noteq> []" "take n xs \<noteq> []" using assms(3,4) by auto
  obtain l0 ls where lv: "levels t = l0 # ls" using assms(1) by (cases "levels t") (auto simp: inc_inv_def)
  have "levels t ! 0 = xs" using assms(1) by (auto simp: inc_inv_def)
  then have l0: "l0 = xs" by (simp add: lv)
  have cnt: "leafCount t = length xs" "ht (length xs) \<le> maxDepth t" using assms(1) by (auto simp: inc_inv_def)
  have "ht (length (take n xs)) \<le> maxDepth t"
    using ht_mono [of "length (take n xs)" "length xs"] cnt(2) by simp
  then obtain old where old: "append_ignoring (NewIncrementalTree (maxDepth t)) (take n xs) = Some old"
    "inc_inv old (take n xs)"
    using append_ignoring_inv [OF inc_inv_new, of "maxDepth t" "take n xs"] assms(2)
    by (auto simp: NewIncrementalTree_def)
  have roots: "Root old = Ok (tree_root hashPair (take n xs))" "Root t = Ok (tree_root hashPair xs)"
    using Root_inv old(2) assms(1) ne by auto
  show ?thesis
    using assms(3,4) old(1) cnt(1) NewTree_Ok [OF ne(1)] NewTree_Ok [OF ne(2)]
    by (auto simp: GetConsistencyProof_def lv l0 roots root_or_empty_def ConsistencyVerify_def GetRoot_def)
qed

theorem GetConsistencyProof_correct_witness:
  "\<exists>t p. AppendBatch (NewIncrementalTree 3) [''a'', ''b'', ''c''] = Ok t
     \<and> GetConsistencyProof t 2 = Ok p \<and> cp_path p = [''c'']"
proof -
  obtain t where "append_all (NewIncrementalTree 3) [''a'', ''b'', ''c''] = Some t"
    "inc_inv t [''a'', ''b'', ''c'']" "maxDepth t = 3"
    using append_all_inv [OF inc_inv_new, of "[''a'', ''b'', ''c'']" 3]
    by (auto simp: ht_le_iff NewIncrementalTree_def split: if_splits)
  then show ?thesis using GetConsistencyProof_correct [of t "[''a'', ''b'', ''c'']" 2]
    by (auto simp: AppendBatch_def NewIncrementalTree_def maxLeaves_eq)
qed

text \<open>\<open>Verify\<close> on a consistency proof checks neither root against the path: any two non-empty
  strings are accepted as the roots of the old and the new tree, whatever leaves the path claims.\<close>

lemma ConsistencyVerify_unsound:
  assumes "0 < m" and "m \<le> n" and "old \<noteq> ''''" and "new \<noteq> ''''"
  shows "ConsistencyVerify \<lparr>cp_old_root = old, cp_new_root = new, cp_old_size = m, cp_new_size = n,
    cp_path = path\<rparr>"
  using assms by (simp add: ConsistencyVerify_def)

end
