(* ===== verification/Verifier.thy ===== *)
theory Verifier
  imports Merkle
begin

text \<open>
  The offline verifier: \<open>verifier/pkg/verify/verifier.go\<close>, which re-implements the hash tree for
  clients that only hold a certificate or a disclosure proof.

  The records are the structs of the file; a pointer field is an option. \<open>VerifyProof\<close> and
  \<open>VerifyCertificate\<close> are translated check by check, messages included. Reading a file and parsing
  JSON are parameters of the two file functions. The lemmas relate the verifier's own loops to the
  abstract tree, and so to the tree of the server.
\<close>

subsection \<open>Data\<close>

record CheckResult =
  c_Name :: string
  c_Passed :: bool
  c_Message :: string

record VerifyResult =
  r_Valid :: bool
  r_CertID :: string
  r_RootHash :: string
  r_EventCount :: nat
  r_Checks :: "CheckResult list"

record TimeProof =
  tp_ProofType :: string
  tp_Timestamp :: string
  tp_TSAAuthority :: string
  tp_Signature :: string

record BlockchainProof =
  bp_ChainID :: string
  bp_TxHash :: string
  bp_BlockHeight :: int

record AnchorProof =
  ap_AnchorType :: string
  ap_AnchorID :: string
  ap_StorageProvider :: string
  ap_AnchorTimestamp :: string
  ap_Blockchain :: "BlockchainProof option"

record Metadata =
  md_TenantID :: string
  md_CreatedAt :: string
  md_CreatedBy :: string
  md_EvidenceLevel :: string

record Certificate =
  ct_CertID :: string
  ct_CertVersion :: string
  ct_SchemaVersion :: string
  ct_TraceID :: string
  ct_EventHashes :: "string list"
  ct_MerkleTree :: "tree option"
  ct_RootHash :: string
  ct_TimeProof :: "TimeProof option"
  ct_AnchorProof :: "AnchorProof option"
  ct_Metadata :: "Metadata option"

record DisclosedEvent =
  dv_EventIndex :: int
  dv_EventType :: string
  dv_EventHash :: string
  dv_DisclosedFields :: "string \<rightharpoonup> string"

record EventMerkleProof =
  mp_EventIndex :: int
  mp_EventHash :: string
  mp_ProofPath :: "proof_node list"

record DisclosureProof =
  dp_SchemaVersion :: string
  dp_CertID :: string
  dp_RootHash :: string
  dp_DisclosedEvents :: "DisclosedEvent list"
  dp_MerkleProofs :: "EventMerkleProof list"
  dp_TimeProof :: "TimeProof option"
  dp_AnchorProof :: "AnchorProof option"

subsection \<open>The verifier's tree\<close>

definition v_hashPair :: "string \<Rightarrow> string \<Rightarrow> string" where
  "v_hashPair left right = ''sha256:'' @ sha256_hex (left @ right)"

fun v_fold :: "string \<Rightarrow> proof_node list \<Rightarrow> string" where
  "v_fold currentHash [] = currentHash"
| "v_fold currentHash (node # path) =
     (if pn_position node = ''right'' then v_fold (v_hashPair currentHash (pn_hash node)) path
      else v_fold (v_hashPair (pn_hash node) currentHash) path)"

definition verifyMerkleProof :: "string \<Rightarrow> proof_node list \<Rightarrow> string \<Rightarrow> bool" where
  "verifyMerkleProof leafHash path rootHash \<longleftrightarrow> v_fold leafHash path = rootHash"

text \<open>One pass of the inner loop of \<open>buildMerkleRoot\<close>, from index \<open>i\<close>.\<close>

function v_next_level :: "string list \<Rightarrow> nat \<Rightarrow> string list" where
  "v_next_level currentLevel i =
     (if i < length currentLevel
      then let left = currentLevel ! i;
               right = (if i + 1 < length currentLevel then currentLevel ! (i + 1) else left)
           in v_hashPair left right # v_next_level currentLevel (i + 2)
      else [])"
  by pat_completeness auto
termination
  by (relation "measure (\<lambda>(xs, i). length xs - i)") auto

declare v_next_level.simps [simp del]

lemma v_hashPair_eq: "v_hashPair = hashPair"
  by (simp add: fun_eq_iff v_hashPair_def hashPair_def)

lemma v_next_level_eq: "even i \<Longrightarrow> v_next_level xs i = pair_up hashPair (drop i xs)"
proof (induction xs i rule: v_next_level.induct)
  case (1 xs i)
  show ?case
  proof (cases "i < length xs")
    case True
    then have d: "drop i xs = xs ! i # drop (Suc i) xs" by (simp add: Cons_nth_drop_Suc)
    show ?thesis
    proof (cases "Suc i < length xs")
      case True
      then have "drop (Suc i) xs = xs ! Suc i # drop (i + 2) xs" by (simp add: Cons_nth_drop_Suc)
      with d True 1 \<open>i < length xs\<close> show ?thesis
        by (subst v_next_level.simps) (simp add: v_hashPair_eq)
    next
      case False
      with d 1 \<open>i < length xs\<close> show ?thesis
        by (subst v_next_level.simps) (simp add: v_hashPair_eq Let_def)
    qed
  next
    case False
    then show ?thesis by (subst v_next_level.simps) simp
  qed
qed

function v_root_loop :: "string list \<Rightarrow> string list" where
  "v_root_loop currentLevel =
     (if 1 < length currentLevel then v_root_loop (v_next_level currentLevel 0) else currentLevel)"
  by pat_completeness auto
termination
  by (relation "measure length") (auto simp: v_next_level_eq half_up_less)

declare v_root_loop.simps [simp del]

definition buildMerkleRoot :: "string list \<Rightarrow> string" where
  "buildMerkleRoot leaves = (if leaves = [] then '''' else v_root_loop leaves ! 0)"

lemma v_root_loop_eq: "xs \<noteq> [] \<Longrightarrow> v_root_loop xs = [tree_root hashPair xs]"
proof (induction xs rule: v_root_loop.induct)
  case (1 xs)
  show ?case
  proof (cases "1 < length xs")
    case True
    with 1 show ?thesis
      by (subst v_root_loop.simps) (simp add: v_next_level_eq tree_root_step)
  next
    case False
    with "1.prems" have "length xs = 1" by (cases xs) auto
    with False show ?thesis
      by (subst v_root_loop.simps) (auto simp: tree_root_stop length_Suc_conv)
  qed
qed

text \<open>The verifier computes the root of the server's tree.\<close>

lemma buildMerkleRoot_eq: "leaves \<noteq> [] \<Longrightarrow> buildMerkleRoot leaves = tree_root hashPair leaves"
  by (simp add: buildMerkleRoot_def v_root_loop_eq)

lemma v_fold_eq: "v_fold cur path = fold_path cur path"
  by (induction cur path rule: v_fold.induct) (simp_all add: v_hashPair_eq)

subsection \<open>The checks\<close>

definition check_if :: "string \<Rightarrow> bool \<Rightarrow> string \<Rightarrow> string \<Rightarrow> CheckResult" where
  "check_if nm ok good bad = \<lparr>c_Name = nm, c_Passed = ok, c_Message = (if ok then good else bad)\<rparr>"

definition proof_merkle_check :: "EventMerkleProof list \<Rightarrow> string \<Rightarrow> CheckResult" where
  "proof_merkle_check mps rootHash =
     (let n = length mps;
          validProofs = length (filter (\<lambda>mp. verifyMerkleProof (mp_EventHash mp) (mp_ProofPath mp) rootHash) mps)
      in if n = 0 then \<lparr>c_Name = ''Merkle Proofs'', c_Passed = False, c_Message = ''No merkle proofs provided''\<rparr>
         else check_if ''Merkle Proofs'' (validProofs = n)
           (''All '' @ itoa (int validProofs) @ '' proofs verified'')
           (itoa (int (n - validProofs)) @ ''/'' @ itoa (int n) @ '' proofs failed''))"

definition time_check :: "TimeProof option \<Rightarrow> string \<Rightarrow> CheckResult" where
  "time_check tp none = \<lparr>c_Name = ''Time Proof'', c_Passed = True,
     c_Message = (case tp of None \<Rightarrow> none | Some t \<Rightarrow> tp_ProofType t @ '' @ '' @ tp_Timestamp t)\<rparr>"

definition anchor_check :: "AnchorProof option \<Rightarrow> string \<Rightarrow> CheckResult" where
  "anchor_check ap none = \<lparr>c_Name = ''Anchor Proof'', c_Passed = True,
     c_Message = (case ap of None \<Rightarrow> none | Some a \<Rightarrow> ap_AnchorType a @ '': '' @ ap_AnchorID a)\<rparr>"

text \<open>\<open>result.Valid\<close> starts true and is cleared by each of the three checks that can fail.\<close>

definition VerifyDisclosure :: "DisclosureProof \<Rightarrow> VerifyResult" where
  "VerifyDisclosure p =
     (let schemaCheck = check_if ''Schema Version'' (dp_SchemaVersion p \<noteq> '''') (dp_SchemaVersion p)
            ''Missing schema version'';
          rootHashCheck = check_if ''Root Hash Format'' (hasPrefix (dp_RootHash p) ''sha256:'')
            ''Valid SHA256 format'' ''Invalid root hash format'';
          merkleCheck = proof_merkle_check (dp_MerkleProofs p) (dp_RootHash p);
          valid = True;
          valid = (if c_Passed schemaCheck then valid else False);
          valid = (if c_Passed rootHashCheck then valid else False);
          valid = (if c_Passed merkleCheck then valid else False)
      in \<lparr>r_Valid = valid, r_CertID = dp_CertID p, r_RootHash = dp_RootHash p,
          r_EventCount = length (dp_MerkleProofs p),
          r_Checks = [schemaCheck, rootHashCheck, merkleCheck,
            time_check (dp_TimeProof p) ''No time proof (optional)'',
            anchor_check (dp_AnchorProof p) ''No anchor proof (optional)'']\<rparr>)"

definition cert_merkle_check :: "Certificate \<Rightarrow> CheckResult" where
  "cert_merkle_check cert =
     (case ct_MerkleTree cert of
        Some _ \<Rightarrow> check_if ''Merkle Tree Integrity'' (buildMerkleRoot (ct_EventHashes cert) = ct_RootHash cert)
          ''Root hash verified'' ''Root hash mismatch''
      | None \<Rightarrow> check_if ''Merkle Tree Integrity'' (hasPrefix (ct_RootHash cert) ''sha256:'')
          ''Root hash format valid'' ''Invalid root hash format'')"

definition VerifyCertificate :: "Certificate \<Rightarrow> VerifyResult" where
  "VerifyCertificate cert =
     (let certIDCheck = check_if ''Certificate ID'' (ct_CertID cert \<noteq> '''') (ct_CertID cert)
            ''Missing certificate ID'';
          n = length (ct_EventHashes cert);
          eventCheck = check_if ''Event Hashes'' (n \<noteq> 0) (itoa (int n) @ '' events'') ''No event hashes'';
          merkleCheck = cert_merkle_check cert;
          valid = True;
          valid = (if c_Passed certIDCheck then valid else False);
          valid = (if c_Passed eventCheck then valid else False);
          valid = (if c_Passed merkleCheck then valid else False)
      in \<lparr>r_Valid = valid, r_CertID = ct_CertID cert, r_RootHash = ct_RootHash cert, r_EventCount = n,
          r_Checks = [certIDCheck, eventCheck, merkleCheck,
            time_check (ct_TimeProof cert) ''No time proof'',
            anchor_check (ct_AnchorProof cert) ''No anchor proof'',
            \<lparr>c_Name = ''Evidence Level'', c_Passed = True,
             c_Message = (case ct_Metadata cert of None \<Rightarrow> ''Unknown'' | Some m \<Rightarrow> md_EvidenceLevel m)\<rparr>]\<rparr>)"

datatype file_error = ReadFailed | ParseFailed

text \<open>\<open>data\<close> is the content of the file, if it can be read; \<open>parse\<close> is \<open>json.Unmarshal\<close>.\<close>

definition VerifyProofFile ::
  "(string \<Rightarrow> DisclosureProof option) \<Rightarrow> string option \<Rightarrow> (file_error, VerifyResult) outcome" where
  "VerifyProofFile parse data =
     (case data of None \<Rightarrow> Err ReadFailed
      | Some d \<Rightarrow> (case parse d of None \<Rightarrow> Err ParseFailed | Some p \<Rightarrow> Ok (VerifyDisclosure p)))"

definition VerifyCertFile ::
  "(string \<Rightarrow> Certificate option) \<Rightarrow> string option \<Rightarrow> (file_error, VerifyResult) outcome" where
  "VerifyCertFile parse data =
     (case data of None \<Rightarrow> Err ReadFailed
      | Some d \<Rightarrow> (case parse d of None \<Rightarrow> Err ParseFailed | Some c \<Rightarrow> Ok (VerifyCertificate c)))"

lemmas verifier_defs = VerifyDisclosure_def VerifyCertificate_def check_if_def proof_merkle_check_def
  cert_merkle_check_def time_check_def anchor_check_def verifyMerkleProof_def Let_def

lemma filter_all: "length (filter P xs) = length xs \<longleftrightarrow> (\<forall>x \<in> set xs. P x)"
  using filter_id_conv [of P xs] length_filter_less [of _ xs P]
  by (metis less_irrefl)

lemma Disclosure_valid:
  "r_Valid (VerifyDisclosure p) \<longleftrightarrow> dp_SchemaVersion p \<noteq> '''' \<and> hasPrefix (dp_RootHash p) ''sha256:''
     \<and> dp_MerkleProofs p \<noteq> []
     \<and> (\<forall>mp \<in> set (dp_MerkleProofs p). fold_path (mp_EventHash mp) (mp_ProofPath mp) = dp_RootHash p)"
  by (auto simp: verifier_defs v_fold_eq filter_all)

lemma Certificate_valid:
  "r_Valid (VerifyCertificate c) \<longleftrightarrow> ct_CertID c \<noteq> '''' \<and> ct_EventHashes c \<noteq> []
     \<and> (if ct_MerkleTree c = None then hasPrefix (ct_RootHash c) ''sha256:''
        else tree_root hashPair (ct_EventHashes c) = ct_RootHash c)"
  by (auto simp: verifier_defs buildMerkleRoot_eq split: option.splits)

subsection \<open>Properties\<close>

text \<open>Which disclosure proofs are valid. The verdict is the conjunction of the five checks, and it
  holds exactly when the schema version and the Merkle proofs are present, the root hash has the
  prefix \<open>sha256:\<close>, and every Merkle proof leads to it. The disclosed events are not looked at: no
  check ties a disclosed event, its fields or its hash to a Merkle proof, and the time and anchor
  proofs always pass.\<close>

theorem VerifyDisclosure_valid_iff:
  "(r_Valid (VerifyDisclosure p) \<longleftrightarrow> list_all c_Passed (r_Checks (VerifyDisclosure p)))
   \<and> (r_Valid (VerifyDisclosure p) \<longleftrightarrow> dp_SchemaVersion p \<noteq> '''' \<and> hasPrefix (dp_RootHash p) ''sha256:''
        \<and> dp_MerkleProofs p \<noteq> []
        \<and> list_all (\<lambda>mp. fold_sides hashPair (mp_EventHash mp) (map side_of (mp_ProofPath mp)) = dp_RootHash p)
            (dp_MerkleProofs p))
   \<and> r_Valid (VerifyDisclosure (p\<lparr>dp_DisclosedEvents := evs, dp_TimeProof := tp, dp_AnchorProof := ap\<rparr>))
      = r_Valid (VerifyDisclosure p)"
proof -
  have "list_all c_Passed (r_Checks (VerifyDisclosure p)) = r_Valid (VerifyDisclosure p)"
    by (auto simp: verifier_defs)
  then show ?thesis by (simp add: Disclosure_valid list_all_iff fold_path_sides)
qed

theorem VerifyDisclosure_valid_iff_witness:
  "let p = \<lparr>dp_SchemaVersion = ''1'', dp_CertID = ''c'', dp_RootHash = hashPair ''a'' ''b'', dp_DisclosedEvents = [],
         dp_MerkleProofs = [\<lparr>mp_EventIndex = 0, mp_EventHash = ''a'',
           mp_ProofPath = [\<lparr>pn_hash = ''b'', pn_position = ''right''\<rparr>]\<rparr>], dp_TimeProof = None, dp_AnchorProof = None\<rparr>
   in r_Valid (VerifyDisclosure p)"
  using VerifyDisclosure_valid_iff [THEN conjunct2, THEN conjunct1, of "\<lparr>dp_SchemaVersion = ''1'', dp_CertID = ''c'',
      dp_RootHash = hashPair ''a'' ''b'', dp_DisclosedEvents = [],
      dp_MerkleProofs = [\<lparr>mp_EventIndex = 0, mp_EventHash = ''a'',
           mp_ProofPath = [\<lparr>pn_hash = ''b'', pn_position = ''right''\<rparr>]\<rparr>], dp_TimeProof = None, dp_AnchorProof = None\<rparr>"]
  by (simp add: side_of_def hasPrefix_def hashPair_def)

text \<open>C19. The verifier agrees with the server. A certificate that carries its tree is valid exactly
  when it has an id and its root hash is the root \<open>NewTree\<close> computes on its event hashes, and the
  proof the server's \<open>GetProof\<close> gives for an event with siblings on every level is accepted. Without
  a tree only the prefix of the root hash is checked, so the events are not bound at all.\<close>

theorem VerifyCertificate_agrees_with_server:
  assumes "NewTree (ct_EventHashes cert) = Ok t"
  shows "(ct_MerkleTree cert = Some m \<longrightarrow>
       (r_Valid (VerifyCertificate cert) \<longleftrightarrow> ct_CertID cert \<noteq> '''' \<and> ct_RootHash cert = GetRoot t))
    \<and> (ct_MerkleTree cert = None \<longrightarrow>
       (r_Valid (VerifyCertificate cert) \<longleftrightarrow> ct_CertID cert \<noteq> '''' \<and> hasPrefix (ct_RootHash cert) ''sha256:''))
    \<and> (i < length (ct_EventHashes cert) \<and> paired (length (ct_EventHashes cert)) i \<longrightarrow>
       (\<exists>p. GetProof t (int i) = Ok p \<and> verifyMerkleProof (ct_EventHashes cert ! i) (pr_path p) (GetRoot t)))"
proof -
  have ne: "ct_EventHashes cert \<noteq> []" using assms by (auto simp: NewTree_def)
  then have root: "GetRoot t = tree_root hashPair (ct_EventHashes cert)"
    using NewTree_Ok [OF ne] assms by (auto simp: GetRoot_def)
  have "verifyMerkleProof (ct_EventHashes cert ! i) (proof_path (levels_from hashPair (ct_EventHashes cert)) i) (GetRoot t)"
    if "i < length (ct_EventHashes cert)" "paired (length (ct_EventHashes cert)) i"
    using that by (simp add: verifyMerkleProof_def v_fold_eq fold_path_sides proof_path_paired fold_full_path root)
  then show ?thesis
    using ne GetProof_NewTree [OF assms, of i] by (auto simp: Certificate_valid root)
qed

theorem VerifyCertificate_agrees_with_server_witness:
  "let c = \<lparr>ct_CertID = ''c'', ct_CertVersion = ''1'', ct_SchemaVersion = ''1'', ct_TraceID = ''t'',
         ct_EventHashes = [''a'', ''b''], ct_MerkleTree = None, ct_RootHash = ''sha256:anything'',
         ct_TimeProof = None, ct_AnchorProof = None, ct_Metadata = None\<rparr>
   in r_Valid (VerifyCertificate c)"
proof -
  obtain t where "NewTree [''a'', ''b''] = Ok t" using NewTree_Ok [of "[''a'', ''b'']"] by auto
  then show ?thesis
    using VerifyCertificate_agrees_with_server [of "\<lparr>ct_CertID = ''c'', ct_CertVersion = ''1'', ct_SchemaVersion = ''1'',
      ct_TraceID = ''t'', ct_EventHashes = [''a'', ''b''], ct_MerkleTree = None, ct_RootHash = ''sha256:anything'',
      ct_TimeProof = None, ct_AnchorProof = None, ct_Metadata = None\<rparr>"]
    by (simp add: hasPrefix_def)
qed

end
