(* ===== verification/Batch.thy ===== *)
theory Batch
  imports HashTree "HOL-Library.Multiset"
begin

text \<open>
  Batch anchoring: \<open>server/internal/anchor/batch.go\<close>.

  \<^item> \<open>buildBatchMerkleTree\<close>, \<open>getBatchMerkleProof\<close> and \<open>VerifyBatchProof\<close>: the tree over the root
    hashes of one batch, padded to a power of two. Proofs of every item are complete and sound.
  \<^item> \<open>batch_anchorer\<close> is the struct \<open>BatchAnchorer\<close>. An item's result channel (capacity 1) is a
    number that indexes the buffers \<open>chans\<close>; the channels, the statistics and the map of batches
    are part of the state. Times, batch ids (time and random letters) and the outcome of
    \<open>sort.Slice\<close> (some sorted permutation; the sort is not stable) are arguments.
  \<^item> the \<open>Anchorer\<close> interface is the parameter \<open>anchor\<close>, a function of the cancellation state of the
    context, the request and the state \<open>'w\<close> of the outside world. Each call of \<open>flush\<close> is one step.
\<close>

subsection \<open>The tree of a batch\<close>

definition batchHash :: "string \<Rightarrow> string \<Rightarrow> string" where
  "batchHash l r = sha256_hex (l @ r)"

text \<open>The padding loop: \<open>for len(leaves) & (len(leaves) - 1) != 0\<close>. It ends at a power of two.\<close>

lemma pow2_and: "(2 ^ k :: nat) AND (2 ^ k - 1) = 0"
proof -
  have "(2 ^ k :: nat) AND mask k = take_bit k (2 ^ k)" by (simp add: take_bit_eq_mask)
  also have "\<dots> = 0" by (simp add: take_bit_eq_mod)
  finally show ?thesis by (simp add: mask_eq_exp_minus_1)
qed

lemma and_pred_pow2:
  assumes "0 < n" and "(n :: nat) AND (n - 1) = 0"
  shows "\<exists>k. n = 2 ^ k"
proof -
  obtain k where k: "2 ^ k \<le> n" "n < 2 ^ Suc k"
    using ex_power_ivl1 [of 2 n] assms(1) by auto
  have "n = 2 ^ k"
  proof (rule ccontr)
    assume "n \<noteq> 2 ^ k"
    with k have m: "2 ^ k \<le> n - 1" "n - 1 < 2 ^ Suc k" by auto
    have bitk: "bit x k" if "2 ^ k \<le> x" "x < 2 ^ Suc k" for x :: nat
    proof -
      have "x div 2 ^ k = 1" using that by (intro div_nat_eqI) auto
      then show ?thesis by (simp add: bit_iff_odd)
    qed
    have "bit (n AND (n - 1)) k" using bitk [OF k] bitk [OF m] by (simp add: bit_and_iff)
    with assms(2) show False by simp
  qed
  then show ?thesis ..
qed

definition pow2_above :: "nat \<Rightarrow> nat" where
  "pow2_above n = (LEAST k. n \<le> 2 ^ k)"

lemma pow2_above_ge: "n \<le> 2 ^ pow2_above n"
  unfolding pow2_above_def by (rule LeastI_ex) (metis less_exp order_less_imp_le)

lemma pow2_above_Suc:
  assumes "n \<noteq> 2 ^ pow2_above n"
  shows "pow2_above (Suc n) = pow2_above n"
proof (rule antisym)
  have "Suc n \<le> 2 ^ pow2_above n" using pow2_above_ge [of n] assms by simp
  then show "pow2_above (Suc n) \<le> pow2_above n"
    unfolding pow2_above_def [of "Suc n"] by (rule Least_le)
  have "n \<le> 2 ^ pow2_above (Suc n)" using pow2_above_ge [of "Suc n"] by simp
  then show "pow2_above n \<le> pow2_above (Suc n)"
    unfolding pow2_above_def [of n] by (rule Least_le)
qed

function pad_leaves :: "string list \<Rightarrow> string list" where
  "pad_leaves leaves =
     (if leaves \<noteq> [] \<and> length leaves AND (length leaves - 1) \<noteq> 0
      then pad_leaves (leaves @ [last leaves]) else leaves)"
  by pat_completeness auto
termination
proof (relation "measure (\<lambda>xs. 2 ^ pow2_above (length xs) - length xs)", simp)
  fix leaves :: "string list"
  assume "leaves \<noteq> [] \<and> length leaves AND (length leaves - 1) \<noteq> 0"
  then have ne: "length leaves \<noteq> 2 ^ pow2_above (length leaves)" by (metis pow2_and)
  then show "(leaves @ [last leaves], leaves) \<in> measure (\<lambda>xs. 2 ^ pow2_above (length xs) - length xs)"
    using pow2_above_ge [of "length leaves"] pow2_above_Suc [OF ne] by simp
qed

declare pad_leaves.simps [simp del]

text \<open>One level: \<open>current[i+1]\<close> is read without a check, so a level of odd length is a panic (\<open>None\<close>).\<close>

fun batch_level :: "string list \<Rightarrow> string list option" where
  "batch_level [] = Some []"
| "batch_level [a] = None"
| "batch_level (a # b # xs) = map_option (\<lambda>next. batchHash a b # next) (batch_level xs)"

lemma batch_level_eq:
  "batch_level xs = (if even (length xs) then Some (pair_up batchHash xs) else None)"
  by (induction xs rule: batch_level.induct) auto

function batch_levels :: "string list \<Rightarrow> string list list option" where
  "batch_levels current =
     (if 1 < length current
      then case batch_level current of
        None \<Rightarrow> None
      | Some next \<Rightarrow> map_option (\<lambda>nodes. current # nodes) (batch_levels next)
      else Some [current])"
  by pat_completeness auto
termination
  by (relation "measure length") (auto simp: batch_level_eq half_up_less split: if_splits)

declare batch_levels.simps [simp del]

text \<open>The root is \<open>current[0]\<close> of the last level; no level is empty once there is a leaf.\<close>

definition buildBatchMerkleTree :: "string list \<Rightarrow> (string \<times> string list list) option" where
  "buildBatchMerkleTree leaves =
     (if leaves = [] then Some ('''', [])
      else case batch_levels (pad_leaves leaves) of
        None \<Rightarrow> None
      | Some nodes \<Rightarrow> (case last nodes of [] \<Rightarrow> None | root # _ \<Rightarrow> Some (root, nodes)))"

fun getBatchMerkleProof :: "string list list \<Rightarrow> nat \<Rightarrow> string list" where
  "getBatchMerkleProof (level # level' # nodes) index =
     (let siblingIndex = index XOR 1 in
      (if siblingIndex < length level then [level ! siblingIndex] else [])
      @ getBatchMerkleProof (level' # nodes) (index div 2))"
| "getBatchMerkleProof nodes index = []"

text \<open>Go's integer division truncates toward zero; \<open>index % 2\<close> is 0 exactly for even numbers.\<close>

definition half_trunc :: "int \<Rightarrow> int" where
  "half_trunc i = (if 0 \<le> i then i div 2 else - ((- i) div 2))"

fun batch_fold :: "string \<Rightarrow> string list \<Rightarrow> int \<Rightarrow> string" where
  "batch_fold current [] index = current"
| "batch_fold current (s # proof) index =
     batch_fold (if index mod 2 = 0 then batchHash current s else batchHash s current)
       proof (half_trunc index)"

definition VerifyBatchProof :: "string \<Rightarrow> string \<Rightarrow> string list \<Rightarrow> int \<Rightarrow> bool" where
  "VerifyBatchProof rootHash itemHash proof index \<longleftrightarrow> batch_fold itemHash proof index = rootHash"

subsection \<open>Items, batches and the anchorer\<close>

record AnchorItem =
  CertID :: string
  RootHash :: string
  TenantID :: string
  Priority :: int
  SubmittedAt :: time
  ResultChan :: nat

datatype BatchStatus = BatchStatusPending | BatchStatusAnchoring | BatchStatusAnchored | BatchStatusFailed

record BatchAnchorResult =
  br_Success :: bool
  br_BatchID :: string
  br_BatchRoot :: string
  br_TxHash :: string
  br_BlockHeight :: int
  br_MerkleProof :: "string list"
  br_ProofIndex :: nat
  br_Error :: string
  br_AnchoredAt :: time

record Batch =
  b_ID :: string
  b_Items :: "AnchorItem list"
  b_MerkleRoot :: string
  b_MerkleNodes :: "string list list"
  b_CreatedAt :: time
  b_AnchoredAt :: time
  b_TxHash :: string
  b_BlockHeight :: int
  b_Status :: BatchStatus

record BatchAnchorConfig =
  MaxBatchSize :: int
  FlushInterval :: duration
  AnchorTimeout :: duration
  RetryCount :: int
  RetryDelay :: duration

definition DefaultBatchAnchorConfig :: BatchAnchorConfig where
  "DefaultBatchAnchorConfig = \<lparr>MaxBatchSize = 100, FlushInterval = 60 * 10 ^ 9,
     AnchorTimeout = 300 * 10 ^ 9, RetryCount = 3, RetryDelay = 10 * 10 ^ 9\<rparr>"

text \<open>\<open>AverageBatchSize\<close>, a \<open>float64\<close> quotient, is kept as its numerator and denominator.\<close>

record BatchAnchorStats =
  TotalItems :: int
  TotalBatches :: int
  SuccessfulItems :: int
  FailedItems :: int
  AverageBatchSize :: "int \<times> int"
  GasSaved :: int

record BatchAnchorer =
  ba_config :: BatchAnchorConfig
  pendingItems :: "AnchorItem list"
  batches :: "string \<rightharpoonup> Batch"
  stats :: BatchAnchorStats
  chans :: "nat \<Rightarrow> BatchAnchorResult list"
  next_chan :: nat
  started :: bool
  cancelled :: bool
  closed :: bool

datatype batch_error = ErrBatcherClosed

record AnchorRequest =
  rq_CertID :: string
  rq_RootHash :: string
  rq_Timestamp :: time
  rq_Metadata :: string

record AnchorResult =
  ar_TxHash :: string
  ar_BlockNumber :: "64 word"

type_synonym 'w anchor_call = "bool \<Rightarrow> AnchorRequest \<Rightarrow> 'w \<Rightarrow> (string + AnchorResult) \<times> 'w"

definition NewBatchAnchorer :: "BatchAnchorConfig \<Rightarrow> BatchAnchorer" where
  "NewBatchAnchorer cfg = \<lparr>ba_config = cfg, pendingItems = [], batches = Map.empty,
     stats = \<lparr>TotalItems = 0, TotalBatches = 0, SuccessfulItems = 0, FailedItems = 0,
              AverageBatchSize = (0, 1), GasSaved = 0\<rparr>,
     chans = (\<lambda>_. []), next_chan = 0, started = False, cancelled = False, closed = False\<rparr>"

text \<open>\<open>Start\<close> derives the context of the batcher from a context that is not cancelled.\<close>

definition Start :: "BatchAnchorer \<Rightarrow> BatchAnchorer" where
  "Start ba = ba\<lparr>started := True, cancelled := False\<rparr>"

text \<open>\<open>Submit\<close>; the flag of the result says that a goroutine running \<open>flush\<close> is started.\<close>

definition Submit :: "BatchAnchorer \<Rightarrow> AnchorItem \<Rightarrow> time \<Rightarrow> (batch_error, BatchAnchorer \<times> bool) outcome" where
  "Submit ba item now =
     (if closed ba then Err ErrBatcherClosed
      else let item = item\<lparr>SubmittedAt := now, ResultChan := next_chan ba\<rparr>;
               pending = pendingItems ba @ [item];
               shouldFlush = (int (length pending) \<ge> MaxBatchSize (ba_config ba))
           in Ok (ba\<lparr>pendingItems := pending, next_chan := next_chan ba + 1,
                     stats := (stats ba)\<lparr>TotalItems := TotalItems (stats ba) + 1\<rparr>\<rparr>, shouldFlush))"

text \<open>The comparison of \<open>sort.Slice\<close>, and the contract of a sorting function.\<close>

definition item_less :: "AnchorItem \<Rightarrow> AnchorItem \<Rightarrow> bool" where
  "item_less a b = (if Priority a \<noteq> Priority b then Priority a < Priority b
                    else SubmittedAt a < SubmittedAt b)"

definition sorts :: "(AnchorItem list \<Rightarrow> AnchorItem list) \<Rightarrow> bool" where
  "sorts arrange \<longleftrightarrow> (\<forall>xs. mset (arrange xs) = mset xs \<and> sorted_wrt (\<lambda>a b. \<not> item_less b a) (arrange xs))"

definition createBatch ::
  "BatchAnchorer \<Rightarrow> AnchorItem list \<Rightarrow> string \<Rightarrow> time \<Rightarrow> (Batch \<times> BatchAnchorer) option" where
  "createBatch ba items batchID now =
     (case buildBatchMerkleTree (map RootHash items) of
        None \<Rightarrow> None
      | Some (merkleRoot, merkleNodes) \<Rightarrow>
          let batch = \<lparr>b_ID = batchID, b_Items = items, b_MerkleRoot = merkleRoot,
                b_MerkleNodes = merkleNodes, b_CreatedAt = now, b_AnchoredAt = 0, b_TxHash = '''',
                b_BlockHeight = 0, b_Status = BatchStatusPending\<rparr>
          in Some (batch, ba\<lparr>batches := (batches ba)(batchID \<mapsto> batch),
                   stats := (stats ba)\<lparr>TotalBatches := TotalBatches (stats ba) + 1\<rparr>\<rparr>))"

text \<open>The non-blocking send on a channel of capacity one drops the result when the buffer is full.\<close>

definition batch_result :: "Batch \<Rightarrow> bool \<Rightarrow> string \<Rightarrow> nat \<Rightarrow> BatchAnchorResult" where
  "batch_result batch success errMsg i =
     \<lparr>br_Success = success, br_BatchID = b_ID batch, br_BatchRoot = b_MerkleRoot batch,
      br_TxHash = b_TxHash batch, br_BlockHeight = b_BlockHeight batch,
      br_MerkleProof = getBatchMerkleProof (b_MerkleNodes batch) i, br_ProofIndex = i,
      br_Error = errMsg, br_AnchoredAt = b_AnchoredAt batch\<rparr>"

fun notify_from :: "Batch \<Rightarrow> bool \<Rightarrow> string \<Rightarrow> nat \<Rightarrow> AnchorItem list
    \<Rightarrow> (nat \<Rightarrow> BatchAnchorResult list) \<Rightarrow> nat \<Rightarrow> BatchAnchorResult list" where
  "notify_from batch success errMsg i [] chs = chs"
| "notify_from batch success errMsg i (item # items) chs =
     (let c = ResultChan item in
      notify_from batch success errMsg (i + 1) items
        (if chs c = [] then chs(c := [batch_result batch success errMsg i]) else chs))"

definition notifyResults :: "BatchAnchorer \<Rightarrow> Batch \<Rightarrow> bool \<Rightarrow> string \<Rightarrow> BatchAnchorer" where
  "notifyResults ba batch success errMsg =
     ba\<lparr>chans := notify_from batch success errMsg 0 (b_Items batch) (chans ba)\<rparr>"

definition updateStats :: "BatchAnchorer \<Rightarrow> Batch \<Rightarrow> bool \<Rightarrow> BatchAnchorer" where
  "updateStats ba batch success =
     (let n = int (length (b_Items batch)); st = stats ba;
          st = (if success then st\<lparr>SuccessfulItems := SuccessfulItems st + n,
                                    GasSaved := GasSaved st + (n - 1) * 100000\<rparr>
                else st\<lparr>FailedItems := FailedItems st + n\<rparr>);
          st = (if TotalBatches st > 0 then st\<lparr>AverageBatchSize := (TotalItems st, TotalBatches st)\<rparr>
                else st)
      in ba\<lparr>stats := st\<rparr>)"

text \<open>
  The loop of \<open>anchorBatch\<close>: the outcome is the first success, or the last error (\<open>None\<close> when there
  was no attempt).
\<close>

function anchor_attempts :: "int \<Rightarrow> ('w \<Rightarrow> (string + AnchorResult) \<times> 'w) \<Rightarrow> int \<Rightarrow> string option \<Rightarrow> 'w
    \<Rightarrow> (string option + AnchorResult) \<times> 'w" where
  "anchor_attempts retryCount call attempt lastErr w =
     (if attempt \<le> retryCount
      then case call w of
        (Inl err, w') \<Rightarrow> anchor_attempts retryCount call (attempt + 1) (Some err) w'
      | (Inr result, w') \<Rightarrow> (Inr result, w')
      else (Inl lastErr, w))"
  by pat_completeness auto
termination
  by (relation "measure (\<lambda>(r, _, a, _). nat (r + 1 - a))") auto

declare anchor_attempts.simps [simp del]

text \<open>\<open>json.Marshal\<close> of the two-entry map (sorted keys; batch ids need no escapes).\<close>

definition batch_metadata :: "Batch \<Rightarrow> string" where
  "batch_metadata batch = ''{'' @ [char_of (34 :: nat)] @ ''batch_id'' @ [char_of (34 :: nat)] @ '':''
     @ [char_of (34 :: nat)] @ b_ID batch @ [char_of (34 :: nat)] @ '','' @ [char_of (34 :: nat)]
     @ ''items_count'' @ [char_of (34 :: nat)] @ '':'' @ itoa (int (length (b_Items batch))) @ ''}''"

definition batch_request :: "Batch \<Rightarrow> AnchorRequest" where
  "batch_request batch = \<lparr>rq_CertID = ''batch:'' @ b_ID batch, rq_RootHash = b_MerkleRoot batch,
     rq_Timestamp = b_CreatedAt batch, rq_Metadata = batch_metadata batch\<rparr>"

text \<open>
  \<open>anchorBatch\<close>. The batch is shared with the map, so each change of its fields is a change of the
  map entry. \<open>context.WithTimeout\<close> panics on a nil context (the batcher was never started), and
  \<open>lastErr.Error()\<close> panics when there was no attempt.
\<close>

definition store_batch :: "BatchAnchorer \<Rightarrow> Batch \<Rightarrow> BatchAnchorer" where
  "store_batch ba batch = ba\<lparr>batches := (batches ba)(b_ID batch \<mapsto> batch)\<rparr>"

definition anchorBatch :: "'w anchor_call \<Rightarrow> BatchAnchorer \<Rightarrow> Batch \<Rightarrow> time \<Rightarrow> 'w
    \<Rightarrow> (batch_error, BatchAnchorer \<times> 'w) outcome" where
  "anchorBatch anchor ba batch now w =
     (let batch = batch\<lparr>b_Status := BatchStatusAnchoring\<rparr> in
      if \<not> started ba then Panic
      else case anchor_attempts (RetryCount (ba_config ba)) (anchor (cancelled ba) (batch_request batch))
                  0 None w of
        (Inr result, w') \<Rightarrow>
          let batch = batch\<lparr>b_Status := BatchStatusAnchored, b_TxHash := ar_TxHash result,
                b_BlockHeight := sint (ar_BlockNumber result), b_AnchoredAt := now\<rparr>
          in Ok (updateStats (notifyResults (store_batch ba batch) batch True '''') batch True, w')
      | (Inl (Some err), w') \<Rightarrow>
          let batch = batch\<lparr>b_Status := BatchStatusFailed\<rparr>
          in Ok (updateStats (notifyResults (store_batch ba batch) batch False err) batch False, w')
      | (Inl None, w') \<Rightarrow> Panic)"

definition flush :: "'w anchor_call \<Rightarrow> (AnchorItem list \<Rightarrow> AnchorItem list) \<Rightarrow> BatchAnchorer \<Rightarrow> string
    \<Rightarrow> time \<Rightarrow> time \<Rightarrow> 'w \<Rightarrow> (batch_error, BatchAnchorer \<times> 'w) outcome" where
  "flush anchor arrange ba batchID created anchored w =
     (if pendingItems ba = [] then Ok (ba, w)
      else let items = arrange (pendingItems ba); ba = ba\<lparr>pendingItems := []\<rparr> in
        case createBatch ba items batchID created of
          None \<Rightarrow> Panic
        | Some (batch, ba) \<Rightarrow> anchorBatch anchor ba batch anchored w)"

text \<open>\<open>Stop\<close> closes the batcher, cancels its context (set by \<open>Start\<close>), then flushes.\<close>

definition Stop :: "'w anchor_call \<Rightarrow> (AnchorItem list \<Rightarrow> AnchorItem list) \<Rightarrow> BatchAnchorer \<Rightarrow> string
    \<Rightarrow> time \<Rightarrow> time \<Rightarrow> 'w \<Rightarrow> (batch_error, BatchAnchorer \<times> 'w) outcome" where
  "Stop anchor arrange ba batchID created anchored w =
     flush anchor arrange (ba\<lparr>closed := True, cancelled := (cancelled ba \<or> started ba)\<rparr>)
       batchID created anchored w"

definition Stats :: "BatchAnchorer \<Rightarrow> BatchAnchorStats \<times> nat" where
  "Stats ba = (stats ba, length (pendingItems ba))"

definition GetBatch :: "BatchAnchorer \<Rightarrow> string \<Rightarrow> Batch option" where
  "GetBatch ba batchID = batches ba batchID"

subsection \<open>The tree: lemmas\<close>

lemma pow2_above_pow2: "pow2_above (2 ^ k) = k"
  unfolding pow2_above_def by (rule Least_equality) auto

lemma pad_leaves_eq:
  "leaves \<noteq> [] \<Longrightarrow> pad_leaves leaves =
     leaves @ replicate (2 ^ pow2_above (length leaves) - length leaves) (last leaves)"
proof (induction leaves rule: pad_leaves.induct)
  case (1 leaves)
  let ?n = "length leaves"
  show ?case
  proof (cases "?n AND (?n - 1) = 0")
    case True
    with "1.prems" obtain k where "?n = 2 ^ k" using and_pred_pow2 [of ?n] by auto
    with True "1.prems" show ?thesis by (subst pad_leaves.simps) (simp add: pow2_above_pow2)
  next
    case False
    then have ne: "?n \<noteq> 2 ^ pow2_above ?n" by (metis pow2_and)
    have "pad_leaves (leaves @ [last leaves]) = (leaves @ [last leaves])
        @ replicate (2 ^ pow2_above ?n - Suc ?n) (last leaves)"
      using "1.IH" False "1.prems" by (simp add: pow2_above_Suc [OF ne])
    moreover have "2 ^ pow2_above ?n - ?n = Suc (2 ^ pow2_above ?n - Suc ?n)"
      using pow2_above_ge [of ?n] ne by simp
    ultimately show ?thesis using False "1.prems" by (subst pad_leaves.simps) simp
  qed
qed

lemma length_pad_leaves: "leaves \<noteq> [] \<Longrightarrow> length (pad_leaves leaves) = 2 ^ pow2_above (length leaves)"
  using pow2_above_ge [of "length leaves"] by (simp add: pad_leaves_eq)

lemma nth_pad_leaves: "i < length leaves \<Longrightarrow> pad_leaves leaves ! i = leaves ! i"
  by (cases "leaves = []") (simp_all add: pad_leaves_eq nth_append)

lemma one_less_pow2 [simp]: "Suc 0 < 2 * 2 ^ k"
  using one_le_power [of "2 :: nat" k] by linarith

lemma half_up_power [simp]: "half_up (2 ^ Suc k) = 2 ^ k"
  by (simp add: half_up_def)

lemma batch_levels_eq:
  "length xs = 2 ^ k \<Longrightarrow> batch_levels xs = Some (levels_from batchHash xs)"
proof (induction k arbitrary: xs)
  case 0
  then show ?case by (subst batch_levels.simps) (simp add: levels_from_stop)
next
  case (Suc k)
  then have "1 < length xs" "even (length xs)" by auto
  moreover have "batch_levels (pair_up batchHash xs) = Some (levels_from batchHash (pair_up batchHash xs))"
    using Suc by (intro Suc.IH) (simp only: length_pair_up half_up_power)
  ultimately show ?case by (subst batch_levels.simps) (simp add: batch_level_eq levels_from_step)
qed

text \<open>The tree the code builds is the abstract tree over the padded leaves.\<close>

lemma buildBatch_eq:
  assumes "leaves \<noteq> []"
  shows "buildBatchMerkleTree leaves =
    Some (tree_root batchHash (pad_leaves leaves), levels_from batchHash (pad_leaves leaves))"
proof -
  have "pad_leaves leaves \<noteq> []" using assms by (simp add: pad_leaves_eq)
  then show ?thesis
    using assms by (simp add: buildBatchMerkleTree_def batch_levels_eq [OF length_pad_leaves] last_levels_from)
qed

lemma sibling_less_power: "i < 2 ^ Suc k \<Longrightarrow> sibling i < 2 ^ Suc k"
  by (cases "even i") (auto simp: sibling_def elim!: evenE)

lemma getBatchMerkleProof_eq:
  "length xs = 2 ^ k \<Longrightarrow> i < 2 ^ k \<Longrightarrow>
     getBatchMerkleProof (levels_from batchHash xs) i = map snd (full_path (levels_from batchHash xs) i)"
proof (induction k arbitrary: xs i)
  case 0
  then show ?case by (simp add: levels_from_stop)
next
  case (Suc k)
  then have one: "1 < length xs" by auto
  let ?ys = "pair_up batchHash xs"
  obtain l ls where lv: "levels_from batchHash ?ys = l # ls"
    using levels_from_nonempty [of batchHash ?ys] by (cases "levels_from batchHash ?ys") auto
  have "length ?ys = 2 ^ k" using Suc.prems(1) by (simp only: length_pair_up half_up_power)
  then have "getBatchMerkleProof (levels_from batchHash ?ys) (i div 2)
      = map snd (full_path (levels_from batchHash ?ys) (i div 2))"
    using Suc.prems(2) by (intro Suc.IH) auto
  moreover have "sibling i < length xs" using Suc.prems sibling_less_power by simp
  ultimately show ?case
    using xor_1_sibling [of i] by (simp add: levels_from_step [OF one] lv)
qed

lemma batch_fold_sides:
  "batch_fold cur ps (int i) = fold_sides batchHash cur (zip (index_sides (length ps) i) ps)"
proof (induction ps arbitrary: cur i)
  case (Cons s ps)
  have "half_trunc (int i) = int (i div 2)" by (simp add: half_trunc_def zdiv_int)
  moreover have "int i mod 2 = 0 \<longleftrightarrow> even i" by (metis even_iff_mod_2_eq_zero even_of_nat)
  ultimately show ?case using Cons.IH by simp
qed simp

lemma index_sides_snoc_eq: "zip (map fst fp) (map snd fp) = fp"
  by (simp add: zip_map_fst_snd)

lemma tree_height_power [simp]: "tree_height (2 ^ k) = Suc k"
proof (induction k)
  case (Suc k)
  have "1 < (2 :: nat) ^ Suc k" by simp
  from tree_height_step [OF this] Suc show ?case by (simp only: half_up_power)
qed (simp add: tree_height_stop)

lemma batch_proof_complete:
  assumes "i < length leaves"
  shows "buildBatchMerkleTree leaves = Some (root, nodes) \<Longrightarrow>
     VerifyBatchProof root (leaves ! i) (getBatchMerkleProof nodes i) (int i)
     \<and> length (getBatchMerkleProof nodes i) = pow2_above (length leaves)"
proof -
  assume b: "buildBatchMerkleTree leaves = Some (root, nodes)"
  have ne: "leaves \<noteq> []" using assms by auto
  let ?xs = "pad_leaves leaves" and ?k = "pow2_above (length leaves)"
  let ?fp = "full_path (levels_from batchHash ?xs) i"
  have i: "i < 2 ^ ?k" using assms pow2_above_ge [of "length leaves"] by simp
  have eqs: "root = tree_root batchHash ?xs" "nodes = levels_from batchHash ?xs"
    using b buildBatch_eq [OF ne] by auto
  have p: "getBatchMerkleProof nodes i = map snd ?fp"
    using getBatchMerkleProof_eq [OF length_pad_leaves [OF ne] i] eqs(2) by simp
  have len: "length ?fp = ?k" using length_pad_leaves [OF ne] by (simp add: length_full_path)
  then have "index_sides (length (map snd ?fp)) i = map fst ?fp"
    using length_pad_leaves [OF ne] by (simp add: sides_full_path length_levels_from)
  then have "batch_fold (leaves ! i) (map snd ?fp) (int i) = fold_sides batchHash (?xs ! i) ?fp"
    by (simp add: batch_fold_sides nth_pad_leaves [OF assms] index_sides_snoc_eq)
  also have "\<dots> = tree_root batchHash ?xs"
    using i length_pad_leaves [OF ne] by (intro fold_full_path) simp
  finally show ?thesis using p len by (simp add: VerifyBatchProof_def eqs(1))
qed

subsection \<open>Flushing: lemmas\<close>

lemma notify_other:
  "c \<notin> ResultChan ` set items \<Longrightarrow> notify_from b s e i items chs c = chs c"
  by (induction b s e i items chs rule: notify_from.induct) (auto simp: Let_def)

lemma notify_each:
  "\<lbrakk>distinct (map ResultChan items); \<forall>it \<in> set items. chs (ResultChan it) = []; j < length items\<rbrakk>
   \<Longrightarrow> notify_from b s e i items chs (ResultChan (items ! j)) = [batch_result b s e (i + j)]"
proof (induction b s e i items chs arbitrary: j rule: notify_from.induct)
  case (2 b s e i item items chs)
  let ?chs = "chs(ResultChan item := [batch_result b s e i])"
  have step: "notify_from b s e i (item # items) chs = notify_from b s e (i + 1) items ?chs"
    using "2.prems"(2) by simp
  show ?case
  proof (cases j)
    case 0
    have "ResultChan item \<notin> ResultChan ` set items" using "2.prems"(1) by auto
    with 0 show ?thesis unfolding step by (simp add: notify_other)
  next
    case (Suc k)
    have "\<forall>it \<in> set items. ?chs (ResultChan it) = []"
      using "2.prems"(1,2) by (simp, metis image_eqI)
    moreover have "chs (ResultChan item) = []" using "2.prems"(2) by simp
    ultimately have "notify_from b s e (i + 1) items ?chs (ResultChan (items ! k))
        = [batch_result b s e (i + 1 + k)]"
      using "2.IH" [OF refl, of k] "2.prems"(1,3) Suc by (simp del: fun_upd_apply)
    with Suc show ?thesis unfolding step by simp
  qed
qed simp

text \<open>What the attempts come to: the first success, or as many failures as attempts.\<close>

lemma anchor_attempts_run:
  "case anchor_attempts r call a le w of
     (Inr res, w') \<Rightarrow> \<exists>w0. call w0 = (Inr res, w')
   | (Inl (Some err), w') \<Rightarrow> (if a \<le> r then \<exists>w0. call w0 = (Inl err, w') else le = Some err \<and> w' = w)
   | (Inl None, w') \<Rightarrow> r < a \<and> le = None"
proof (induction r call a le w rule: anchor_attempts.induct)
  case (1 r call a le w)
  show ?case
  proof (cases "a \<le> r")
    case True
    obtain o1 w1 where c: "call w = (o1, w1)" by fastforce
    show ?thesis
    proof (cases o1)
      case (Inl err)
      with True c have "anchor_attempts r call a le w = anchor_attempts r call (a + 1) (Some err) w1"
        by (subst anchor_attempts.simps) simp
      moreover note "1.IH" [OF True c [symmetric] Inl]
      ultimately show ?thesis using True c Inl
        by (auto split: prod.splits sum.splits option.splits if_splits)
    next
      case (Inr res)
      with True c show ?thesis by (subst anchor_attempts.simps) auto
    qed
  next
    case False
    then show ?thesis by (subst anchor_attempts.simps) (auto split: option.splits)
  qed
qed

lemma sorts_set: "sorts arrange \<Longrightarrow> set (arrange xs) = set xs \<and> length (arrange xs) = length xs
    \<and> (distinct (map ResultChan (arrange xs)) \<longleftrightarrow> distinct (map ResultChan xs))"
proof -
  assume "sorts arrange"
  then have m: "mset (arrange xs) = mset xs" by (simp add: sorts_def)
  then have "mset (map ResultChan (arrange xs)) = mset (map ResultChan xs)" by simp
  then have "distinct (map ResultChan (arrange xs)) \<longleftrightarrow> distinct (map ResultChan xs)"
    by (rule mset_eq_imp_distinct_iff)
  with m show ?thesis using mset_eq_setD [OF m] mset_eq_length [OF m] by simp
qed

text \<open>The channels: every pending item has its own, still empty, below the next free number.\<close>

definition chans_ok :: "BatchAnchorer \<Rightarrow> bool" where
  "chans_ok ba \<longleftrightarrow> distinct (map ResultChan (pendingItems ba))
     \<and> (\<forall>it \<in> set (pendingItems ba). ResultChan it < next_chan ba \<and> chans ba (ResultChan it) = [])
     \<and> (\<forall>c \<ge> next_chan ba. chans ba c = [])"

definition stats_ok :: "BatchAnchorer \<Rightarrow> bool" where
  "stats_ok ba \<longleftrightarrow> TotalItems (stats ba)
     = SuccessfulItems (stats ba) + FailedItems (stats ba) + int (length (pendingItems ba))"

text \<open>One flush of a started batcher: the batch it stores, and what it sends.\<close>

lemma flush_run:
  assumes sorts: "sorts arrange" and ba: "pendingItems ba \<noteq> []" "chans_ok ba"
    and ok: "flush anchor arrange ba bid t1 t2 w = Ok (ba', w')"
  shows "\<exists>batch success err. batches ba' = (batches ba)(bid \<mapsto> batch) \<and> b_ID batch = bid
    \<and> b_Items batch = arrange (pendingItems ba) \<and> pendingItems ba' = [] \<and> next_chan ba' = next_chan ba
    \<and> buildBatchMerkleTree (map RootHash (b_Items batch)) = Some (b_MerkleRoot batch, b_MerkleNodes batch)
    \<and> chans ba' = notify_from batch success err 0 (b_Items batch) (chans ba)
    \<and> SuccessfulItems (stats ba') = SuccessfulItems (stats ba) + (if success then int (length (pendingItems ba)) else 0)
    \<and> FailedItems (stats ba') = FailedItems (stats ba) + (if success then 0 else int (length (pendingItems ba)))
    \<and> TotalItems (stats ba') = TotalItems (stats ba)
    \<and> (if success then b_Status batch = BatchStatusAnchored
           \<and> (\<exists>w0 res. anchor (cancelled ba) (batch_request batch) w0 = (Inr res, w')
                \<and> b_TxHash batch = ar_TxHash res)
       else b_Status batch = BatchStatusFailed \<and> (\<exists>w0. anchor (cancelled ba) (batch_request batch) w0 = (Inl err, w')))"
proof -
  let ?items = "arrange (pendingItems ba)"
  have len: "length ?items = length (pendingItems ba)" using sorts_set [OF sorts] by blast
  then have ne: "map RootHash ?items \<noteq> []" using ba(1) by auto
  obtain root nodes where tree: "buildBatchMerkleTree (map RootHash ?items) = Some (root, nodes)"
    using buildBatch_eq [OF ne] by blast
  let ?b = "\<lparr>b_ID = bid, b_Items = ?items, b_MerkleRoot = root, b_MerkleNodes = nodes, b_CreatedAt = t1,
    b_AnchoredAt = 0, b_TxHash = '''', b_BlockHeight = 0, b_Status = BatchStatusAnchoring\<rparr>"
  let ?call = "anchor (cancelled ba) (batch_request ?b)"
  obtain o1 w1 where run: "anchor_attempts (RetryCount (ba_config ba)) ?call 0 None w = (o1, w1)" by fastforce
  have st: "started ba"
    using ok ba(1) tree by (auto simp: flush_def createBatch_def anchorBatch_def Let_def split: if_splits)
  note facts = ok [unfolded flush_def createBatch_def anchorBatch_def Let_def] ba(1) tree run st len
  note defs = store_batch_def notifyResults_def updateStats_def batch_request_def batch_metadata_def Let_def
  show ?thesis
  proof (cases o1)
    case (Inr res)
    let ?b' = "?b\<lparr>b_Status := BatchStatusAnchored, b_TxHash := ar_TxHash res,
      b_BlockHeight := sint (ar_BlockNumber res), b_AnchoredAt := t2\<rparr>"
    from anchor_attempts_run [where r = "RetryCount (ba_config ba)" and call = ?call and a = 0 and le = None and w = w] run Inr
    obtain w0 where "?call w0 = (Inr res, w1)" by auto
    then show ?thesis using facts Inr
      by (intro exI [of _ ?b'] exI [of _ True] exI [of _ "''''"]) (auto simp: defs)
  next
    case (Inl le)
    obtain err where le: "le = Some err" using facts Inl by (cases le) auto
    let ?b' = "?b\<lparr>b_Status := BatchStatusFailed\<rparr>"
    have "0 \<le> RetryCount (ba_config ba)"
      using run Inl le by (subst (asm) anchor_attempts.simps) (auto split: if_splits)
    with anchor_attempts_run [where r = "RetryCount (ba_config ba)" and call = ?call and a = 0 and le = None and w = w] run Inl le
    obtain w0 where "?call w0 = (Inl err, w1)" by auto
    then show ?thesis using facts Inl le
      by (intro exI [of _ ?b'] exI [of _ False] exI [of _ err]) (auto simp: defs)
  qed
qed

subsection \<open>The batcher as a step system\<close>

inductive ba_step :: "'w anchor_call \<Rightarrow> (AnchorItem list \<Rightarrow> AnchorItem list) \<Rightarrow> BatchAnchorer \<Rightarrow> BatchAnchorer \<Rightarrow> bool"
  for anchor arrange where
  ba_start: "ba_step anchor arrange ba (Start ba)"
| ba_submit: "Submit ba item t = Ok (ba', b) \<Longrightarrow> ba_step anchor arrange ba ba'"
| ba_flush: "flush anchor arrange ba bid t1 t2 w = Ok (ba', w') \<Longrightarrow> ba_step anchor arrange ba ba'"
| ba_stop: "Stop anchor arrange ba bid t1 t2 w = Ok (ba', w') \<Longrightarrow> ba_step anchor arrange ba ba'"
| ba_receive: "ba_step anchor arrange ba (ba\<lparr>chans := (chans ba)(c := [])\<rparr>)"

definition ba_init :: "(AnchorItem list \<Rightarrow> AnchorItem list) \<Rightarrow> BatchAnchorer \<Rightarrow> bool" where
  "ba_init arrange ba \<longleftrightarrow> sorts arrange \<and> (\<exists>cfg. ba = NewBatchAnchorer cfg)"

definition ba_inv :: "(AnchorItem list \<Rightarrow> AnchorItem list) \<Rightarrow> BatchAnchorer \<Rightarrow> bool" where
  "ba_inv arrange ba \<longleftrightarrow> sorts arrange \<and> chans_ok ba \<and> stats_ok ba"

lemma flush_inv:
  assumes "ba_inv arrange ba" and "flush anchor arrange ba bid t1 t2 w = Ok (ba', w')"
  shows "ba_inv arrange ba'"
proof (cases "pendingItems ba = []")
  case True
  then show ?thesis using assms by (simp add: flush_def)
next
  case False
  from assms(1) have inv: "sorts arrange" "chans_ok ba" "stats_ok ba" by (simp_all add: ba_inv_def)
  from flush_run [OF inv(1) False inv(2) assms(2)] obtain batch success err where run:
    "b_Items batch = arrange (pendingItems ba)" "pendingItems ba' = []" "next_chan ba' = next_chan ba"
    "chans ba' = notify_from batch success err 0 (b_Items batch) (chans ba)"
    "SuccessfulItems (stats ba') = SuccessfulItems (stats ba) + (if success then int (length (pendingItems ba)) else 0)"
    "FailedItems (stats ba') = FailedItems (stats ba) + (if success then 0 else int (length (pendingItems ba)))"
    "TotalItems (stats ba') = TotalItems (stats ba)" by blast
  have "chans ba' c = []" if c: "next_chan ba \<le> c" for c
  proof -
    have "c \<notin> ResultChan ` set (b_Items batch)"
      using inv(2) c sorts_set [OF inv(1), of "pendingItems ba"] by (auto simp: chans_ok_def run(1))
    with c inv(2) show ?thesis by (simp add: run(4) notify_other chans_ok_def)
  qed
  then show ?thesis using inv run by (auto simp: ba_inv_def chans_ok_def stats_ok_def)
qed

interpretation batcher: step_system "ba_init arrange" "ba_step anchor arrange" "ba_inv arrange" for anchor arrange
proof unfold_locales
  fix ba
  show "ba_init arrange ba \<Longrightarrow> ba_inv arrange ba"
    by (auto simp: ba_init_def ba_inv_def chans_ok_def stats_ok_def NewBatchAnchorer_def)
next
  fix ba ba'
  assume "ba_step anchor arrange ba ba'" and inv: "ba_inv arrange ba"
  then show "ba_inv arrange ba'"
  proof (cases rule: ba_step.cases)
    case (ba_submit item t b)
    then show ?thesis using inv
      by (auto simp: Submit_def Let_def ba_inv_def chans_ok_def stats_ok_def split: if_splits)
         (fastforce simp: le_Suc_eq)+
  next
    case (ba_stop bid t1 t2 w w')
    have "ba_inv arrange (ba\<lparr>closed := True, cancelled := (cancelled ba \<or> started ba)\<rparr>)"
      using inv by (simp add: ba_inv_def chans_ok_def stats_ok_def)
    then show ?thesis using ba_stop(1) unfolding Stop_def by (rule flush_inv)
  next
    case (ba_flush bid t1 t2 w w')
    from inv this show ?thesis by (rule flush_inv)
  qed (use inv in \<open>auto simp: Start_def ba_inv_def chans_ok_def stats_ok_def\<close>)
qed

lemma flush_total:
  assumes "sorts arrange" and "started ba" and "0 \<le> RetryCount (ba_config ba)" and "pendingItems ba \<noteq> []"
  shows "\<exists>ba' w'. flush anchor arrange ba bid t1 t2 w = Ok (ba', w') \<and> closed ba' = closed ba"
proof -
  let ?items = "arrange (pendingItems ba)"
  have ne: "map RootHash ?items \<noteq> []"
    using sorts_set [OF assms(1), of "pendingItems ba"] assms(4) by auto
  obtain root nodes where tree: "buildBatchMerkleTree (map RootHash ?items) = Some (root, nodes)"
    using buildBatch_eq [OF ne] by blast
  let ?call = "anchor (cancelled ba) (batch_request \<lparr>b_ID = bid, b_Items = ?items, b_MerkleRoot = root,
    b_MerkleNodes = nodes, b_CreatedAt = t1, b_AnchoredAt = 0, b_TxHash = '''', b_BlockHeight = 0,
    b_Status = BatchStatusAnchoring\<rparr>)"
  obtain o1 w1 where "anchor_attempts (RetryCount (ba_config ba)) ?call 0 None w = (o1, w1)" by fastforce
  moreover with anchor_attempts_run [where r = "RetryCount (ba_config ba)" and call = ?call and a = 0
      and le = None and w = w] assms(3) have "o1 \<noteq> Inl None" by auto
  ultimately show ?thesis
    using tree assms(2,4)
    by (cases o1) (auto simp: flush_def createBatch_def anchorBatch_def store_batch_def notifyResults_def
        updateStats_def Let_def split: option.splits)
qed

lemma flush_delivery:
  assumes "sorts arrange" and "started ba" and "0 \<le> RetryCount (ba_config ba)"
    and "pendingItems ba \<noteq> []" and "chans_ok ba"
  shows "\<exists>ba' w' batch. flush anchor arrange ba bid t1 t2 w = Ok (ba', w') \<and> pendingItems ba' = [] \<and> closed ba' = closed ba
    \<and> batches ba' bid = Some batch \<and> mset (b_Items batch) = mset (pendingItems ba)
    \<and> sorted_wrt (\<lambda>a b. \<not> item_less b a) (b_Items batch)
    \<and> (\<forall>item \<in> set (pendingItems ba). \<exists>r. chans ba' (ResultChan item) = [r]
         \<and> br_BatchRoot r = b_MerkleRoot batch \<and> br_BatchID r = bid
         \<and> VerifyBatchProof (br_BatchRoot r) (RootHash item) (br_MerkleProof r) (int (br_ProofIndex r))
         \<and> (if br_Success r then b_Status batch = BatchStatusAnchored
              \<and> (\<exists>w0 res. anchor (cancelled ba) (batch_request batch) w0 = (Inr res, w') \<and> br_TxHash r = ar_TxHash res)
            else b_Status batch = BatchStatusFailed
              \<and> (\<exists>w0. anchor (cancelled ba) (batch_request batch) w0 = (Inl (br_Error r), w'))))"
proof -
  let ?items = "arrange (pendingItems ba)"
  have items: "set ?items = set (pendingItems ba)" "length ?items = length (pendingItems ba)"
    "distinct (map ResultChan ?items)"
    using sorts_set [OF assms(1), of "pendingItems ba"] assms(5) by (auto simp: chans_ok_def)
  obtain ba' w' where ok: "flush anchor arrange ba bid t1 t2 w = Ok (ba', w')" "closed ba' = closed ba"
    using flush_total [OF assms(1-4), of anchor bid t1 t2 w] by blast
  from flush_run [OF assms(1,4,5) ok(1)] obtain batch success err where run:
    "batches ba' = (batches ba)(bid \<mapsto> batch)" "b_ID batch = bid" "b_Items batch = ?items" "pendingItems ba' = []"
    "buildBatchMerkleTree (map RootHash ?items) = Some (b_MerkleRoot batch, b_MerkleNodes batch)"
    "chans ba' = notify_from batch success err 0 ?items (chans ba)"
    "if success then b_Status batch = BatchStatusAnchored
       \<and> (\<exists>w0 res. anchor (cancelled ba) (batch_request batch) w0 = (Inr res, w') \<and> b_TxHash batch = ar_TxHash res)
     else b_Status batch = BatchStatusFailed \<and> (\<exists>w0. anchor (cancelled ba) (batch_request batch) w0 = (Inl err, w'))"
    by auto
  have results: "chans ba' (ResultChan item) = [batch_result batch success err j]
      \<and> VerifyBatchProof (b_MerkleRoot batch) (RootHash item) (getBatchMerkleProof (b_MerkleNodes batch) j) (int j)"
    if "j < length ?items" "item = ?items ! j" for item j
    using notify_each [OF items(3), of "chans ba" j batch success err 0] assms(5) items that
      batch_proof_complete [of j "map RootHash ?items", OF _ run(5)]
    by (auto simp: run(6) chans_ok_def)
  have "mset ?items = mset (pendingItems ba)" "sorted_wrt (\<lambda>a b. \<not> item_less b a) ?items"
    using assms(1) by (simp_all add: sorts_def)
  moreover have "\<exists>j < length ?items. item = ?items ! j" if "item \<in> set (pendingItems ba)" for item
    using that items(1) by (metis in_set_conv_nth)
  ultimately show ?thesis using ok run results
    by (intro exI [of _ ba'] exI [of _ w'] exI [of _ batch]) (fastforce simp: batch_result_def)
qed

subsection \<open>Properties\<close>

text \<open>The tree of a batch never panics, its leaves are padded with copies of the last one to the
  next power of two, and the proof of every item of the batch is accepted by \<open>VerifyBatchProof\<close>
  with the item's index; it has exactly as many entries as the padded tree has levels above the
  leaves.\<close>

theorem batch_proofs_verify:
  assumes "i < length leaves"
  shows "\<exists>root nodes. buildBatchMerkleTree leaves = Some (root, nodes)
    \<and> hd nodes = leaves @ replicate (2 ^ pow2_above (length leaves) - length leaves) (last leaves)
    \<and> root = tree_root batchHash (hd nodes)
    \<and> VerifyBatchProof root (leaves ! i) (getBatchMerkleProof nodes i) (int i)
    \<and> length (getBatchMerkleProof nodes i) = pow2_above (length leaves)"
proof -
  have ne: "leaves \<noteq> []" using assms by auto
  have "hd (levels_from batchHash (pad_leaves leaves)) = pad_leaves leaves"
    by (subst levels_from.simps) simp
  then show ?thesis
    using buildBatch_eq [OF ne] batch_proof_complete [OF assms] pad_leaves_eq [OF ne] by auto
qed

theorem batch_proofs_verify_witness:
  "\<exists>root nodes. buildBatchMerkleTree [''a'', ''b'', ''c''] = Some (root, nodes)
     \<and> VerifyBatchProof root ''c'' (getBatchMerkleProof nodes 2) 2"
  using batch_proofs_verify [of 2 "[''a'', ''b'', ''c'']"] by auto

text \<open>Soundness of batch proofs. For root hashes of 64 characters, a proof of full length that
  \<open>VerifyBatchProof\<close> accepts for the index \<open>i\<close> vouches for the item at \<open>i\<close>, or a collision of SHA-256
  is computed from it.\<close>

theorem VerifyBatchProof_sound:
  assumes "buildBatchMerkleTree leaves = Some (root, nodes)" and "i < length leaves"
    and "\<forall>l \<in> set leaves. length l = 64" and "length h = 64" and "\<forall>s \<in> set ps. length s = 64"
    and "length ps = pow2_above (length leaves)" and "VerifyBatchProof root h ps (int i)"
  shows "h = leaves ! i \<or> is_collision sha256_hex
    (path_collision sha256_hex [] h (zip (index_sides (length ps) i) ps) (leaves ! i) (full_path nodes i))"
proof -
  have ne: "leaves \<noteq> []" using assms(2) by auto
  let ?xs = "pad_leaves leaves"
  have eqs: "root = tree_root batchHash ?xs" "nodes = levels_from batchHash ?xs"
    using assms(1) buildBatch_eq [OF ne] by auto
  have fn: "batchHash = (\<lambda>l r. [] @ sha256_hex (l @ r))" by (simp add: batchHash_def fun_eq_iff)
  have "set ?xs \<subseteq> set leaves" using ne by (auto simp: pad_leaves_eq)
  then have "\<forall>x \<in> set ?xs. length x = length [] + 64" using assms(3) by auto
  moreover have "i < length ?xs" using assms(2) ne by (simp add: pad_leaves_eq)
  moreover have "fold_sides batchHash h (zip (index_sides (length ps) i) ps) = tree_root batchHash ?xs"
    using assms(7) by (simp add: VerifyBatchProof_def batch_fold_sides eqs(1))
  moreover have "length (index_sides k j) = k" for k j
    by (induction k arbitrary: j) auto
  then have "map fst (zip (index_sides (length ps) i) ps) = index_sides (tree_height (length ?xs) - 1) i"
    using assms(6) by (simp add: length_pad_leaves [OF ne])
  moreover have "\<forall>e \<in> set (zip (index_sides (length ps) i) ps). length (snd e) = length [] + 64"
    using assms(5) by (auto dest: set_zip_rightD)
  ultimately have "h = ?xs ! i \<or> is_collision sha256_hex
    (path_collision sha256_hex [] h (zip (index_sides (length ps) i) ps) (?xs ! i) (full_path nodes i))"
    using plain_node.inclusion_sound [of i ?xs h "zip (index_sides (length ps) i) ps"] assms(4)
    unfolding fn eqs(2) by simp
  then show ?thesis by (simp add: nth_pad_leaves [OF assms(2)])
qed

theorem VerifyBatchProof_sound_witness:
  "\<exists>root nodes. buildBatchMerkleTree [replicate 64 CHR ''a''] = Some (root, nodes)
     \<and> VerifyBatchProof root (replicate 64 CHR ''a'') [] (int 0)
     \<and> (replicate 64 CHR ''a'' = [replicate 64 CHR ''a''] ! 0 \<or> is_collision sha256_hex
         (path_collision sha256_hex [] (replicate 64 CHR ''a'') (zip (index_sides (length []) 0) [])
           ([replicate 64 CHR ''a''] ! 0) (full_path nodes 0)))"
proof -
  let ?l = "replicate 64 CHR ''a''"
  obtain root nodes where b: "buildBatchMerkleTree [?l] = Some (root, nodes)"
    using buildBatch_eq [of "[?l]"] by auto
  have p: "pow2_above 1 = 0" using pow2_above_pow2 [of 0] by simp
  have v: "VerifyBatchProof root ?l [] (int 0)"
    using batch_proof_complete [of 0 "[?l]" root nodes] b p by auto
  show ?thesis using VerifyBatchProof_sound [OF b, of 0 ?l "[]"] b v p by auto
qed

text \<open>C7. Delivery. A flush of a started batcher with \<open>RetryCount >= 0\<close> never panics. It stores one
  batch with all pending items, by priority and submission time, and every item's channel holds one
  result whose proof verifies its root hash under the batch root; the result is a success exactly
  when a call of the anchorer with that root succeeded, and then it carries the transaction hash.\<close>

theorem flush_delivers:
  assumes "sorts arrange" and "started ba" and "0 \<le> RetryCount (ba_config ba)"
    and "pendingItems ba \<noteq> []" and "chans_ok ba"
  shows "\<exists>ba' w' batch. flush anchor arrange ba bid t1 t2 w = Ok (ba', w') \<and> pendingItems ba' = []
    \<and> batches ba' bid = Some batch \<and> mset (b_Items batch) = mset (pendingItems ba)
    \<and> sorted_wrt (\<lambda>a b. \<not> item_less b a) (b_Items batch)
    \<and> (\<forall>item \<in> set (pendingItems ba). \<exists>r. chans ba' (ResultChan item) = [r]
         \<and> br_BatchRoot r = b_MerkleRoot batch \<and> br_BatchID r = bid
         \<and> VerifyBatchProof (br_BatchRoot r) (RootHash item) (br_MerkleProof r) (int (br_ProofIndex r))
         \<and> (if br_Success r then b_Status batch = BatchStatusAnchored
              \<and> (\<exists>w0 res. anchor (cancelled ba) (batch_request batch) w0 = (Inr res, w') \<and> br_TxHash r = ar_TxHash res)
            else b_Status batch = BatchStatusFailed
              \<and> (\<exists>w0. anchor (cancelled ba) (batch_request batch) w0 = (Inl (br_Error r), w'))))"
  using flush_delivery [OF assms, of anchor bid t1 t2 w] by blast

text \<open>A sorting function, for the witnesses: sort by time, then (stably) by priority.\<close>

definition arrange_items :: "AnchorItem list \<Rightarrow> AnchorItem list" where
  "arrange_items xs = sort_key Priority (sort_key SubmittedAt xs)"

lemma sorted_wrt_insort:
  assumes "sorted_wrt (\<lambda>a b. \<not> item_less b a) ys" and "sorted (map Priority ys)"
    and "\<forall>y \<in> set ys. SubmittedAt x \<le> SubmittedAt y"
  shows "sorted_wrt (\<lambda>a b. \<not> item_less b a) (insort_key Priority x ys)"
  using assms by (induction ys) (auto simp: item_less_def set_insort_key)

lemma sorts_arrange_items: "sorts arrange_items"
proof -
  have "sorted_wrt (\<lambda>a b. \<not> item_less b a) (sort_key Priority ys)"
    if "sorted (map SubmittedAt ys)" for ys
    using that by (induction ys) (auto intro: sorted_wrt_insort)
  then show ?thesis by (simp add: sorts_def arrange_items_def)
qed

definition sample_item :: AnchorItem where
  "sample_item = \<lparr>CertID = ''c'', RootHash = ''r'', TenantID = ''t'', Priority = 1, SubmittedAt = 0, ResultChan = 0\<rparr>"

definition sample_batcher :: BatchAnchorer where
  "sample_batcher = (NewBatchAnchorer DefaultBatchAnchorConfig)
     \<lparr>pendingItems := [sample_item], next_chan := 1, started := True,
      stats := (stats (NewBatchAnchorer DefaultBatchAnchorConfig))\<lparr>TotalItems := 1\<rparr>\<rparr>"

lemma sample_batcher_ok:
  "chans_ok sample_batcher" "started sample_batcher" "0 \<le> RetryCount (ba_config sample_batcher)"
  "pendingItems sample_batcher = [sample_item]" "\<not> cancelled sample_batcher" "\<not> closed sample_batcher"
  "chans_ok (sample_batcher\<lparr>closed := True, cancelled := True\<rparr>)"
  by (simp_all add: sample_batcher_def sample_item_def chans_ok_def NewBatchAnchorer_def DefaultBatchAnchorConfig_def)

theorem flush_delivers_witness:
  "\<exists>ba' w' r. flush (\<lambda>c rq n. (if n < 2 then Inl ''e'' else Inr \<lparr>ar_TxHash = ''tx'', ar_BlockNumber = 7\<rparr>, n + 1))
      arrange_items sample_batcher ''b'' 1 2 (0 :: nat) = Ok (ba', w')
     \<and> chans ba' 0 = [r] \<and> VerifyBatchProof (br_BatchRoot r) ''r'' (br_MerkleProof r) (int (br_ProofIndex r))"
proof -
  let ?anchor = "\<lambda>(c :: bool) (rq :: AnchorRequest) (n :: nat).
    (if n < 2 then Inl ''e'' else Inr \<lparr>ar_TxHash = ''tx'', ar_BlockNumber = 7\<rparr>, n + 1)"
  from flush_delivers [OF sorts_arrange_items sample_batcher_ok(2,3) _ sample_batcher_ok(1),
      of ?anchor "''b''" 1 2 0]
  obtain ba' w' where f: "flush ?anchor arrange_items sample_batcher ''b'' 1 2 0 = Ok (ba', w')"
    and r: "\<exists>r. chans ba' (ResultChan sample_item) = [r]
      \<and> VerifyBatchProof (br_BatchRoot r) (RootHash sample_item) (br_MerkleProof r) (int (br_ProofIndex r))"
    unfolding sample_batcher_ok(4) by auto
  from r obtain r where "chans ba' 0 = [r]"
      "VerifyBatchProof (br_BatchRoot r) ''r'' (br_MerkleProof r) (int (br_ProofIndex r))"
    by (auto simp: sample_item_def)
  with f show ?thesis by blast
qed



text \<open>Stopping loses the last batch. \<open>Stop\<close> cancels the batcher's context before it flushes, so
  with an anchorer that reports an error under a cancelled context every item that was still
  pending gets a failure, whatever the anchorer would have done; afterwards \<open>Submit\<close> is refused.\<close>

theorem Stop_fails_pending:
  assumes "sorts arrange" and "started ba" and "0 \<le> RetryCount (ba_config ba)"
    and "pendingItems ba \<noteq> []" and "chans_ok ba"
    and honours: "\<And>rq w. \<exists>e. fst (anchor True rq w) = Inl e"
  shows "\<exists>ba' w'. Stop anchor arrange ba bid t1 t2 w = Ok (ba', w') \<and> pendingItems ba' = []
    \<and> (\<forall>item \<in> set (pendingItems ba). \<exists>r. chans ba' (ResultChan item) = [r] \<and> \<not> br_Success r)
    \<and> Submit ba' item t = Err ErrBatcherClosed"
proof -
  let ?ba = "ba\<lparr>closed := True, cancelled := True\<rparr>"
  have "chans_ok ?ba" using assms(5) by (simp add: chans_ok_def)
  from flush_delivery [of arrange ?ba anchor bid t1 t2 w, OF assms(1) _ _ _ this] assms(2-4)
  obtain ba' w' where run: "flush anchor arrange ?ba bid t1 t2 w = Ok (ba', w')" "pendingItems ba' = []" "closed ba'"
    and sent: "\<forall>item \<in> set (pendingItems ba). \<exists>r. chans ba' (ResultChan item) = [r]
      \<and> (br_Success r \<longrightarrow> (\<exists>rq w0 res. anchor True rq w0 = (Inr res, w')))" by fastforce
  have "anchor True rq w0 \<noteq> (Inr res, w')" for rq w0 res using honours [of rq w0] by auto
  then have "\<forall>item \<in> set (pendingItems ba). \<exists>r. chans ba' (ResultChan item) = [r] \<and> \<not> br_Success r"
    using sent by meson
  with run show ?thesis using assms(2)
    by (intro exI [of _ ba'] exI [of _ w']) (simp add: Stop_def Submit_def)
qed

theorem Stop_fails_pending_witness:
  "\<exists>ba' w'. Stop (\<lambda>c rq w. (if c then Inl ''context canceled'' else Inr \<lparr>ar_TxHash = ''tx'', ar_BlockNumber = 7\<rparr>, w))
      arrange_items sample_batcher ''b'' 1 2 (0 :: nat) = Ok (ba', w')
     \<and> (\<exists>r. chans ba' 0 = [r] \<and> \<not> br_Success r)"
proof -
  let ?anchor = "\<lambda>c (rq :: AnchorRequest) (w :: nat).
    (if c then Inl ''context canceled'' else Inr \<lparr>ar_TxHash = ''tx'', ar_BlockNumber = 7\<rparr>, w)"
  have c: "ResultChan sample_item = 0" by (simp add: sample_item_def)
  from Stop_fails_pending [where anchor = ?anchor and ba = sample_batcher and bid = "''b''" and ?t1.0 = 1
      and ?t2.0 = 2 and w = 0, OF sorts_arrange_items sample_batcher_ok(2,3) _ sample_batcher_ok(1)]
  show ?thesis unfolding sample_batcher_ok(4) using c by fastforce
qed

end
