(* ===== verification/Breaker.thy ===== *)
theory Breaker
  imports Prelude
begin

text \<open>
  The circuit breaker, the retry loop and the resilient executor of
  \<open>server/internal/gateway/circuit_breaker.go\<close>.

  \<open>circuit_breaker\<close> is the struct \<open>CircuitBreaker\<close>; \<open>time.Now()\<close> is the argument \<open>now\<close> of each
  method (nanoseconds since the zero \<open>time.Time\<close>), counters are unbounded integers. The goroutine
  that runs the \<open>onStateChange\<close> callback is recorded in \<open>notified\<close>. Each method holds the mutex, so
  it is one atomic step; \<open>brk_step\<close> interleaves the steps of any number of callers and the clock.

  The lemmas show what opens the breaker, what closes it, how many probes it lets through, and that
  a breaker whose probes are used up refuses every later request.
\<close>

subsection \<open>Errors\<close>

text \<open>
  Go errors: a sentinel made by \<open>errors.New\<close>, or an error that wraps another (\<open>errors.Is\<close> walks the
  chain).
\<close>

datatype go_error = Sentinel string | Wrapped string go_error

fun errors_Is :: "go_error \<Rightarrow> go_error \<Rightarrow> bool" where
  "errors_Is (Sentinel m) target \<longleftrightarrow> Sentinel m = target"
| "errors_Is (Wrapped m e) target \<longleftrightarrow> Wrapped m e = target \<or> errors_Is e target"

definition errTooManyRetries :: go_error where
  "errTooManyRetries = Sentinel ''exceeded maximum retry attempts''"

definition errCircuitOpen :: go_error where
  "errCircuitOpen = Sentinel ''circuit breaker is open''"

subsection \<open>The breaker\<close>

datatype CircuitState = StateClosed | StateOpen | StateHalfOpen

primrec CircuitState_String :: "CircuitState \<Rightarrow> string" where
  "CircuitState_String StateClosed = ''closed''"
| "CircuitState_String StateOpen = ''open''"
| "CircuitState_String StateHalfOpen = ''half-open''"

record breaker_config =
  FailureThreshold :: int
  SuccessThreshold :: int
  OpenTimeout :: duration
  HalfOpenMaxRequests :: int

definition DefaultCircuitBreakerConfig :: breaker_config where
  "DefaultCircuitBreakerConfig = \<lparr>FailureThreshold = 5, SuccessThreshold = 3,
     OpenTimeout = 30 * 10 ^ 9, HalfOpenMaxRequests = 3\<rparr>"

record circuit_breaker =
  config :: breaker_config
  state :: CircuitState
  failures :: int
  successes :: int
  lastFailureTime :: time
  halfOpenRequests :: int
  onStateChange :: bool
  notified :: "(CircuitState \<times> CircuitState) list"

definition NewCircuitBreaker :: "breaker_config \<Rightarrow> circuit_breaker" where
  "NewCircuitBreaker cfg = \<lparr>config = cfg, state = StateClosed, failures = 0, successes = 0,
     lastFailureTime = 0, halfOpenRequests = 0, onStateChange = False, notified = []\<rparr>"

definition SetOnStateChange :: "circuit_breaker \<Rightarrow> circuit_breaker" where
  "SetOnStateChange cb = cb\<lparr>onStateChange := True\<rparr>"

definition currentState :: "circuit_breaker \<Rightarrow> time \<Rightarrow> CircuitState" where
  "currentState cb now =
     (if state cb = StateOpen \<and> now - lastFailureTime cb \<ge> OpenTimeout (config cb)
      then StateHalfOpen else state cb)"

definition Allow :: "circuit_breaker \<Rightarrow> time \<Rightarrow> go_error option \<times> circuit_breaker" where
  "Allow cb now =
     (case currentState cb now of
        StateClosed \<Rightarrow> (None, cb)
      | StateOpen \<Rightarrow> (Some errCircuitOpen, cb)
      | StateHalfOpen \<Rightarrow>
          if halfOpenRequests cb \<ge> HalfOpenMaxRequests (config cb) then (Some errCircuitOpen, cb)
          else (None, cb\<lparr>halfOpenRequests := halfOpenRequests cb + 1\<rparr>))"

definition transition :: "circuit_breaker \<Rightarrow> CircuitState \<Rightarrow> circuit_breaker" where
  "transition cb newState =
     (if state cb = newState then cb
      else let oldState = state cb;
               cb1 = cb\<lparr>state := newState\<rparr>;
               cb2 = (case newState of
                        StateClosed \<Rightarrow> cb1\<lparr>failures := 0, successes := 0\<rparr>
                      | StateOpen \<Rightarrow> cb1\<lparr>halfOpenRequests := 0\<rparr>
                      | StateHalfOpen \<Rightarrow> cb1\<lparr>successes := 0, halfOpenRequests := 0\<rparr>)
           in if onStateChange cb2 then cb2\<lparr>notified := notified cb2 @ [(oldState, newState)]\<rparr>
              else cb2)"

definition RecordSuccess :: "circuit_breaker \<Rightarrow> time \<Rightarrow> circuit_breaker" where
  "RecordSuccess cb now =
     (let cb1 = cb\<lparr>failures := 0\<rparr> in
      if currentState cb1 now = StateHalfOpen
      then let cb2 = cb1\<lparr>successes := successes cb1 + 1\<rparr> in
        if successes cb2 \<ge> SuccessThreshold (config cb2) then transition cb2 StateClosed else cb2
      else cb1)"

definition RecordFailure :: "circuit_breaker \<Rightarrow> time \<Rightarrow> circuit_breaker" where
  "RecordFailure cb now =
     (let cb1 = cb\<lparr>failures := failures cb + 1, lastFailureTime := now, successes := 0\<rparr> in
      case currentState cb1 now of
        StateClosed \<Rightarrow>
          if failures cb1 \<ge> FailureThreshold (config cb1) then transition cb1 StateOpen else cb1
      | StateHalfOpen \<Rightarrow> transition cb1 StateOpen
      | StateOpen \<Rightarrow> cb1)"

definition Reset :: "circuit_breaker \<Rightarrow> circuit_breaker" where
  "Reset cb = cb\<lparr>state := StateClosed, failures := 0, successes := 0, halfOpenRequests := 0\<rparr>"

record breaker_stats =
  st_State :: string
  st_Failures :: int
  st_Successes :: int
  st_LastFailureTime :: time
  st_HalfOpenRequests :: int

definition Stats :: "circuit_breaker \<Rightarrow> time \<Rightarrow> breaker_stats" where
  "Stats cb now = \<lparr>st_State = CircuitState_String (currentState cb now), st_Failures = failures cb,
     st_Successes = successes cb, st_LastFailureTime = lastFailureTime cb,
     st_HalfOpenRequests = halfOpenRequests cb\<rparr>"

subsection \<open>The manager\<close>

record breaker_manager =
  breakers :: "string \<rightharpoonup> circuit_breaker"
  m_config :: breaker_config

definition NewCircuitBreakerManager :: "breaker_config \<Rightarrow> breaker_manager" where
  "NewCircuitBreakerManager cfg = \<lparr>breakers = Map.empty, m_config = cfg\<rparr>"

definition GetBreaker :: "breaker_manager \<Rightarrow> string \<Rightarrow> circuit_breaker \<times> breaker_manager" where
  "GetBreaker m name =
     (case breakers m name of
        Some cb \<Rightarrow> (cb, m)
      | None \<Rightarrow> let cb = NewCircuitBreaker (m_config m) in
          (cb, m\<lparr>breakers := (breakers m)(name \<mapsto> cb)\<rparr>))"

definition AllStats :: "breaker_manager \<Rightarrow> time \<Rightarrow> string \<rightharpoonup> breaker_stats" where
  "AllStats m now = (\<lambda>name. map_option (\<lambda>cb. Stats cb now) (breakers m name))"

subsection \<open>Retrying\<close>

record retry_config =
  MaxAttempts :: int
  InitialBackoff :: duration
  MaxBackoff :: duration
  RetryableErrors :: "go_error list"

definition DefaultRetryConfig :: retry_config where
  "DefaultRetryConfig = \<lparr>MaxAttempts = 3, InitialBackoff = 100 * 10 ^ 6, MaxBackoff = 5 * 10 ^ 9,
     RetryableErrors = []\<rparr>"

definition isRetryable :: "go_error \<Rightarrow> go_error list \<Rightarrow> bool" where
  "isRetryable err retryableErrors \<longleftrightarrow>
     retryableErrors = [] \<or> (\<exists>r \<in> set retryableErrors. errors_Is err r)"

text \<open>
  The loop of \<open>Retry\<close>. \<open>scale\<close> is the \<open>float64\<close> product with \<open>BackoffMultiplier\<close> converted back to a
  \<open>Duration\<close>; \<open>ctx_done attempt\<close> is \<open>Some err\<close> when the \<open>select\<close> of that attempt takes the branch
  \<open>ctx.Done()\<close>. The loop also returns the waits it made. \<open>operation\<close> returns Go's pair of a result
  and an error, \<open>None\<close> being \<open>nil\<close>, and threads the state \<open>'s\<close> of the world it acts on.
\<close>

function retry_loop :: "retry_config \<Rightarrow> (duration \<Rightarrow> duration) \<Rightarrow> (int \<Rightarrow> go_error option)
    \<Rightarrow> ('s \<Rightarrow> ('a \<times> go_error option) \<times> 's) \<Rightarrow> int \<Rightarrow> duration \<Rightarrow> 'a \<Rightarrow> 's
    \<Rightarrow> ('a \<times> go_error option) \<times> duration list \<times> 's" where
  "retry_loop cfg scale ctx_done operation attempt backoff result s =
     (if attempt \<le> MaxAttempts cfg
      then let ((result, lastErr), s) = operation s in
        case lastErr of
          None \<Rightarrow> ((result, None), [], s)
        | Some err \<Rightarrow>
            if \<not> isRetryable err (RetryableErrors cfg) then ((result, Some err), [], s)
            else if attempt = MaxAttempts cfg then ((result, Some errTooManyRetries), [], s)
            else (case ctx_done attempt of
              Some e \<Rightarrow> ((result, Some e), [], s)
            | None \<Rightarrow>
                let next = scale backoff;
                    next = (if next > MaxBackoff cfg then MaxBackoff cfg else next);
                    (r, waits, s) = retry_loop cfg scale ctx_done operation (attempt + 1) next result s
                in (r, backoff # waits, s))
      else ((result, Some errTooManyRetries), [], s))"
  by pat_completeness auto
termination
  by (relation "measure (\<lambda>(cfg, _, _, _, attempt, _). nat (MaxAttempts cfg + 1 - attempt))") auto

declare retry_loop.simps [simp del]

text \<open>\<open>zero\<close> is the zero value of the result type.\<close>

definition Retry :: "retry_config \<Rightarrow> (duration \<Rightarrow> duration) \<Rightarrow> (int \<Rightarrow> go_error option)
    \<Rightarrow> ('s \<Rightarrow> ('a \<times> go_error option) \<times> 's) \<Rightarrow> 'a \<Rightarrow> 's
    \<Rightarrow> ('a \<times> go_error option) \<times> duration list \<times> 's" where
  "Retry cfg scale ctx_done operation zero s =
     retry_loop cfg scale ctx_done operation 1 (InitialBackoff cfg) zero s"

text \<open>
  The executor: \<open>Allow\<close> at time \<open>start\<close>, the retries, and the record of the outcome at time \<open>finish\<close>.
\<close>

definition ExecuteWithResult :: "circuit_breaker \<Rightarrow> time \<Rightarrow> time \<Rightarrow> retry_config
    \<Rightarrow> (duration \<Rightarrow> duration) \<Rightarrow> (int \<Rightarrow> go_error option)
    \<Rightarrow> ('s \<Rightarrow> ('a \<times> go_error option) \<times> 's) \<Rightarrow> 'a \<Rightarrow> 's
    \<Rightarrow> ('a \<times> go_error option) \<times> circuit_breaker \<times> 's" where
  "ExecuteWithResult cb start finish cfg scale ctx_done operation zero s =
     (case Allow cb start of
        (Some err, cb1) \<Rightarrow> ((zero, Some err), cb1, s)
      | (None, cb1) \<Rightarrow>
          let ((result, err), waits, s1) = Retry cfg scale ctx_done operation zero s
          in ((result, err),
              (if err \<noteq> None then RecordFailure cb1 finish else RecordSuccess cb1 finish), s1))"

definition Execute :: "circuit_breaker \<Rightarrow> time \<Rightarrow> time \<Rightarrow> retry_config
    \<Rightarrow> (duration \<Rightarrow> duration) \<Rightarrow> (int \<Rightarrow> go_error option)
    \<Rightarrow> ('s \<Rightarrow> go_error option \<times> 's) \<Rightarrow> 's \<Rightarrow> go_error option \<times> circuit_breaker \<times> 's" where
  "Execute cb start finish cfg scale ctx_done operation s =
     (case Allow cb start of
        (Some err, cb1) \<Rightarrow> (Some err, cb1, s)
      | (None, cb1) \<Rightarrow>
          let ((_, err), waits, s1) =
                Retry cfg scale ctx_done (\<lambda>s. case operation s of (e, s') \<Rightarrow> (((), e), s')) () s
          in (err, (if err \<noteq> None then RecordFailure cb1 finish else RecordSuccess cb1 finish), s1))"

subsection \<open>Interleaved callers\<close>

text \<open>
  The breaker, the clock, and the number of calls that were admitted and have not reported yet.
\<close>

record brk_system =
  breaker :: circuit_breaker
  now :: time
  pending :: nat

inductive brk_step :: "brk_system \<Rightarrow> brk_system \<Rightarrow> bool" where
  tick: "0 \<le> d \<Longrightarrow> brk_step s (s\<lparr>now := now s + d\<rparr>)"
| admit: "Allow (breaker s) (now s) = (None, cb) \<Longrightarrow>
    brk_step s (s\<lparr>breaker := cb, pending := pending s + 1\<rparr>)"
| refuse: "Allow (breaker s) (now s) = (Some e, cb) \<Longrightarrow> brk_step s (s\<lparr>breaker := cb\<rparr>)"
| succeed: "pending s = Suc n \<Longrightarrow>
    brk_step s (s\<lparr>breaker := RecordSuccess (breaker s) (now s), pending := n\<rparr>)"
| fail: "pending s = Suc n \<Longrightarrow>
    brk_step s (s\<lparr>breaker := RecordFailure (breaker s) (now s), pending := n\<rparr>)"
| reset: "brk_step s (s\<lparr>breaker := Reset (breaker s)\<rparr>)"

inductive_cases brk_stepE: "brk_step s t"

definition brk_init :: "breaker_config \<Rightarrow> brk_system \<Rightarrow> bool" where
  "brk_init cfg s \<longleftrightarrow> breaker s = NewCircuitBreaker cfg \<and> 0 \<le> now s \<and> pending s = 0"

definition cb_inv :: "breaker_config \<Rightarrow> circuit_breaker \<Rightarrow> bool" where
  "cb_inv cfg cb \<longleftrightarrow> config cb = cfg \<and> state cb \<noteq> StateHalfOpen \<and> 0 \<le> failures cb \<and> 0 \<le> successes cb
     \<and> 0 \<le> halfOpenRequests cb \<and> halfOpenRequests cb \<le> max 0 (HalfOpenMaxRequests cfg)
     \<and> (state cb = StateClosed \<longrightarrow> successes cb = 0 \<and> (failures cb = 0 \<or> failures cb < FailureThreshold cfg))
     \<and> (successes cb = 0 \<or> successes cb < SuccessThreshold cfg)
     \<and> set (notified cb) \<subseteq> {(StateClosed, StateOpen), (StateOpen, StateClosed)}"

lemma cb_inv_New: "cb_inv cfg (NewCircuitBreaker cfg)"
  by (simp add: cb_inv_def NewCircuitBreaker_def)

lemma cb_inv_Allow: "cb_inv cfg cb \<Longrightarrow> Allow cb t = (r, cb') \<Longrightarrow> cb_inv cfg cb'"
  by (auto simp: Allow_def cb_inv_def split: CircuitState.splits if_splits)

lemma cb_inv_RecordSuccess: "cb_inv cfg cb \<Longrightarrow> cb_inv cfg (RecordSuccess cb t)"
  by (cases "state cb")
     (auto simp: RecordSuccess_def currentState_def transition_def Let_def cb_inv_def)

lemma cb_inv_RecordFailure: "cb_inv cfg cb \<Longrightarrow> cb_inv cfg (RecordFailure cb t)"
  by (cases "state cb")
     (auto simp: RecordFailure_def currentState_def transition_def Let_def cb_inv_def)

lemma cb_inv_Reset: "cb_inv cfg cb \<Longrightarrow> cb_inv cfg (Reset cb)"
  by (auto simp: Reset_def cb_inv_def)

lemmas cb_inv_steps = cb_inv_Allow cb_inv_RecordSuccess cb_inv_RecordFailure cb_inv_Reset

definition brk_inv :: "breaker_config \<Rightarrow> brk_system \<Rightarrow> bool" where
  "brk_inv cfg s \<longleftrightarrow> cb_inv cfg (breaker s) \<and> lastFailureTime (breaker s) \<le> now s"

lemma lastFailureTime_ops [simp]:
  "lastFailureTime (RecordSuccess cb t) = lastFailureTime cb"
  "lastFailureTime (RecordFailure cb t) = t"
  "lastFailureTime (Reset cb) = lastFailureTime cb"
  by (auto simp: RecordSuccess_def RecordFailure_def Reset_def transition_def Let_def
      split: CircuitState.splits if_splits)

lemma lastFailureTime_Allow: "Allow cb t = (r, cb') \<Longrightarrow> lastFailureTime cb' = lastFailureTime cb"
  by (auto simp: Allow_def split: CircuitState.splits if_splits)

interpretation brk: step_system "brk_init cfg" brk_step "brk_inv cfg" for cfg
proof unfold_locales
  fix s
  show "brk_init cfg s \<Longrightarrow> brk_inv cfg s"
    by (auto simp: brk_init_def brk_inv_def cb_inv_New) (simp add: NewCircuitBreaker_def)
next
  fix s t
  assume "brk_step s t" and "brk_inv cfg s"
  then show "brk_inv cfg t"
    by (cases rule: brk_step.cases) (auto simp: brk_inv_def lastFailureTime_Allow intro: cb_inv_steps)
qed

subsection \<open>Sequences of events\<close>

datatype brk_event = Ask | Good | Bad

fun brk_run :: "circuit_breaker \<Rightarrow> (time \<times> brk_event) list \<Rightarrow> go_error option list \<times> circuit_breaker" where
  "brk_run cb [] = ([], cb)"
| "brk_run cb ((t, Ask) # evs) =
     (let (r, cb1) = Allow cb t; (rs, cb2) = brk_run cb1 evs in (r # rs, cb2))"
| "brk_run cb ((t, Good) # evs) = brk_run (RecordSuccess cb t) evs"
| "brk_run cb ((t, Bad) # evs) = brk_run (RecordFailure cb t) evs"

definition exhausted :: "circuit_breaker \<Rightarrow> bool" where
  "exhausted cb \<longleftrightarrow> state cb = StateOpen \<and> HalfOpenMaxRequests (config cb) \<le> halfOpenRequests cb"

lemma exhausted_Allow: "exhausted cb \<Longrightarrow> Allow cb t = (Some errCircuitOpen, cb)"
  by (auto simp: exhausted_def Allow_def currentState_def)

lemma RecordFailure_open: "state cb = StateOpen \<Longrightarrow>
    RecordFailure cb t = cb\<lparr>failures := failures cb + 1, lastFailureTime := t, successes := 0\<rparr>"
  by (simp add: RecordFailure_def currentState_def transition_def Let_def)

lemma exhausted_RecordFailure: "exhausted cb \<Longrightarrow> exhausted (RecordFailure cb t)"
  unfolding exhausted_def by (simp add: RecordFailure_open)

lemma exhausted_run:
  "exhausted cb \<Longrightarrow> \<forall>e \<in> set evs. snd e \<noteq> Good \<Longrightarrow>
   set (fst (brk_run cb evs)) \<subseteq> {Some errCircuitOpen} \<and> exhausted (snd (brk_run cb evs))"
  by (induction cb evs rule: brk_run.induct)
     (simp_all add: exhausted_Allow exhausted_RecordFailure case_prod_beta)

lemma failures_while_closed:
  assumes "state cb = StateClosed" and "failures cb + int (length ts) < FailureThreshold (config cb)"
  shows "foldl RecordFailure cb ts = (if ts = [] then cb else
    cb\<lparr>failures := failures cb + int (length ts), lastFailureTime := last ts, successes := 0\<rparr>)"
  using assms
proof (induction ts arbitrary: cb)
  case Nil
  then show ?case by simp
next
  case (Cons t ts)
  have "RecordFailure cb t = cb\<lparr>failures := failures cb + 1, lastFailureTime := t, successes := 0\<rparr>"
    using Cons.prems by (simp add: RecordFailure_def currentState_def Let_def)
  then show ?case using Cons.IH [of "cb\<lparr>failures := failures cb + 1, lastFailureTime := t, successes := 0\<rparr>"]
      Cons.prems by auto
qed

text \<open>One probe of an open breaker: admitted after the timeout, then reported as a success.\<close>

lemma probe_Allow:
  assumes "state cb = StateOpen" and "OpenTimeout (config cb) \<le> t - lastFailureTime cb"
    and "halfOpenRequests cb < HalfOpenMaxRequests (config cb)"
  shows "Allow cb t = (None, cb\<lparr>halfOpenRequests := halfOpenRequests cb + 1\<rparr>)"
  using assms by (simp add: Allow_def currentState_def)

fun probes_ok :: "circuit_breaker \<Rightarrow> time list \<Rightarrow> bool \<times> circuit_breaker" where
  "probes_ok cb [] = (True, cb)"
| "probes_ok cb (t # ts) =
     (let (r, cb1) = Allow cb t; (b, cb2) = probes_ok (RecordSuccess cb1 t) ts in (r = None \<and> b, cb2))"

lemma probes_ok_close:
  assumes "state cb = StateOpen" and "ts \<noteq> []"
    and "\<forall>t \<in> set ts. lastFailureTime cb + OpenTimeout (config cb) \<le> t"
    and "halfOpenRequests cb + int (length ts) \<le> HalfOpenMaxRequests (config cb)"
    and "successes cb + int (length ts) = SuccessThreshold (config cb)"
  shows "\<exists>cb'. probes_ok cb ts = (True, cb') \<and> state cb' = StateClosed \<and> failures cb' = 0
    \<and> successes cb' = 0"
  using assms
proof (induction ts arbitrary: cb)
  case (Cons t ts)
  let ?cb1 = "cb\<lparr>halfOpenRequests := halfOpenRequests cb + 1\<rparr>"
  have allow: "Allow cb t = (None, ?cb1)" using Cons.prems by (intro probe_Allow) auto
  have half: "currentState (?cb1\<lparr>failures := 0\<rparr>) t = StateHalfOpen"
    using Cons.prems by (simp add: currentState_def)
  show ?case
  proof (cases "ts = []")
    case True
    then have "SuccessThreshold (config cb) = successes cb + 1" using Cons.prems(5) by simp
    with True half Cons.prems(1) show ?thesis
      by (simp add: allow RecordSuccess_def transition_def Let_def)
  next
    case False
    let ?cb2 = "?cb1\<lparr>failures := 0, successes := successes cb + 1\<rparr>"
    have "successes cb + 1 < SuccessThreshold (config cb)" using Cons.prems(5) False by (cases ts) auto
    then have "RecordSuccess ?cb1 t = ?cb2" using half by (simp add: RecordSuccess_def Let_def)
    then show ?thesis using Cons.IH [of ?cb2] Cons.prems False by (simp add: allow)
  qed
qed simp

subsection \<open>The retry loop\<close>

text \<open>The state after \<open>k\<close> calls of the operation, and what the next call returns.\<close>

fun after_calls :: "('s \<Rightarrow> 'r \<times> 's) \<Rightarrow> 's \<Rightarrow> nat \<Rightarrow> 's" where
  "after_calls operation s 0 = s"
| "after_calls operation s (Suc k) = after_calls operation (snd (operation s)) k"

definition call_result :: "('s \<Rightarrow> 'r \<times> 's) \<Rightarrow> 's \<Rightarrow> nat \<Rightarrow> 'r" where
  "call_result operation s k = fst (operation (after_calls operation s k))"

text \<open>The error the loop returns after the call number \<open>n\<close>, and whether it goes on.\<close>

definition attempt_error ::
  "retry_config \<Rightarrow> (int \<Rightarrow> go_error option) \<Rightarrow> int \<Rightarrow> go_error option \<Rightarrow> go_error option" where
  "attempt_error cfg ctx_done n err =
     (case err of
        None \<Rightarrow> None
      | Some e \<Rightarrow>
          if \<not> isRetryable e (RetryableErrors cfg) then Some e
          else if n = MaxAttempts cfg then Some errTooManyRetries
          else ctx_done n)"

definition goes_on :: "retry_config \<Rightarrow> (int \<Rightarrow> go_error option) \<Rightarrow> int \<Rightarrow> go_error option \<Rightarrow> bool" where
  "goes_on cfg ctx_done n err \<longleftrightarrow>
     (\<exists>e. err = Some e \<and> isRetryable e (RetryableErrors cfg)) \<and> n \<noteq> MaxAttempts cfg \<and> ctx_done n = None"

lemma retry_loop_run:
  assumes "a \<le> MaxAttempts cfg"
  shows "\<exists>k. let n = a + int k; (res, err) = call_result operation s k;
        (r, waits, s') = retry_loop cfg scale ctx_done operation a backoff result s in
      n \<le> MaxAttempts cfg \<and> (\<forall>j < k. goes_on cfg ctx_done (a + int j) (snd (call_result operation s j)))
      \<and> \<not> goes_on cfg ctx_done n err \<and> r = (res, attempt_error cfg ctx_done n err)
      \<and> s' = after_calls operation s (Suc k) \<and> length waits = k
      \<and> (\<forall>w \<in> set waits. w \<le> max backoff (MaxBackoff cfg))"
  using assms
proof (induction "nat (MaxAttempts cfg - a)" arbitrary: a backoff result s rule: less_induct)
  case less
  obtain res err s1 where op: "operation s = ((res, err), s1)" by (metis prod.exhaust)
  have zero: "call_result operation s 0 = (res, err)" by (simp add: call_result_def op)
  have suc: "call_result operation s (Suc k) = call_result operation s1 k" for k
    by (simp add: call_result_def op)
  show ?case
  proof (cases "goes_on cfg ctx_done a err")
    case True
    then obtain e where e: "err = Some e" "isRetryable e (RetryableErrors cfg)" "a \<noteq> MaxAttempts cfg"
      "ctx_done a = None" by (auto simp: goes_on_def)
    let ?b = "if scale backoff > MaxBackoff cfg then MaxBackoff cfg else scale backoff"
    obtain r waits s' where rec:
      "retry_loop cfg scale ctx_done operation (a + 1) ?b res s1 = (r, waits, s')" by (metis prod.exhaust)
    have step: "retry_loop cfg scale ctx_done operation a backoff result s = (r, backoff # waits, s')"
      using less.prems e rec by (subst retry_loop.simps) (simp add: op Let_def)
    have "nat (MaxAttempts cfg - (a + 1)) < nat (MaxAttempts cfg - a)" "a + 1 \<le> MaxAttempts cfg"
      using less.prems e(3) by auto
    from less.hyps [OF this, of s1 ?b res] rec obtain k where k:
      "a + 1 + int k \<le> MaxAttempts cfg"
      "\<forall>j < k. goes_on cfg ctx_done (a + 1 + int j) (snd (call_result operation s1 j))"
      "\<not> goes_on cfg ctx_done (a + 1 + int k) (snd (call_result operation s1 k))"
      "r = (fst (call_result operation s1 k),
            attempt_error cfg ctx_done (a + 1 + int k) (snd (call_result operation s1 k)))"
      "s' = after_calls operation s1 (Suc k)" "length waits = k"
      "\<forall>w \<in> set waits. w \<le> max ?b (MaxBackoff cfg)"
      by (fastforce simp: Let_def case_prod_beta)
    have "\<forall>w \<in> set waits. w \<le> MaxBackoff cfg" using k(7) by (auto split: if_splits)
    moreover have "\<forall>j < Suc k. goes_on cfg ctx_done (a + int j) (snd (call_result operation s j))"
      using k(2) True zero suc by (auto simp: less_Suc_eq_0_disj algebra_simps)
    ultimately show ?thesis using k step suc [of k]
      by (intro exI [of _ "Suc k"]) (auto simp: Let_def case_prod_beta op algebra_simps)
  next
    case False
    have "retry_loop cfg scale ctx_done operation a backoff result s
        = ((res, attempt_error cfg ctx_done a err), [], s1)"
      using less.prems False
      by (subst retry_loop.simps)
         (auto simp: op Let_def goes_on_def attempt_error_def split: option.splits)
    then show ?thesis using False less.prems zero by (intro exI [of _ 0]) (simp add: op)
  qed
qed

subsection \<open>Properties\<close>



text \<open>The threshold. Consecutive failures open a new breaker at the \<open>FailureThreshold\<close>-th one and
  not before; from then on it stays open, and refuses every call made less than \<open>OpenTimeout\<close> after
  the last failure.\<close>

theorem breaker_opens_at_threshold:
  fixes ts :: "time list"
  assumes "0 < FailureThreshold cfg"
  defines "cb \<equiv> foldl RecordFailure (NewCircuitBreaker cfg) ts"
  shows "state cb = (if int (length ts) < FailureThreshold cfg then StateClosed else StateOpen)
    \<and> (FailureThreshold cfg \<le> int (length ts) \<longrightarrow> (\<forall>t < last ts + OpenTimeout cfg.
         Allow cb t = (Some errCircuitOpen, cb)))"
proof -
  have closed: "foldl RecordFailure (NewCircuitBreaker cfg) us = (if us = [] then NewCircuitBreaker cfg else
      (NewCircuitBreaker cfg)\<lparr>failures := int (length us), lastFailureTime := last us\<rparr>)"
    if "int (length us) < FailureThreshold cfg" for us
    using failures_while_closed [of "NewCircuitBreaker cfg" us] that by (simp add: NewCircuitBreaker_def)
  have opened: "state (foldl RecordFailure cb us) = StateOpen \<and> config (foldl RecordFailure cb us) = config cb
      \<and> (us \<noteq> [] \<longrightarrow> lastFailureTime (foldl RecordFailure cb us) = last us)" if "state cb = StateOpen" for cb us
    using that by (induction us arbitrary: cb) (auto simp: RecordFailure_open)
  show ?thesis
  proof (cases "int (length ts) < FailureThreshold cfg")
    case True
    with closed [of ts] show ?thesis by (auto simp: cb_def NewCircuitBreaker_def)
  next
    case False
    let ?n = "nat (FailureThreshold cfg) - 1"
    have n: "?n < length ts" and F: "FailureThreshold cfg = int ?n + 1" using False assms(1) by auto
    obtain u us where split: "ts = take ?n ts @ u # us" using take_nth_drop_eq [OF n] by blast
    let ?cb = "RecordFailure (foldl RecordFailure (NewCircuitBreaker cfg) (take ?n ts)) u"
    have "length (take ?n ts) = ?n" "int (length (take ?n ts)) < FailureThreshold cfg" using n F by simp_all
    with closed [of "take ?n ts"] F have "state ?cb = StateOpen \<and> config ?cb = cfg"
      by (auto simp: RecordFailure_def currentState_def transition_def Let_def NewCircuitBreaker_def)
    moreover have "cb = foldl RecordFailure ?cb us"
      unfolding cb_def by (subst split) simp
    moreover have "lastFailureTime ?cb = u" by simp
    ultimately have "state cb = StateOpen" "config cb = cfg" "lastFailureTime cb = last (u # us)"
      using opened [of ?cb us] by auto
    moreover have "last ts = last (u # us)" by (subst split) simp
    ultimately show ?thesis using False by (auto simp: Allow_def currentState_def)
  qed
qed

theorem breaker_opens_at_threshold_witness:
  "state (foldl RecordFailure (NewCircuitBreaker DefaultCircuitBreakerConfig) [1, 2, 3, 4]) = StateClosed
   \<and> state (foldl RecordFailure (NewCircuitBreaker DefaultCircuitBreakerConfig) [1, 2, 3, 4, 5]) = StateOpen"
  using breaker_opens_at_threshold [of DefaultCircuitBreakerConfig "[1, 2, 3, 4]"]
    breaker_opens_at_threshold [of DefaultCircuitBreakerConfig "[1, 2, 3, 4, 5]"]
  by (simp add: DefaultCircuitBreakerConfig_def)

text \<open>C22. Recovery. After \<open>OpenTimeout\<close>, \<open>SuccessThreshold\<close> successful probes in a row are all
  admitted and close an open breaker, with its counters reset, provided so many probes are left.\<close>

theorem breaker_recovers:
  assumes "state cb = StateOpen" and "successes cb = 0" and "0 < SuccessThreshold (config cb)"
    and "length ts = nat (SuccessThreshold (config cb))"
    and "halfOpenRequests cb + SuccessThreshold (config cb) \<le> HalfOpenMaxRequests (config cb)"
    and "\<forall>t \<in> set ts. lastFailureTime cb + OpenTimeout (config cb) \<le> t"
  shows "\<exists>cb'. probes_ok cb ts = (True, cb') \<and> state cb' = StateClosed \<and> failures cb' = 0
    \<and> successes cb' = 0"
  using assms by (intro probes_ok_close) auto

theorem breaker_recovers_witness:
  "\<exists>cb'. probes_ok ((NewCircuitBreaker DefaultCircuitBreakerConfig)\<lparr>state := StateOpen\<rparr>)
     [40000000000, 40000000001, 40000000002] = (True, cb') \<and> state cb' = StateClosed
     \<and> failures cb' = 0 \<and> successes cb' = 0"
  by (rule breaker_recovers) (simp_all add: NewCircuitBreaker_def DefaultCircuitBreakerConfig_def)

text \<open>No recovery once the probes are used up. A failed probe neither leaves the open state nor
  gives its probe back (\<open>RecordFailure\<close> moves \<open>lastFailureTime\<close> before it looks at the state), so
  an open breaker with \<open>halfOpenRequests = HalfOpenMaxRequests\<close> refuses every later call, at any
  time and after any failures; the executor then never runs the operation again.\<close>

theorem breaker_exhausted_refuses:
  assumes "state cb = StateOpen" and "HalfOpenMaxRequests (config cb) \<le> halfOpenRequests cb"
  shows "((\<forall>e \<in> set evs. snd e \<noteq> Good) \<longrightarrow> set (fst (brk_run cb evs)) \<subseteq> {Some errCircuitOpen})
    \<and> Execute cb start finish cfg scale ctx_done operation s = (Some errCircuitOpen, cb, s)"
  using exhausted_run [of cb evs] exhausted_Allow [of cb start] assms
  by (auto simp: exhausted_def Execute_def)

theorem breaker_exhausted_refuses_witness:
  "let fails = map (\<lambda>t. (t, Bad)) [1, 2, 3, 4, 5];
       probes = concat (map (\<lambda>t. [(t, Ask), (t + 1, Bad)]) [10 ^ 11, 2 * 10 ^ 11, 3 * 10 ^ 11]);
       (rs, cb) = brk_run (NewCircuitBreaker DefaultCircuitBreakerConfig) (fails @ probes)
   in rs = [None, None, None]
      \<and> fst (brk_run cb [(10 ^ 12, Ask), (10 ^ 15, Ask), (10 ^ 18, Ask)])
        = [Some errCircuitOpen, Some errCircuitOpen, Some errCircuitOpen]
      \<and> fst (Execute cb (10 ^ 18) (10 ^ 18) DefaultRetryConfig id (\<lambda>_. None) (\<lambda>s. (None, s)) ())
        = Some errCircuitOpen"
proof -
  let ?cb = "(NewCircuitBreaker DefaultCircuitBreakerConfig)
    \<lparr>state := StateOpen, failures := 8, lastFailureTime := 3 * 10 ^ 11 + 1, halfOpenRequests := 3\<rparr>"
  have run: "brk_run (NewCircuitBreaker DefaultCircuitBreakerConfig)
    (map (\<lambda>t. (t, Bad)) [1, 2, 3, 4, 5]
     @ concat (map (\<lambda>t. [(t, Ask), (t + 1, Bad)]) [10 ^ 11, 2 * 10 ^ 11, 3 * 10 ^ 11]))
    = ([None, None, None], ?cb)"
    by (simp add: NewCircuitBreaker_def DefaultCircuitBreakerConfig_def RecordFailure_def currentState_def
        transition_def Allow_def)
  have cb: "state ?cb = StateOpen" "HalfOpenMaxRequests (config ?cb) \<le> halfOpenRequests ?cb"
    by (simp_all add: NewCircuitBreaker_def DefaultCircuitBreakerConfig_def)
  show ?thesis
    unfolding run Let_def prod.case
    using breaker_exhausted_refuses [OF cb, where evs = "[]" and s = "()"] exhausted_Allow [of ?cb] cb
    by (simp add: exhausted_def)
qed

text \<open>\<open>Retry\<close> makes between one and \<open>MaxAttempts\<close> calls, waits once between two calls, never
  longer than the larger of \<open>InitialBackoff\<close> and \<open>MaxBackoff\<close>, goes on exactly after retryable
  failures, and returns the result of its last call with the error that ended it; with
  \<open>MaxAttempts < 1\<close> it reports \<open>ErrTooManyRetries\<close> without a call.\<close>

theorem Retry_calls:
  "case Retry cfg scale ctx_done operation zero s of (r, waits, s') \<Rightarrow>
     if MaxAttempts cfg < 1 then r = (zero, Some errTooManyRetries) \<and> waits = [] \<and> s' = s
     else \<exists>k. 1 + int k \<le> MaxAttempts cfg
       \<and> (\<forall>j < k. goes_on cfg ctx_done (1 + int j) (snd (call_result operation s j)))
       \<and> \<not> goes_on cfg ctx_done (1 + int k) (snd (call_result operation s k))
       \<and> r = (fst (call_result operation s k),
              attempt_error cfg ctx_done (1 + int k) (snd (call_result operation s k)))
       \<and> s' = after_calls operation s (Suc k) \<and> length waits = k
       \<and> (\<forall>w \<in> set waits. w \<le> max (InitialBackoff cfg) (MaxBackoff cfg))"
proof (cases "MaxAttempts cfg < 1")
  case True
  then show ?thesis by (simp add: Retry_def retry_loop.simps [of cfg])
next
  case False
  with retry_loop_run [of 1 cfg operation s scale ctx_done "InitialBackoff cfg" zero] show ?thesis
    by (fastforce simp: Retry_def Let_def case_prod_beta)
qed

theorem Retry_calls_witness:
  "case Retry DefaultRetryConfig id (\<lambda>_. None) (\<lambda>n. ((n, if n < 2 then Some (Sentinel ''e'') else None), n + 1))
      0 (0 :: nat) of (r, waits, s') \<Rightarrow> (\<exists>k. s' = after_calls
        (\<lambda>n. ((n, if n < 2 then Some (Sentinel ''e'') else None), n + 1)) 0 (Suc k) \<and> length waits = k)"
  using Retry_calls [where cfg = DefaultRetryConfig and scale = id and ctx_done = "\<lambda>_. None"
      and operation = "\<lambda>n. ((n, if n < 2 then Some (Sentinel ''e'') else None), n + 1)"
      and zero = 0 and s = "0 :: nat"]
  by (auto simp: DefaultRetryConfig_def)

end
