(* ===== verification/HashPkg.thy ===== *)
theory HashPkg
  imports Sha256
begin

text \<open>
  The hashing helpers of \<open>server/pkg/hash/sha256.go\<close> that the event chain uses: the digest in lower-case
  hexadecimal behind the algorithm name. \<open>SHA256Bytes\<close> is the same function on a byte slice, and
  \<open>CombineHashes\<close> writes its arguments one after the other into one digest.
\<close>

definition SHA256 :: "string \<Rightarrow> string" where
  "SHA256 data = ''sha256:'' @ sha256_hex data"

definition SHA256Bytes :: "string \<Rightarrow> string" where
  "SHA256Bytes data = ''sha256:'' @ sha256_hex data"

definition CombineHashes :: "string list \<Rightarrow> string" where
  "CombineHashes hashes = ''sha256:'' @ sha256_hex (concat hashes)"

lemma length_SHA256 [simp]: "length (SHA256 s) = 71"
  by (simp add: SHA256_def)

lemma SHA256_nonempty [simp]: "SHA256 s \<noteq> ''''"
  by (simp add: SHA256_def)

lemma SHA256_eq_iff: "SHA256 s = SHA256 t \<longleftrightarrow> sha256_hex s = sha256_hex t"
  by (simp add: SHA256_def)

end
