(* ===== verification/Event.thy ===== *)
theory Event
  imports Sha256
begin

text \<open>
  Events (\<open>server/internal/event/model.go\<close>) and the part of \<open>encoding/json\<close> the program hashes.

  \<open>json_string\<close> is the encoder's quoting of a string (control characters, quotes, backslashes and
  the HTML characters are escaped; other bytes are copied, which is what the encoder does for valid
  UTF-8 other than U+2028 and U+2029). \<open>json_object\<close> joins the fields of a struct in their order;
  a field of value \<open>None\<close> is left out (\<open>omitempty\<close>). Timestamps are nanoseconds of Unix time.
\<close>

subsection \<open>JSON\<close>

definition dquote :: string where
  "dquote = [char_of (34 :: nat)]"

definition json_char :: "char \<Rightarrow> string" where
  "json_char c = (let n = of_char c :: nat; bs = char_of (92 :: nat) in
     if n = 34 \<or> n = 92 then [bs, c]
     else if n = 8 then [bs, CHR ''b'']
     else if n = 12 then [bs, CHR ''f'']
     else if n = 10 then [bs, CHR ''n'']
     else if n = 13 then [bs, CHR ''r'']
     else if n = 9 then [bs, CHR ''t'']
     else if n < 32 \<or> n = 60 \<or> n = 62 \<or> n = 38
       then [bs, CHR ''u'', CHR ''0'', CHR ''0'', hex_digit (n div 16), hex_digit n]
     else [c])"

definition json_string :: "string \<Rightarrow> string" where
  "json_string s = dquote @ concat (map json_char s) @ dquote"

fun join :: "string \<Rightarrow> string list \<Rightarrow> string" where
  "join sep [] = ''''"
| "join sep [x] = x"
| "join sep (x # y # xs) = x @ sep @ join sep (y # xs)"

definition json_array :: "string list \<Rightarrow> string" where
  "json_array xs = ''['' @ join '','' (map json_string xs) @ '']''"

definition json_object :: "(string \<times> string option) list \<Rightarrow> string" where
  "json_object fields = ''{'' @ join '',''
     (List.map_filter (\<lambda>(k, v). map_option (\<lambda>x. json_string k @ '':'' @ x) v) fields) @ ''}''"

definition omit_empty :: "string \<Rightarrow> string option" where
  "omit_empty s = (if s = '''' then None else Some (json_string s))"

subsection \<open>Events\<close>

type_synonym EventType = string

definition EventTypeInput :: EventType where "EventTypeInput = ''INPUT''"
definition EventTypeModel :: EventType where "EventTypeModel = ''MODEL''"
definition EventTypeChunk :: EventType where "EventTypeChunk = ''CHUNK''"
definition EventTypeOutput :: EventType where "EventTypeOutput = ''OUTPUT''"

record event =
  EventID :: string
  TraceID :: string
  ParentEventID :: string
  PrevEventHash :: string
  PrevEventHashes :: "string list"
  EventType :: EventType
  Timestamp :: time
  Sequence :: int
  TenantID :: string
  UserID :: string
  SessionID :: string
  Payload :: string
  PayloadHash :: string
  EventHash :: string

definition unix_seconds :: "time \<Rightarrow> int" where
  "unix_seconds t = t div 1000000000"

text \<open>\<open>getPredecessorHashes\<close> and \<open>getPrevHashes\<close> of package \<open>dag\<close>: the same three lines twice.\<close>

definition prev_hashes :: "event \<Rightarrow> string list" where
  "prev_hashes evt =
     (if PrevEventHashes evt \<noteq> [] then PrevEventHashes evt
      else if PrevEventHash evt \<noteq> '''' then [PrevEventHash evt] else [])"

end
