(* ===== verification/Dag.thy ===== *)
theory Dag
  imports Event "HOL-Library.AList"
begin

text \<open>
  The causal graph of events: \<open>server/internal/dag/dag.go\<close> and \<open>validator.go\<close>.

  The map \<open>nodes\<close> from event ids to \<open>*Node\<close> is an association list in insertion order, and a node
  refers to its neighbours by event id: node pointers are only made by \<open>AddEvent\<close>, one per id. Go
  iterates a map in an arbitrary order, so the functions that range over \<open>nodes\<close> take the order
  \<open>iter\<close>, a list of the keys, as an argument.

  \<open>dag_inv\<close> is the invariant of every graph \<open>AddEvent\<close> builds: edges are recorded at both ends, the
  depth grows along every edge and is at most the insertion position. The locale \<open>ranked_graph\<close>
  gives, for any such graph, the correctness of the recursive traversals; it is interpreted for the
  predecessor and for the successor edges. Recursion is bounded by a fuel argument; the number of
  nodes plus one is proved to be enough.
\<close>

subsection \<open>The graph and its construction\<close>

record Node =
  n_Event :: event
  Predecessors :: "string list"
  Successors :: "string list"
  Depth :: nat
  Verified :: bool

record DAG =
  nodes :: "(string \<times> Node) list"
  roots :: "string list"
  leaves :: "string list"
  traceID :: string

datatype dag_error = ErrCycleDetected | ErrEventNotFound | ErrDuplicateEvent

definition NewDAG :: "string \<Rightarrow> DAG" where
  "NewDAG tid = \<lparr>nodes = [], roots = [], leaves = [], traceID = tid\<rparr>"

definition node_of :: "DAG \<Rightarrow> string \<Rightarrow> Node option" where
  "node_of d i = map_of (nodes d) i"

definition keys :: "DAG \<Rightarrow> string list" where
  "keys d = map fst (nodes d)"

definition preds :: "DAG \<Rightarrow> string \<Rightarrow> string list" where
  "preds d i = (case node_of d i of None \<Rightarrow> [] | Some n \<Rightarrow> Predecessors n)"

definition succs :: "DAG \<Rightarrow> string \<Rightarrow> string list" where
  "succs d i = (case node_of d i of None \<Rightarrow> [] | Some n \<Rightarrow> Successors n)"

definition depth :: "DAG \<Rightarrow> string \<Rightarrow> nat" where
  "depth d i = (case node_of d i of None \<Rightarrow> 0 | Some n \<Rightarrow> Depth n)"

text \<open>The first key, in iteration order, whose event has the hash.\<close>

definition findNodeByHash :: "DAG \<Rightarrow> string list \<Rightarrow> string \<Rightarrow> string option" where
  "findNodeByHash d iter hash =
     List.find (\<lambda>i. case node_of d i of None \<Rightarrow> False | Some n \<Rightarrow> EventHash (n_Event n) = hash) iter"

text \<open>
  The loop over the predecessor hashes. \<open>iter k\<close> is the order of the \<open>k\<close>-th search. The new node is not
  in the map yet, so it cannot become its own predecessor.
\<close>

fun link_preds :: "(nat \<Rightarrow> string list) \<Rightarrow> string \<Rightarrow> nat \<Rightarrow> string list \<Rightarrow> DAG \<Rightarrow> string list \<Rightarrow> nat
    \<Rightarrow> DAG \<times> string list \<times> nat" where
  "link_preds iter new k [] d ps dep = (d, ps, dep)"
| "link_preds iter new k (prevHash # hs) d ps dep =
     (case findNodeByHash d (iter k) prevHash of
        None \<Rightarrow> link_preds iter new (k + 1) hs d ps dep
      | Some p \<Rightarrow>
          link_preds iter new (k + 1) hs
            (d\<lparr>nodes := AList.map_entry p (\<lambda>n. n\<lparr>Successors := Successors n @ [new]\<rparr>) (nodes d)\<rparr>)
            (ps @ [p])
            (if depth d p + 1 > dep then depth d p + 1 else dep))"

text \<open>The new node has no successors when \<open>updateLeaves\<close> runs, so it is always appended.\<close>

definition updateLeaves :: "DAG \<Rightarrow> string \<Rightarrow> DAG" where
  "updateLeaves d new =
     d\<lparr>leaves := filter (\<lambda>i. succs d i = []) (leaves d) @ (if succs d new = [] then [new] else [])\<rparr>"

text \<open>
  \<open>hasCycleFrom\<close> marks a node before its successors and unmarks it after: the marked nodes are the
  current path.
\<close>

function hasCycleFrom :: "DAG \<Rightarrow> string \<Rightarrow> string set \<Rightarrow> bool" where
  "hasCycleFrom d i visited =
     (if i \<in> visited then True
      else if i \<in> set (keys d) then (\<exists>s \<in> set (succs d i). hasCycleFrom d s (insert i visited)) else False)"
  by pat_completeness auto
termination
proof (relation "measure (\<lambda>(d, i, v). card (set (keys d) - v))", simp)
  fix d i and visited :: "string set" and s
  assume "i \<notin> visited" and "i \<in> set (keys d)"
  then have "set (keys d) - insert i visited \<subset> set (keys d) - visited" by auto
  then have "card (set (keys d) - insert i visited) < card (set (keys d) - visited)"
    by (intro psubset_card_mono) auto
  then show "((d, s, insert i visited), (d, i, visited)) \<in> measure (\<lambda>(d, i, v). card (set (keys d) - v))"
    by simp
qed

declare hasCycleFrom.simps [simp del]

definition AddEvent :: "(nat \<Rightarrow> string list) \<Rightarrow> DAG \<Rightarrow> event \<Rightarrow> dag_error option \<times> DAG" where
  "AddEvent iter d evt =
     (let i = EventID evt in
      if node_of d i \<noteq> None then (Some ErrDuplicateEvent, d)
      else let prevHashes = prev_hashes evt;
               d0 = (if prevHashes = [] then d\<lparr>roots := roots d @ [i]\<rparr> else d);
               (d1, ps, dep) = link_preds iter i 0 prevHashes d0 [] 0;
               node = \<lparr>n_Event = evt, Predecessors = ps, Successors = [], Depth = dep, Verified = False\<rparr>;
               d2 = updateLeaves (d1\<lparr>nodes := nodes d1 @ [(i, node)]\<rparr>) i
           in if hasCycleFrom d2 i {}
              then (Some ErrCycleDetected, d2\<lparr>nodes := AList.delete i (nodes d2)\<rparr>)
              else (None, d2))"

definition GetNode :: "DAG \<Rightarrow> string \<Rightarrow> (dag_error, Node) outcome" where
  "GetNode d i = (case node_of d i of None \<Rightarrow> Err ErrEventNotFound | Some n \<Rightarrow> Ok n)"

definition GetRoots :: "DAG \<Rightarrow> string list" where
  "GetRoots d = roots d"

definition GetLeaves :: "DAG \<Rightarrow> string list" where
  "GetLeaves d = leaves d"

definition Size :: "DAG \<Rightarrow> nat" where
  "Size d = length (nodes d)"

text \<open>\<open>BuildDAGFromEvents\<close> on the events in the order \<open>sort.Slice\<close> left them.\<close>

fun add_events :: "(nat \<Rightarrow> nat \<Rightarrow> string list) \<Rightarrow> nat \<Rightarrow> DAG \<Rightarrow> event list \<Rightarrow> (dag_error, DAG) outcome" where
  "add_events iter k d [] = Ok d"
| "add_events iter k d (evt # evts) =
     (case AddEvent (iter k) d evt of
        (Some e, d') \<Rightarrow> Err e
      | (None, d') \<Rightarrow> add_events iter (k + 1) d' evts)"

definition BuildDAGFromEvents :: "(event list \<Rightarrow> event list) \<Rightarrow> (nat \<Rightarrow> nat \<Rightarrow> string list) \<Rightarrow> string
    \<Rightarrow> event list \<Rightarrow> (dag_error, DAG) outcome" where
  "BuildDAGFromEvents sort_events iter tid events = add_events iter 0 (NewDAG tid) (sort_events events)"

subsection \<open>Traversals\<close>

text \<open>
  The closure \<open>visit\<close> of \<open>TopologicalSort\<close> and the closure \<open>collect\<close> of \<open>GetAncestors\<close> and
  \<open>GetDescendants\<close>, over a neighbour function; \<open>None\<close> is running out of fuel.
\<close>

fun visit_all :: "('a \<Rightarrow> 'b \<Rightarrow> 'b option) \<Rightarrow> 'a list \<Rightarrow> 'b \<Rightarrow> 'b option" where
  "visit_all f [] st = Some st"
| "visit_all f (x # xs) st = (case f x st of None \<Rightarrow> None | Some st' \<Rightarrow> visit_all f xs st')"

fun visit :: "(string \<Rightarrow> string list) \<Rightarrow> nat \<Rightarrow> string \<Rightarrow> string set \<times> string list
    \<Rightarrow> (string set \<times> string list) option" where
  "visit nbr 0 i st = None"
| "visit nbr (Suc f) i (visited, result) =
     (if i \<in> visited then Some (visited, result)
      else map_option (\<lambda>(v, r). (v, r @ [i]))
        (visit_all (visit nbr f) (nbr i) (insert i visited, result)))"

fun collect :: "(string \<Rightarrow> string list) \<Rightarrow> nat \<Rightarrow> string \<Rightarrow> string set \<times> string list
    \<Rightarrow> (string set \<times> string list) option" where
  "collect nbr 0 i st = None"
| "collect nbr (Suc f) i st =
     visit_all (\<lambda>p (visited, result).
       if p \<in> visited then Some (visited, result)
       else collect nbr f p (insert p visited, result @ [p])) (nbr i) st"

definition dag_fuel :: "DAG \<Rightarrow> nat" where
  "dag_fuel d = Suc (length (nodes d))"

definition event_of :: "DAG \<Rightarrow> string \<Rightarrow> event option" where
  "event_of d i = map_option n_Event (node_of d i)"

definition TopologicalSort :: "DAG \<Rightarrow> string list \<Rightarrow> string list option" where
  "TopologicalSort d iter = map_option snd (visit_all (visit (preds d) (dag_fuel d)) iter ({}, []))"

definition GetAncestors :: "DAG \<Rightarrow> string \<Rightarrow> (dag_error, string list) outcome" where
  "GetAncestors d i =
     (if node_of d i = None then Err ErrEventNotFound
      else case collect (preds d) (dag_fuel d) i ({}, []) of
        None \<Rightarrow> Panic
      | Some (visited, ancestors) \<Rightarrow> Ok ancestors)"

definition GetDescendants :: "DAG \<Rightarrow> string \<Rightarrow> (dag_error, string list) outcome" where
  "GetDescendants d i =
     (if node_of d i = None then Err ErrEventNotFound
      else case collect (succs d) (dag_fuel d) i ({}, []) of
        None \<Rightarrow> Panic
      | Some (visited, descendants) \<Rightarrow> Ok descendants)"

definition GetEventsByDepth :: "DAG \<Rightarrow> string list \<Rightarrow> nat \<Rightarrow> string list" where
  "GetEventsByDepth d iter dep = filter (\<lambda>i. node_of d i \<noteq> None \<and> depth d i = dep) iter"

text \<open>The groups of two or more events of one depth, by increasing depth.\<close>

definition GetParallelEvents :: "DAG \<Rightarrow> string list \<Rightarrow> string list list" where
  "GetParallelEvents d iter =
     filter (\<lambda>g. 1 < length g)
       (map (GetEventsByDepth d iter) (sorted_list_of_set (depth d ` set iter)))"

subsection \<open>What AddEvent does\<close>

lemma findNodeByHash_Some:
  "findNodeByHash d iter h = Some p \<Longrightarrow> p \<in> set iter \<and> (\<exists>n. node_of d p = Some n \<and> EventHash (n_Event n) = h)"
  by (auto simp: findNodeByHash_def find_Some_iff split: option.splits)

lemma findNodeByHash_None:
  "findNodeByHash d iter h = None \<longleftrightarrow>
     (\<forall>p \<in> set iter. \<forall>n. node_of d p = Some n \<longrightarrow> EventHash (n_Event n) \<noteq> h)"
  by (auto simp: findNodeByHash_def find_None_iff split: option.splits)

lemma in_keys: "i \<in> set (keys d) \<longleftrightarrow> node_of d i \<noteq> None"
  by (simp add: keys_def node_of_def map_of_eq_None_iff)

lemma map_of_map_entry:
  "map_of (AList.map_entry p f al) = (\<lambda>j. if j = p then map_option f (map_of al j) else map_of al j)"
  by (induction al) (auto simp: fun_eq_iff)

lemma keys_map_entry: "map fst (AList.map_entry p f al) = map fst al"
  by (induction al) auto

lemma Max_insert_max: "finite S \<Longrightarrow> Max (insert (max a b) S) = Max (insert a (insert b S))" for a :: nat
  by (cases "S = {}") (simp_all add: max.assoc)

lemma if_max: "(if b > a then b else a) = max a b" for a :: nat
  by (simp add: max_def)

definition add_succs :: "string \<Rightarrow> string list \<Rightarrow> string \<Rightarrow> Node \<Rightarrow> Node" where
  "add_succs new added j n = n\<lparr>Successors := Successors n @ replicate (count_list added j) new\<rparr>"

text \<open>The loop adds edges from the nodes it finds, and nothing else.\<close>

lemma link_preds_run:
  assumes "link_preds iter new k hs d ps dep = (d', ps', dep')"
  shows "\<exists>added. ps' = ps @ added \<and> keys d' = keys d \<and> roots d' = roots d \<and> leaves d' = leaves d
    \<and> traceID d' = traceID d
    \<and> (\<forall>j. node_of d' j = map_option (add_succs new added j) (node_of d j))
    \<and> (\<forall>p \<in> set added. \<exists>n. node_of d p = Some n \<and> EventHash (n_Event n) \<in> set hs)
    \<and> dep' = Max (insert dep ((\<lambda>p. Suc (depth d p)) ` set added))
    \<and> ((\<forall>j. set (iter j) = set (keys d)) \<longrightarrow> (\<forall>h \<in> set hs. \<forall>i n. node_of d i = Some n \<longrightarrow>
         EventHash (n_Event n) = h \<longrightarrow> (\<exists>p \<in> set added. \<exists>m. node_of d p = Some m \<and> EventHash (n_Event m) = h)))"
  using assms
proof (induction iter new k hs d ps dep rule: link_preds.induct)
  case (1 iter new k d ps dep)
  then show ?case by (intro exI [of _ "[]"]) (auto simp: add_succs_def map_option.identity)
next
  case (2 iter new k h hs d ps dep)
  show ?case
  proof (cases "findNodeByHash d (iter k) h")
    case None
    with "2.IH"(1) [OF None] "2.prems" obtain added where IH: "ps' = ps @ added" "keys d' = keys d"
      "roots d' = roots d" "leaves d' = leaves d" "traceID d' = traceID d"
      "\<forall>j. node_of d' j = map_option (add_succs new added j) (node_of d j)"
      "\<forall>p \<in> set added. \<exists>n. node_of d p = Some n \<and> EventHash (n_Event n) \<in> set hs"
      "dep' = Max (insert dep ((\<lambda>p. Suc (depth d p)) ` set added))"
      "(\<forall>j. set (iter j) = set (keys d)) \<longrightarrow> (\<forall>h \<in> set hs. \<forall>i n. node_of d i = Some n \<longrightarrow>
         EventHash (n_Event n) = h \<longrightarrow> (\<exists>p \<in> set added. \<exists>m. node_of d p = Some m \<and> EventHash (n_Event m) = h))"
      by auto
    have "\<forall>i n. node_of d i = Some n \<longrightarrow> EventHash (n_Event n) \<noteq> h" if "\<forall>j. set (iter j) = set (keys d)"
      using None that in_keys [of _ d] by (simp add: findNodeByHash_None) blast
    with IH show ?thesis by (intro exI [of _ added]) auto
  next
    case (Some p)
    let ?d = "d\<lparr>nodes := AList.map_entry p (\<lambda>n. n\<lparr>Successors := Successors n @ [new]\<rparr>) (nodes d)\<rparr>"
    have nd: "node_of ?d j = map_option (add_succs new [p] j) (node_of d j)" for j
      by (cases "map_of (nodes d) j") (auto simp: node_of_def map_of_map_entry add_succs_def)
    then have dp: "depth ?d j = depth d j" for j
      by (cases "node_of d j") (auto simp: depth_def add_succs_def)
    have ks: "keys ?d = keys d" by (simp add: keys_def keys_map_entry)
    obtain n where n: "node_of d p = Some n" "EventHash (n_Event n) = h"
      using findNodeByHash_Some [OF Some] by blast
    have comp: "map_option (add_succs new added j) (map_option (add_succs new [p] j) x)
        = map_option (add_succs new (p # added) j) x" for added j x
      by (cases x) (auto simp: add_succs_def replicate_app_Cons_same)
    from "2.IH"(2) [OF Some] "2.prems" Some obtain added where IH: "ps' = (ps @ [p]) @ added" "keys d' = keys ?d"
      "roots d' = roots d" "leaves d' = leaves d" "traceID d' = traceID d"
      "\<forall>j. node_of d' j = map_option (add_succs new added j) (node_of ?d j)"
      "\<forall>q \<in> set added. \<exists>n. node_of ?d q = Some n \<and> EventHash (n_Event n) \<in> set hs"
      "dep' = Max (insert (if depth d p + 1 > dep then depth d p + 1 else dep) ((\<lambda>p. Suc (depth ?d p)) ` set added))"
      "(\<forall>j. set (iter j) = set (keys ?d)) \<longrightarrow> (\<forall>h \<in> set hs. \<forall>i n. node_of ?d i = Some n \<longrightarrow>
         EventHash (n_Event n) = h \<longrightarrow> (\<exists>p \<in> set added. \<exists>m. node_of ?d p = Some m \<and> EventHash (n_Event m) = h))"
      by auto
    have "dep' = Max (insert dep ((\<lambda>p. Suc (depth d p)) ` set (p # added)))"
      using IH(8) [unfolded if_max dp] Max_insert_max [of "(\<lambda>p. Suc (depth d p)) ` set added" dep "depth d p + 1"]
      by (simp del: Max_insert)
    moreover have "\<forall>q \<in> set (p # added). \<exists>n. node_of d q = Some n \<and> EventHash (n_Event n) \<in> set (h # hs)"
      using IH(7) n by (auto simp: nd add_succs_def)
    moreover have "\<forall>j. node_of d' j = map_option (add_succs new (p # added) j) (node_of d j)"
      using IH(6) nd comp by simp
    moreover have "(\<forall>j. set (iter j) = set (keys d)) \<longrightarrow> (\<forall>g \<in> set (h # hs). \<forall>i n. node_of d i = Some n \<longrightarrow>
         EventHash (n_Event n) = g \<longrightarrow> (\<exists>q \<in> set (p # added). \<exists>m. node_of d q = Some m \<and> EventHash (n_Event m) = g))"
      using IH(9) n unfolding nd ks by (fastforce simp: add_succs_def)
    ultimately show ?thesis using IH(1-5) ks by (intro exI [of _ "p # added"]) auto
  qed
qed

text \<open>
  \<open>AddEvent\<close> in closed form: the keys, the neighbours and the depths of the graph it returns.
\<close>

lemma AddEvent_run:
  assumes fresh: "EventID evt \<notin> set (keys d)"
  defines "i \<equiv> EventID evt"
  shows "\<exists>d' added. AddEvent iter d evt = (None, d') \<and> keys d' = keys d @ [i] \<and> traceID d' = traceID d
    \<and> roots d' = roots d @ (if prev_hashes evt = [] then [i] else [])
    \<and> leaves d' = filter (\<lambda>j. succs d' j = []) (leaves d) @ [i]
    \<and> (\<forall>j. event_of d' j = (if j = i then Some evt else event_of d j))
    \<and> (\<forall>j. preds d' j = (if j = i then added else preds d j))
    \<and> (\<forall>j. succs d' j = (if j = i then [] else succs d j @ (if j \<in> set (keys d) then replicate (count_list added j) i else [])))
    \<and> (\<forall>j. depth d' j = (if j = i then Max (insert 0 ((\<lambda>p. Suc (depth d p)) ` set added)) else depth d j))
    \<and> (\<forall>p \<in> set added. \<exists>n. node_of d p = Some n \<and> EventHash (n_Event n) \<in> set (prev_hashes evt))
    \<and> ((\<forall>k. set (iter k) = set (keys d)) \<longrightarrow> (\<forall>h \<in> set (prev_hashes evt). \<forall>q n. node_of d q = Some n \<longrightarrow>
         EventHash (n_Event n) = h \<longrightarrow> (\<exists>p \<in> set added. \<exists>m. node_of d p = Some m \<and> EventHash (n_Event m) = h)))"
proof -
  let ?d0 = "if prev_hashes evt = [] then d\<lparr>roots := roots d @ [i]\<rparr> else d"
  have d0: "node_of ?d0 = node_of d" "keys ?d0 = keys d" "depth ?d0 = depth d" "leaves ?d0 = leaves d"
    "roots ?d0 = roots d @ (if prev_hashes evt = [] then [i] else [])" "traceID ?d0 = traceID d"
    by (auto simp: node_of_def keys_def depth_def fun_eq_iff)
  obtain d1 ps dep where l: "link_preds iter i 0 (prev_hashes evt) ?d0 [] 0 = (d1, ps, dep)"
    by (metis prod.exhaust)
  from link_preds_run [OF this] obtain added where run: "ps = added" "keys d1 = keys d"
    "roots d1 = roots ?d0" "leaves d1 = leaves d" "traceID d1 = traceID d"
    "\<And>j. node_of d1 j = map_option (add_succs i added j) (node_of d j)"
    "\<forall>p \<in> set added. \<exists>n. node_of d p = Some n \<and> EventHash (n_Event n) \<in> set (prev_hashes evt)"
    "dep = Max (insert 0 ((\<lambda>p. Suc (depth d p)) ` set added))"
    "(\<forall>j. set (iter j) = set (keys d)) \<longrightarrow> (\<forall>h \<in> set (prev_hashes evt). \<forall>q n. node_of d q = Some n \<longrightarrow>
       EventHash (n_Event n) = h \<longrightarrow> (\<exists>p \<in> set added. \<exists>m. node_of d p = Some m \<and> EventHash (n_Event m) = h))"
    unfolding d0 by auto
  let ?node = "\<lparr>n_Event = evt, Predecessors = ps, Successors = [], Depth = dep, Verified = False\<rparr>"
  let ?d1 = "d1\<lparr>nodes := nodes d1 @ [(i, ?node)]\<rparr>"
  let ?d2 = "updateLeaves ?d1 i"
  have new: "node_of d i = None" using fresh in_keys [of i d] by (simp add: i_def)
  then have "node_of d1 i = None" by (simp add: run(6))
  then have nd1: "node_of ?d1 j = (if j = i then Some ?node else node_of d1 j)" for j
    by (cases "map_of (nodes d1) j") (auto simp: node_of_def map_add_def)
  have nd: "node_of ?d2 j = (if j = i then Some ?node else map_option (add_succs i added j) (node_of d j))" for j
    using nd1 run(6) by (simp add: updateLeaves_def node_of_def)
  have sc1: "succs ?d1 j = succs ?d2 j" for j by (simp add: succs_def node_of_def updateLeaves_def)
  have sc: "succs ?d2 i = []" using nd by (simp add: succs_def)
  have cyc: "\<not> hasCycleFrom ?d2 i {}" by (subst hasCycleFrom.simps) (simp add: sc)
  have "AddEvent iter d evt = (None, ?d2)"
    using new l cyc by (simp add: AddEvent_def i_def [symmetric] Let_def)
  have "keys ?d2 = keys d @ [i]" using run(2) by (simp add: keys_def updateLeaves_def)
  have "roots ?d2 = roots d @ (if prev_hashes evt = [] then [i] else [])" "traceID ?d2 = traceID d"
    using run(3,5) d0(5) by (simp_all add: updateLeaves_def)
  have "leaves ?d2 = filter (\<lambda>j. succs ?d2 j = []) (leaves d) @ [i]"
  proof -
    have "leaves ?d2 = filter (\<lambda>j. succs ?d1 j = []) (leaves ?d1) @ (if succs ?d1 i = [] then [i] else [])"
      by (simp add: updateLeaves_def)
    then show ?thesis unfolding sc1 using sc run(4) by simp
  qed
  have "event_of ?d2 j = (if j = i then Some evt else event_of d j)" for j
    by (cases "node_of d j") (auto simp: event_of_def nd add_succs_def)
  have "preds ?d2 j = (if j = i then added else preds d j)" for j
    unfolding preds_def nd using run(1) by (cases "node_of d j") (simp_all add: add_succs_def)
  have "succs ?d2 j = (if j = i then [] else succs d j @ (if j \<in> set (keys d) then replicate (count_list added j) i else []))" for j
    by (cases "node_of d j") (auto simp: succs_def nd add_succs_def in_keys)
  have "depth ?d2 j = (if j = i then Max (insert 0 ((\<lambda>p. Suc (depth d p)) ` set added)) else depth d j)" for j
    unfolding depth_def nd using run(8) by (cases "node_of d j") (simp_all add: add_succs_def depth_def)
  show ?thesis by (intro exI [of _ ?d2] exI [of _ added] conjI allI) fact+
qed

subsection \<open>The invariant\<close>

definition dag_inv :: "DAG \<Rightarrow> bool" where
  "dag_inv d \<longleftrightarrow> distinct (keys d)
     \<and> (\<forall>i j. j \<in> set (preds d i) \<longleftrightarrow> i \<in> set (succs d j))
     \<and> (\<forall>i. \<forall>j \<in> set (preds d i). i \<in> set (keys d) \<and> j \<in> set (keys d))
     \<and> (\<forall>i. depth d i = Max (insert 0 ((\<lambda>p. Suc (depth d p)) ` set (preds d i))))
     \<and> (\<forall>i \<in> set (keys d). depth d i < length (nodes d))
     \<and> (\<forall>i e. event_of d i = Some e \<longrightarrow> EventID e = i)
     \<and> (\<forall>i e p. event_of d i = Some e \<longrightarrow> p \<in> set (preds d i) \<longrightarrow>
          (\<exists>f. event_of d p = Some f \<and> EventHash f \<in> set (prev_hashes e)))
     \<and> distinct (leaves d) \<and> set (leaves d) = {i \<in> set (keys d). succs d i = []}
     \<and> distinct (roots d) \<and> set (roots d) = {i. \<exists>e. event_of d i = Some e \<and> prev_hashes e = []}"

lemma dag_invD:
  assumes "dag_inv d"
  shows "distinct (keys d)"
    and "\<forall>i j. j \<in> set (preds d i) \<longleftrightarrow> i \<in> set (succs d j)"
    and "\<forall>i. depth d i = Max (insert 0 ((\<lambda>p. Suc (depth d p)) ` set (preds d i)))"
    and "\<forall>i e p. event_of d i = Some e \<longrightarrow> p \<in> set (preds d i) \<longrightarrow>
          (\<exists>f. event_of d p = Some f \<and> EventHash f \<in> set (prev_hashes e))"
    and "\<forall>i. \<forall>j \<in> set (preds d i). i \<in> set (keys d) \<and> j \<in> set (keys d)"
    and "set (leaves d) = {i \<in> set (keys d). succs d i = []}"
    and "set (roots d) = {i. \<exists>e. event_of d i = Some e \<and> prev_hashes e = []}"
    and "\<forall>i \<in> set (keys d). depth d i < length (nodes d)"
  using assms unfolding dag_inv_def by - (elim conjE, assumption)+

lemma dag_inv_NewDAG: "dag_inv (NewDAG tid)"
  by (simp add: dag_inv_def NewDAG_def keys_def preds_def succs_def node_of_def depth_def event_of_def)

lemma event_of_keys: "event_of d i = None \<longleftrightarrow> i \<notin> set (keys d)"
  by (simp add: event_of_def in_keys)

lemma unknown_node:
  "i \<notin> set (keys d) \<Longrightarrow> preds d i = [] \<and> succs d i = [] \<and> depth d i = 0"
  by (simp add: in_keys preds_def succs_def depth_def)

lemma length_keys: "length (keys d) = length (nodes d)"
  by (simp add: keys_def)

lemma count_list_pos: "0 < count_list xs x \<longleftrightarrow> x \<in> set xs"
  by (induction xs) auto

lemma Max_Suc_less:
  fixes n :: nat
  assumes "\<forall>p \<in> A. f p < n" and "finite A"
  shows "Max (insert 0 ((\<lambda>p. Suc (f p)) ` A)) < Suc n"
  using assms by (subst Max_less_iff) auto

lemma dag_inv_AddEvent:
  assumes inv: "dag_inv d" and fresh: "EventID evt \<notin> set (keys d)"
  shows "\<exists>d'. AddEvent iter d evt = (None, d') \<and> dag_inv d' \<and> keys d' = keys d @ [EventID evt]
    \<and> (\<forall>i \<in> set (keys d). event_of d' i = event_of d i \<and> preds d' i = preds d i \<and> depth d' i = depth d i)
    \<and> event_of d' (EventID evt) = Some evt
    \<and> ((\<forall>k. set (iter k) = set (keys d)) \<longrightarrow> (\<forall>h \<in> set (prev_hashes evt). \<forall>q e. event_of d q = Some e \<longrightarrow>
         EventHash e = h \<longrightarrow> (\<exists>p \<in> set (preds d' (EventID evt)). \<exists>f. event_of d' p = Some f \<and> EventHash f = h)))"
proof -
  let ?i = "EventID evt"
  obtain d' added where run: "AddEvent iter d evt = (None, d')" "keys d' = keys d @ [?i]"
    "roots d' = roots d @ (if prev_hashes evt = [] then [?i] else [])"
    "leaves d' = filter (\<lambda>j. succs d' j = []) (leaves d) @ [?i]"
    "\<forall>j. event_of d' j = (if j = ?i then Some evt else event_of d j)"
    "\<forall>j. preds d' j = (if j = ?i then added else preds d j)"
    "\<forall>j. succs d' j = (if j = ?i then [] else succs d j @ (if j \<in> set (keys d) then replicate (count_list added j) ?i else []))"
    "\<forall>j. depth d' j = (if j = ?i then Max (insert 0 ((\<lambda>p. Suc (depth d p)) ` set added)) else depth d j)"
    "\<forall>p \<in> set added. \<exists>n. node_of d p = Some n \<and> EventHash (n_Event n) \<in> set (prev_hashes evt)"
    "(\<forall>k. set (iter k) = set (keys d)) \<longrightarrow> (\<forall>h \<in> set (prev_hashes evt). \<forall>q n. node_of d q = Some n \<longrightarrow>
       EventHash (n_Event n) = h \<longrightarrow> (\<exists>p \<in> set added. \<exists>m. node_of d p = Some m \<and> EventHash (n_Event m) = h))"
    using AddEvent_run [OF fresh, of iter] by blast
  from inv have I: "distinct (keys d)" "\<And>i j. j \<in> set (preds d i) \<longleftrightarrow> i \<in> set (succs d j)"
    "\<And>i j. j \<in> set (preds d i) \<Longrightarrow> i \<in> set (keys d) \<and> j \<in> set (keys d)"
    "\<And>i. depth d i = Max (insert 0 ((\<lambda>p. Suc (depth d p)) ` set (preds d i)))"
    "\<And>i. i \<in> set (keys d) \<Longrightarrow> depth d i < length (nodes d)"
    "\<And>i e. event_of d i = Some e \<Longrightarrow> EventID e = i"
    "\<And>i e p. event_of d i = Some e \<Longrightarrow> p \<in> set (preds d i) \<Longrightarrow>
       \<exists>f. event_of d p = Some f \<and> EventHash f \<in> set (prev_hashes e)"
    "distinct (leaves d)" "set (leaves d) = {i \<in> set (keys d). succs d i = []}"
    "distinct (roots d)" "set (roots d) = {i. \<exists>e. event_of d i = Some e \<and> prev_hashes e = []}"
    unfolding dag_inv_def by blast+
  have new: "preds d ?i = []" "succs d ?i = []" "event_of d ?i = None"
    using unknown_node [OF fresh] fresh event_of_keys [of d ?i] by auto
  have added: "p \<in> set (keys d)" "p \<noteq> ?i" if "p \<in> set added" for p
    using run(9) that fresh in_keys [of p d] by auto
  have not_new: "?i \<notin> set (preds d j)" "?i \<notin> set (succs d j)" for j
    using I(2,3) fresh new by (metis empty_iff list.set(1))+
  have len: "length (nodes d') = Suc (length (nodes d))"
    using run(2) length_keys [of d] length_keys [of d'] by simp
  have "dag_inv d'"
    unfolding dag_inv_def
  proof (intro conjI)
    show "distinct (keys d')" using I(1) fresh run(2) by simp
    show "\<forall>i j. j \<in> set (preds d' i) \<longleftrightarrow> i \<in> set (succs d' j)"
    proof (intro allI)
      fix i j
      have "replicate (count_list added j) ?i \<noteq> [] \<longleftrightarrow> j \<in> set added"
        using count_list_pos [of added j] by simp
      then have "i \<in> set (succs d' j) \<longleftrightarrow> j \<noteq> ?i \<and> (i \<in> set (succs d j) \<or> (i = ?i \<and> j \<in> set added))"
        using run(7) added(1) [of j] by auto
      moreover have "j \<in> set (preds d' i) \<longleftrightarrow> (if i = ?i then j \<in> set added else j \<in> set (preds d i))"
        using run(6) by simp
      ultimately show "j \<in> set (preds d' i) \<longleftrightarrow> i \<in> set (succs d' j)"
        using I(2) [of j i] not_new added(2) by auto
    qed
    show "\<forall>i. \<forall>j \<in> set (preds d' i). i \<in> set (keys d') \<and> j \<in> set (keys d')"
      using run(2,6) I(3) added by auto
    show "\<forall>i. depth d' i = Max (insert 0 ((\<lambda>p. Suc (depth d' p)) ` set (preds d' i)))"
    proof
      fix i
      have "(\<lambda>p. Suc (depth d' p)) ` set (preds d' i) = (\<lambda>p. Suc (depth d p)) ` set (preds d' i)"
        using run(6,8) added(2) not_new by (intro image_cong) (auto split: if_splits)
      then show "depth d' i = Max (insert 0 ((\<lambda>p. Suc (depth d' p)) ` set (preds d' i)))"
        using run(6,8) I(4) [of i] by (cases "i = ?i") simp_all
    qed
    have "Max (insert 0 ((\<lambda>p. Suc (depth d p)) ` set added)) < Suc (length (nodes d))"
      using I(5) added by (intro Max_Suc_less) auto
    then show "\<forall>i \<in> set (keys d'). depth d' i < length (nodes d')"
      using run(2,8) I(5) len by (auto simp del: Max_insert intro: less_SucI)
    show "\<forall>i e. event_of d' i = Some e \<longrightarrow> EventID e = i" using run(5) I(6) by auto
    have pe: "event_of d' p = event_of d p" if "p \<noteq> ?i" for p using run(5) that by simp
    show "\<forall>i e p. event_of d' i = Some e \<longrightarrow> p \<in> set (preds d' i) \<longrightarrow>
        (\<exists>f. event_of d' p = Some f \<and> EventHash f \<in> set (prev_hashes e))"
    proof (intro allI impI)
      fix i e p assume e: "event_of d' i = Some e" and p: "p \<in> set (preds d' i)"
      then have ne: "p \<noteq> ?i" using run(6) added not_new by (auto split: if_splits)
      show "\<exists>f. event_of d' p = Some f \<and> EventHash f \<in> set (prev_hashes e)"
      proof (cases "i = ?i")
        case True
        then have "e = evt" "p \<in> set added" using e p run(5,6) by simp_all
        then show ?thesis using run(9) unfolding pe [OF ne] by (auto simp: event_of_def)
      next
        case False
        then have "event_of d i = Some e" "p \<in> set (preds d i)" using e p run(5,6) by simp_all
        then show ?thesis using I(7) unfolding pe [OF ne] by blast
      qed
    qed
    show "distinct (leaves d')" using run(4) I(8,9) fresh by simp
    show "set (leaves d') = {i \<in> set (keys d'). succs d' i = []}"
      using run(2,4,7) I(9) fresh by (auto split: if_splits)
    show "distinct (roots d')" using run(3) I(10,11) new(3) by auto
    show "set (roots d') = {i. \<exists>e. event_of d' i = Some e \<and> prev_hashes e = []}"
      using run(3,5) I(11) new(3) by auto
  qed
  moreover have "\<forall>i \<in> set (keys d). event_of d' i = event_of d i \<and> preds d' i = preds d i \<and> depth d' i = depth d i"
    using run(5,6,8) fresh by auto
  moreover have "\<exists>p \<in> set (preds d' ?i). \<exists>f. event_of d' p = Some f \<and> EventHash f = h"
    if it: "\<forall>k. set (iter k) = set (keys d)" "h \<in> set (prev_hashes evt)" "event_of d q = Some e" "EventHash e = h" for h q e
  proof -
    obtain n where n: "node_of d q = Some n" "n_Event n = e" using it(3) by (auto simp: event_of_def)
    with run(10) it obtain p m where p: "p \<in> set added" "node_of d p = Some m" "EventHash (n_Event m) = h"
      by blast
    then have "event_of d' p = Some (n_Event m)" using run(5) added by (simp add: event_of_def)
    with p run(6) show ?thesis by auto
  qed
  ultimately show ?thesis using run(1,2,5) by (intro exI [of _ d']) auto
qed

subsection \<open>Traversals of a ranked graph\<close>

text \<open>
  The interface of the traversals: under \<open>inv\<close>, a rank decreases along every edge. A fuel above the
  rank of the start is enough.
\<close>

locale ranked_graph =
  fixes inv :: "'g \<Rightarrow> bool" and nbr :: "'g \<Rightarrow> string \<Rightarrow> string list" and rank :: "'g \<Rightarrow> string \<Rightarrow> nat"
  assumes rank_less: "inv g \<Longrightarrow> b \<in> set (nbr g a) \<Longrightarrow> rank g b < rank g a"
begin

lemma reach_rank:
  assumes "(\<lambda>a b. b \<in> set (nbr g a))\<^sup>+\<^sup>+ a b" and "inv g"
  shows "rank g b < rank g a"
  using assms(1)
proof (induction rule: tranclp_induct)
  case (base y)
  then show ?case using rank_less [OF assms(2)] by blast
next
  case (step y z)
  then show ?case using rank_less [OF assms(2), of z y] by simp
qed

text \<open>\<open>collect\<close> adds new nodes, each reachable from the start, and all neighbours of what it adds.\<close>

lemma collect_run:
  assumes "inv g" and "rank g i < f"
  shows "\<exists>N. collect (nbr g) f i (V, R) = Some (V \<union> set N, R @ N) \<and> distinct N \<and> set N \<inter> V = {}
    \<and> set (nbr g i) \<subseteq> V \<union> set N
    \<and> (\<forall>x \<in> set N. (\<lambda>a b. b \<in> set (nbr g a))\<^sup>+\<^sup>+ i x \<and> set (nbr g x) \<subseteq> V \<union> set N)"
  using assms(2)
proof (induction f arbitrary: i V R)
  case (Suc f)
  let ?E = "(\<lambda>a b. b \<in> set (nbr g a))\<^sup>+\<^sup>+"
  let ?step = "\<lambda>p (visited, result). if p \<in> visited then Some (visited, result)
       else collect (nbr g) f p (insert p visited, result @ [p])"
  have "\<exists>N. visit_all ?step xs (V, R) = Some (V \<union> set N, R @ N) \<and> distinct N \<and> set N \<inter> V = {}
    \<and> set xs \<subseteq> V \<union> set N \<and> (\<forall>x \<in> set N. ?E i x \<and> set (nbr g x) \<subseteq> V \<union> set N)"
    if "set xs \<subseteq> set (nbr g i)" for xs
    using that
  proof (induction xs arbitrary: V R)
    case Nil
    then show ?case by (intro exI [of _ "[]"]) simp
  next
    case (Cons p xs)
    show ?case
    proof (cases "p \<in> V")
      case True
      then show ?thesis using Cons.IH [of V R] Cons.prems by auto
    next
      case False
      have edge: "p \<in> set (nbr g i)" using Cons.prems by simp
      then have "rank g p < f" using rank_less [OF assms(1)] Suc.prems by fastforce
      from Suc.IH [OF this, of "insert p V" "R @ [p]"] obtain N where N:
        "collect (nbr g) f p (insert p V, R @ [p]) = Some (insert p V \<union> set N, (R @ [p]) @ N)" "distinct N"
        "set N \<inter> insert p V = {}" "set (nbr g p) \<subseteq> insert p V \<union> set N"
        "\<forall>x \<in> set N. ?E p x \<and> set (nbr g x) \<subseteq> insert p V \<union> set N" by auto
      from Cons.IH [of "insert p V \<union> set N" "R @ p # N"] Cons.prems obtain M where M:
        "visit_all ?step xs (insert p V \<union> set N, R @ p # N) = Some (insert p V \<union> set N \<union> set M, (R @ p # N) @ M)"
        "distinct M" "set M \<inter> (insert p V \<union> set N) = {}" "set xs \<subseteq> insert p V \<union> set N \<union> set M"
        "\<forall>x \<in> set M. ?E i x \<and> set (nbr g x) \<subseteq> insert p V \<union> set N \<union> set M" by auto
      have "?E i x" if "x \<in> insert p (set N)" for x
        using that edge N(5) by (auto intro: tranclp_trans [of _ i p])
      then show ?thesis using False N M
        by (intro exI [of _ "p # N @ M"]) (auto simp: insert_commute Un_assoc)
    qed
  qed
  then show ?case by simp
qed simp

theorem collect_correct:
  assumes "inv g" and "rank g i < f"
  shows "\<exists>V R. collect (nbr g) f i ({}, []) = Some (V, R) \<and> distinct R \<and> i \<notin> set R
    \<and> set R = {j. (\<lambda>a b. b \<in> set (nbr g a))\<^sup>+\<^sup>+ i j}"
proof -
  let ?E = "(\<lambda>a b. b \<in> set (nbr g a))\<^sup>+\<^sup>+"
  from collect_run [OF assms, of "{}" "[]"] obtain N where N: "collect (nbr g) f i ({}, []) = Some (set N, N)"
    "distinct N" "set (nbr g i) \<subseteq> set N" "\<forall>x \<in> set N. ?E i x \<and> set (nbr g x) \<subseteq> set N" by auto
  have "j \<in> set N" if "?E i j" for j
    using that by (induction rule: tranclp_induct) (use N in auto)
  then have "set N = {j. ?E i j}" using N(4) by blast
  moreover have "i \<notin> set N" using N(4) reach_rank [OF _ assms(1)] by blast
  ultimately show ?thesis using N(1,2) by blast
qed

text \<open>
  \<open>visit\<close> keeps the result in topological order: the marked nodes that are not in the result yet
  are on the current path and have a greater rank than the node visited.
\<close>

definition topo :: "'g \<Rightarrow> string list \<Rightarrow> bool" where
  "topo g R \<longleftrightarrow> (\<forall>k < length R. set (nbr g (R ! k)) \<subseteq> set (take k R))"

lemma topo_snoc: "topo g R \<Longrightarrow> set (nbr g i) \<subseteq> set R \<Longrightarrow> topo g (R @ [i])"
  by (auto simp: topo_def nth_append less_Suc_eq dest!: subsetD)

lemma visit_run:
  assumes "inv g" and "rank g i < f" and "\<forall>a \<in> K. set (nbr g a) \<subseteq> K" and "i \<in> K"
    and "topo g R" and "set R \<subseteq> V" and "\<forall>x \<in> V. x \<in> set R \<or> rank g i < rank g x"
  shows "\<exists>N. visit (nbr g) f i (V, R) = Some (V \<union> set N, R @ N) \<and> distinct N \<and> set N \<inter> V = {}
    \<and> set N \<subseteq> K \<and> i \<in> set (R @ N) \<and> topo g (R @ N)"
  using assms(2,4-7)
proof (induction f arbitrary: i V R)
  case (Suc f)
  show ?case
  proof (cases "i \<in> V")
    case True
    with Suc.prems show ?thesis by (intro exI [of _ "[]"]) auto
  next
    case False
    have "\<exists>N. visit_all (visit (nbr g) f) xs (W, R) = Some (W \<union> set N, R @ N) \<and> distinct N
      \<and> set N \<inter> W = {} \<and> set N \<subseteq> K \<and> set xs \<subseteq> set (R @ N) \<and> topo g (R @ N)"
      if "set xs \<subseteq> set (nbr g i)" "topo g R" "set R \<subseteq> W" "\<forall>x \<in> W. x \<in> set R \<or> rank g i \<le> rank g x" for xs W R
      using that
    proof (induction xs arbitrary: W R)
      case Nil
      then show ?case by (intro exI [of _ "[]"]) simp
    next
      case (Cons p xs)
      have less: "rank g p < rank g i" using rank_less [OF assms(1)] Cons.prems(1) by simp
      have "p \<in> K" using assms(3) Suc.prems(2) Cons.prems(1) by auto
      moreover have "\<forall>x \<in> W. x \<in> set R \<or> rank g p < rank g x" using Cons.prems(4) less by fastforce
      ultimately obtain N where N: "visit (nbr g) f p (W, R) = Some (W \<union> set N, R @ N)" "distinct N"
        "set N \<inter> W = {}" "set N \<subseteq> K" "p \<in> set (R @ N)" "topo g (R @ N)"
        using Suc.IH [of p R W] Suc.prems(1) less Cons.prems by auto
      from Cons.IH [OF _ N(6), of "W \<union> set N"] Cons.prems obtain M where
        "visit_all (visit (nbr g) f) xs (W \<union> set N, R @ N) = Some (W \<union> set N \<union> set M, (R @ N) @ M)"
        "distinct M" "set M \<inter> (W \<union> set N) = {}" "set M \<subseteq> K" "set xs \<subseteq> set ((R @ N) @ M)" "topo g ((R @ N) @ M)"
        by auto
      with N show ?case by (intro exI [of _ "N @ M"]) (auto simp: Un_assoc)
    qed
    from this [of "nbr g i" R "insert i V"] Suc.prems obtain N where N:
      "visit_all (visit (nbr g) f) (nbr g i) (insert i V, R) = Some (insert i V \<union> set N, R @ N)" "distinct N"
      "set N \<inter> insert i V = {}" "set N \<subseteq> K" "set (nbr g i) \<subseteq> set (R @ N)" "topo g (R @ N)"
      by (auto intro: less_imp_le)
    have "topo g ((R @ N) @ [i])" using N(6,5) by (rule topo_snoc)
    then show ?thesis using False N Suc.prems(2) by (intro exI [of _ "N @ [i]"]) (auto simp: insert_commute)
  qed
qed simp

theorem visit_all_correct:
  assumes "inv g" and "\<forall>i \<in> set xs. rank g i < f" and "\<forall>a \<in> set xs. set (nbr g a) \<subseteq> set xs"
  shows "\<exists>V R. visit_all (visit (nbr g) f) xs ({}, []) = Some (V, R) \<and> distinct R \<and> set R = set xs \<and> topo g R"
proof -
  have "\<exists>R'. visit_all (visit (nbr g) f) ys (set R, R) = Some (set R', R') \<and> distinct R' \<and> set ys \<subseteq> set R'
      \<and> set R \<subseteq> set R' \<and> set R' \<subseteq> set xs \<and> topo g R'"
    if "set ys \<subseteq> set xs" "distinct R" "set R \<subseteq> set xs" "topo g R" for ys R
    using that
  proof (induction ys arbitrary: R)
    case (Cons y ys)
    then obtain N where N: "visit (nbr g) f y (set R, R) = Some (set R \<union> set N, R @ N)" "distinct N"
      "set N \<inter> set R = {}" "set N \<subseteq> set xs" "y \<in> set (R @ N)" "topo g (R @ N)"
      using visit_run [OF assms(1) _ assms(3), of y f R "set R"] assms(2) by auto
    have eq: "set R \<union> set N = set (R @ N)" by simp
    have "set (R @ N) \<subseteq> set xs" "distinct (R @ N)" using N Cons.prems by auto
    then obtain R' where "visit_all (visit (nbr g) f) ys (set (R @ N), R @ N) = Some (set R', R')" "distinct R'"
      "set ys \<subseteq> set R'" "set (R @ N) \<subseteq> set R'" "set R' \<subseteq> set xs" "topo g R'"
      using Cons.IH [of "R @ N"] Cons.prems(1) N(6) by auto
    with N(1,5) show ?case unfolding eq by (intro exI [of _ R']) auto
  qed simp
  from this [of xs "[]"] show ?thesis by (auto simp: topo_def)
qed

end

lemma depth_pred_less: "dag_inv d \<Longrightarrow> j \<in> set (preds d i) \<Longrightarrow> depth d j < depth d i"
proof -
  assume inv: "dag_inv d" and j: "j \<in> set (preds d i)"
  have "Suc (depth d j) \<le> Max (insert 0 ((\<lambda>p. Suc (depth d p)) ` set (preds d i)))"
    using j by (intro Max_ge) auto
  also have "\<dots> = depth d i" by (rule sym, rule spec [OF dag_invD(3) [OF inv]])
  finally show ?thesis by linarith
qed

lemma depth_less: "dag_inv d \<Longrightarrow> i \<in> set (keys d) \<Longrightarrow> depth d i < length (nodes d)"
  by (rule dag_invD(8) [rule_format])

lemma edge_sym: "dag_inv d \<Longrightarrow> j \<in> set (preds d i) \<longleftrightarrow> i \<in> set (succs d j)"
  by (rule dag_invD(2) [rule_format])

lemma edge_keys: "dag_inv d \<Longrightarrow> j \<in> set (preds d i) \<Longrightarrow> i \<in> set (keys d) \<and> j \<in> set (keys d)"
  by (rule dag_invD(5) [rule_format])

interpretation up: ranked_graph dag_inv preds depth
  by unfold_locales (rule depth_pred_less)

interpretation down: ranked_graph dag_inv succs "\<lambda>d i. length (nodes d) - depth d i"
proof unfold_locales
  fix d b a
  assume inv: "dag_inv d" and b: "b \<in> set (succs d a)"
  then have "a \<in> set (preds d b)" by (simp add: edge_sym)
  with inv show "length (nodes d) - depth d b < length (nodes d) - depth d a"
    using depth_pred_less [of d a b] edge_keys [of d a b] depth_less [of d b] by fastforce
qed

subsection \<open>Graphs that AddEvent can build\<close>

inductive dag_step :: "DAG \<Rightarrow> DAG \<Rightarrow> bool" where
  add: "AddEvent iter d evt = (r, d') \<Longrightarrow> dag_step d d'"

definition dag_init :: "DAG \<Rightarrow> bool" where
  "dag_init d \<longleftrightarrow> (\<exists>tid. d = NewDAG tid)"

lemma AddEvent_known:
  "EventID evt \<in> set (keys d) \<Longrightarrow> AddEvent iter d evt = (Some ErrDuplicateEvent, d)"
  by (simp add: AddEvent_def in_keys Let_def)

interpretation dag: step_system dag_init dag_step dag_inv
proof unfold_locales
  fix d show "dag_init d \<Longrightarrow> dag_inv d" by (auto simp: dag_init_def dag_inv_NewDAG)
next
  fix d d'
  assume "dag_step d d'" and inv: "dag_inv d"
  then obtain iter evt r where add: "AddEvent iter d evt = (r, d')" by (auto elim: dag_step.cases)
  show "dag_inv d'"
  proof (cases "EventID evt \<in> set (keys d)")
    case True
    with add inv show ?thesis by (simp add: AddEvent_known)
  next
    case False
    with add inv dag_inv_AddEvent [OF inv False, of iter] show ?thesis by auto
  qed
qed

lemma reachable_dag_inv: "dag_step\<^sup>*\<^sup>* (NewDAG tid) d \<Longrightarrow> dag_inv d"
  using dag.reachable_inv [of "NewDAG tid" d] by (auto simp: dag_init_def)

lemma topological_run:
  assumes "dag_inv d" and "set iter = set (keys d)"
  shows "\<exists>R. TopologicalSort d iter = Some R \<and> distinct R \<and> set R = set (keys d)
    \<and> (\<forall>k < length R. \<forall>p \<in> set (preds d (R ! k)). \<exists>j < k. R ! j = p)"
proof -
  note inv = assms(1)
  have "\<forall>i \<in> set iter. depth d i < dag_fuel d"
    using depth_less [OF inv] assms(2) by (auto simp: dag_fuel_def less_Suc_eq)
  moreover have "\<forall>i \<in> set iter. set (preds d i) \<subseteq> set iter"
    using edge_keys [OF inv] assms(2) by auto
  ultimately obtain V R where R: "visit_all (visit (preds d) (dag_fuel d)) iter ({}, []) = Some (V, R)"
    "distinct R" "set R = set iter" "up.topo d R"
    using up.visit_all_correct [OF inv] by blast
  have "\<exists>j < k. R ! j = p" if "k < length R" "p \<in> set (preds d (R ! k))" for k p
  proof -
    have "p \<in> set (take k R)" using R(4) that unfolding up.topo_def by blast
    then show ?thesis using that(1) by (auto simp: in_set_conv_nth)
  qed
  with R assms(2) show ?thesis by (simp add: TopologicalSort_def)
qed

text \<open>Later insertions keep the nodes and the predecessors of a node.\<close>

lemma step_keeps:
  assumes "dag_step\<^sup>*\<^sup>* d d'" and "dag_inv d" and "i \<in> set (keys d)"
  shows "dag_inv d' \<and> i \<in> set (keys d') \<and> preds d' i = preds d i \<and> event_of d' i = event_of d i"
  using assms(1)
proof (induction rule: rtranclp_induct)
  case base
  then show ?case using assms(2,3) by simp
next
  case (step d1 d2)
  from step.hyps(2) obtain iter evt r where add: "AddEvent iter d1 evt = (r, d2)" by (auto elim: dag_step.cases)
  show ?case
  proof (cases "EventID evt \<in> set (keys d1)")
    case True
    with add step.IH show ?thesis by (simp add: AddEvent_known)
  next
    case False
    from dag_inv_AddEvent [OF _ False, of iter] step.IH add show ?thesis by auto
  qed
qed

text \<open>A sample graph for the witnesses: \<open>b\<close> follows \<open>a\<close>, and \<open>c\<close> follows both.\<close>

definition sample_event :: "string \<Rightarrow> string \<Rightarrow> string list \<Rightarrow> event" where
  "sample_event i h ps = \<lparr>EventID = i, TraceID = ''t'', ParentEventID = '''', PrevEventHash = '''',
     PrevEventHashes = ps, EventType = EventTypeInput, Timestamp = 0, Sequence = 1, TenantID = '''',
     UserID = '''', SessionID = '''', Payload = '''', PayloadHash = '''', EventHash = h\<rparr>"

definition sample_dag :: DAG where
  "sample_dag = (let it = (\<lambda>k. [''a'', ''b'', ''c'']);
     d1 = snd (AddEvent it (NewDAG ''t'') (sample_event ''a'' ''ha'' []));
     d2 = snd (AddEvent it d1 (sample_event ''b'' ''hb'' [''ha'']))
   in snd (AddEvent it d2 (sample_event ''c'' ''hc'' [''ha'', ''hb''])))"

lemma sample_dag_reachable: "dag_step\<^sup>*\<^sup>* (NewDAG ''t'') sample_dag"
proof -
  have "dag_step d (snd (AddEvent iter d e))" for iter d e
    by (rule add [of iter d e "fst (AddEvent iter d e)"]) simp
  then have step: "dag_step\<^sup>*\<^sup>* d0 d \<Longrightarrow> dag_step\<^sup>*\<^sup>* d0 (snd (AddEvent iter d e))" for d0 iter d e
    by (blast intro: rtranclp.rtrancl_into_rtrancl)
  show ?thesis unfolding sample_dag_def Let_def by (intro step rtranclp.rtrancl_refl)
qed

lemma hasCycleFrom_new: "succs d i = [] \<Longrightarrow> hasCycleFrom d i {} = False"
  by (subst hasCycleFrom.simps) simp

lemma sample_dag_nodes:
  "keys sample_dag = [''a'', ''b'', ''c'']" "preds sample_dag ''c'' = [''a'', ''b'']" "preds sample_dag ''b'' = [''a'']"
  by (simp_all add: sample_dag_def Let_def AddEvent_def NewDAG_def node_of_def sample_event_def prev_hashes_def
      findNodeByHash_def depth_def updateLeaves_def succs_def keys_def preds_def hasCycleFrom_new)

subsection \<open>Properties\<close>

text \<open>C9. Every graph that \<open>AddEvent\<close> builds is a well-formed DAG: node ids are distinct and agree with
  their events, an edge is recorded at both ends and leads from an event to one that names its hash,
  the depth of a node is the length of the longest path to it, the leaves are the nodes without
  successors, and the roots the events that name no predecessor. \<open>AddEvent\<close> fails only on a known id:
  it never reports \<open>ErrCycleDetected\<close>, since a new node has no successors.\<close>

theorem AddEvent_invariant:
  assumes "dag_step\<^sup>*\<^sup>* (NewDAG tid) d"
  shows "distinct (keys d)
    \<and> (\<forall>i j. j \<in> set (preds d i) \<longleftrightarrow> i \<in> set (succs d j))
    \<and> (\<forall>i. depth d i = Max (insert 0 ((\<lambda>p. Suc (depth d p)) ` set (preds d i))))
    \<and> (\<forall>i e p. event_of d i = Some e \<longrightarrow> p \<in> set (preds d i) \<longrightarrow>
         (\<exists>f. event_of d p = Some f \<and> EventHash f \<in> set (prev_hashes e)))
    \<and> set (GetLeaves d) = {i \<in> set (keys d). succs d i = []}
    \<and> set (GetRoots d) = {i. \<exists>e. event_of d i = Some e \<and> prev_hashes e = []}
    \<and> fst (AddEvent iter d evt) = (if EventID evt \<in> set (keys d) then Some ErrDuplicateEvent else None)"
proof -
  have inv: "dag_inv d" by (rule reachable_dag_inv [OF assms])
  have "fst (AddEvent iter d evt) = (if EventID evt \<in> set (keys d) then Some ErrDuplicateEvent else None)"
    using dag_inv_AddEvent [OF inv, of evt iter] AddEvent_known [of evt d iter] by auto
  with dag_invD(1-4,6,7) [OF inv] show ?thesis
    unfolding GetLeaves_def GetRoots_def by (rule conjI [OF _ conjI [OF _ conjI [OF _ conjI [OF _ conjI [OF _ conjI]]]]])
qed

theorem AddEvent_invariant_witness:
  "fst (AddEvent (\<lambda>_. []) sample_dag (sample_event ''d'' ''hd'' [''ha''])) = None
   \<and> fst (AddEvent (\<lambda>_. []) sample_dag (sample_event ''a'' ''hd'' [''ha''])) = Some ErrDuplicateEvent
   \<and> depth sample_dag ''c'' = Max (insert 0 ((\<lambda>p. Suc (depth sample_dag p)) ` {''a'', ''b''}))"
proof -
  have add: "fst (AddEvent iter sample_dag evt) =
      (if EventID evt \<in> set (keys sample_dag) then Some ErrDuplicateEvent else None)"
    and dep: "\<forall>i. depth sample_dag i = Max (insert 0 ((\<lambda>p. Suc (depth sample_dag p)) ` set (preds sample_dag i)))"
    for iter evt
    using AddEvent_invariant [OF sample_dag_reachable, of iter evt] by - (elim conjE, assumption)+
  have "depth sample_dag ''c'' = Max (insert 0 ((\<lambda>p. Suc (depth sample_dag p)) ` set (preds sample_dag ''c'')))"
    using dep by (rule spec)
  then show ?thesis by (simp add: add sample_dag_nodes sample_event_def)
qed

text \<open>C21. \<open>TopologicalSort\<close> ends and returns every event exactly once, each after all of its
  predecessors, in whatever order the map is iterated.\<close>

theorem TopologicalSort_correct:
  assumes "dag_step\<^sup>*\<^sup>* (NewDAG tid) d" and "set iter = set (keys d)"
  shows "\<exists>R. TopologicalSort d iter = Some R \<and> distinct R \<and> set R = set (keys d)
    \<and> (\<forall>k < length R. \<forall>p \<in> set (preds d (R ! k)). \<exists>j < k. R ! j = p)"
  by (rule topological_run [OF reachable_dag_inv [OF assms(1)] assms(2)])

theorem TopologicalSort_correct_witness:
  "\<exists>R. TopologicalSort sample_dag [''c'', ''a'', ''b''] = Some R \<and> distinct R \<and> set R = {''a'', ''b'', ''c''}"
proof -
  have "set [''c'', ''a'', ''b''] = set (keys sample_dag)" by (auto simp: sample_dag_nodes)
  from TopologicalSort_correct [OF sample_dag_reachable this] obtain R where
    "TopologicalSort sample_dag [''c'', ''a'', ''b''] = Some R" "distinct R" "set R = set (keys sample_dag)" by blast
  then show ?thesis by (simp add: sample_dag_nodes)
qed

text \<open>\<open>GetAncestors\<close> and \<open>GetDescendants\<close> return, each once and without the node itself, exactly the
  events that reach it and that it reaches along the edges; so one event is an ancestor of another
  exactly when the other is its descendant. An unknown id is \<open>ErrEventNotFound\<close>.\<close>

theorem GetAncestors_GetDescendants:
  assumes "dag_step\<^sup>*\<^sup>* (NewDAG tid) d"
  shows "if i \<in> set (keys d)
    then \<exists>A D. GetAncestors d i = Ok A \<and> GetDescendants d i = Ok D \<and> distinct A \<and> distinct D
      \<and> i \<notin> set A \<and> i \<notin> set D
      \<and> set A = {j. (\<lambda>a b. b \<in> set (preds d a))\<^sup>+\<^sup>+ i j} \<and> set D = {j. (\<lambda>a b. b \<in> set (preds d a))\<^sup>+\<^sup>+ j i}
    else GetAncestors d i = Err ErrEventNotFound \<and> GetDescendants d i = Err ErrEventNotFound"
proof (cases "i \<in> set (keys d)")
  case True
  have inv: "dag_inv d" by (rule reachable_dag_inv [OF assms])
  have "depth d i < dag_fuel d" "length (nodes d) - depth d i < dag_fuel d"
    using depth_less [OF inv True] by (auto simp: dag_fuel_def)
  then obtain V A W D where "collect (preds d) (dag_fuel d) i ({}, []) = Some (V, A)" "distinct A" "i \<notin> set A"
    "set A = {j. (\<lambda>a b. b \<in> set (preds d a))\<^sup>+\<^sup>+ i j}"
    "collect (succs d) (dag_fuel d) i ({}, []) = Some (W, D)" "distinct D" "i \<notin> set D"
    "set D = {j. (\<lambda>a b. b \<in> set (succs d a))\<^sup>+\<^sup>+ i j}"
    using up.collect_correct [OF inv, of i "dag_fuel d"] down.collect_correct [OF inv, of i "dag_fuel d"] by blast
  moreover have "(\<lambda>a b. b \<in> set (succs d a)) = (\<lambda>a b. b \<in> set (preds d a))\<inverse>\<inverse>"
    using edge_sym [OF inv] by (simp add: fun_eq_iff)
  then have "(\<lambda>a b. b \<in> set (succs d a))\<^sup>+\<^sup>+ i j \<longleftrightarrow> (\<lambda>a b. b \<in> set (preds d a))\<^sup>+\<^sup>+ j i" for j
    by (simp add: tranclp_converse)
  ultimately show ?thesis using True by (simp add: GetAncestors_def GetDescendants_def in_keys)
next
  case False
  then show ?thesis by (simp add: GetAncestors_def GetDescendants_def in_keys)
qed

theorem GetAncestors_GetDescendants_witness:
  "\<exists>A. GetAncestors sample_dag ''c'' = Ok A \<and> ''a'' \<in> set A \<and> ''c'' \<notin> set A"
proof -
  from GetAncestors_GetDescendants [OF sample_dag_reachable, of "''c''"]
  obtain A where "GetAncestors sample_dag ''c'' = Ok A" "''c'' \<notin> set A"
    "set A = {j. (\<lambda>a b. b \<in> set (preds sample_dag a))\<^sup>+\<^sup>+ ''c'' j}" by (auto simp: sample_dag_nodes)
  moreover have "(\<lambda>a b. b \<in> set (preds sample_dag a))\<^sup>+\<^sup>+ ''c'' ''a''" by (auto simp: sample_dag_nodes)
  ultimately show ?thesis by auto
qed

end
