(* ===== verification/Validator.thy ===== *)
theory Validator
  imports Dag HashTree "HOL-Library.Multiset" "HOL-Library.List_Lexorder" "HOL-Library.Char_ord"
begin

text \<open>
  Hashes and checks on the causal graph: \<open>server/internal/dag/validator.go\<close>, and \<open>Verify\<close>,
  \<open>ComputeMergeHash\<close> and \<open>ToJSON\<close> of \<open>dag.go\<close>.

  \<open>sort.Strings\<close> is \<open>sort\<close> for the bytewise lexicographic order. \<open>sort.Slice\<close> on timestamps is not
  stable, so it is the argument \<open>sort_events\<close>. \<open>VerifyMergePoint\<close> sorts the hash slice of the event it
  is given in place, so it returns the event it leaves behind. The reports carry no clock values.
\<close>

subsection \<open>Hashes\<close>

definition ComputeMergeHash :: "string list \<Rightarrow> string" where
  "ComputeMergeHash predecessorHashes = sha256_hex (concat (sort predecessorHashes))"

definition event_json :: "event \<Rightarrow> string" where
  "event_json evt = json_object
     [(''event_id'', Some (json_string (EventID evt))),
      (''trace_id'', Some (json_string (TraceID evt))),
      (''prev_event_hash'', omit_empty (PrevEventHash evt)),
      (''prev_event_hashes'', (if PrevEventHashes evt = [] then None else Some (json_array (PrevEventHashes evt)))),
      (''event_type'', Some (json_string (EventType evt))),
      (''timestamp'', Some (itoa (unix_seconds (Timestamp evt)))),
      (''sequence'', Some (itoa (Sequence evt))),
      (''payload_hash'', Some (json_string (PayloadHash evt)))]"

definition ComputeEventHash :: "event \<Rightarrow> string" where
  "ComputeEventHash evt = sha256_hex (event_json evt)"

definition VerifyEventHash :: "event \<Rightarrow> bool" where
  "VerifyEventHash evt \<longleftrightarrow> ComputeEventHash evt = EventHash evt"

definition ComputeCausalHash :: "(event list \<Rightarrow> event list) \<Rightarrow> event list \<Rightarrow> string" where
  "ComputeCausalHash sort_events events =
     (if events = [] then '''' else sha256_hex (concat (map EventHash (sort_events events))))"

subsection \<open>Verify\<close>

record VerificationResult =
  vr_TraceID :: string
  vr_Valid :: bool
  vr_TotalNodes :: nat
  vr_InvalidNodes :: "string list"
  vr_OrphanNodes :: "string list"

definition orphan :: "DAG \<Rightarrow> string list \<Rightarrow> event \<Rightarrow> bool" where
  "orphan d iter evt \<longleftrightarrow> (\<exists>h \<in> set (prev_hashes evt). findNodeByHash d iter h = None)"

definition events_at :: "DAG \<Rightarrow> string list \<Rightarrow> event list" where
  "events_at d iter = List.map_filter (event_of d) iter"

definition Verify :: "DAG \<Rightarrow> string list \<Rightarrow> VerificationResult \<times> DAG" where
  "Verify d iter =
     (let evts = events_at d iter;
          invalid = map EventID (filter (\<lambda>e. \<not> VerifyEventHash e) evts);
          orphans = map EventID (filter (orphan d iter) evts)
      in (\<lparr>vr_TraceID = traceID d, vr_Valid = (invalid = [] \<and> orphans = []), vr_TotalNodes = length (nodes d),
           vr_InvalidNodes = invalid, vr_OrphanNodes = orphans\<rparr>,
          d\<lparr>nodes := map (\<lambda>(k, n). (k, if VerifyEventHash (n_Event n) then n\<lparr>Verified := True\<rparr> else n)) (nodes d)\<rparr>))"

subsection \<open>VerifyDAG\<close>

record ValidationError =
  ve_EventID :: string
  ve_Type :: string
  ve_Message :: string

record ValidationReport =
  rp_TraceID :: string
  rp_Valid :: bool
  rp_TotalNodes :: nat
  rp_Errors :: "ValidationError list"

definition predecessorExists :: "event list \<Rightarrow> string \<Rightarrow> bool" where
  "predecessorExists events hash \<longleftrightarrow> (\<exists>evt \<in> set events. EventHash evt = hash)"

definition hash_errors :: "event list \<Rightarrow> ValidationError list" where
  "hash_errors events = map (\<lambda>e. \<lparr>ve_EventID = EventID e, ve_Type = ''invalid_hash'',
       ve_Message = ''event hash does not match computed hash''\<rparr>) (filter (\<lambda>e. \<not> VerifyEventHash e) events)"

definition chain_errors :: "event list \<Rightarrow> ValidationError list" where
  "chain_errors events = concat (map (\<lambda>e.
     map (\<lambda>h. \<lparr>ve_EventID = EventID e, ve_Type = ''missing_predecessor'',
                ve_Message = ''predecessor event not found: '' @ h\<rparr>)
       (filter (\<lambda>h. \<not> predecessorExists events h) (prev_hashes e))) events)"

definition time_errors :: "DAG \<Rightarrow> event list \<Rightarrow> ValidationError list" where
  "time_errors d events = concat (map (\<lambda>e.
     case GetNode d (EventID e) of
       Ok n \<Rightarrow> map (\<lambda>p. \<lparr>ve_EventID = EventID e, ve_Type = ''timestamp_violation'',
                       ve_Message = ''timestamp is not after predecessor''\<rparr>)
                (filter (\<lambda>p. case event_of d p of None \<Rightarrow> False | Some f \<Rightarrow>
                    \<not> (Timestamp e > Timestamp f) \<and> Timestamp e \<noteq> Timestamp f) (Predecessors n))
     | _ \<Rightarrow> []) events)"

definition VerifyDAG :: "DAG \<Rightarrow> string list \<Rightarrow> ValidationReport option" where
  "VerifyDAG d iter =
     (case TopologicalSort d iter of
        None \<Rightarrow> None
      | Some ids \<Rightarrow>
          let events = events_at d ids;
              errors = hash_errors events @ chain_errors events @ time_errors d events
          in Some \<lparr>rp_TraceID = traceID d, rp_Valid = (errors = []), rp_TotalNodes = Size d, rp_Errors = errors\<rparr>)"

subsection \<open>Merge points and causal order\<close>

definition VerifyMergePoint :: "event \<Rightarrow> event list \<Rightarrow> bool \<times> event" where
  "VerifyMergePoint evt predecessors =
     (if length (PrevEventHashes evt) \<le> 1 then (True, evt)
      else let predHashes = sort (map EventHash predecessors);
               evt' = evt\<lparr>PrevEventHashes := sort (PrevEventHashes evt)\<rparr>
           in (predHashes = PrevEventHashes evt', evt'))"

fun causal_from :: "string set \<Rightarrow> event list \<Rightarrow> bool" where
  "causal_from seen [] = True"
| "causal_from seen (evt # evts) =
     (if \<exists>h \<in> set (prev_hashes evt). h \<noteq> '''' \<and> h \<notin> seen then False
      else causal_from (insert (EventHash evt) seen) evts)"

definition ValidateCausalOrder :: "event list \<Rightarrow> bool" where
  "ValidateCausalOrder events = causal_from {} events"

subsection \<open>Export\<close>

record NodeExport =
  ne_EventID :: string
  ne_EventType :: string
  ne_EventHash :: string
  ne_Timestamp :: time
  ne_Depth :: nat

record DAGExport =
  de_TraceID :: string
  de_Nodes :: "NodeExport list"
  de_Edges :: "(string \<times> string) list"

definition ToJSON :: "DAG \<Rightarrow> string list \<Rightarrow> DAGExport" where
  "ToJSON d iter =
     \<lparr>de_TraceID = traceID d,
      de_Nodes = map (\<lambda>e. \<lparr>ne_EventID = EventID e, ne_EventType = EventType e, ne_EventHash = EventHash e,
                          ne_Timestamp = Timestamp e, ne_Depth = depth d (EventID e)\<rparr>) (events_at d iter),
      de_Edges = concat (map (\<lambda>i. map (\<lambda>s. (i, s)) (succs d i)) iter)\<rparr>"

subsection \<open>Lemmas\<close>

lemma set_events_at: "set (events_at d iter) = {e. \<exists>i \<in> set iter. event_of d i = Some e}"
  by (auto simp: events_at_def map_filter_def image_iff)
     (metis (mono_tags, lifting) option.sel option.distinct(1))

lemma events_at_keys:
  "set iter \<subseteq> set (keys d) \<Longrightarrow> length (events_at d iter) = length iter
     \<and> (\<forall>k < length iter. event_of d (iter ! k) = Some (events_at d iter ! k))"
proof (induction iter)
  case (Cons i iter)
  then obtain e where "event_of d i = Some e" using event_of_keys [of d i] by auto
  with Cons show ?case
    by (auto simp: events_at_def List.map_filter_simps nth_Cons split: nat.splits)
qed (simp add: events_at_def List.map_filter_simps)

lemma causal_from_iff:
  "causal_from seen evts \<longleftrightarrow> (\<forall>k < length evts. \<forall>h \<in> set (prev_hashes (evts ! k)).
     h = '''' \<or> h \<in> seen \<or> (\<exists>j < k. EventHash (evts ! j) = h))"
proof (induction evts arbitrary: seen)
  case (Cons e evts)
  show ?case
    unfolding causal_from.simps Cons.IH
    by (auto simp: nth_Cons All_less_Suc2 Ex_less_Suc2 split: nat.splits) 
qed simp

lemma VerifyDAG_events:
  assumes "dag_inv d" and "set iter = set (keys d)"
  shows "\<exists>ids. TopologicalSort d iter = Some ids \<and> set (events_at d ids) = {e. \<exists>i. event_of d i = Some e}"
proof -
  obtain R where R: "TopologicalSort d iter = Some R" "set R = set (keys d)"
    using topological_run [OF assms] by blast
  have "i \<in> set (keys d)" if "event_of d i = Some e" for i e
    using that event_of_keys [of d i] by auto
  with R show ?thesis by (auto simp: set_events_at)
qed

lemma findNodeByHash_exists:
  assumes "set iter = set (keys d)"
  shows "findNodeByHash d iter h \<noteq> None \<longleftrightarrow> (\<exists>j f. event_of d j = Some f \<and> EventHash f = h)"
  using assms in_keys [of _ d] unfolding findNodeByHash_None event_of_def by (auto simp: map_option_eq_Some)

lemma time_errors_empty:
  assumes "\<And>e. e \<in> set events \<Longrightarrow> event_of d (EventID e) = Some e"
  shows "time_errors d events = [] \<longleftrightarrow> (\<forall>e \<in> set events. \<forall>p \<in> set (preds d (EventID e)). \<forall>f.
    event_of d p = Some f \<longrightarrow> Timestamp f \<le> Timestamp e)"
proof -
  have "(case GetNode d (EventID e) of Ok n \<Rightarrow> map (\<lambda>p. \<lparr>ve_EventID = EventID e, ve_Type = ''timestamp_violation'',
      ve_Message = ''timestamp is not after predecessor''\<rparr>)
        (filter (\<lambda>p. case event_of d p of None \<Rightarrow> False | Some f \<Rightarrow>
           \<not> (Timestamp e > Timestamp f) \<and> Timestamp e \<noteq> Timestamp f) (Predecessors n)) | _ \<Rightarrow> []) = []
    \<longleftrightarrow> (\<forall>p \<in> set (preds d (EventID e)). \<forall>f. event_of d p = Some f \<longrightarrow> Timestamp f \<le> Timestamp e)"
    if e: "e \<in> set events" for e
  proof -
    obtain n where n: "node_of d (EventID e) = Some n" using assms [OF e] by (auto simp: event_of_def)
    then show ?thesis
      by (auto simp: GetNode_def preds_def filter_empty_conv not_less le_less split: option.splits)
  qed
  then show ?thesis unfolding time_errors_def by auto
qed

text \<open>A JSON array of strings of one length without escapes determines the strings.\<close>

lemma json_string_hex: "\<forall>c \<in> set s. is_hex_char c \<Longrightarrow> json_string s = dquote @ s @ dquote"
proof -
  have "json_char c = [c]" if "is_hex_char c" for c
    using that by (auto simp: is_hex_char_def json_char_def)
  then have "\<forall>c \<in> set s. is_hex_char c \<Longrightarrow> concat (map json_char s) = s" by (induction s) auto
  then show "\<forall>c \<in> set s. is_hex_char c \<Longrightarrow> json_string s = dquote @ s @ dquote"
    by (simp add: json_string_def)
qed

lemma join_inj:
  "\<lbrakk>length xs = length ys; \<forall>x \<in> set xs. length x = n; \<forall>y \<in> set ys. length y = n; join sep xs = join sep ys\<rbrakk>
   \<Longrightarrow> xs = ys"
proof (induction xs ys rule: list_induct2)
  case (Cons x xs y ys)
  then show ?case by (cases xs; cases ys) auto
qed simp

lemma json_array_inj:
  assumes "length xs = length ys" and "\<forall>x \<in> set xs \<union> set ys. length x = n \<and> (\<forall>c \<in> set x. is_hex_char c)"
    and "json_array xs = json_array ys"
  shows "xs = ys"
proof -
  have quote: "json_string x = dquote @ x @ dquote" if "x \<in> set xs \<union> set ys" for x
    using assms(2) that by (intro json_string_hex) blast
  then have "map json_string xs = map (\<lambda>s. dquote @ s @ dquote) xs" "map json_string ys = map (\<lambda>s. dquote @ s @ dquote) ys"
    by simp_all
  moreover have "map json_string xs = map json_string ys"
  proof (rule join_inj [where n = "n + 2" and sep = "'',''"])
    show "join '','' (map json_string xs) = join '','' (map json_string ys)"
      using assms(3) by (simp add: json_array_def)
  qed (use assms(1,2) quote in \<open>auto simp: dquote_def\<close>)
  ultimately have "map (\<lambda>s. dquote @ s @ dquote) xs = map (\<lambda>s. dquote @ s @ dquote) ys" by simp
  moreover have "inj (\<lambda>s. dquote @ s @ dquote)" by (simp add: inj_def)
  ultimately show ?thesis by (simp add: inj_map_eq_map)
qed

lemma event_json_hashes_inj:
  assumes "event_json (e\<lparr>PrevEventHashes := xs\<rparr>) = event_json (e\<lparr>PrevEventHashes := ys\<rparr>)"
    and "xs \<noteq> []" and "ys \<noteq> []"
  shows "json_array xs = json_array ys"
  using assms by (cases "PrevEventHash e = ''''")
    (simp_all add: event_json_def json_object_def List.map_filter_simps omit_empty_def)

subsection \<open>Properties\<close>

text \<open>\<open>VerifyDAG\<close> ends on every graph \<open>AddEvent\<close> builds, and its report is valid exactly when every
  event carries the hash \<open>ComputeEventHash\<close> gives, every hash an event names is the hash of an event
  of the graph, and no event is older than one of its predecessors. Sequence numbers play no part.\<close>

theorem VerifyDAG_valid_iff:
  assumes "dag_step\<^sup>*\<^sup>* (NewDAG tid) d" and "set iter = set (keys d)"
  shows "\<exists>rep. VerifyDAG d iter = Some rep \<and> rp_TotalNodes rep = length (keys d) \<and>
    (rp_Valid rep \<longleftrightarrow> (\<forall>i e. event_of d i = Some e \<longrightarrow> VerifyEventHash e
       \<and> (\<forall>h \<in> set (prev_hashes e). \<exists>j f. event_of d j = Some f \<and> EventHash f = h)
       \<and> (\<forall>p \<in> set (preds d i). \<forall>f. event_of d p = Some f \<longrightarrow> Timestamp f \<le> Timestamp e)))"
proof -
  have inv: "dag_inv d" by (rule reachable_dag_inv [OF assms(1)])
  obtain ids where ids: "TopologicalSort d iter = Some ids" "set (events_at d ids) = {e. \<exists>i. event_of d i = Some e}"
    using VerifyDAG_events [OF inv assms(2)] by blast
  let ?evs = "events_at d ids"
  have id: "EventID e = i" if "event_of d i = Some e" for i e
    using inv that unfolding dag_inv_def by blast
  have "hash_errors ?evs = [] \<longleftrightarrow> (\<forall>i e. event_of d i = Some e \<longrightarrow> VerifyEventHash e)"
    using ids(2) by (auto simp: hash_errors_def filter_empty_conv)
  moreover have "chain_errors ?evs = [] \<longleftrightarrow> (\<forall>i e. event_of d i = Some e \<longrightarrow>
      (\<forall>h \<in> set (prev_hashes e). \<exists>j f. event_of d j = Some f \<and> EventHash f = h))"
  proof -
    have "chain_errors ?evs = [] \<longleftrightarrow> (\<forall>e \<in> set ?evs. \<forall>h \<in> set (prev_hashes e). \<exists>f \<in> set ?evs. EventHash f = h)"
      by (simp add: chain_errors_def filter_empty_conv predecessorExists_def)
    then show ?thesis unfolding ids(2) by blast
  qed
  moreover have "\<And>e. e \<in> set ?evs \<Longrightarrow> event_of d (EventID e) = Some e"
    using ids(2) id by auto
  from time_errors_empty [of ?evs d, OF this] have "time_errors d ?evs = [] \<longleftrightarrow> (\<forall>i e. event_of d i = Some e \<longrightarrow>
      (\<forall>p \<in> set (preds d i). \<forall>f. event_of d p = Some f \<longrightarrow> Timestamp f \<le> Timestamp e))"
    using ids(2) id by auto
  moreover have "Size d = length (keys d)" by (simp add: Size_def length_keys)
  ultimately show ?thesis using ids(1) by (simp add: VerifyDAG_def Let_def) blast
qed

theorem VerifyDAG_valid_iff_witness:
  "\<exists>rep. VerifyDAG sample_dag [''b'', ''c'', ''a''] = Some rep \<and> rp_TotalNodes rep = 3"
proof -
  have "set [''b'', ''c'', ''a''] = set (keys sample_dag)" by (auto simp: sample_dag_nodes)
  from VerifyDAG_valid_iff [OF sample_dag_reachable this] obtain rep where
    "VerifyDAG sample_dag [''b'', ''c'', ''a''] = Some rep" "rp_TotalNodes rep = length (keys sample_dag)" by blast
  then show ?thesis by (simp add: sample_dag_nodes)
qed

text \<open>A topological order is a causal order. When every hash an event names belongs to one of its
  predecessors in the graph, \<open>ValidateCausalOrder\<close> accepts the events in the order of
  \<open>TopologicalSort\<close>.\<close>

theorem TopologicalSort_causal:
  assumes "dag_step\<^sup>*\<^sup>* (NewDAG tid) d" and "set iter = set (keys d)"
    and linked: "\<forall>i e. event_of d i = Some e \<longrightarrow> (\<forall>h \<in> set (prev_hashes e).
      \<exists>p \<in> set (preds d i). \<exists>f. event_of d p = Some f \<and> EventHash f = h)"
  shows "\<exists>ids. TopologicalSort d iter = Some ids \<and> length (events_at d ids) = length (keys d)
    \<and> ValidateCausalOrder (events_at d ids)"
proof -
  have inv: "dag_inv d" by (rule reachable_dag_inv [OF assms(1)])
  obtain R where R: "TopologicalSort d iter = Some R" "distinct R" "set R = set (keys d)"
    "\<forall>k < length R. \<forall>p \<in> set (preds d (R ! k)). \<exists>j < k. R ! j = p"
    using topological_run [OF inv assms(2)] by blast
  let ?evs = "events_at d R"
  have len: "length ?evs = length R" and ev: "\<And>k. k < length R \<Longrightarrow> event_of d (R ! k) = Some (?evs ! k)"
    using events_at_keys [of R d] R(3) by auto
  have "\<exists>j < k. EventHash (?evs ! j) = h" if k: "k < length ?evs" "h \<in> set (prev_hashes (?evs ! k))" for k h
  proof -
    obtain p f where p: "p \<in> set (preds d (R ! k))" "event_of d p = Some f" "EventHash f = h"
      using linked ev [of k] k len by metis
    then obtain j where "j < k" "R ! j = p" using R(4) k len by auto
    with p ev [of j] k len show ?thesis by auto
  qed
  then have "ValidateCausalOrder ?evs" unfolding ValidateCausalOrder_def causal_from_iff by blast
  moreover have "length (keys d) = length R" using R(2,3) dag_invD(1) [OF inv] by (metis distinct_card)
  ultimately show ?thesis using R(1) len by auto
qed

theorem TopologicalSort_causal_witness:
  "\<exists>ids. TopologicalSort sample_dag [''c'', ''b'', ''a''] = Some ids \<and> ValidateCausalOrder (events_at sample_dag ids)"
proof -
  have ev: "event_of sample_dag = [''a'' \<mapsto> sample_event ''a'' ''ha'' [], ''b'' \<mapsto> sample_event ''b'' ''hb'' [''ha''],
      ''c'' \<mapsto> sample_event ''c'' ''hc'' [''ha'', ''hb'']]"
    by (simp add: fun_eq_iff event_of_def sample_dag_def Let_def AddEvent_def NewDAG_def node_of_def
        sample_event_def prev_hashes_def findNodeByHash_def depth_def updateLeaves_def succs_def keys_def
        hasCycleFrom_new)
  have "set [''c'', ''b'', ''a''] = set (keys sample_dag)" by (auto simp: sample_dag_nodes)
  moreover have "\<forall>i e. event_of sample_dag i = Some e \<longrightarrow> (\<forall>h \<in> set (prev_hashes e).
      \<exists>p \<in> set (preds sample_dag i). \<exists>f. event_of sample_dag p = Some f \<and> EventHash f = h)"
    unfolding ev by (auto simp: sample_dag_nodes sample_event_def prev_hashes_def split: if_splits)
  ultimately show ?thesis using TopologicalSort_causal [OF sample_dag_reachable] by blast
qed

text \<open>A predecessor that arrives late is never linked. When an event is added before the event
  whose hash it names (with equal timestamps \<open>BuildDAGFromEvents\<close> may do so), it has no predecessor
  then nor after any further insertion; yet once the predecessor is there, \<open>Verify\<close> no longer
  counts the event as an orphan, so the graph passes with the causal edge missing.\<close>

theorem late_predecessor_never_linked:
  assumes "dag_step\<^sup>*\<^sup>* (NewDAG tid) d" and "event_of d i = Some e" and "prev_hashes e = [h]"
    and "\<forall>j f. event_of d j = Some f \<longrightarrow> EventHash f \<noteq> h"
    and "AddEvent iter d late = (None, d1)" and "EventHash late = h" and "dag_step\<^sup>*\<^sup>* d1 d2"
    and "set iter2 = set (keys d2)"
  shows "preds d2 i = [] \<and> event_of d2 i = Some e \<and> event_of d2 (EventID late) = Some late
    \<and> \<not> orphan d2 iter2 e"
proof -
  have inv: "dag_inv d" by (rule reachable_dag_inv [OF assms(1)])
  have fresh: "EventID late \<notin> set (keys d)" using assms(5) AddEvent_known [of late d iter] by auto
  have i: "i \<in> set (keys d)" using assms(2) event_of_keys [of d i] by auto
  have "preds d i = []"
  proof (rule ccontr)
    assume "preds d i \<noteq> []"
    then obtain p where "p \<in> set (preds d i)" by (cases "preds d i") auto
    then obtain f where "event_of d p = Some f" "EventHash f \<in> set (prev_hashes e)"
      using dag_invD(4) [OF inv] assms(2) by blast
    with assms(3,4) show False by auto
  qed
  with dag_inv_AddEvent [OF inv fresh, of iter] assms(2,5) i
  have d1: "dag_inv d1" "preds d1 i = []" "event_of d1 i = Some e" "event_of d1 (EventID late) = Some late"
    "i \<in> set (keys d1)" "EventID late \<in> set (keys d1)" by auto
  have "dag_inv d2" "preds d2 i = []" "event_of d2 i = Some e" "event_of d2 (EventID late) = Some late"
    using step_keeps [OF assms(7) d1(1,5)] step_keeps [OF assms(7) d1(1,6)] d1 by auto
  moreover from this have "\<not> orphan d2 iter2 e"
    using findNodeByHash_exists [OF assms(8), of h] assms(3,6) by (auto simp: orphan_def)
  ultimately show ?thesis by blast
qed

theorem late_predecessor_never_linked_witness:
  "\<exists>d1 d2 e. AddEvent (\<lambda>_. []) (NewDAG ''t'') (sample_event ''x'' ''hx'' [''hy'']) = (None, d1)
     \<and> AddEvent (\<lambda>_. [''x'']) d1 (sample_event ''y'' ''hy'' []) = (None, d2)
     \<and> event_of d2 ''x'' = Some e \<and> preds d2 ''x'' = [] \<and> \<not> orphan d2 (keys d2) e"
proof -
  let ?x = "sample_event ''x'' ''hx'' [''hy'']" and ?y = "sample_event ''y'' ''hy'' []"
  have x: "EventID ?x = ''x''" "prev_hashes ?x = [''hy'']" "EventHash ?x = ''hx''" "EventID ?y = ''y''" "EventHash ?y = ''hy''"
    by (simp_all add: sample_event_def prev_hashes_def)
  have k0: "keys (NewDAG ''t'') = []" by (simp add: keys_def NewDAG_def)
  obtain d1 where d1: "AddEvent (\<lambda>_. []) (NewDAG ''t'') ?x = (None, d1)" "dag_inv d1" "keys d1 = [''x'']"
    "event_of d1 ''x'' = Some ?x"
    using dag_inv_AddEvent [OF dag_inv_NewDAG, of ?x "''t''" "\<lambda>_. []"] by (auto simp: x k0)
  obtain d2 where d2: "AddEvent (\<lambda>_. [''x'']) d1 ?y = (None, d2)"
    using dag_inv_AddEvent [OF d1(2), of ?y "\<lambda>_. [''x'']"] by (auto simp: x d1(3))
  have reach: "dag_step\<^sup>*\<^sup>* (NewDAG ''t'') d1" using add [OF d1(1)] by blast
  have "\<forall>j f. event_of d1 j = Some f \<longrightarrow> EventHash f \<noteq> ''hy''"
  proof (intro allI impI)
    fix j f assume "event_of d1 j = Some f"
    moreover from this have "j = ''x''" using event_of_keys [of d1 j] d1(3) by auto
    ultimately show "EventHash f \<noteq> ''hy''" using d1(4) x by simp
  qed
  from late_predecessor_never_linked [OF reach d1(4) x(2) this d2 x(5) rtranclp.rtrancl_refl refl]
  show ?thesis using d1(1) d2 by blast
qed

text \<open>\<open>VerifyMergePoint\<close> accepts a merge of at least two branches exactly when the multiset of the
  predecessors' hashes is the multiset of the hashes the event names; but it leaves those sorted in
  the event. If they were not sorted before, the event's hash then covers another input, so the
  event no longer verifies unless that input is a collision of SHA-256.\<close>

theorem VerifyMergePoint_mutates:
  assumes "1 < length (PrevEventHashes evt)" and "VerifyMergePoint evt ps = (ok, evt')"
  shows "(ok \<longleftrightarrow> mset (map EventHash ps) = mset (PrevEventHashes evt))
    \<and> evt' = evt\<lparr>PrevEventHashes := sort (PrevEventHashes evt)\<rparr>
    \<and> (VerifyEventHash evt \<and> \<not> sorted (PrevEventHashes evt)
         \<and> (\<forall>h \<in> set (PrevEventHashes evt). length h = 64 \<and> (\<forall>c \<in> set h. is_hex_char c))
       \<longrightarrow> \<not> VerifyEventHash evt' \<or> is_collision sha256_hex (Some (event_json evt, event_json evt')))"
proof -
  let ?hs = "PrevEventHashes evt"
  have res: "ok = (sort (map EventHash ps) = sort ?hs)" "evt' = evt\<lparr>PrevEventHashes := sort ?hs\<rparr>"
    using assms by (simp_all add: VerifyMergePoint_def Let_def)
  have "(sort (map EventHash ps) = sort ?hs) \<longleftrightarrow> mset (map EventHash ps) = mset ?hs"
    by (metis mset_sort properties_for_sort sorted_sort)
  moreover have "\<not> VerifyEventHash evt' \<or> is_collision sha256_hex (Some (event_json evt, event_json evt'))"
    if ok: "VerifyEventHash evt" "\<not> sorted ?hs" "\<forall>h \<in> set ?hs. length h = 64 \<and> (\<forall>c \<in> set h. is_hex_char c)"
  proof (rule disjCI)
    assume "\<not> is_collision sha256_hex (Some (event_json evt, event_json evt'))"
    then have no: "event_json evt = event_json evt' \<or> sha256_hex (event_json evt) \<noteq> sha256_hex (event_json evt')"
      by (auto simp: is_collision_def)
    have "event_json evt \<noteq> event_json evt'"
    proof
      assume "event_json evt = event_json evt'"
      then have "event_json (evt\<lparr>PrevEventHashes := ?hs\<rparr>) = event_json (evt\<lparr>PrevEventHashes := sort ?hs\<rparr>)"
        by (simp add: res(2))
      moreover have "?hs \<noteq> []" "sort ?hs \<noteq> []" using assms(1) by (auto simp flip: length_0_conv)
      ultimately have "json_array ?hs = json_array (sort ?hs)" by (rule event_json_hashes_inj)
      then have "?hs = sort ?hs" using ok(3) by (intro json_array_inj [where n = 64]) auto
      then show False using ok(2) by (metis sorted_sort)
    qed
    with no ok(1) show "\<not> VerifyEventHash evt'"
      by (auto simp: VerifyEventHash_def ComputeEventHash_def res(2))
  qed
  ultimately show ?thesis using res by blast
qed

theorem VerifyMergePoint_mutates_witness:
  "fst (VerifyMergePoint (sample_event ''m'' ''h'' [''b'', ''a'']) [sample_event ''x'' ''a'' [], sample_event ''y'' ''b'' []])
   \<and> PrevEventHashes (snd (VerifyMergePoint (sample_event ''m'' ''h'' [''b'', ''a''])
        [sample_event ''x'' ''a'' [], sample_event ''y'' ''b'' []])) = sort [''b'', ''a'']"
proof -
  let ?e = "sample_event ''m'' ''h'' [''b'', ''a'']" and ?ps = "[sample_event ''x'' ''a'' [], sample_event ''y'' ''b'' []]"
  obtain ok e' where v: "VerifyMergePoint ?e ?ps = (ok, e')" by fastforce
  have l: "1 < length (PrevEventHashes ?e)" by (simp add: sample_event_def)
  have "mset (map EventHash ?ps) = mset (PrevEventHashes ?e)" by (simp add: sample_event_def)
  with VerifyMergePoint_mutates [OF l v] v show ?thesis by (simp add: sample_event_def)
qed

end
