(* ===== verification/Gateway.thy ===== *)
theory Gateway
  imports HashPkg Validator
begin

text \<open>
  The model gateway: \<open>server/internal/gateway/gateway.go\<close>, and \<open>buildUpstreamRequest\<close> of \<open>stream.go\<close>.

  One request creates an INPUT and a MODEL event, calls the upstream, and creates an OUTPUT event;
  each event carries the hash of its predecessor. What the program takes from outside is in \<open>world\<close>:
  \<open>uuid k\<close> and \<open>clock k\<close> are the identifier and the time that the \<open>k\<close>-th event of the request reads,
  \<open>marshal\<close> is \<open>json.Marshal\<close> of a payload (\<open>None\<close>: an error, after which the code uses an empty object)
  and \<open>rfc3339\<close> the formatting of a time in the local zone. A \<open>float64\<close> is only marshalled, so it is
  kept as its 64 bits. The upstream server is a function of the request sent to it.
\<close>

subsection \<open>Payloads\<close>

type_synonym float64 = "64 word"

record Attachment =
  at_Type :: string
  at_Hash :: string
  at_SizeBytes :: int
  at_EncryptedRef :: string

record RequestParams =
  rq_ModelRequested :: string
  rq_Temperature :: float64
  rq_MaxTokens :: int
  rq_TopP :: float64

record InputPayload =
  ip_PromptHash :: string
  ip_PromptLength :: nat
  ip_PromptEncryptedRef :: string
  ip_Attachments :: "Attachment list"
  ip_RequestParams :: RequestParams

record ActualParams =
  pa_Temperature :: float64
  pa_TopP :: float64
  pa_MaxTokens :: int
  pa_Seed :: int

record ModelPayload =
  mo_ModelID :: string
  mo_ModelVersion :: string
  mo_ModelProvider :: string
  mo_ActualParams :: ActualParams
  mo_ParamsHash :: string
  mo_SystemPromptHash :: string
  mo_SystemPromptVersion :: string
  mo_ModelWeightsHash :: string
  mo_Quantization :: string

record TokenUsage =
  PromptTokens :: int
  CompletionTokens :: int
  TotalTokens :: int

record SafetyCheck =
  sf_Passed :: bool
  sf_FlaggedCategories :: "string list"

record OutputPayload =
  op_OutputHash :: string
  op_OutputLength :: nat
  op_OutputEncryptedRef :: string
  op_Usage :: TokenUsage
  op_FinishReason :: string
  op_LatencyMs :: int
  op_PerceptualHash :: string
  op_SafetyCheck :: SafetyCheck
  op_InferenceFingerprint :: string
  op_FingerprintHash :: string

record ChunkPayload =
  cp_ChunkIndex :: nat
  cp_ChunkHash :: string
  cp_CumulativeHash :: string
  cp_ContentLength :: nat
  cp_TokenCount :: int
  cp_LatencyMs :: int
  cp_FinishReason :: string
  cp_Model :: string

datatype payload =
    InputP InputPayload
  | ParamsP ActualParams
  | ModelP ModelPayload
  | OutputP OutputPayload
  | ChunkP ChunkPayload

record world =
  marshal :: "payload \<Rightarrow> string option"
  rfc3339 :: "time \<Rightarrow> string"
  uuid :: "nat \<Rightarrow> string"
  clock :: "nat \<Rightarrow> time"
  trace_uuid :: string
  started :: time
  answered :: time

definition payload_bytes :: "world \<Rightarrow> payload \<Rightarrow> string" where
  "payload_bytes w p = (case marshal w p of None \<Rightarrow> ''{}'' | Some b \<Rightarrow> b)"

text \<open>\<open>Duration.Milliseconds\<close> truncates towards zero.\<close>

definition milliseconds :: "duration \<Rightarrow> int" where
  "milliseconds d = (if d < 0 then - ((- d) div 1000000) else d div 1000000)"

subsection \<open>Requests\<close>

record ChatMessage =
  Role :: string
  Content :: string

record ChatCompletionRequest =
  Model :: string
  Messages :: "ChatMessage list"
  Temperature :: float64
  TopP :: float64
  MaxTokens :: int
  Stream :: bool
  Seed :: int

record Choice =
  ch_Index :: int
  ch_Message :: ChatMessage
  ch_FinishReason :: string

record ChatCompletionResponse =
  cr_ID :: string
  cr_Object :: string
  cr_Created :: int
  cr_Model :: string
  cr_Choices :: "Choice list"
  cr_Usage :: TokenUsage

record TraceContext =
  tx_TraceID :: string
  tx_TenantID :: string
  tx_UserID :: string
  tx_SessionID :: string
  tx_UpstreamAPIKey :: string
  tx_UpstreamBaseURL :: string

record GatewayConfig =
  Ollama_BaseURL :: string
  OpenAI_BaseURL :: string
  OpenAI_APIKey :: string

definition contains_any :: "string list \<Rightarrow> string \<Rightarrow> bool" where
  "contains_any names model = list_ex (containsStr (toLower model)) names"

definition isOllamaModel :: "string \<Rightarrow> bool" where
  "isOllamaModel = contains_any [''llama'', ''mistral'', ''qwen'', ''codellama'', ''phi'']"

definition isClaudeModel :: "string \<Rightarrow> bool" where
  "isClaudeModel = contains_any [''claude'']"

definition isDeepSeekModel :: "string \<Rightarrow> bool" where
  "isDeepSeekModel = contains_any [''deepseek'']"

definition provider_of :: "string \<Rightarrow> string" where
  "provider_of model =
     (if isOllamaModel model then ''ollama''
      else if isClaudeModel model then ''anthropic''
      else if isDeepSeekModel model then ''deepseek''
      else ''openai'')"

definition json_header :: "string \<rightharpoonup> string" where
  "json_header = [''Content-Type'' \<mapsto> ''application/json'']"

definition base_url :: "TraceContext \<Rightarrow> string \<Rightarrow> string" where
  "base_url ctx baseURL = (if tx_UpstreamBaseURL ctx \<noteq> '''' then tx_UpstreamBaseURL ctx else baseURL)"

definition buildUpstreamRequest :: "GatewayConfig \<Rightarrow> string \<Rightarrow> TraceContext \<Rightarrow> string \<times> (string \<rightharpoonup> string)" where
  "buildUpstreamRequest cfg model ctx =
     (if isOllamaModel model then (Ollama_BaseURL cfg @ ''/api/chat'', json_header)
      else if isClaudeModel model then
        (base_url ctx ''https://api.anthropic.com/v1'' @ ''/messages'',
         json_header(''x-api-key'' \<mapsto> tx_UpstreamAPIKey ctx, ''anthropic-version'' \<mapsto> ''2023-06-01''))
      else if isDeepSeekModel model then
        (base_url ctx ''https://api.deepseek.com/v1'' @ ''/chat/completions'',
         json_header(''Authorization'' \<mapsto> ''Bearer '' @ tx_UpstreamAPIKey ctx))
      else
        (base_url ctx (OpenAI_BaseURL cfg) @ ''/chat/completions'',
         let apiKey = (if tx_UpstreamAPIKey ctx = '''' then OpenAI_APIKey cfg else tx_UpstreamAPIKey ctx)
         in json_header(''Authorization'' \<mapsto> ''Bearer '' @ apiKey)))"

subsection \<open>Events\<close>

text \<open>The text whose hash is the event hash.\<close>

definition event_data :: "world \<Rightarrow> event \<Rightarrow> string" where
  "event_data w evt =
     (let data = EventID evt @ ''|'' @ TraceID evt @ ''|'' @ EventType evt @ ''|'' @ rfc3339 w (Timestamp evt)
            @ ''|'' @ itoa (Sequence evt) @ ''|'' @ PayloadHash evt
      in if PrevEventHash evt \<noteq> '''' then data @ ''|'' @ PrevEventHash evt else data)"

definition calculateEventHash :: "world \<Rightarrow> event \<Rightarrow> string" where
  "calculateEventHash w evt = SHA256 (event_data w evt)"

definition event_id :: "world \<Rightarrow> nat \<Rightarrow> string" where
  "event_id w k = ''evt_'' @ take 12 (uuid w k)"

definition with_hash :: "world \<Rightarrow> event \<Rightarrow> event" where
  "with_hash w evt = evt\<lparr>EventHash := calculateEventHash w evt\<rparr>"

definition user_prompt :: "ChatMessage list \<Rightarrow> string" where
  "user_prompt msgs = concat (map (\<lambda>m. Content m @ [CHR 0x0A]) (filter (\<lambda>m. Role m = ''user'') msgs))"

definition createInputEvent :: "world \<Rightarrow> ChatCompletionRequest \<Rightarrow> TraceContext \<Rightarrow> event" where
  "createInputEvent w req ctx =
     (let userPrompt = user_prompt (Messages req);
          payload = \<lparr>ip_PromptHash = SHA256 userPrompt, ip_PromptLength = length userPrompt,
            ip_PromptEncryptedRef = '''', ip_Attachments = [],
            ip_RequestParams = \<lparr>rq_ModelRequested = Model req, rq_Temperature = Temperature req,
              rq_MaxTokens = MaxTokens req, rq_TopP = TopP req\<rparr>\<rparr>;
          bytes = payload_bytes w (InputP payload)
      in with_hash w
        \<lparr>EventID = event_id w 0, TraceID = tx_TraceID ctx, ParentEventID = '''', PrevEventHash = '''',
         PrevEventHashes = [], EventType = EventTypeInput, Timestamp = clock w 0, Sequence = 1,
         TenantID = tx_TenantID ctx, UserID = tx_UserID ctx, SessionID = tx_SessionID ctx,
         Payload = bytes, PayloadHash = SHA256Bytes bytes, EventHash = ''''\<rparr>)"

definition system_prompt_hash :: "ChatMessage list \<Rightarrow> string" where
  "system_prompt_hash msgs =
     (case List.find (\<lambda>m. Role m = ''system'') msgs of None \<Rightarrow> '''' | Some m \<Rightarrow> SHA256 (Content m))"

definition createModelEvent :: "world \<Rightarrow> ChatCompletionRequest \<Rightarrow> TraceContext \<Rightarrow> string \<Rightarrow> event" where
  "createModelEvent w req ctx prevHash =
     (let params = \<lparr>pa_Temperature = Temperature req, pa_TopP = TopP req, pa_MaxTokens = MaxTokens req,
            pa_Seed = Seed req\<rparr>;
          payload = \<lparr>mo_ModelID = Model req, mo_ModelVersion = '''', mo_ModelProvider = provider_of (Model req),
            mo_ActualParams = params, mo_ParamsHash = SHA256Bytes (payload_bytes w (ParamsP params)),
            mo_SystemPromptHash = system_prompt_hash (Messages req), mo_SystemPromptVersion = '''',
            mo_ModelWeightsHash = '''', mo_Quantization = ''''\<rparr>;
          bytes = payload_bytes w (ModelP payload)
      in with_hash w
        \<lparr>EventID = event_id w 1, TraceID = tx_TraceID ctx, ParentEventID = '''', PrevEventHash = prevHash,
         PrevEventHashes = [], EventType = EventTypeModel, Timestamp = clock w 1, Sequence = 2,
         TenantID = tx_TenantID ctx, UserID = tx_UserID ctx, SessionID = '''',
         Payload = bytes, PayloadHash = SHA256Bytes bytes, EventHash = ''''\<rparr>)"

definition createOutputEvent ::
  "world \<Rightarrow> ChatCompletionResponse \<Rightarrow> TraceContext \<Rightarrow> string \<Rightarrow> int \<Rightarrow> event" where
  "createOutputEvent w resp ctx prevHash latencyMs =
     (let (outputContent, finishReason) =
            (case cr_Choices resp of [] \<Rightarrow> ('''', '''')
             | c # cs \<Rightarrow> (Content (ch_Message c), ch_FinishReason c));
          payload = \<lparr>op_OutputHash = SHA256 outputContent, op_OutputLength = length outputContent,
            op_OutputEncryptedRef = '''', op_Usage = cr_Usage resp, op_FinishReason = finishReason,
            op_LatencyMs = latencyMs, op_PerceptualHash = '''',
            op_SafetyCheck = \<lparr>sf_Passed = True, sf_FlaggedCategories = []\<rparr>,
            op_InferenceFingerprint = '''', op_FingerprintHash = ''''\<rparr>;
          bytes = payload_bytes w (OutputP payload)
      in with_hash w
        \<lparr>EventID = event_id w 2, TraceID = tx_TraceID ctx, ParentEventID = '''', PrevEventHash = prevHash,
         PrevEventHashes = [], EventType = EventTypeOutput, Timestamp = clock w 2, Sequence = 3,
         TenantID = tx_TenantID ctx, UserID = tx_UserID ctx, SessionID = '''',
         Payload = bytes, PayloadHash = SHA256Bytes bytes, EventHash = ''''\<rparr>)"

subsection \<open>A request\<close>

datatype gateway_error = MarshalFailed | BadRequest | SendFailed | ReadFailed | BadResponse | UpstreamStatus int string

text \<open>What comes of a request: it cannot be built, is not answered, breaks off, or is answered.\<close>

datatype reply = Unbuildable | Unanswered | BrokenBody | Reply int string

type_synonym upstream = "string \<Rightarrow> (string \<rightharpoonup> string) \<Rightarrow> string \<Rightarrow> reply"

record ProxyResult =
  pr_Response :: "ChatCompletionResponse option"
  pr_Events :: "event list"
  pr_Error :: "gateway_error option"
  pr_LatencyMs :: int

text \<open>The generated trace id is stored in the caller's context, which is returned.\<close>

definition ensure_trace_id :: "world \<Rightarrow> TraceContext \<Rightarrow> TraceContext" where
  "ensure_trace_id w ctx =
     (if tx_TraceID ctx = '''' then ctx\<lparr>tx_TraceID := ''trc_'' @ take 8 (trace_uuid w)\<rparr> else ctx)"

definition ProxyChatCompletion :: "world \<Rightarrow> GatewayConfig \<Rightarrow> (ChatCompletionRequest \<Rightarrow> string option)
    \<Rightarrow> upstream \<Rightarrow> (string \<Rightarrow> ChatCompletionResponse option) \<Rightarrow> ChatCompletionRequest \<Rightarrow> TraceContext
    \<Rightarrow> ProxyResult \<times> TraceContext" where
  "ProxyChatCompletion w cfg marshal_req send unmarshal req ctx0 =
     (let ctx = ensure_trace_id w ctx0;
          inputEvent = createInputEvent w req ctx;
          modelEvent = createModelEvent w req ctx (EventHash inputEvent);
          (upstreamURL, headers) = buildUpstreamRequest cfg (Model req) ctx;
          fail = (\<lambda>e. (\<lparr>pr_Response = None, pr_Events = [inputEvent, modelEvent], pr_Error = Some e,
                        pr_LatencyMs = 0\<rparr>, ctx))
      in case marshal_req req of
           None \<Rightarrow> fail MarshalFailed
         | Some reqBody \<Rightarrow>
             (case send upstreamURL headers reqBody of
                Unbuildable \<Rightarrow> fail BadRequest
              | Unanswered \<Rightarrow> fail SendFailed
              | BrokenBody \<Rightarrow> fail ReadFailed
              | Reply status respBody \<Rightarrow>
                  (case unmarshal respBody of
                     None \<Rightarrow> fail BadResponse
                   | Some chatResp \<Rightarrow>
                       let latencyMs = milliseconds (answered w - started w);
                           outputEvent = createOutputEvent w chatResp ctx (EventHash modelEvent) latencyMs
                       in (\<lparr>pr_Response = Some chatResp, pr_Events = [inputEvent, modelEvent, outputEvent],
                            pr_Error = None, pr_LatencyMs = latencyMs\<rparr>, ctx))))"

subsection \<open>Chains\<close>

text \<open>
  The specification of a chain: event \<open>n\<close> carries sequence number \<open>n + 1\<close>, the hash of its predecessor
  and a hash over all of this and its payload.
\<close>

definition chained :: "world \<Rightarrow> event list \<Rightarrow> bool" where
  "chained w evts \<longleftrightarrow> (\<forall>n < length evts.
     EventHash (evts ! n) = calculateEventHash w (evts ! n)
     \<and> PayloadHash (evts ! n) = SHA256Bytes (Payload (evts ! n))
     \<and> Sequence (evts ! n) = int n + 1 \<and> PrevEventHashes (evts ! n) = []
     \<and> PrevEventHash (evts ! n) = (if n = 0 then '''' else EventHash (evts ! (n - 1))))"

lemma calculateEventHash_nonempty [simp]: "calculateEventHash w e \<noteq> ''''"
  by (simp add: calculateEventHash_def)

lemma event_data_hash [simp]: "event_data w (e\<lparr>EventHash := h\<rparr>) = event_data w e"
  by (simp add: event_data_def Let_def)

lemma with_hash_simps [simp]:
  "EventID (with_hash w e) = EventID e" "TraceID (with_hash w e) = TraceID e"
  "PrevEventHash (with_hash w e) = PrevEventHash e" "PrevEventHashes (with_hash w e) = PrevEventHashes e"
  "EventType (with_hash w e) = EventType e" "Sequence (with_hash w e) = Sequence e"
  "TenantID (with_hash w e) = TenantID e" "Payload (with_hash w e) = Payload e"
  "PayloadHash (with_hash w e) = PayloadHash e" "Timestamp (with_hash w e) = Timestamp e"
  "EventHash (with_hash w e) = calculateEventHash w (with_hash w e)"
  by (simp_all add: with_hash_def calculateEventHash_def)

lemma chained_Nil [simp]: "chained w []"
  by (simp add: chained_def)

lemma chained_snoc:
  "chained w (evts @ [e]) \<longleftrightarrow> chained w evts \<and> EventHash e = calculateEventHash w e
     \<and> PayloadHash e = SHA256Bytes (Payload e) \<and> Sequence e = int (length evts) + 1 \<and> PrevEventHashes e = []
     \<and> PrevEventHash e = (if evts = [] then '''' else EventHash (last evts))"
proof -
  have "(\<forall>n < Suc k. P n) \<longleftrightarrow> (\<forall>n < k. P n) \<and> P k" for P and k :: nat
    by (auto simp: less_Suc_eq)
  then show ?thesis
    by (auto simp: chained_def nth_append last_conv_nth)
qed

text \<open>
  The gateway's hashes are 71 characters long, those of package \<open>dag\<close> 64: the validator rejects every
  event of the gateway.
\<close>

lemma gateway_hash_not_verified:
  "EventHash e = calculateEventHash w e \<Longrightarrow> \<not> VerifyEventHash e"
  by (metis VerifyEventHash_def ComputeEventHash_def calculateEventHash_def length_SHA256 length_sha256_hex
      numeral_eq_iff num.distinct(1) num.distinct(3) num.inject(1) num.inject(2) num.distinct(5))

lemma chained_hash: "chained w evts \<Longrightarrow> e \<in> set evts \<Longrightarrow> EventHash e = calculateEventHash w e"
  unfolding chained_def in_set_conv_nth by blast

lemma chained_unverified: "chained w evts \<Longrightarrow> e \<in> set evts \<Longrightarrow> \<not> VerifyEventHash e"
  by (blast dest: chained_hash gateway_hash_not_verified)

lemma causal_from_snoc:
  "causal_from seen (evts @ [e]) \<longleftrightarrow>
     causal_from seen evts \<and> (\<forall>h \<in> set (prev_hashes e). h = '''' \<or> h \<in> seen \<or> h \<in> EventHash ` set evts)"
  by (induction evts arbitrary: seen) auto

lemma chained_causal: "chained w evts \<Longrightarrow> ValidateCausalOrder evts"
proof (induction evts rule: rev_induct)
  case Nil
  show ?case by (simp add: ValidateCausalOrder_def)
next
  case (snoc e evts)
  then show ?case
    by (auto simp: chained_snoc ValidateCausalOrder_def causal_from_snoc prev_hashes_def split: if_splits)
qed

text \<open>The first event whose text differs although the hashes agree.\<close>

definition chain_collision :: "world \<Rightarrow> event list \<Rightarrow> event list \<Rightarrow> (string \<times> string) option" where
  "chain_collision w xs ys = List.find (\<lambda>(u, v). u \<noteq> v \<and> sha256_hex u = sha256_hex v)
     (zip (map (event_data w) xs) (map (event_data w) ys))"

lemma chain_collision_iff:
  "length xs = length ys \<Longrightarrow> is_collision sha256_hex (chain_collision w xs ys) \<longleftrightarrow>
     (\<exists>n < length xs. event_data w (xs ! n) \<noteq> event_data w (ys ! n)
        \<and> sha256_hex (event_data w (xs ! n)) = sha256_hex (event_data w (ys ! n)))"
proof -
  assume len: "length xs = length ys"
  have "is_collision H (List.find (\<lambda>(u, v). u \<noteq> v \<and> H u = H v) zs) \<longleftrightarrow> (\<exists>(u, v) \<in> set zs. u \<noteq> v \<and> H u = H v)"
    for H :: "string \<Rightarrow> string" and zs
    by (induction zs) (auto simp: is_collision_def)
  note find = this
  have "(\<exists>(u, v) \<in> set (zip us vs). P u v) \<longleftrightarrow> (\<exists>n < length us. P (us ! n) (vs ! n))"
    if "length us = length vs" for us vs :: "string list" and P
    using that by (auto simp: set_zip)
  from this [of "map (event_data w) xs" "map (event_data w) ys"] show ?thesis
    unfolding chain_collision_def find using len by (simp cong: conj_cong)
qed

text \<open>The text of an event that has a predecessor ends with the predecessor's hash.\<close>

lemma event_data_prev:
  assumes "event_data w d = event_data w e" and "PrevEventHash d = SHA256 s" and "PrevEventHash e = SHA256 t"
  shows "PrevEventHash d = PrevEventHash e"
proof -
  have split: "\<exists>u. event_data w f = u @ PrevEventHash f" if "PrevEventHash f = SHA256 r" for f r
    using that by (auto simp: event_data_def Let_def)
  obtain u v where "event_data w d = u @ PrevEventHash d" "event_data w e = v @ PrevEventHash e"
    using split assms(2,3) by blast
  with assms show ?thesis by (metis append_eq_append_conv length_SHA256)
qed

lemma chain_tail_binds:
  assumes "chained w xs" and "chained w ys" and "length xs = length ys" and "xs \<noteq> []"
    and "EventHash (last xs) = EventHash (last ys)"
  shows "map (event_data w) xs = map (event_data w) ys \<or> is_collision sha256_hex (chain_collision w xs ys)"
  using assms
proof (induction xs arbitrary: ys rule: rev_induct)
  case (snoc x xs)
  obtain zs y where ys: "ys = zs @ [y]" using snoc.prems(3) by (cases ys rule: rev_cases) auto
  have len: "length xs = length zs" and ch: "chained w xs" "chained w zs"
    using snoc.prems by (simp_all add: ys chained_snoc)
  have hx: "EventHash x = SHA256 (event_data w x)" "EventHash y = SHA256 (event_data w y)"
    using snoc.prems(1,2) by (simp_all add: ys chained_snoc calculateEventHash_def)
  then have sha: "sha256_hex (event_data w x) = sha256_hex (event_data w y)"
    using snoc.prems(5) by (simp add: ys SHA256_eq_iff)
  show ?case
  proof (cases "event_data w x = event_data w y")
    case False
    then show ?thesis using sha len
      by (intro disjI2) (auto simp: chain_collision_iff ys nth_append intro!: exI [of _ "length zs"])
  next
    case same: True
    show ?thesis
    proof (cases "xs = []")
      case True
      then show ?thesis using same len by (simp add: ys)
    next
      case False
      then have "zs \<noteq> []" using len by auto
      have "PrevEventHash x = EventHash (last xs)" "PrevEventHash y = EventHash (last zs)"
        using snoc.prems(1,2) False \<open>zs \<noteq> []\<close> by (simp_all add: ys chained_snoc)
      moreover have "\<exists>s. EventHash (last vs) = SHA256 s" if "chained w vs" "vs \<noteq> []" for vs
        using that by (cases vs rule: rev_cases) (auto simp: chained_snoc calculateEventHash_def)
      ultimately have "EventHash (last xs) = EventHash (last zs)"
        using event_data_prev [OF same] ch False \<open>zs \<noteq> []\<close> by metis
      from snoc.IH [OF ch len False this] consider "map (event_data w) xs = map (event_data w) zs"
        | n where "n < length xs" "event_data w (xs ! n) \<noteq> event_data w (zs ! n)"
          "sha256_hex (event_data w (xs ! n)) = sha256_hex (event_data w (zs ! n))"
        using len by (auto simp: chain_collision_iff)
      then show ?thesis
      proof cases
        case 1
        then show ?thesis using same by (simp add: ys)
      next
        case 2
        then show ?thesis using len
          by (intro disjI2) (auto simp: chain_collision_iff ys nth_append intro!: exI [of _ n])
      qed
    qed
  qed
qed simp

lemmas gateway_events = createInputEvent_def createModelEvent_def createOutputEvent_def

lemma created_events [simp]:
  "EventType (createInputEvent w req ctx) = EventTypeInput"
  "EventType (createModelEvent w req ctx h) = EventTypeModel"
  "EventType (createOutputEvent w resp ctx h l) = EventTypeOutput"
  "TraceID (createInputEvent w req ctx) = tx_TraceID ctx" "TenantID (createInputEvent w req ctx) = tx_TenantID ctx"
  "TraceID (createModelEvent w req ctx h) = tx_TraceID ctx" "TenantID (createModelEvent w req ctx h) = tx_TenantID ctx"
  "TraceID (createOutputEvent w resp ctx h l) = tx_TraceID ctx"
  "TenantID (createOutputEvent w resp ctx h l) = tx_TenantID ctx"
  by (simp_all add: gateway_events Let_def split: list.split prod.split)

lemma chained_request:
  "chained w [createInputEvent w req ctx, createModelEvent w req ctx (EventHash (createInputEvent w req ctx))]"
proof -
  have "chained w ([createInputEvent w req ctx] @ [createModelEvent w req ctx (EventHash (createInputEvent w req ctx))])"
    unfolding chained_snoc chained_snoc [where evts = "[]", simplified append_Nil]
    by (simp add: createInputEvent_def createModelEvent_def Let_def)
  then show ?thesis by simp
qed

lemma chained_output:
  assumes "chained w evts" and "length evts = 2"
  shows "chained w (evts @ [createOutputEvent w resp ctx (EventHash (last evts)) l])"
  using assms by (auto simp: chained_snoc createOutputEvent_def Let_def split: list.split prod.split)

lemma ensure_trace_id_keeps [simp]:
  "tx_TenantID (ensure_trace_id w ctx) = tx_TenantID ctx" "tx_TraceID (ensure_trace_id w ctx) \<noteq> ''''"
  by (simp_all add: ensure_trace_id_def)

subsection \<open>Properties\<close>

text \<open>C20. A chat request leaves a chain. Whatever the upstream does, the events are a chain (numbered from
  one, each with the hash of its predecessor, its own hash and that of its payload), in causal order,
  of the caller's tenant and one non-empty trace id; they are INPUT and MODEL, and OUTPUT exactly when
  the reply could be parsed, whatever its status code. None of them passes \<open>VerifyEventHash\<close>, the
  check of the graph validator.\<close>

theorem ProxyChatCompletion_chain:
  defines "result \<equiv> \<lambda>w cfg mreq send unm req ctx. fst (ProxyChatCompletion w cfg mreq send unm req ctx)"
  shows "chained w (pr_Events (result w cfg mreq send unm req ctx))
    \<and> ValidateCausalOrder (pr_Events (result w cfg mreq send unm req ctx))
    \<and> map EventType (pr_Events (result w cfg mreq send unm req ctx)) =
        (if pr_Error (result w cfg mreq send unm req ctx) = None
         then [EventTypeInput, EventTypeModel, EventTypeOutput] else [EventTypeInput, EventTypeModel])
    \<and> (pr_Error (result w cfg mreq send unm req ctx) = None \<longleftrightarrow> (\<exists>body status data resp. mreq req = Some body
        \<and> send (fst (buildUpstreamRequest cfg (Model req) ctx)) (snd (buildUpstreamRequest cfg (Model req) ctx)) body
            = Reply status data \<and> unm data = Some resp))
    \<and> (\<forall>e \<in> set (pr_Events (result w cfg mreq send unm req ctx)).
         TenantID e = tx_TenantID ctx \<and> TraceID e = tx_TraceID (ensure_trace_id w ctx) \<and> \<not> VerifyEventHash e)"
proof -
  let ?r = "result w cfg mreq send unm req ctx" and ?ctx = "ensure_trace_id w ctx"
  let ?i = "createInputEvent w req ?ctx"
  let ?m = "createModelEvent w req ?ctx (EventHash ?i)"
  let ?ok = "\<lambda>resp. pr_Error ?r = None
      \<and> (\<exists>l. pr_Events ?r = [?i, ?m] @ [createOutputEvent w resp ?ctx (EventHash (last [?i, ?m])) l])"
  let ?P = "\<lambda>body status data resp. mreq req = Some body
        \<and> send (fst (buildUpstreamRequest cfg (Model req) ctx)) (snd (buildUpstreamRequest cfg (Model req) ctx)) body
            = Reply status data \<and> unm data = Some resp"
  have url: "buildUpstreamRequest cfg (Model req) ?ctx = buildUpstreamRequest cfg (Model req) ctx"
    by (simp add: buildUpstreamRequest_def base_url_def ensure_trace_id_def)
  obtain U H where uh: "buildUpstreamRequest cfg (Model req) ctx = (U, H)"
    by (cases "buildUpstreamRequest cfg (Model req) ctx")
  have two: "chained w [?i, ?m]" by (rule chained_request)
  have cases: "(\<exists>body status data resp. ?P body status data resp \<and> ?ok resp)
    \<or> pr_Error ?r \<noteq> None \<and> pr_Events ?r = [?i, ?m] \<and> (\<nexists>body status data resp. ?P body status data resp)"
  proof (cases "mreq req")
    case None
    then show ?thesis by (simp add: result_def ProxyChatCompletion_def Let_def url uh)
  next
    case body: (Some body)
    show ?thesis
    proof (cases "send U H body")
      case (Reply status data)
      with body show ?thesis
        by (cases "unm data") (auto simp: result_def ProxyChatCompletion_def Let_def url uh)
    qed (use body in \<open>simp_all add: result_def ProxyChatCompletion_def Let_def url uh\<close>)
  qed
  then consider (ok) body status data resp where "?P body status data resp" "?ok resp"
    | (failed) "pr_Error ?r \<noteq> None" "pr_Events ?r = [?i, ?m]" "\<nexists>body status data resp. ?P body status data resp"
    by blast
  then show ?thesis
  proof cases
    case ok
    obtain l where ev: "pr_Events ?r = [?i, ?m] @ [createOutputEvent w resp ?ctx (EventHash (last [?i, ?m])) l]"
      using ok(2) by blast
    have ch: "chained w (pr_Events ?r)" unfolding ev by (rule chained_output [OF two]) simp
    have "\<forall>e \<in> set (pr_Events ?r). TenantID e = tx_TenantID ctx \<and> TraceID e = tx_TraceID ?ctx" unfolding ev by simp
    then have "\<forall>e \<in> set (pr_Events ?r). TenantID e = tx_TenantID ctx \<and> TraceID e = tx_TraceID ?ctx \<and> \<not> VerifyEventHash e"
      using chained_unverified [OF ch] by blast
    moreover have "map EventType (pr_Events ?r) = [EventTypeInput, EventTypeModel, EventTypeOutput]" unfolding ev by simp
    moreover have "pr_Error ?r = None" "\<exists>body status data resp. ?P body status data resp" using ok by blast+
    ultimately show ?thesis using ch chained_causal [OF ch] by (intro conjI) (assumption | simp only: simp_thms if_True)+
  next
    case failed
    have ch: "chained w (pr_Events ?r)" unfolding failed(2) by (rule two)
    have "\<forall>e \<in> set (pr_Events ?r). TenantID e = tx_TenantID ctx \<and> TraceID e = tx_TraceID ?ctx"
      unfolding failed(2) by simp
    then have "\<forall>e \<in> set (pr_Events ?r). TenantID e = tx_TenantID ctx \<and> TraceID e = tx_TraceID ?ctx \<and> \<not> VerifyEventHash e"
      using chained_unverified [OF ch] by blast
    moreover have "map EventType (pr_Events ?r) = [EventTypeInput, EventTypeModel]" unfolding failed(2) by simp
    ultimately show ?thesis using ch chained_causal [OF ch] failed(1,3)
      by (intro conjI) (assumption | simp only: simp_thms if_False)+
  qed
qed


text \<open>
  The server's own key is used when the caller sends none, also when the caller names the server the
  request goes to: the key then leaves for that server.
\<close>

lemma server_key_to_caller_url:
  assumes "provider_of model = ''openai''" and "tx_UpstreamAPIKey ctx = ''''" and "tx_UpstreamBaseURL ctx \<noteq> ''''"
  shows "fst (buildUpstreamRequest cfg model ctx) = tx_UpstreamBaseURL ctx @ ''/chat/completions''
    \<and> snd (buildUpstreamRequest cfg model ctx) ''Authorization'' = Some (''Bearer '' @ OpenAI_APIKey cfg)"
  using assms by (simp add: buildUpstreamRequest_def provider_of_def base_url_def Let_def split: if_splits)

subsection \<open>Witnesses\<close>

definition sample_world :: world where
  "sample_world = \<lparr>marshal = (\<lambda>p. None), rfc3339 = itoa, uuid = (\<lambda>k. replicate 36 (char_of (97 + k))),
     clock = int, trace_uuid = replicate 36 CHR ''t'', started = 0, answered = 5000000\<rparr>"

definition sample_config :: GatewayConfig where
  "sample_config = \<lparr>Ollama_BaseURL = ''http://o'', OpenAI_BaseURL = ''http://a'', OpenAI_APIKey = ''k''\<rparr>"

definition sample_request :: ChatCompletionRequest where
  "sample_request = \<lparr>Model = ''gpt-4'', Messages = [\<lparr>Role = ''user'', Content = ''hi''\<rparr>], Temperature = 0, TopP = 0,
     MaxTokens = 10, Stream = False, Seed = 0\<rparr>"

definition sample_context :: TraceContext where
  "sample_context = \<lparr>tx_TraceID = '''', tx_TenantID = ''t1'', tx_UserID = '''', tx_SessionID = '''',
     tx_UpstreamAPIKey = '''', tx_UpstreamBaseURL = ''''\<rparr>"

definition sample_response :: ChatCompletionResponse where
  "sample_response = \<lparr>cr_ID = ''1'', cr_Object = '''', cr_Created = 0, cr_Model = ''gpt-4'', cr_Choices = [],
     cr_Usage = \<lparr>PromptTokens = 0, CompletionTokens = 0, TotalTokens = 0\<rparr>\<rparr>"

theorem ProxyChatCompletion_chain_witness:
  "let r = fst (ProxyChatCompletion sample_world sample_config (\<lambda>_. Some ''{}'') (\<lambda>u h b. Reply 401 ''{}'')
         (\<lambda>_. Some sample_response) sample_request sample_context)
   in map EventType (pr_Events r) = [EventTypeInput, EventTypeModel, EventTypeOutput]
     \<and> (\<forall>e \<in> set (pr_Events r). TenantID e = ''t1'' \<and> \<not> VerifyEventHash e)"
proof -
  let ?r = "fst (ProxyChatCompletion sample_world sample_config (\<lambda>_. Some ''{}'') (\<lambda>u h b. Reply 401 ''{}'')
         (\<lambda>_. Some sample_response) sample_request sample_context)"
  note all = ProxyChatCompletion_chain [of sample_world sample_config "\<lambda>_. Some ''{}''" "\<lambda>u h b. Reply 401 ''{}''"
      "\<lambda>_. Some sample_response" sample_request sample_context]
  have "pr_Error ?r = None" using all by blast
  moreover have "tx_TenantID sample_context = ''t1''" by (simp add: sample_context_def)
  ultimately show ?thesis using all unfolding Let_def by metis
qed


end
