(* ===== verification/GatewayStream.thy ===== *)
theory GatewayStream
  imports Gateway
begin

text \<open>
  Streamed chats: \<open>server/internal/gateway/stream.go\<close>.

  The body of the upstream's answer, up to its end or the first read error, is a string; the loop over
  it is \<open>stream_loop\<close>, one iteration that keeps a chunk is \<open>chunk_step\<close>, and \<open>stream_state\<close> holds its
  local variables. \<open>parse\<close> is \<open>json.Unmarshal\<close> of a chunk, \<open>seen_at k\<close> the clock when the \<open>k\<close>-th kept chunk
  arrives. Event \<open>0\<close> of the world is INPUT, \<open>1\<close> MODEL, \<open>2 + k\<close> the \<open>k\<close>-th CHUNK and the next one OUTPUT. The
  inference fingerprint of the OUTPUT payload is the parameter \<open>fingerprint\<close> (its bytes and its hash).
  \<open>kept_chunks\<close> and \<open>cumulative\<close> say without state which chunks count and what their running hash is.
\<close>

subsection \<open>Reading the stream\<close>

record StreamChunk =
  sk_Model :: string
  sk_Choices :: "(string \<times> string) list"

record kept_chunk =
  kc_Content :: string
  kc_Finish :: string
  kc_Model :: string

record ChunkEvent =
  ce_Event :: event
  ce_Content :: string
  ce_Index :: nat
  ce_Done :: bool

record stream_state =
  cumulativeHash :: string
  totalContent :: string
  chunkEvents :: "event list"
  firstChunkTime :: "time option"
  chunkSizes :: "nat list"
  chunkLatencies :: "int list"
  lastChunkTime :: time
  modelName :: string
  chunkIndex :: nat
  prevEventHash :: string
  firstChunkMs :: int
  callbacks :: "ChunkEvent list"

record stream_env =
  seen_at :: "nat \<Rightarrow> time"
  session_uuid :: string
  finished :: time
  ended :: time

text \<open>The lines \<open>ReadBytes\<close> returns without an error: those that end in a newline.\<close>

fun read_lines :: "string \<Rightarrow> string \<Rightarrow> string list" where
  "read_lines cur [] = []"
| "read_lines cur (c # cs) = (if c = CHR 0x0A then (cur @ [c]) # read_lines [] cs else read_lines (cur @ [c]) cs)"

definition createChunkEvent :: "world \<Rightarrow> nat \<Rightarrow> string \<Rightarrow> string \<Rightarrow> string \<Rightarrow> string \<Rightarrow> int \<Rightarrow> string \<Rightarrow> string
    \<Rightarrow> TraceContext \<Rightarrow> event" where
  "createChunkEvent w index content chunkHash cumHash prevHash latencyMs finishReason model ctx =
     (let payload = \<lparr>cp_ChunkIndex = index, cp_ChunkHash = chunkHash, cp_CumulativeHash = cumHash,
            cp_ContentLength = length content, cp_TokenCount = 0, cp_LatencyMs = latencyMs,
            cp_FinishReason = finishReason, cp_Model = model\<rparr>;
          bytes = payload_bytes w (ChunkP payload)
      in with_hash w
        \<lparr>EventID = event_id w (2 + index), TraceID = tx_TraceID ctx, ParentEventID = '''', PrevEventHash = prevHash,
         PrevEventHashes = [], EventType = EventTypeChunk, Timestamp = clock w (2 + index),
         Sequence = int index + 3, TenantID = tx_TenantID ctx, UserID = tx_UserID ctx, SessionID = tx_SessionID ctx,
         Payload = bytes, PayloadHash = SHA256Bytes bytes, EventHash = ''''\<rparr>)"

text \<open>The running hash after a further chunk.\<close>

definition next_hash :: "string \<Rightarrow> string \<Rightarrow> string" where
  "next_hash cumHash content = (let chunkHash = SHA256 content in
     if cumHash = '''' then chunkHash else SHA256 (cumHash @ chunkHash))"

text \<open>The part of an iteration after the chunk has been found to have content or a finish reason.\<close>

definition chunk_step :: "world \<Rightarrow> stream_env \<Rightarrow> TraceContext \<Rightarrow> stream_state \<Rightarrow> kept_chunk \<Rightarrow> stream_state" where
  "chunk_step w env ctx st c =
     (let k = chunkIndex st; now = seen_at env k; content = kc_Content c;
          st = (if k = 0 then st\<lparr>firstChunkTime := Some now, lastChunkTime := now,
                                firstChunkMs := milliseconds (now - started w)\<rparr> else st);
          model = (if modelName st = '''' \<and> kc_Model c \<noteq> '''' then kc_Model c else modelName st);
          chunkHash = SHA256 content;
          cum = next_hash (cumulativeHash st) content;
          latencyMs = (if k = 0 then firstChunkMs st else milliseconds (now - lastChunkTime st));
          evt = createChunkEvent w k content chunkHash cum (prevEventHash st) latencyMs (kc_Finish c) (kc_Model c) ctx
      in st\<lparr>cumulativeHash := cum, totalContent := totalContent st @ content,
            chunkEvents := chunkEvents st @ [evt], chunkSizes := chunkSizes st @ [length content],
            chunkLatencies := chunkLatencies st @ [latencyMs], lastChunkTime := now, modelName := model,
            chunkIndex := k + 1, prevEventHash := EventHash evt,
            callbacks := callbacks st @ [\<lparr>ce_Event = evt, ce_Content = content, ce_Index = k,
                                          ce_Done = (kc_Finish c \<noteq> '''')\<rparr>]\<rparr>)"

definition chunk_of :: "StreamChunk \<Rightarrow> kept_chunk" where
  "chunk_of chunk =
     (let (content, finishReason) = (case sk_Choices chunk of [] \<Rightarrow> ('''', '''') | c # cs \<Rightarrow> c)
      in \<lparr>kc_Content = content, kc_Finish = finishReason, kc_Model = sk_Model chunk\<rparr>)"

fun stream_loop :: "world \<Rightarrow> stream_env \<Rightarrow> TraceContext \<Rightarrow> (string \<Rightarrow> StreamChunk option) \<Rightarrow> string list
    \<Rightarrow> stream_state \<Rightarrow> stream_state" where
  "stream_loop w env ctx parse [] st = st"
| "stream_loop w env ctx parse (raw # raws) st =
     (let line = trimSpace raw in
      if line = '''' then stream_loop w env ctx parse raws st
      else if \<not> hasPrefix line ''data: '' then stream_loop w env ctx parse raws st
      else let data = drop 6 line in
        if data = ''[DONE]'' then st
        else case parse data of
            None \<Rightarrow> stream_loop w env ctx parse raws st
          | Some chunk \<Rightarrow>
              let c = chunk_of chunk in
              if kc_Content c = '''' \<and> kc_Finish c = '''' then stream_loop w env ctx parse raws st
              else if kc_Finish c \<noteq> '''' then chunk_step w env ctx st c
              else stream_loop w env ctx parse raws (chunk_step w env ctx st c))"

subsection \<open>The streamed chat\<close>

record StreamSession =
  sn_SessionID :: string
  sn_TraceID :: string
  sn_StartTime :: time
  sn_ChunkCount :: nat
  sn_TotalTokens :: int
  sn_TotalContentLen :: nat
  sn_FinalHash :: string
  sn_FirstChunkMs :: int
  sn_TotalMs :: int

record StreamOutputData =
  od_TotalContent :: string
  od_FinalCumulativeHash :: string
  od_PrevEventHash :: string
  od_Session :: StreamSession
  od_TraceCtx :: TraceContext
  od_ModelID :: string
  od_ModelProvider :: string
  od_PromptContent :: string
  od_ChunkSizes :: "nat list"
  od_ChunkLatencies :: "int list"
  od_StartTime :: time
  od_EndTime :: time
  od_FirstTokenAt :: "time option"

definition createStreamOutputEvent :: "world \<Rightarrow> (StreamOutputData \<Rightarrow> (string \<times> string) option) \<Rightarrow> StreamOutputData \<Rightarrow> event" where
  "createStreamOutputEvent w fingerprint data =
     (let session = od_Session data; ctx = od_TraceCtx data;
          (fp, fpHash) = (case fingerprint data of None \<Rightarrow> ('''', '''') | Some f \<Rightarrow> f);
          payload = \<lparr>op_OutputHash = SHA256 (od_TotalContent data), op_OutputLength = length (od_TotalContent data),
            op_OutputEncryptedRef = '''',
            op_Usage = \<lparr>PromptTokens = 0, CompletionTokens = sn_TotalTokens session, TotalTokens = 0\<rparr>,
            op_FinishReason = ''stop'', op_LatencyMs = sn_TotalMs session, op_PerceptualHash = '''',
            op_SafetyCheck = \<lparr>sf_Passed = True, sf_FlaggedCategories = []\<rparr>,
            op_InferenceFingerprint = fp, op_FingerprintHash = fpHash\<rparr>;
          bytes = payload_bytes w (OutputP payload); k = sn_ChunkCount session
      in with_hash w
        \<lparr>EventID = event_id w (2 + k), TraceID = tx_TraceID ctx, ParentEventID = '''',
         PrevEventHash = od_PrevEventHash data, PrevEventHashes = [], EventType = EventTypeOutput,
         Timestamp = clock w (2 + k), Sequence = int k + 3, TenantID = tx_TenantID ctx, UserID = tx_UserID ctx,
         SessionID = tx_SessionID ctx, Payload = bytes, PayloadHash = SHA256Bytes bytes, EventHash = ''''\<rparr>)"

datatype stream_reply = StreamUnbuildable | StreamUnanswered | StreamReply int string

record StreamResult =
  sr_TraceID :: string
  sr_Events :: "event list"
  sr_Session :: "StreamSession option"
  sr_TotalContent :: string
  sr_Error :: "gateway_error option"

definition stream_start :: "string \<Rightarrow> stream_state" where
  "stream_start modelHash = \<lparr>cumulativeHash = '''', totalContent = '''', chunkEvents = [], firstChunkTime = None,
     chunkSizes = [], chunkLatencies = [], lastChunkTime = 0, modelName = '''', chunkIndex = 0,
     prevEventHash = modelHash, firstChunkMs = 0, callbacks = []\<rparr>"

definition stream_session :: "world \<Rightarrow> stream_env \<Rightarrow> TraceContext \<Rightarrow> stream_state \<Rightarrow> StreamSession" where
  "stream_session w env ctx st =
     \<lparr>sn_SessionID = ''ss_'' @ take 8 (session_uuid env), sn_TraceID = tx_TraceID ctx,
      sn_StartTime = started w, sn_ChunkCount = chunkIndex st, sn_TotalTokens = 0,
      sn_TotalContentLen = length (totalContent st), sn_FinalHash = cumulativeHash st,
      sn_FirstChunkMs = firstChunkMs st, sn_TotalMs = milliseconds (finished env - started w)\<rparr>"

definition stream_output_data ::
  "world \<Rightarrow> stream_env \<Rightarrow> TraceContext \<Rightarrow> ChatCompletionRequest \<Rightarrow> stream_state \<Rightarrow> StreamOutputData" where
  "stream_output_data w env ctx req st =
     \<lparr>od_TotalContent = totalContent st, od_FinalCumulativeHash = cumulativeHash st,
      od_PrevEventHash = prevEventHash st, od_Session = stream_session w env ctx st, od_TraceCtx = ctx,
      od_ModelID = modelName st, od_ModelProvider = provider_of (Model req),
      od_PromptContent = user_prompt (Messages req), od_ChunkSizes = chunkSizes st,
      od_ChunkLatencies = chunkLatencies st, od_StartTime = started w,
      od_EndTime = ended env, od_FirstTokenAt = firstChunkTime st\<rparr>"

text \<open>The result, the context with its trace id, and the events the callback was given, in order.\<close>

definition ProxyStreamingChat :: "world \<Rightarrow> stream_env \<Rightarrow> GatewayConfig \<Rightarrow> (ChatCompletionRequest \<Rightarrow> string option)
    \<Rightarrow> (string \<Rightarrow> (string \<rightharpoonup> string) \<Rightarrow> string \<Rightarrow> stream_reply) \<Rightarrow> (string \<Rightarrow> StreamChunk option)
    \<Rightarrow> (StreamOutputData \<Rightarrow> (string \<times> string) option) \<Rightarrow> ChatCompletionRequest \<Rightarrow> TraceContext
    \<Rightarrow> StreamResult \<times> TraceContext \<times> ChunkEvent list" where
  "ProxyStreamingChat w env cfg marshalRequest send parse fingerprint req0 ctx0 =
     (let ctx = ensure_trace_id w ctx0; req = req0\<lparr>Stream := True\<rparr>;
          inputEvent = createInputEvent w req ctx;
          modelEvent = createModelEvent w req ctx (EventHash inputEvent);
          (upstreamURL, headers) = buildUpstreamRequest cfg (Model req) ctx;
          fail = (\<lambda>e. (\<lparr>sr_TraceID = tx_TraceID ctx, sr_Events = [inputEvent, modelEvent], sr_Session = None,
                        sr_TotalContent = '''', sr_Error = Some e\<rparr>, ctx, []))
      in case marshalRequest req of
           None \<Rightarrow> fail MarshalFailed
         | Some reqBody \<Rightarrow>
             (case send upstreamURL headers reqBody of
                StreamUnbuildable \<Rightarrow> fail BadRequest
              | StreamUnanswered \<Rightarrow> fail SendFailed
              | StreamReply status body \<Rightarrow>
                  if status \<noteq> 200 then fail (UpstreamStatus status body)
                  else
                    let st = stream_loop w env ctx parse (read_lines [] body) (stream_start (EventHash modelEvent));
                        outputEvent = createStreamOutputEvent w fingerprint (stream_output_data w env ctx req st)
                    in (\<lparr>sr_TraceID = tx_TraceID ctx, sr_Events = [inputEvent, modelEvent, outputEvent] @ chunkEvents st,
                         sr_Session = Some (stream_session w env ctx st), sr_TotalContent = totalContent st, sr_Error = None\<rparr>,
                        ctx, callbacks st)))"

subsection \<open>Which chunks count\<close>

definition data_lines :: "string \<Rightarrow> string list" where
  "data_lines body = map (drop 6) (filter (\<lambda>l. hasPrefix l ''data: '') (map trimSpace (read_lines [] body)))"

fun up_to_finish :: "kept_chunk list \<Rightarrow> kept_chunk list" where
  "up_to_finish [] = []"
| "up_to_finish (c # cs) = c # (if kc_Finish c \<noteq> '''' then [] else up_to_finish cs)"

definition kept :: "(string \<Rightarrow> StreamChunk option) \<Rightarrow> string list \<Rightarrow> kept_chunk list" where
  "kept parse ds = up_to_finish (filter (\<lambda>c. kc_Content c \<noteq> '''' \<or> kc_Finish c \<noteq> '''')
     (List.map_filter (\<lambda>d. map_option chunk_of (parse d)) (takeWhile (\<lambda>d. d \<noteq> ''[DONE]'') ds)))"

definition kept_chunks :: "(string \<Rightarrow> StreamChunk option) \<Rightarrow> string \<Rightarrow> kept_chunk list" where
  "kept_chunks parse body = kept parse (data_lines body)"

lemma stream_loop_kept:
  "stream_loop w env ctx parse raws st = foldl (chunk_step w env ctx) st
     (kept parse (map (drop 6) (filter (\<lambda>l. hasPrefix l ''data: '') (map trimSpace raws))))"
proof (induction w env ctx parse raws st rule: stream_loop.induct)
  case (1 w env ctx parse st)
  show ?case by (simp add: kept_def List.map_filter_def)
next
  case (2 w env ctx parse raw raws st)
  let ?line = "trimSpace raw"
  consider "\<not> hasPrefix ?line ''data: ''" | "hasPrefix ?line ''data: ''" "drop 6 ?line = ''[DONE]''"
    | "hasPrefix ?line ''data: ''" "drop 6 ?line \<noteq> ''[DONE]''" by blast
  then show ?case
  proof cases
    case 1
    then have "stream_loop w env ctx parse (raw # raws) st = stream_loop w env ctx parse raws st"
      by (simp add: Let_def)
    with 1 2(1,2) show ?thesis by (cases "?line = ''''") (simp_all add: Let_def)
  next
    case 2
    then have "?line \<noteq> ''''" by (auto simp: hasPrefix_def)
    with 2 show ?thesis by (simp add: kept_def List.map_filter_def Let_def)
  next
    case 3
    then have line: "?line \<noteq> ''''" by (auto simp: hasPrefix_def)
    show ?thesis
    proof (cases "parse (drop 6 ?line)")
      case None
      with 3 line 2(3) show ?thesis by (simp add: kept_def List.map_filter_def Let_def)
    next
      case (Some chunk)
      with 3 line 2(4,5) show ?thesis by (simp add: kept_def List.map_filter_def Let_def)
    qed
  qed
qed

subsection \<open>What the loop computes\<close>

text \<open>The running hash of the chunk contents.\<close>

definition cumulative :: "string list \<Rightarrow> string" where
  "cumulative contents = foldl next_hash '''' contents"

lemma next_hash_nonempty [simp]: "next_hash h c \<noteq> ''''"
  by (simp add: next_hash_def Let_def)

lemma cumulative_empty [simp]: "cumulative [] = ''''"
  by (simp add: cumulative_def)

lemma cumulative_snoc [simp]: "cumulative (cs @ [c]) = next_hash (cumulative cs) c"
  by (simp add: cumulative_def)

lemma cumulative_Nil_iff: "cumulative cs = '''' \<longleftrightarrow> cs = []"
  by (cases cs rule: rev_cases) simp_all

definition loop_inv :: "world \<Rightarrow> TraceContext \<Rightarrow> event list \<Rightarrow> kept_chunk list \<Rightarrow> stream_state \<Rightarrow> bool" where
  "loop_inv w ctx pre cs st \<longleftrightarrow>
     chunkIndex st = length cs \<and> length (chunkEvents st) = length cs
     \<and> cumulativeHash st = cumulative (map kc_Content cs) \<and> totalContent st = concat (map kc_Content cs)
     \<and> chained w (pre @ chunkEvents st) \<and> prevEventHash st = EventHash (last (pre @ chunkEvents st))
     \<and> map EventType (chunkEvents st) = replicate (length cs) EventTypeChunk
     \<and> map ce_Content (callbacks st) = map kc_Content cs \<and> map ce_Event (callbacks st) = chunkEvents st
     \<and> map ce_Done (callbacks st) = map (\<lambda>c. kc_Finish c \<noteq> '''') cs
     \<and> chunkSizes st = map (\<lambda>c. length (kc_Content c)) cs"

lemma chunk_step_inv:
  assumes inv: "loop_inv w ctx pre cs st" and pre: "length pre = 2"
  shows "loop_inv w ctx pre (cs @ [c]) (chunk_step w env ctx st c)"
proof -
  define C where "C = cumulative (map kc_Content (cs @ [c]))"
  have cum: "next_hash (cumulativeHash st) (kc_Content c) = C"
    using inv by (simp add: C_def loop_inv_def)
  let ?st = "chunk_step w env ctx st c"
  define e where "e = createChunkEvent w (chunkIndex st) (kc_Content c) (SHA256 (kc_Content c)) C
      (prevEventHash st) (last (chunkLatencies ?st)) (kc_Finish c) (kc_Model c) ctx"
  have step: "chunkEvents ?st = chunkEvents st @ [e]" "prevEventHash ?st = EventHash e"
      "map ce_Event (callbacks ?st) = map ce_Event (callbacks st) @ [e]"
      "map ce_Content (callbacks ?st) = map ce_Content (callbacks st) @ [kc_Content c]"
      "map ce_Done (callbacks ?st) = map ce_Done (callbacks st) @ [kc_Finish c \<noteq> '''']"
      "chunkIndex ?st = chunkIndex st + 1" "cumulativeHash ?st = C"
      "totalContent ?st = totalContent st @ kc_Content c" "chunkSizes ?st = chunkSizes st @ [length (kc_Content c)]"
    unfolding e_def by (simp_all add: chunk_step_def Let_def cum)
  have "chained w ((pre @ chunkEvents st) @ [e])"
    using inv pre unfolding chained_snoc
    by (auto simp: loop_inv_def e_def createChunkEvent_def Let_def)
  moreover have "EventType e = EventTypeChunk" by (simp add: e_def createChunkEvent_def Let_def)
  ultimately show ?thesis using inv step by (simp add: loop_inv_def C_def replicate_append_same)
qed

lemma loop_inv_fold:
  "loop_inv w ctx pre ds st \<Longrightarrow> length pre = 2 \<Longrightarrow> loop_inv w ctx pre (ds @ cs) (foldl (chunk_step w env ctx) st cs)"
proof (induction cs arbitrary: ds st)
  case (Cons c cs)
  from Cons.IH [OF chunk_step_inv [OF Cons.prems] Cons.prems(2)] show ?case by simp
qed simp

lemma loop_inv_start:
  "chained w [i, m] \<Longrightarrow> loop_inv w ctx [i, m] [] (stream_start (EventHash m))"
  by (simp add: loop_inv_def stream_start_def)

lemma stream_output_event:
  fixes w :: world and fp and data :: StreamOutputData
  defines "e \<equiv> createStreamOutputEvent w fp data"
  shows "EventHash e = calculateEventHash w e" "PayloadHash e = SHA256Bytes (Payload e)"
    "PrevEventHashes e = []" "PrevEventHash e = od_PrevEventHash data" "EventType e = EventTypeOutput"
    "Sequence e = int (sn_ChunkCount (od_Session data)) + 3"
  by (simp_all add: e_def createStreamOutputEvent_def Let_def split: prod.split)

text \<open>
  An event whose predecessor comes later in a list makes the order acausal, unless the hashes collide.
\<close>

lemma causal_order_nth:
  "ValidateCausalOrder evts \<Longrightarrow> k < length evts \<Longrightarrow> h \<in> set (prev_hashes (evts ! k)) \<Longrightarrow> h \<noteq> '''' \<Longrightarrow>
     \<exists>j < k. EventHash (evts ! j) = h"
  by (auto simp: ValidateCausalOrder_def causal_from_iff)

subsection \<open>Properties\<close>

text \<open>C14. A streamed chat leaves a chain. When the upstream answers 200, the chunks that count are those of
  \<open>kept_chunks\<close> (data lines up to \<open>[DONE]\<close> that parse and have content or a finish reason, up to the
  first finish reason); the total content is their concatenation, the final hash their running hash,
  and the callback sees each of them. INPUT, MODEL, the CHUNK events in order and OUTPUT form a chain.
  But the result lists OUTPUT before the chunks it depends on, so as soon as there is a chunk the
  causal order check rejects the result as it stands, unless the hash of the last chunk collides
  with one of the first two.\<close>

theorem ProxyStreamingChat_chain:
  assumes "marshalRequest (req\<lparr>Stream := True\<rparr>) = Some body"
    and "send (fst (buildUpstreamRequest cfg (Model req) ctx)) (snd (buildUpstreamRequest cfg (Model req) ctx)) body
      = StreamReply 200 answer"
    and "ProxyStreamingChat w env cfg marshalRequest send parse fp req ctx = (r, ctx', cbs)"
  defines "cs \<equiv> kept_chunks parse answer"
  shows "\<exists>i m out evs s. sr_Events r = [i, m, out] @ evs \<and> chained w ([i, m] @ evs @ [out])
    \<and> map EventType ([i, m] @ evs @ [out]) =
        [EventTypeInput, EventTypeModel] @ replicate (length cs) EventTypeChunk @ [EventTypeOutput]
    \<and> sr_TotalContent r = concat (map kc_Content cs)
    \<and> sr_Session r = Some s \<and> sn_ChunkCount s = length cs \<and> sn_FinalHash s = cumulative (map kc_Content cs)
    \<and> map ce_Event cbs = evs \<and> map ce_Content cbs = map kc_Content cs
    \<and> ValidateCausalOrder ([i, m] @ evs @ [out])
    \<and> (ValidateCausalOrder (sr_Events r) \<longrightarrow> cs = [] \<or> EventHash (last evs) \<in> {EventHash i, EventHash m})"
proof -
  let ?ctx = "ensure_trace_id w ctx" and ?req = "req\<lparr>Stream := True\<rparr>"
  define i where "i = createInputEvent w ?req ?ctx"
  define m where "m = createModelEvent w ?req ?ctx (EventHash i)"
  define st where "st = foldl (chunk_step w env ?ctx) (stream_start (EventHash m)) cs"
  define evs where "evs = chunkEvents st"
  have url: "buildUpstreamRequest cfg (Model req) ?ctx = buildUpstreamRequest cfg (Model req) ctx"
    by (simp add: buildUpstreamRequest_def base_url_def ensure_trace_id_def)
  obtain U H where uh: "buildUpstreamRequest cfg (Model req) ctx = (U, H)"
    by (cases "buildUpstreamRequest cfg (Model req) ctx")
  have loop: "stream_loop w env ?ctx parse (read_lines [] answer) (stream_start (EventHash m)) = st"
    by (simp add: stream_loop_kept st_def cs_def kept_chunks_def data_lines_def)
  define s where "s = stream_session w env ?ctx st"
  define data where "data = stream_output_data w env ?ctx ?req st"
  have "(r, ctx', cbs) = (\<lparr>sr_TraceID = tx_TraceID ?ctx, sr_Events = [i, m, createStreamOutputEvent w fp data] @ evs,
      sr_Session = Some s, sr_TotalContent = totalContent st, sr_Error = None\<rparr>, ?ctx, callbacks st)"
    unfolding assms(3) [symmetric] s_def data_def evs_def
    using assms(1,2) by (simp add: ProxyStreamingChat_def Let_def uh url loop i_def [symmetric] m_def [symmetric])
  then have out: "od_PrevEventHash data = prevEventHash st" "od_Session data = s"
      "sn_ChunkCount s = chunkIndex st" "sn_FinalHash s = cumulativeHash st" "sr_Session r = Some s"
      "sr_Events r = [i, m, createStreamOutputEvent w fp data] @ evs"
      "sr_TotalContent r = totalContent st" "cbs = callbacks st"
    by (simp_all add: data_def s_def stream_output_data_def stream_session_def)
  define out where "out = createStreamOutputEvent w fp data"
  have im: "chained w [i, m]" unfolding i_def m_def by (rule chained_request)
  have inv: "loop_inv w ?ctx [i, m] cs st"
    using loop_inv_fold [OF loop_inv_start [OF im], of ?ctx cs env] by (simp add: st_def)
  have len: "length evs = length cs" "chunkIndex st = length cs" using inv by (simp_all add: loop_inv_def evs_def)
  have ch: "chained w (([i, m] @ evs) @ [out])"
    using inv out(1-3) stream_output_event [of w fp data] len
    unfolding chained_snoc by (simp add: loop_inv_def evs_def out_def)
  have late: "cs = [] \<or> EventHash (last evs) \<in> {EventHash i, EventHash m}" if v: "ValidateCausalOrder (sr_Events r)"
  proof (cases "cs = []")
    case False
    then have ne: "evs \<noteq> []" using len by auto
    then have last: "PrevEventHash out = EventHash (last evs)" using ch unfolding chained_snoc by simp
    have "EventHash (last evs) = calculateEventHash w (last evs)"
      using chained_hash [OF ch, of "last evs"] ne by simp
    then have nn: "EventHash (last evs) \<noteq> ''''" by simp
    have "prev_hashes (sr_Events r ! 2) = [EventHash (last evs)]"
      using last nn stream_output_event(3) [of w fp data] by (simp add: out(6) out_def [symmetric] prev_hashes_def)
    with causal_order_nth [OF v, of 2 "EventHash (last evs)"] nn
    obtain j where "j < 2" "EventHash (sr_Events r ! j) = EventHash (last evs)" by (auto simp: out(6))
    then show ?thesis by (auto simp: out(6) less_2_cases_iff)
  qed simp
  have "EventType i = EventTypeInput" "EventType m = EventTypeModel" by (simp_all add: i_def m_def)
  then show ?thesis
    using inv out ch chained_causal [OF ch] late len stream_output_event(5) [of w fp data]
    by (intro exI [of _ i] exI [of _ m] exI [of _ out] exI [of _ evs] exI [of _ s])
      (simp add: loop_inv_def evs_def out_def)
qed

definition sample_env :: stream_env where
  "sample_env = \<lparr>seen_at = (\<lambda>k. int k * 1000000), session_uuid = replicate 36 CHR ''s'', finished = 0, ended = 0\<rparr>"

definition sample_parse :: "string \<Rightarrow> StreamChunk option" where
  "sample_parse d = (if d = ''a'' then Some \<lparr>sk_Model = ''m'', sk_Choices = [(''hi'', '''')]\<rparr>
     else if d = ''b'' then Some \<lparr>sk_Model = ''m'', sk_Choices = [('' you'', ''stop'')]\<rparr> else None)"

definition sample_body :: string where
  "sample_body = concat (map (\<lambda>l. l @ [CHR 0x0A]) [''data: a'', '''', '': ping'', ''data: {'', ''data: b'', ''data: a''])"

theorem ProxyStreamingChat_chain_witness:
  "\<exists>i m out evs r ctx' cbs. ProxyStreamingChat sample_world sample_env sample_config (\<lambda>_. Some ''{}'')
       (\<lambda>u h b. StreamReply 200 sample_body) sample_parse (\<lambda>_. None) sample_request sample_context = (r, ctx', cbs)
     \<and> sr_Events r = [i, m, out] @ evs \<and> length evs = 2 \<and> sr_TotalContent r = ''hi you''
     \<and> chained sample_world ([i, m] @ evs @ [out]) \<and> map ce_Content cbs = [''hi'', '' you'']"
proof -
  obtain r ctx' cbs where run: "ProxyStreamingChat sample_world sample_env sample_config (\<lambda>_. Some ''{}'')
       (\<lambda>u h b. StreamReply 200 sample_body) sample_parse (\<lambda>_. None) sample_request sample_context = (r, ctx', cbs)"
    by (rule prod_cases3)
  have kept: "kept_chunks sample_parse sample_body =
      [\<lparr>kc_Content = ''hi'', kc_Finish = '''', kc_Model = ''m''\<rparr>, \<lparr>kc_Content = '' you'', kc_Finish = ''stop'', kc_Model = ''m''\<rparr>]"
    by code_simp
  have texts: "map kc_Content [\<lparr>kc_Content = ''hi'', kc_Finish = '''', kc_Model = ''m''\<rparr>,
      \<lparr>kc_Content = '' you'', kc_Finish = ''stop'', kc_Model = ''m''\<rparr>] = [''hi'', '' you'']"
    "length [\<lparr>kc_Content = ''hi'', kc_Finish = '''', kc_Model = ''m''\<rparr>,
      \<lparr>kc_Content = '' you'', kc_Finish = ''stop'', kc_Model = ''m''\<rparr>] = 2"
    "concat [''hi'', '' you''] = ''hi you''"
    by simp_all
  obtain i m out evs where ev:
    "sr_Events r = [i, m, out] @ evs" "chained sample_world ([i, m] @ evs @ [out])"
    "map EventType ([i, m] @ evs @ [out]) = [EventTypeInput, EventTypeModel] @ replicate 2 EventTypeChunk @ [EventTypeOutput]"
    "sr_TotalContent r = ''hi you''" "map ce_Content cbs = [''hi'', '' you'']"
    using ProxyStreamingChat_chain [OF refl refl run, unfolded kept texts]
    by (elim exE conjE) (rule that, assumption+)
  have "length evs = 2" using arg_cong [OF ev(3), of length] by simp
  with run ev show ?thesis by (intro exI conjI)
qed

end
