(* ===== verification/MsgQueue.thy ===== *)
theory MsgQueue
  imports Prelude "HOL-Library.Sublist" "HOL-Library.Multiset"
begin

text \<open>
  The message queue: \<open>server/internal/queue/queue.go\<close> and the batch processor and delayed queue of
  \<open>worker.go\<close>.

  \<open>MemoryQueue\<close> is the struct of that name; its buffered channel is the list \<open>messages\<close>. A handler is
  a number, and what the handlers do is the parameter \<open>call\<close> (\<open>Some err\<close> is a failure). The statistics
  are fields of the state. A worker takes a message, processes it, and after a failure sleeps before
  it puts the message back: \<open>mq_step\<close> interleaves these steps of any number of workers with
  publishers, and keeps the messages in the hands of workers in \<open>processing\<close> and \<open>sleeping\<close>.
  The interface \<open>Queue\<close> that the clients in \<open>worker.go\<close> rely on is the locale \<open>message_queue\<close>.
\<close>

subsection \<open>The memory queue\<close>

record Message =
  msg_ID :: string
  Topic :: string
  Payload :: string
  msg_Timestamp :: time
  Retries :: int
  msg_MaxRetries :: int

record MemoryQueueConfig =
  BufferSize :: nat
  WorkerCount :: int
  MaxRetries :: int
  RetryDelay :: duration

definition DefaultMemoryQueueConfig :: MemoryQueueConfig where
  "DefaultMemoryQueueConfig = \<lparr>BufferSize = 10000, WorkerCount = 10, MaxRetries = 3, RetryDelay = 10 ^ 9\<rparr>"

record QueueStats =
  Published :: int
  Processed :: int
  Failed :: int
  Retried :: int

record MemoryQueue =
  mq_config :: MemoryQueueConfig
  messages :: "Message list"
  handlers :: "string \<rightharpoonup> nat"
  mq_stats :: QueueStats
  topicStats :: "string \<rightharpoonup> int"
  mq_cancelled :: bool
  mq_closed :: bool

datatype queue_error = ErrQueueFull | ErrQueueClosed | MarshalError | CtxError

definition NewMemoryQueue :: "MemoryQueueConfig \<Rightarrow> MemoryQueue" where
  "NewMemoryQueue cfg = \<lparr>mq_config = cfg, messages = [], handlers = Map.empty,
     mq_stats = \<lparr>Published = 0, Processed = 0, Failed = 0, Retried = 0\<rparr>, topicStats = Map.empty,
     mq_cancelled = False, mq_closed = False\<rparr>"

definition incrementPublished :: "MemoryQueue \<Rightarrow> MemoryQueue" where
  "incrementPublished q = q\<lparr>mq_stats := (mq_stats q)\<lparr>Published := Published (mq_stats q) + 1\<rparr>\<rparr>"

definition incrementProcessed :: "MemoryQueue \<Rightarrow> MemoryQueue" where
  "incrementProcessed q = q\<lparr>mq_stats := (mq_stats q)\<lparr>Processed := Processed (mq_stats q) + 1\<rparr>\<rparr>"

definition incrementFailed :: "MemoryQueue \<Rightarrow> MemoryQueue" where
  "incrementFailed q = q\<lparr>mq_stats := (mq_stats q)\<lparr>Failed := Failed (mq_stats q) + 1\<rparr>\<rparr>"

definition incrementRetried :: "MemoryQueue \<Rightarrow> MemoryQueue" where
  "incrementRetried q = q\<lparr>mq_stats := (mq_stats q)\<lparr>Retried := Retried (mq_stats q) + 1\<rparr>\<rparr>"

definition incrementTopicStats :: "MemoryQueue \<Rightarrow> string \<Rightarrow> MemoryQueue" where
  "incrementTopicStats q topic = q\<lparr>topicStats := (topicStats q)
     (topic \<mapsto> (case topicStats q topic of None \<Rightarrow> 0 | Some n \<Rightarrow> n) + 1)\<rparr>"

text \<open>
  \<open>Publish\<close>. \<open>payload\<close> is the marshalled payload (\<open>None\<close>: \<open>json.Marshal\<close> fails). When the channel has
  room and the context is done, the \<open>select\<close> takes either case: \<open>pick_ctx\<close> says which.
\<close>

record publish_env =
  ctx_done :: bool
  pick_ctx :: bool
  new_id :: string
  at :: time

definition Publish :: "publish_env \<Rightarrow> MemoryQueue \<Rightarrow> string \<Rightarrow> string option \<Rightarrow> (queue_error, MemoryQueue) outcome" where
  "Publish env q topic payload =
     (if mq_closed q then Err ErrQueueClosed
      else case payload of
        None \<Rightarrow> Err MarshalError
      | Some bytes \<Rightarrow>
          let msg = \<lparr>msg_ID = new_id env, Topic = topic, Payload = bytes, msg_Timestamp = at env,
                     Retries = 0, msg_MaxRetries = MaxRetries (mq_config q)\<rparr>
          in if length (messages q) < BufferSize (mq_config q) \<and> \<not> (ctx_done env \<and> pick_ctx env)
             then Ok (incrementPublished (q\<lparr>messages := messages q @ [msg]\<rparr>))
             else if ctx_done env then Err CtxError
             else Err ErrQueueFull)"

definition Subscribe :: "MemoryQueue \<Rightarrow> string \<Rightarrow> nat \<Rightarrow> MemoryQueue" where
  "Subscribe q topic handler = q\<lparr>handlers := (handlers q)(topic \<mapsto> handler)\<rparr>"

definition Unsubscribe :: "MemoryQueue \<Rightarrow> string \<Rightarrow> MemoryQueue" where
  "Unsubscribe q topic = q\<lparr>handlers := (handlers q)(topic := None)\<rparr>"

definition Stop :: "MemoryQueue \<Rightarrow> MemoryQueue" where
  "Stop q = q\<lparr>mq_closed := True, mq_cancelled := True\<rparr>"

definition Stats :: "MemoryQueue \<Rightarrow> QueueStats \<times> nat \<times> (string \<rightharpoonup> int)" where
  "Stats q = (mq_stats q, length (messages q), topicStats q)"

text \<open>
  \<open>handleFailure\<close> up to the sleep: the message to put back, if it is to be retried; then the
  non-blocking send after the sleep.
\<close>

definition handleFailure :: "MemoryQueue \<Rightarrow> Message \<Rightarrow> MemoryQueue \<times> Message option" where
  "handleFailure q msg =
     (let msg = msg\<lparr>Retries := Retries msg + 1\<rparr> in
      if Retries msg \<le> msg_MaxRetries msg then (incrementRetried q, Some msg)
      else (incrementFailed q, None))"

definition retry_delay :: "MemoryQueue \<Rightarrow> Message \<Rightarrow> duration" where
  "retry_delay q msg = RetryDelay (mq_config q) * Retries msg"

definition requeue :: "MemoryQueue \<Rightarrow> Message \<Rightarrow> MemoryQueue" where
  "requeue q msg =
     (if length (messages q) < BufferSize (mq_config q) then q\<lparr>messages := messages q @ [msg]\<rparr>
      else incrementFailed q)"

text \<open>\<open>processMessage\<close>; a message without a handler is dropped and not counted.\<close>

definition processMessage :: "(nat \<Rightarrow> Message \<Rightarrow> string option) \<Rightarrow> MemoryQueue \<Rightarrow> Message \<Rightarrow> MemoryQueue \<times> Message option" where
  "processMessage call q msg =
     (case handlers q (Topic msg) of
        None \<Rightarrow> (q, None)
      | Some handler \<Rightarrow>
          (case call handler msg of
             Some err \<Rightarrow> handleFailure q msg
           | None \<Rightarrow> (incrementTopicStats (incrementProcessed q) (Topic msg), None)))"

subsection \<open>Workers and publishers\<close>

record mq_system =
  queue :: MemoryQueue
  processing :: "Message list"
  sleeping :: "Message list"
  dropped :: int

inductive mq_step :: "mq_system \<Rightarrow> mq_system \<Rightarrow> bool" where
  publish: "Publish env (queue s) topic payload = Ok q \<Longrightarrow> mq_step s (s\<lparr>queue := q\<rparr>)"
| subscribe: "mq_step s (s\<lparr>queue := Subscribe (queue s) topic h\<rparr>)"
| unsubscribe: "mq_step s (s\<lparr>queue := Unsubscribe (queue s) topic\<rparr>)"
| stop: "mq_step s (s\<lparr>queue := Stop (queue s)\<rparr>)"
| take: "messages (queue s) = msg # msgs \<Longrightarrow>
    mq_step s (s\<lparr>queue := (queue s)\<lparr>messages := msgs\<rparr>, processing := msg # processing s\<rparr>)"
| drop: "msg \<in> set (processing s) \<Longrightarrow> handlers (queue s) (Topic msg) = None \<Longrightarrow>
    processMessage call (queue s) msg = (q, None) \<Longrightarrow>
    mq_step s (s\<lparr>queue := q, processing := remove1 msg (processing s), dropped := dropped s + 1\<rparr>)"
| finish: "msg \<in> set (processing s) \<Longrightarrow> handlers (queue s) (Topic msg) = Some h \<Longrightarrow>
    processMessage call (queue s) msg = (q, None) \<Longrightarrow>
    mq_step s (s\<lparr>queue := q, processing := remove1 msg (processing s)\<rparr>)"
| retry: "msg \<in> set (processing s) \<Longrightarrow> processMessage call (queue s) msg = (q, Some msg') \<Longrightarrow>
    mq_step s (s\<lparr>queue := q, processing := remove1 msg (processing s), sleeping := msg' # sleeping s\<rparr>)"
| wake: "msg \<in> set (sleeping s) \<Longrightarrow>
    mq_step s (s\<lparr>queue := requeue (queue s) msg, sleeping := remove1 msg (sleeping s)\<rparr>)"

definition mq_init :: "mq_system \<Rightarrow> bool" where
  "mq_init s \<longleftrightarrow> (\<exists>cfg. queue s = NewMemoryQueue cfg) \<and> processing s = [] \<and> sleeping s = [] \<and> dropped s = 0"

text \<open>Every message is somewhere exactly once, and carries no more retries than it may have.\<close>

definition msg_ok :: "MemoryQueueConfig \<Rightarrow> Message \<Rightarrow> bool" where
  "msg_ok cfg m \<longleftrightarrow> msg_MaxRetries m = MaxRetries cfg \<and> 0 \<le> Retries m \<and> (Retries m = 0 \<or> Retries m \<le> MaxRetries cfg)"

lemma msg_ok_bound: "msg_ok cfg m \<Longrightarrow> 0 \<le> Retries m \<and> Retries m \<le> max 0 (MaxRetries cfg)"
  by (auto simp: msg_ok_def)

definition mq_inv :: "mq_system \<Rightarrow> bool" where
  "mq_inv s \<longleftrightarrow> length (messages (queue s)) \<le> BufferSize (mq_config (queue s))
     \<and> Published (mq_stats (queue s)) = Processed (mq_stats (queue s)) + Failed (mq_stats (queue s)) + dropped s
         + int (length (messages (queue s)) + length (processing s) + length (sleeping s))
     \<and> (\<forall>m \<in> set (messages (queue s)) \<union> set (processing s) \<union> set (sleeping s). msg_ok (mq_config (queue s)) m)"

lemmas mq_ops = Publish_def Subscribe_def Unsubscribe_def Stop_def processMessage_def handleFailure_def
  requeue_def incrementPublished_def incrementProcessed_def incrementFailed_def incrementRetried_def
  incrementTopicStats_def Let_def

lemma length_remove1_in: "x \<in> set xs \<Longrightarrow> int (length (remove1 x xs)) = int (length xs) - 1"
proof -
  assume "x \<in> set xs"
  then have "length (remove1 x xs) = length xs - 1" "0 < length xs"
    by (auto simp: length_remove1)
  then show ?thesis by arith
qed

lemma remove1_all: "\<forall>m \<in> set xs. P m \<Longrightarrow> m \<in> set (remove1 x xs) \<Longrightarrow> P m"
  by (meson notin_set_remove1)

interpretation mq: step_system mq_init mq_step mq_inv
proof unfold_locales
  fix s show "mq_init s \<Longrightarrow> mq_inv s"
    by (auto simp: mq_init_def mq_inv_def NewMemoryQueue_def)
next
  fix s t assume "mq_step s t" and inv: "mq_inv s"
  then show "mq_inv t"
  proof (cases rule: mq_step.cases)
    case (publish env topic payload q)
    then show ?thesis using inv
      by (auto simp: mq_ops mq_inv_def msg_ok_def split: option.splits if_splits)
  next
    case (drop msg call q)
    then show ?thesis using inv remove1_all [of "processing s" "msg_ok (mq_config (queue s))" _ msg]
      by (auto simp: mq_ops mq_inv_def length_remove1_in)
  next
    case (finish msg h call q)
    then show ?thesis using inv remove1_all [of "processing s" "msg_ok (mq_config (queue s))" _ msg]
      by (auto simp: mq_ops mq_inv_def length_remove1_in split: option.splits if_splits)
  next
    case (retry msg call q msg')
    moreover have "msg_ok (mq_config (queue s)) msg" using inv retry(2) by (simp add: mq_inv_def)
    ultimately show ?thesis using inv remove1_all [of "processing s" "msg_ok (mq_config (queue s))" _ msg]
      by (auto simp: mq_ops mq_inv_def length_remove1_in msg_ok_def split: option.splits if_splits)
  next
    case (wake msg)
    then show ?thesis using inv remove1_all [of "sleeping s" "msg_ok (mq_config (queue s))" _ msg]
      by (auto simp: mq_ops mq_inv_def length_remove1_in)
  qed (use inv in \<open>auto simp: mq_ops mq_inv_def\<close>)
qed

subsection \<open>One worker alone\<close>

text \<open>A single worker takes, processes and, after the sleep, puts back; \<open>n\<close> times.\<close>

fun worker_run :: "nat \<Rightarrow> (nat \<Rightarrow> Message \<Rightarrow> string option) \<Rightarrow> MemoryQueue \<Rightarrow> MemoryQueue" where
  "worker_run 0 call q = q"
| "worker_run (Suc n) call q =
     (case messages q of
        [] \<Rightarrow> q
      | m # ms \<Rightarrow>
          (case processMessage call (q\<lparr>messages := ms\<rparr>) m of
             (q', None) \<Rightarrow> worker_run n call q'
           | (q', Some m') \<Rightarrow> worker_run n call (requeue q' m')))"

lemma worker_run_retries:
  assumes "messages q = [m]" and "handlers q (Topic m) = Some h" and "0 < BufferSize (mq_config q)"
    and "\<And>x. call h x = (if Retries x < int k then Some e else None)"
    and "0 \<le> Retries m" and "Retries m \<le> int k" and "Retries m \<le> msg_MaxRetries m"
    and "int n = min (int k) (msg_MaxRetries m) - Retries m"
  shows "\<exists>q'. worker_run (Suc n) call q = q' \<and> messages q' = []
    \<and> Retried (mq_stats q') = Retried (mq_stats q) + int n
    \<and> (if int k \<le> msg_MaxRetries m
       then Processed (mq_stats q') = Processed (mq_stats q) + 1 \<and> Failed (mq_stats q') = Failed (mq_stats q)
       else Processed (mq_stats q') = Processed (mq_stats q) \<and> Failed (mq_stats q') = Failed (mq_stats q) + 1)"
  using assms
proof (induction n arbitrary: q m)
  case 0
  then show ?case by (auto simp: mq_ops min_def split: if_splits)
next
  case (Suc n)
  let ?m = "m\<lparr>Retries := Retries m + 1\<rparr>"
  let ?q = "(incrementRetried (q\<lparr>messages := []\<rparr>))\<lparr>messages := [?m]\<rparr>"
  have step: "worker_run (Suc (Suc n)) call q = worker_run (Suc n) call ?q"
    using Suc.prems by (simp add: mq_ops)
  have "Retries ?m \<le> int k" "Retries ?m \<le> msg_MaxRetries ?m" using Suc.prems(8) by auto
  then show ?case using Suc.IH [of ?q ?m] Suc.prems unfolding step
    by (auto simp: incrementRetried_def)
qed

subsection \<open>Clients of the interface\<close>

text \<open>
  What \<open>worker.go\<close> relies on: a publication that succeeds appends the message to what the queue
  holds. \<open>k\<close> numbers the calls, whose contexts and clocks differ.
\<close>

locale message_queue =
  fixes pub :: "nat \<Rightarrow> 'q \<Rightarrow> string \<Rightarrow> string \<Rightarrow> 'q option" and queued :: "'q \<Rightarrow> (string \<times> string) list"
  assumes pub_appends: "pub k q topic payload = Some q' \<Longrightarrow> queued q' = queued q @ [(topic, payload)]"

text \<open>The loop of \<open>processDelayed\<close>; the error of \<open>Publish\<close> is ignored.\<close>

fun publish_all :: "(nat \<Rightarrow> 'q \<Rightarrow> string \<Rightarrow> string \<Rightarrow> 'q option) \<Rightarrow> nat \<Rightarrow> (string \<times> string) list \<Rightarrow> 'q \<Rightarrow> 'q" where
  "publish_all pub k [] q = q"
| "publish_all pub k ((topic, payload) # xs) q =
     publish_all pub (k + 1) xs (case pub k q topic payload of None \<Rightarrow> q | Some q' \<Rightarrow> q')"

context message_queue
begin

text \<open>Messages are published in order; those the queue refuses are lost.\<close>

lemma publish_all_subseq: "\<exists>zs. subseq zs xs \<and> queued (publish_all pub k xs q) = queued q @ zs"
proof (induction xs arbitrary: k q)
  case Nil
  show ?case by (rule exI [of _ "[]"]) simp
next
  case (Cons x xs)
  obtain topic payload where x: "x = (topic, payload)" by (cases x)
  let ?q = "case pub k q topic payload of None \<Rightarrow> q | Some q' \<Rightarrow> q'"
  from Cons.IH [of "k + 1" ?q] obtain zs where zs: "subseq zs xs"
    "queued (publish_all pub (k + 1) xs ?q) = queued ?q @ zs" by blast
  show ?case
  proof (cases "pub k q topic payload")
    case None
    with zs show ?thesis by (intro exI [of _ zs]) (auto simp: x)
  next
    case (Some q')
    with zs pub_appends [OF Some] show ?thesis by (intro exI [of _ "x # zs"]) (auto simp: x)
  qed
qed

end

definition mem_publish :: "(nat \<Rightarrow> publish_env) \<Rightarrow> nat \<Rightarrow> MemoryQueue \<Rightarrow> string \<Rightarrow> string \<Rightarrow> MemoryQueue option" where
  "mem_publish env k q topic payload =
     (case Publish (env k) q topic (Some payload) of Ok q' \<Rightarrow> Some q' | _ \<Rightarrow> None)"

definition mem_queued :: "MemoryQueue \<Rightarrow> (string \<times> string) list" where
  "mem_queued q = map (\<lambda>m. (Topic m, Payload m)) (messages q)"

interpretation mem: message_queue "mem_publish env" mem_queued for env
  by unfold_locales (auto simp: mem_publish_def mem_queued_def mq_ops split: outcome.splits if_splits)

subsection \<open>The delayed queue\<close>

record DelayedMessage =
  dm_Topic :: string
  dm_Payload :: string
  ExecuteAt :: time

definition PublishDelayed :: "DelayedMessage list \<Rightarrow> string \<Rightarrow> string option \<Rightarrow> time \<Rightarrow> duration
    \<Rightarrow> (queue_error, DelayedMessage list) outcome" where
  "PublishDelayed dq topic payload now delay =
     (case payload of None \<Rightarrow> Err MarshalError
      | Some bytes \<Rightarrow> Ok (dq @ [\<lparr>dm_Topic = topic, dm_Payload = bytes, ExecuteAt = now + delay\<rparr>]))"

definition processDelayed :: "(nat \<Rightarrow> publish_env) \<Rightarrow> time \<Rightarrow> DelayedMessage list \<times> MemoryQueue
    \<Rightarrow> DelayedMessage list \<times> MemoryQueue" where
  "processDelayed env now = (\<lambda>(dq, q).
     (filter (\<lambda>dm. \<not> now > ExecuteAt dm) dq,
      publish_all (mem_publish env) 0
        (map (\<lambda>dm. (dm_Topic dm, dm_Payload dm)) (filter (\<lambda>dm. now > ExecuteAt dm) dq)) q))"

subsection \<open>The batch processor\<close>

text \<open>
  \<open>calls\<close> lists the batches handed to \<open>processFn\<close>, with the error it returned (which is only logged).
\<close>

record 'a BatchProcessor =
  batchSize :: int
  bp_buffer :: "'a list"
  calls :: "('a list \<times> string option) list"

definition NewBatchProcessor :: "int \<Rightarrow> 'a BatchProcessor" where
  "NewBatchProcessor n = \<lparr>batchSize = n, bp_buffer = [], calls = []\<rparr>"

definition bp_flush :: "('a list \<Rightarrow> string option) \<Rightarrow> 'a BatchProcessor \<Rightarrow> 'a BatchProcessor" where
  "bp_flush processFn bp =
     (if bp_buffer bp = [] then bp
      else let batch = bp_buffer bp in bp\<lparr>bp_buffer := [], calls := calls bp @ [(batch, processFn batch)]\<rparr>)"

text \<open>\<open>handleMessage\<close>: \<open>item\<close> is the unmarshalled payload (\<open>None\<close>: an error, which the queue retries).\<close>

definition handleMessage :: "('a list \<Rightarrow> string option) \<Rightarrow> 'a BatchProcessor \<Rightarrow> 'a option
    \<Rightarrow> string option \<times> 'a BatchProcessor" where
  "handleMessage processFn bp item =
     (case item of None \<Rightarrow> (Some ''invalid payload'', bp)
      | Some x \<Rightarrow>
          let buffer = bp_buffer bp @ [x]; bp = bp\<lparr>bp_buffer := buffer\<rparr> in
          (None, if int (length buffer) \<ge> batchSize bp then bp_flush processFn bp else bp))"

definition handle_all :: "('a list \<Rightarrow> string option) \<Rightarrow> 'a BatchProcessor \<Rightarrow> 'a list \<Rightarrow> 'a BatchProcessor" where
  "handle_all processFn bp xs = fold (\<lambda>x bp. snd (handleMessage processFn bp (Some x))) xs bp"

text \<open>\<open>Stop\<close> waits for the flush loop, then flushes the rest.\<close>

definition bp_Stop :: "('a list \<Rightarrow> string option) \<Rightarrow> 'a BatchProcessor \<Rightarrow> 'a BatchProcessor" where
  "bp_Stop processFn bp = bp_flush processFn bp"

lemma handleMessage_keeps:
  fixes bp :: "'a BatchProcessor" and x :: 'a and processFn :: "'a list \<Rightarrow> string option"
  assumes "0 < batchSize bp" and "int (length (bp_buffer bp)) < batchSize bp"
    and "\<forall>b \<in> set (calls bp). int (length (fst b)) = batchSize bp"
  defines "bp' \<equiv> snd (handleMessage processFn bp (Some x))"
  shows "concat (map fst (calls bp')) @ bp_buffer bp' = concat (map fst (calls bp)) @ bp_buffer bp @ [x]
    \<and> batchSize bp' = batchSize bp \<and> int (length (bp_buffer bp')) < batchSize bp
    \<and> (\<forall>b \<in> set (calls bp'). int (length (fst b)) = batchSize bp)"
  using assms by (auto simp: bp'_def handleMessage_def bp_flush_def Let_def)

lemma handle_all_keeps:
  "\<lbrakk>0 < batchSize bp; int (length (bp_buffer bp)) < batchSize bp; \<forall>b \<in> set (calls bp). int (length (fst b)) = batchSize bp\<rbrakk>
   \<Longrightarrow> concat (map fst (calls (handle_all f bp xs))) @ bp_buffer (handle_all f bp xs)
        = concat (map fst (calls bp)) @ bp_buffer bp @ xs
     \<and> int (length (bp_buffer (handle_all f bp xs))) < batchSize bp
     \<and> (\<forall>b \<in> set (calls (handle_all f bp xs)). int (length (fst b)) = batchSize bp)"
proof (induction xs arbitrary: bp)
  case (Cons x xs)
  let ?bp = "snd (handleMessage f bp (Some x))"
  have step: "handle_all f bp (x # xs) = handle_all f ?bp xs" by (simp add: handle_all_def)
  have k: "concat (map fst (calls ?bp)) @ bp_buffer ?bp = concat (map fst (calls bp)) @ bp_buffer bp @ [x]"
    "batchSize ?bp = batchSize bp" "int (length (bp_buffer ?bp)) < batchSize bp"
    "\<forall>b \<in> set (calls ?bp). int (length (fst b)) = batchSize bp"
    using handleMessage_keeps [OF Cons.prems, of f x] by auto
  from Cons.IH [of ?bp] k Cons.prems(1) show ?case unfolding step by simp
qed (simp add: handle_all_def)

subsection \<open>Properties\<close>

text \<open>C16. No message is lost track of. Under any interleaving of publishers, workers, (un)subscriptions
  and a stop, the messages published are exactly those processed, failed for good, dropped for want
  of a handler, or still in the buffer, in a worker's hands or waiting for a retry; the buffer never
  exceeds its size, and no message is retried more than \<open>MaxRetries\<close> times. Only the dropped ones are
  in no counter of \<open>Stats\<close>.\<close>

theorem queue_conserves_messages:
  assumes "mq_init s" and "mq_step\<^sup>*\<^sup>* s t"
  shows "Published (mq_stats (queue t)) = Processed (mq_stats (queue t)) + Failed (mq_stats (queue t)) + dropped t
      + int (length (messages (queue t)) + length (processing t) + length (sleeping t))
    \<and> length (messages (queue t)) \<le> BufferSize (mq_config (queue t))
    \<and> (\<forall>m \<in> set (messages (queue t)) \<union> set (processing t) \<union> set (sleeping t).
         0 \<le> Retries m \<and> Retries m \<le> max 0 (MaxRetries (mq_config (queue t))))"
  using mq.reachable_inv [OF assms] msg_ok_bound unfolding mq_inv_def by blast

theorem queue_conserves_messages_witness:
  "\<exists>t. mq_step\<^sup>*\<^sup>* \<lparr>queue = NewMemoryQueue DefaultMemoryQueueConfig, processing = [], sleeping = [], dropped = 0\<rparr> t
     \<and> length (processing t) = 1 \<and> length (messages (queue t)) = 0
     \<and> Published (mq_stats (queue t)) = Processed (mq_stats (queue t)) + Failed (mq_stats (queue t)) + dropped t
         + int (0 + 1 + length (sleeping t))"
proof -
  let ?s = "\<lparr>queue = NewMemoryQueue DefaultMemoryQueueConfig, processing = [], sleeping = [], dropped = 0\<rparr>"
  let ?env = "\<lparr>ctx_done = False, pick_ctx = False, new_id = ''1'', at = 0\<rparr>"
  let ?m = "\<lparr>msg_ID = ''1'', Topic = ''t'', Payload = ''p'', msg_Timestamp = 0, Retries = 0, msg_MaxRetries = 3\<rparr>"
  let ?q = "incrementPublished ((NewMemoryQueue DefaultMemoryQueueConfig)\<lparr>messages := [?m]\<rparr>)"
  let ?t = "?s\<lparr>queue := ?q\<lparr>messages := []\<rparr>, processing := [?m]\<rparr>"
  have init: "mq_init ?s" by (auto simp: mq_init_def)
  have "Publish ?env (queue ?s) ''t'' (Some ''p'') = Ok ?q"
    by (simp add: Publish_def NewMemoryQueue_def DefaultMemoryQueueConfig_def incrementPublished_def)
  from mq_step.publish [OF this] have one: "mq_step ?s (?s\<lparr>queue := ?q\<rparr>)" .
  have "mq_step (?s\<lparr>queue := ?q\<rparr>) ?t"
    using mq_step.take [of "?s\<lparr>queue := ?q\<rparr>" ?m "[]"] by (simp add: incrementPublished_def)
  with one have run: "mq_step\<^sup>*\<^sup>* ?s ?t" by auto
  have "length (messages (queue ?t)) = 0" "length (processing ?t) = 1" by simp_all
  with queue_conserves_messages [OF init run] run show ?thesis by metis
qed

text \<open>Retries. A worker left alone with a message whose handler fails the first \<open>k\<close> times retries it
  exactly \<open>min k MaxRetries\<close> times, and then counts it as processed when \<open>k <= MaxRetries\<close> and as
  failed otherwise; nothing is left in the queue.\<close>

theorem worker_retries:
  assumes "messages q = [m]" and "handlers q (Topic m) = Some h" and "0 < BufferSize (mq_config q)"
    and "\<And>x. call h x = (if Retries x < int k then Some e else None)"
    and "Retries m = 0" and "msg_MaxRetries m = int M"
  defines "q' \<equiv> worker_run (Suc (min k M)) call q"
  shows "messages q' = [] \<and> Retried (mq_stats q') = Retried (mq_stats q) + int (min k M)
    \<and> Processed (mq_stats q') = Processed (mq_stats q) + (if k \<le> M then 1 else 0)
    \<and> Failed (mq_stats q') = Failed (mq_stats q) + (if k \<le> M then 0 else 1)"
proof -
  have "0 \<le> Retries m" "Retries m \<le> int k" "Retries m \<le> msg_MaxRetries m"
    "int (min k M) = min (int k) (msg_MaxRetries m) - Retries m" using assms(5,6) by simp_all
  from worker_run_retries [of q m h call k e "min k M", OF assms(1-3) _ this] assms(4,6)
  show ?thesis by (auto simp: q'_def split: if_splits)
qed

theorem worker_retries_witness:
  "let q = (NewMemoryQueue DefaultMemoryQueueConfig)\<lparr>handlers := [''t'' \<mapsto> 7], messages :=
         [\<lparr>msg_ID = ''1'', Topic = ''t'', Payload = ''p'', msg_Timestamp = 0, Retries = 0, msg_MaxRetries = 3\<rparr>]\<rparr>;
       q' = worker_run 3 (\<lambda>h m. if Retries m < 2 then Some ''e'' else None) q
   in Processed (mq_stats q') = 1 \<and> Retried (mq_stats q') = 2 \<and> Failed (mq_stats q') = 0"
proof -
  let ?m = "\<lparr>msg_ID = ''1'', Topic = ''t'', Payload = ''p'', msg_Timestamp = 0, Retries = 0, msg_MaxRetries = 3\<rparr>"
  let ?q = "(NewMemoryQueue DefaultMemoryQueueConfig)\<lparr>handlers := [''t'' \<mapsto> 7], messages := [?m]\<rparr>"
  have three: "Suc (min 2 3) = 3" by simp
  have "messages ?q = [?m]" "handlers ?q (Topic ?m) = Some 7" "0 < BufferSize (mq_config ?q)"
    "Retries ?m = 0" "msg_MaxRetries ?m = int 3"
    by (simp_all add: NewMemoryQueue_def DefaultMemoryQueueConfig_def)
  from worker_retries [of ?q ?m 7 "\<lambda>h m. if Retries m < 2 then Some ''e'' else None" 2 "''e''" 3, unfolded three, OF this(1-3) _ this(4,5)]
  show ?thesis by (simp add: Let_def NewMemoryQueue_def)
qed

text \<open>The batch processor accepts every item and hands all of them to \<open>processFn\<close> once, in order,
  in batches of exactly \<open>BatchSize\<close> (the last one, at \<open>Stop\<close>, may be smaller). It acknowledges an item
  before its batch is processed and never repeats a batch, so the items of a batch for which
  \<open>processFn\<close> reports an error are not retried.\<close>

theorem batch_processor_batches:
  fixes xs :: "'a list" and processFn :: "'a list \<Rightarrow> string option"
  assumes "0 < n"
  defines "bp \<equiv> handle_all processFn (NewBatchProcessor n) xs"
  shows "concat (map fst (calls (bp_Stop processFn bp))) = xs
    \<and> (\<forall>b \<in> set (calls bp). int (length (fst b)) = n) \<and> int (length (bp_buffer bp)) < n
    \<and> fst (handleMessage processFn bp (Some x)) = None"
proof -
  let ?bp = "NewBatchProcessor n"
  have new: "batchSize ?bp = n" "bp_buffer ?bp = []" "calls ?bp = []" by (simp_all add: NewBatchProcessor_def)
  have "concat (map fst (calls bp)) @ bp_buffer bp = xs" "int (length (bp_buffer bp)) < n"
    "\<forall>b \<in> set (calls bp). int (length (fst b)) = n"
    using handle_all_keeps [of ?bp processFn xs] assms(1) by (simp_all add: bp_def new)
  then show ?thesis by (auto simp: bp_Stop_def bp_flush_def handleMessage_def Let_def)
qed

theorem batch_processor_batches_witness:
  "concat (map fst (calls (bp_Stop (\<lambda>_. Some ''e'') (handle_all (\<lambda>_. Some ''e'') (NewBatchProcessor 2) [1, 2, 3 :: nat])))) = [1, 2, 3]"
  using batch_processor_batches [of 2 "\<lambda>_. Some ''e''" "[1, 2, 3 :: nat]"] by simp

text \<open>The delayed queue publishes, in the order of submission, the messages whose time has passed
  and keeps the others; a message that the queue refuses at that moment is lost, since it has
  already been removed and the error of \<open>Publish\<close> is ignored.\<close>

lemma processDelayed_publishes_due:
  "\<exists>zs. subseq zs (map (\<lambda>dm. (dm_Topic dm, dm_Payload dm)) (filter (\<lambda>dm. now > ExecuteAt dm) dq))
     \<and> mem_queued (snd (processDelayed env now (dq, q))) = mem_queued q @ zs
     \<and> fst (processDelayed env now (dq, q)) = filter (\<lambda>dm. now \<le> ExecuteAt dm) dq
     \<and> (mq_closed q \<and> zs = [] \<or> \<not> mq_closed q)"
proof -
  have closed: "publish_all (mem_publish env) k xs q = q" if "mq_closed q" for k xs
    using that by (induction "mem_publish env" k xs q rule: publish_all.induct) (auto simp: mem_publish_def Publish_def)
  have keep: "filter (\<lambda>dm. \<not> now > ExecuteAt dm) dq = filter (\<lambda>dm. now \<le> ExecuteAt dm) dq"
    by (simp add: not_less)
  obtain zs where zs: "subseq zs (map (\<lambda>dm. (dm_Topic dm, dm_Payload dm)) (filter (\<lambda>dm. now > ExecuteAt dm) dq))"
    "mem_queued (snd (processDelayed env now (dq, q))) = mem_queued q @ zs"
    using mem.publish_all_subseq [of "map (\<lambda>dm. (dm_Topic dm, dm_Payload dm)) (filter (\<lambda>dm. now > ExecuteAt dm) dq)" env 0 q]
    by (auto simp: processDelayed_def)
  then have "zs = []" if "mq_closed q" using closed [OF that] by (simp add: processDelayed_def)
  with zs keep show ?thesis by (intro exI [of _ zs]) (auto simp: processDelayed_def)
qed

end
