(* ===== verification/MemCache.thy ===== *)
theory MemCache
  imports Prelude
begin

text \<open>
  The caches: \<open>server/internal/cache/cache.go\<close>.

  \<open>MemoryCache\<close> maps a key to a marshalled value and its expiry (\<open>None\<close> is the zero time: never).
  \<open>time.Now()\<close> is an argument. \<open>TwoLevelCache\<close> puts a memory cache in front of any \<open>Cache\<close>, whose
  \<open>Get\<close>, \<open>Set\<close> and \<open>Delete\<close> are parameters; what it relies on is the locale \<open>cache\<close>, interpreted on
  the memory cache. A value read back and marshalled again is the same bytes, and each method is
  one atomic step. The Redis client is external.
\<close>

subsection \<open>The memory cache\<close>

datatype cache_error = ErrCacheMiss | ErrCacheExpired

record cacheItem =
  ci_value :: string
  expiresAt :: "time option"

type_synonym MemoryCache = "string \<rightharpoonup> cacheItem"

definition NewMemoryCache :: MemoryCache where
  "NewMemoryCache = Map.empty"

definition expired :: "cacheItem \<Rightarrow> time \<Rightarrow> bool" where
  "expired item now \<longleftrightarrow> (case expiresAt item of None \<Rightarrow> False | Some e \<Rightarrow> now > e)"

definition cleanup :: "MemoryCache \<Rightarrow> time \<Rightarrow> MemoryCache" where
  "cleanup c now = (\<lambda>key. case c key of None \<Rightarrow> None | Some item \<Rightarrow> if expired item now then None else Some item)"

definition mc_Delete :: "MemoryCache \<Rightarrow> string \<Rightarrow> MemoryCache" where
  "mc_Delete c key = c(key := None)"

definition mc_Get :: "MemoryCache \<Rightarrow> string \<Rightarrow> time \<Rightarrow> (cache_error, string) outcome \<times> MemoryCache" where
  "mc_Get c key now =
     (case c key of
        None \<Rightarrow> (Err ErrCacheMiss, c)
      | Some item \<Rightarrow>
          if expired item now then (Err ErrCacheExpired, mc_Delete c key) else (Ok (ci_value item), c))"

definition mc_Set :: "MemoryCache \<Rightarrow> string \<Rightarrow> string \<Rightarrow> duration \<Rightarrow> time \<Rightarrow> MemoryCache" where
  "mc_Set c key value ttl now =
     c(key \<mapsto> \<lparr>ci_value = value, expiresAt = (if ttl > 0 then Some (now + ttl) else None)\<rparr>)"

definition mc_Exists :: "MemoryCache \<Rightarrow> string \<Rightarrow> time \<Rightarrow> bool" where
  "mc_Exists c key now = (case c key of None \<Rightarrow> False | Some item \<Rightarrow> \<not> expired item now)"

definition mc_TTL :: "MemoryCache \<Rightarrow> string \<Rightarrow> time \<Rightarrow> duration" where
  "mc_TTL c key now =
     (case c key of
        None \<Rightarrow> -1
      | Some item \<Rightarrow> (case expiresAt item of None \<Rightarrow> -1 | Some e \<Rightarrow> if e - now < 0 then 0 else e - now))"

definition mc_Clear :: "MemoryCache \<Rightarrow> MemoryCache" where
  "mc_Clear c = Map.empty"

subsection \<open>Two levels\<close>

record 'c TwoLevelCache =
  l1 :: MemoryCache
  l2 :: 'c
  l1TTL :: duration

type_synonym 'c cache_get = "'c \<Rightarrow> string \<Rightarrow> time \<Rightarrow> (cache_error, string) outcome \<times> 'c"
type_synonym 'c cache_set = "'c \<Rightarrow> string \<Rightarrow> string \<Rightarrow> duration \<Rightarrow> time \<Rightarrow> 'c"

definition NewTwoLevelCache :: "'c \<Rightarrow> duration \<Rightarrow> 'c TwoLevelCache" where
  "NewTwoLevelCache c ttl = \<lparr>l1 = NewMemoryCache, l2 = c, l1TTL = ttl\<rparr>"

definition tl_Get :: "'c cache_get \<Rightarrow> 'c TwoLevelCache \<Rightarrow> string \<Rightarrow> time \<Rightarrow> (cache_error, string) outcome \<times> 'c TwoLevelCache" where
  "tl_Get get2 c key now =
     (case mc_Get (l1 c) key now of
        (Ok v, m) \<Rightarrow> (Ok v, c\<lparr>l1 := m\<rparr>)
      | (_, m) \<Rightarrow>
          (case get2 (l2 c) key now of
             (Ok v, c2) \<Rightarrow> (Ok v, c\<lparr>l1 := mc_Set m key v (l1TTL c) now, l2 := c2\<rparr>)
           | (r, c2) \<Rightarrow> (r, c\<lparr>l1 := m, l2 := c2\<rparr>)))"

definition tl_Set :: "'c cache_set \<Rightarrow> 'c TwoLevelCache \<Rightarrow> string \<Rightarrow> string \<Rightarrow> duration \<Rightarrow> time \<Rightarrow> 'c TwoLevelCache" where
  "tl_Set set2 c key value ttl now =
     (let t1 = (if ttl < l1TTL c then ttl else l1TTL c)
      in c\<lparr>l1 := mc_Set (l1 c) key value t1 now, l2 := set2 (l2 c) key value ttl now\<rparr>)"

definition tl_Delete :: "('c \<Rightarrow> string \<Rightarrow> 'c) \<Rightarrow> 'c TwoLevelCache \<Rightarrow> string \<Rightarrow> 'c TwoLevelCache" where
  "tl_Delete del2 c key = c\<lparr>l1 := mc_Delete (l1 c) key, l2 := del2 (l2 c) key\<rparr>"

definition tl_Exists :: "('c \<Rightarrow> string \<Rightarrow> time \<Rightarrow> bool) \<Rightarrow> 'c TwoLevelCache \<Rightarrow> string \<Rightarrow> time \<Rightarrow> bool" where
  "tl_Exists exists2 c key now = (if mc_Exists (l1 c) key now then True else exists2 (l2 c) key now)"

definition tl_TTL :: "('c \<Rightarrow> string \<Rightarrow> time \<Rightarrow> duration) \<Rightarrow> 'c TwoLevelCache \<Rightarrow> string \<Rightarrow> time \<Rightarrow> duration" where
  "tl_TTL ttl2 c key now = ttl2 (l2 c) key now"

definition tl_Clear :: "('c \<Rightarrow> 'c) \<Rightarrow> 'c TwoLevelCache \<Rightarrow> 'c TwoLevelCache" where
  "tl_Clear clear2 c = c\<lparr>l1 := mc_Clear (l1 c), l2 := clear2 (l2 c)\<rparr>"

subsection \<open>Keys\<close>

definition Build :: "string \<Rightarrow> string list \<Rightarrow> string" where
  "Build namespace parts = foldl (\<lambda>key part. key @ '':'' @ part) namespace parts"

definition ProofKey :: "string \<Rightarrow> string \<Rightarrow> string" where
  "ProofKey namespace h = Build namespace [''proof'', h]"

definition EventKey :: "string \<Rightarrow> string \<Rightarrow> string" where
  "EventKey namespace i = Build namespace [''event'', i]"

definition CertKey :: "string \<Rightarrow> string \<Rightarrow> string" where
  "CertKey namespace i = Build namespace [''cert'', i]"

definition TraceKey :: "string \<Rightarrow> string \<Rightarrow> string" where
  "TraceKey namespace i = Build namespace [''trace'', i]"

definition prefixKey :: "string \<Rightarrow> string \<Rightarrow> string" where
  "prefixKey keyPrefix key = (if keyPrefix = '''' then key else keyPrefix @ '':'' @ key)"

subsection \<open>The interface\<close>

text \<open>
  \<open>live c key now\<close> is the value a reader sees: \<open>get\<close> does not change what later readers see, \<open>set\<close>
  binds a key until its time to live has passed (for ever when it is not positive), and neither
  touches other keys.
\<close>

locale cache =
  fixes get :: "'c cache_get" and set :: "'c cache_set" and delete :: "'c \<Rightarrow> string \<Rightarrow> 'c"
    and live :: "'c \<Rightarrow> string \<Rightarrow> time \<Rightarrow> string option"
  assumes get_live: "live c key now = Some v \<Longrightarrow> fst (get c key now) = Ok v"
    and get_dead: "live c key now = None \<Longrightarrow> \<exists>e. fst (get c key now) = Err e"
    and get_keeps: "now \<le> now' \<Longrightarrow> live (snd (get c key now)) key' now' = live c key' now'"
    and set_live: "live (set c key v ttl now) key' now' =
      (if key' = key then if 0 < ttl \<and> now + ttl < now' then None else Some v else live c key' now')"
    and delete_live: "live (delete c key) key' now' = (if key' = key then None else live c key' now')"

definition mc_live :: "MemoryCache \<Rightarrow> string \<Rightarrow> time \<Rightarrow> string option" where
  "mc_live c key now = (case c key of None \<Rightarrow> None | Some item \<Rightarrow> if expired item now then None else Some (ci_value item))"

interpretation mem: cache mc_Get mc_Set mc_Delete mc_live
proof unfold_locales
  fix now now' :: time and c key key'
  assume "now \<le> now'"
  then show "mc_live (snd (mc_Get c key now)) key' now' = mc_live c key' now'"
    by (auto simp: mc_Get_def mc_live_def mc_Delete_def expired_def split: option.splits)
qed (auto simp: mc_Get_def mc_Set_def mc_Delete_def mc_live_def expired_def split: option.splits if_splits)

text \<open>The two-level cache over a cache with these laws.\<close>

context cache
begin

lemma tl_Get_cases:
  "fst (tl_Get get c key now) =
     (case mc_live (l1 c) key now of Some v \<Rightarrow> Ok v | None \<Rightarrow> fst (get (l2 c) key now))"
proof (cases "mc_live (l1 c) key now")
  case None
  then obtain e m where "mc_Get (l1 c) key now = (Err e, m)"
    using mem.get_dead [OF None] by (metis prod.collapse)
  with None show ?thesis by (auto simp: tl_Get_def split: prod.splits outcome.splits)
next
  case (Some v)
  then obtain m where "mc_Get (l1 c) key now = (Ok v, m)"
    using mem.get_live [OF Some] by (metis prod.collapse)
  with Some show ?thesis by (simp add: tl_Get_def)
qed

text \<open>A reader sees a value the cache was set to, until its time to live.\<close>

lemma tl_read_own_write:
  assumes "now \<le> now'" and "0 < ttl \<longrightarrow> now' \<le> now + ttl"
  shows "fst (tl_Get get (tl_Set set c key v ttl now) key now') = Ok v"
proof -
  let ?c = "tl_Set set c key v ttl now"
  have "live (l2 ?c) key now' = Some v" using assms by (auto simp: tl_Set_def set_live Let_def)
  then have "fst (get (l2 ?c) key now') = Ok v" by (rule get_live)
  moreover have "mc_live (l1 ?c) key now' \<in> {None, Some v}" by (simp add: tl_Set_def mem.set_live Let_def)
  ultimately show ?thesis by (auto simp: tl_Get_cases)
qed

text \<open>The value a miss of the first level loads stays there for \<open>l1TTL\<close>, whatever the second holds.\<close>

lemma tl_backfill_stale:
  assumes "mc_live (l1 c) key now = None" and "live (l2 c) key now = Some v"
    and "now \<le> now'" and "now' \<le> now + l1TTL c"
  shows "fst (tl_Get get (snd (tl_Get get c key now)) key now') = Ok v"
proof -
  obtain e m where m: "mc_Get (l1 c) key now = (Err e, m)"
    using mem.get_dead [OF assms(1)] by (metis prod.collapse)
  obtain c2 where c2: "get (l2 c) key now = (Ok v, c2)"
    using get_live [OF assms(2)] by (metis prod.collapse)
  have "snd (tl_Get get c key now) = c\<lparr>l1 := mc_Set m key v (l1TTL c) now, l2 := c2\<rparr>"
    using m c2 by (simp add: tl_Get_def)
  then have "mc_live (l1 (snd (tl_Get get c key now))) key now' = Some v"
    using assms(3,4) by (simp add: mem.set_live)
  then show ?thesis by (simp add: tl_Get_cases)
qed

lemma tl_deleted: "fst (tl_Get get (tl_Delete delete c key) key now) \<noteq> Ok v"
  using get_dead [of "delete (l2 c) key" key now]
  by (auto simp: tl_Get_cases tl_Delete_def mem.delete_live delete_live)

end

subsection \<open>Properties\<close>

text \<open>The memory cache. A value set is what \<open>Get\<close> returns until its time to live has passed and
  is gone after; without a positive time to live it stays. Other keys are not affected, \<open>Exists\<close>
  agrees with \<open>Get\<close>, and neither a read nor the periodic \<open>cleanup\<close> changes what later reads see.\<close>

theorem MemoryCache_semantics:
  assumes "now \<le> now'" and "now' \<le> later"
  shows "(fst (mc_Get (mc_Set c key v ttl now) key' now') = Ok w \<longleftrightarrow>
      (if key' = key then w = v \<and> (ttl \<le> 0 \<or> now' \<le> now + ttl) else fst (mc_Get c key' now') = Ok w))
    \<and> mc_Exists c key now = is_Ok (fst (mc_Get c key now))
    \<and> (fst (mc_Get (snd (mc_Get c key now')) key' later) = Ok w \<longleftrightarrow> fst (mc_Get c key' later) = Ok w)
    \<and> (fst (mc_Get (cleanup c now') key' later) = Ok w \<longleftrightarrow> fst (mc_Get c key' later) = Ok w)"
proof -
  have get: "fst (mc_Get c k t) = Ok w \<longleftrightarrow> mc_live c k t = Some w" for c k t
    using mem.get_live [of c k t] mem.get_dead [of c k t] by (cases "mc_live c k t") auto
  have "mc_live (cleanup c now') key' later = mc_live c key' later"
    using assms(2) by (auto simp: mc_live_def cleanup_def expired_def split: option.splits)
  moreover have "mc_Exists c key now = is_Ok (fst (mc_Get c key now))"
    by (auto simp: mc_Exists_def mc_Get_def split: option.splits)
  ultimately show ?thesis
    using assms(2) by (auto simp: get mem.set_live mem.get_keeps)
qed

theorem MemoryCache_semantics_witness:
  "fst (mc_Get (mc_Set NewMemoryCache ''k'' ''v'' 10 100) ''k'' 110) = Ok ''v''
   \<and> fst (mc_Get (mc_Set NewMemoryCache ''k'' ''v'' 10 100) ''k'' 111) \<noteq> Ok ''v''"
  using MemoryCache_semantics [of 100 110 110 NewMemoryCache "''k''" "''v''" 10 "''k''" "''v''"]
    MemoryCache_semantics [of 100 111 111 NewMemoryCache "''k''" "''v''" 10 "''k''" "''v''"] by simp

text \<open>The two-level cache. \<open>Get\<close> returns the value of the last \<open>Set\<close> until its time to live, and
  nothing after \<open>Delete\<close>. But a value that \<open>Get\<close> loads from the second level is kept in the first
  for the whole \<open>L1TTL\<close>: it is still returned after it has expired below.\<close>

theorem TwoLevelCache_semantics:
  fixes c :: "MemoryCache TwoLevelCache" and key v :: string
  assumes "now \<le> now'" and "0 < ttl" and "0 < l1TTL c"
  defines "cset \<equiv> tl_Set mc_Set c key v ttl now"
  shows "(now' \<le> now + ttl \<longrightarrow> fst (tl_Get mc_Get cset key now') = Ok v)
    \<and> fst (tl_Get mc_Get (tl_Delete mc_Delete c key) key now') \<noteq> Ok v
    \<and> (now + l1TTL c < now' \<and> now' \<le> now + ttl \<and> now + ttl < late \<and> late \<le> now' + l1TTL c \<longrightarrow>
         fst (tl_Get mc_Get (snd (tl_Get mc_Get cset key now')) key late) = Ok v
         \<and> mc_live (l2 cset) key late = None)"
proof (intro conjI impI)
  assume "now' \<le> now + ttl"
  then show "fst (tl_Get mc_Get cset key now') = Ok v"
    unfolding cset_def using assms(1) by (intro mem.tl_read_own_write) auto
next
  show "fst (tl_Get mc_Get (tl_Delete mc_Delete c key) key now') \<noteq> Ok v" by (rule mem.tl_deleted)
next
  assume t: "now + l1TTL c < now' \<and> now' \<le> now + ttl \<and> now + ttl < late \<and> late \<le> now' + l1TTL c"
  then have "mc_live (l1 cset) key now' = None" "mc_live (l2 cset) key now' = Some v" "l1TTL cset = l1TTL c"
    using assms(2,3) by (auto simp: cset_def tl_Set_def mem.set_live Let_def)
  then show "fst (tl_Get mc_Get (snd (tl_Get mc_Get cset key now')) key late) = Ok v"
    using t by (intro mem.tl_backfill_stale) auto
next
  assume "now + l1TTL c < now' \<and> now' \<le> now + ttl \<and> now + ttl < late \<and> late \<le> now' + l1TTL c"
  then show "mc_live (l2 cset) key late = None"
    using assms(2) by (auto simp: cset_def tl_Set_def mem.set_live Let_def)
qed

theorem TwoLevelCache_semantics_witness:
  "let c = tl_Set mc_Set (NewTwoLevelCache NewMemoryCache 60) ''k'' ''v'' 100 0
   in fst (tl_Get mc_Get (snd (tl_Get mc_Get c ''k'' 90)) ''k'' 140) = Ok ''v'' \<and> mc_live (l2 c) ''k'' 140 = None"
  using TwoLevelCache_semantics [of 0 90 100 "NewTwoLevelCache NewMemoryCache 60" "''k''" "''v''" 140]
  by (simp add: NewTwoLevelCache_def Let_def)

end
