(* ===== verification/Evidence.thy ===== *)
theory Evidence
  imports Prelude
begin

text \<open>
  Evidence levels and the automatic certificate strategy: \<open>server/internal/cert/evidence_level.go\<close> and
  \<open>auto_strategy.go\<close>.

  An \<open>EvidenceLevel\<close> is a Go string type, so it is a string here, with the three constants; \<open>ToLower\<close>
  and \<open>TrimSpace\<close> are the ASCII functions of the prelude. The evaluator reads its strategy under a
  lock, so \<open>Evaluate\<close> is a function of the strategy and the trace.
\<close>

subsection \<open>Levels\<close>

type_synonym EvidenceLevel = string

definition EvidenceLevelInternal :: EvidenceLevel where "EvidenceLevelInternal = ''internal''"
definition EvidenceLevelCompliance :: EvidenceLevel where "EvidenceLevelCompliance = ''compliance''"
definition EvidenceLevelLegal :: EvidenceLevel where "EvidenceLevelLegal = ''legal''"

lemmas level_defs = EvidenceLevelInternal_def EvidenceLevelCompliance_def EvidenceLevelLegal_def

record EvidenceLevelInfo =
  ei_Level :: EvidenceLevel
  ei_DisplayName :: string
  ei_Description :: string
  ei_Features :: "string list"
  ei_UseCases :: "string list"
  ei_LegacyCode :: string

definition AllEvidenceLevels :: "EvidenceLevelInfo list" where
  "AllEvidenceLevels =
     [\<lparr>ei_Level = EvidenceLevelInternal, ei_DisplayName = ''Internal Audit'',
       ei_Description = ''Basic digital signature for internal record-keeping'',
       ei_Features = [''Ed25519 digital signature'', ''Merkle tree verification'', ''Instant generation''],
       ei_UseCases = [''Development and testing'', ''Internal audit trails'', ''Team reviews''],
       ei_LegacyCode = ''L1''\<rparr>,
      \<lparr>ei_Level = EvidenceLevelCompliance, ei_DisplayName = ''Compliance Evidence'',
       ei_Description = ''Tamper-proof storage with trusted timestamp'',
       ei_Features = [''All Internal features'', ''WORM (Write-Once-Read-Many) storage'',
                      ''RFC 3161 trusted timestamp'', ''Immutable audit trail''],
       ei_UseCases = [''SOC2 compliance'', ''GDPR data processing records'', ''Financial regulations'',
                      ''Healthcare (HIPAA)''],
       ei_LegacyCode = ''L2''\<rparr>,
      \<lparr>ei_Level = EvidenceLevelLegal, ei_DisplayName = ''Legal Evidence'',
       ei_Description = ''Blockchain-anchored proof for legal proceedings'',
       ei_Features = [''All Compliance features'', ''Blockchain anchoring (Ethereum)'',
                      ''Public verifiability'', ''Non-repudiation''],
       ei_UseCases = [''Legal disputes'', ''Contract evidence'', ''Intellectual property'',
                      ''Regulatory investigations''],
       ei_LegacyCode = ''L3''\<rparr>]"

definition GetEvidenceLevelInfo :: "EvidenceLevel \<Rightarrow> EvidenceLevelInfo option" where
  "GetEvidenceLevelInfo level = List.find (\<lambda>info. ei_Level info = level) AllEvidenceLevels"

definition ParseEvidenceLevel :: "string \<Rightarrow> EvidenceLevel" where
  "ParseEvidenceLevel s =
     (let s = toLower (trimSpace s) in
      if s \<in> {''internal'', ''audit'', ''basic''} then EvidenceLevelInternal
      else if s \<in> {''compliance'', ''regulatory'', ''standard''} then EvidenceLevelCompliance
      else if s \<in> {''legal'', ''court'', ''blockchain''} then EvidenceLevelLegal
      else if s = ''l1'' then EvidenceLevelInternal
      else if s = ''l2'' then EvidenceLevelCompliance
      else if s = ''l3'' then EvidenceLevelLegal
      else EvidenceLevelInternal)"

definition LegacyCode :: "EvidenceLevel \<Rightarrow> string" where
  "LegacyCode e =
     (if e = EvidenceLevelInternal then ''L1''
      else if e = EvidenceLevelCompliance then ''L2''
      else if e = EvidenceLevelLegal then ''L3''
      else ''L1'')"

definition DisplayName :: "EvidenceLevel \<Rightarrow> string" where
  "DisplayName e =
     (if e = EvidenceLevelInternal then ''Internal Audit''
      else if e = EvidenceLevelCompliance then ''Compliance Evidence''
      else if e = EvidenceLevelLegal then ''Legal Evidence''
      else ''Internal Audit'')"

definition SuggestLevel :: "string \<Rightarrow> string \<Rightarrow> string \<Rightarrow> EvidenceLevel" where
  "SuggestLevel industry modelName contentType =
     (if toLower industry \<in> {''finance'', ''healthcare'', ''legal'', ''insurance'', ''government''}
      then EvidenceLevelCompliance
      else if toLower modelName \<in> {''gpt-4'', ''gpt-4-turbo'', ''claude-3-opus'', ''claude-3.5-sonnet''}
      then EvidenceLevelCompliance
      else EvidenceLevelInternal)"

subsection \<open>The automatic strategy\<close>

record AutoCertCondition =
  Models :: "string list"
  MinTokens :: int
  Patterns :: "string list"
  Industries :: "string list"

record AutoCertTrigger =
  tg_Type :: string
  tg_Condition :: AutoCertCondition
  tg_Level :: EvidenceLevel
  tg_Description :: string

record AutoCertSchedule =
  sc_Interval :: string
  sc_TimeOfDay :: string
  sc_DayOfWeek :: "int option"
  sc_MaxTraceAge :: string

record AutoCertStrategy =
  Enabled :: bool
  DefaultLevel :: EvidenceLevel
  Triggers :: "AutoCertTrigger list"
  Schedule :: "AutoCertSchedule option"

definition no_condition :: AutoCertCondition where
  "no_condition = \<lparr>Models = [], MinTokens = 0, Patterns = [], Industries = []\<rparr>"

definition DefaultStrategy :: AutoCertStrategy where
  "DefaultStrategy =
     \<lparr>Enabled = False, DefaultLevel = EvidenceLevelInternal,
      Triggers =
        [\<lparr>tg_Type = ''model'',
          tg_Condition = no_condition\<lparr>Models := [''gpt-4'', ''gpt-4-turbo'', ''gpt-4o'', ''claude-3-opus'',
            ''claude-3.5-sonnet'', ''deepseek-chat'']\<rparr>,
          tg_Level = EvidenceLevelCompliance,
          tg_Description = ''Auto-cert for high-capability models''\<rparr>,
         \<lparr>tg_Type = ''token_count'', tg_Condition = no_condition\<lparr>MinTokens := 2000\<rparr>,
          tg_Level = EvidenceLevelInternal, tg_Description = ''Auto-cert for large responses''\<rparr>],
      Schedule = Some \<lparr>sc_Interval = ''daily'', sc_TimeOfDay = ''02:00'', sc_DayOfWeek = None,
        sc_MaxTraceAge = ''24h''\<rparr>\<rparr>"

record TraceContext =
  tc_TraceID :: string
  tc_Model :: string
  tc_TokenCount :: int
  tc_Content :: string
  tc_Industry :: string
  tc_TenantID :: string
  tc_CreatedAt :: time

record EvaluationResult =
  ShouldCert :: bool
  er_Level :: EvidenceLevel
  TriggerReason :: string

definition NewAutoCertEvaluator :: "AutoCertStrategy option \<Rightarrow> AutoCertStrategy" where
  "NewAutoCertEvaluator strategy = (case strategy of None \<Rightarrow> DefaultStrategy | Some s \<Rightarrow> s)"

fun matchesModel :: "string \<Rightarrow> string list \<Rightarrow> bool" where
  "matchesModel model [] = False"
| "matchesModel model (pattern # ps) =
     (if containsStr (toLower model) (toLower pattern) then True else matchesModel model ps)"

text \<open>\<open>strings.EqualFold\<close> on ASCII compares the lower-case forms.\<close>

fun matchesIndustry :: "string \<Rightarrow> string list \<Rightarrow> bool" where
  "matchesIndustry industry [] = False"
| "matchesIndustry industry (ind # is) =
     (if toLower (toLower industry) = toLower ind then True else matchesIndustry industry is)"

fun matchesPattern :: "string \<Rightarrow> string list \<Rightarrow> bool" where
  "matchesPattern content [] = False"
| "matchesPattern content (pattern # ps) =
     (if containsStr (toLower content) (toLower pattern) then True else matchesPattern content ps)"

definition matchesTrigger :: "TraceContext \<Rightarrow> AutoCertTrigger \<Rightarrow> bool" where
  "matchesTrigger tc trigger =
     (if tg_Type trigger = ''model'' then matchesModel (tc_Model tc) (Models (tg_Condition trigger))
      else if tg_Type trigger = ''token_count'' then tc_TokenCount tc \<ge> MinTokens (tg_Condition trigger)
      else if tg_Type trigger = ''industry'' then matchesIndustry (tc_Industry tc) (Industries (tg_Condition trigger))
      else if tg_Type trigger = ''content_pattern'' then matchesPattern (tc_Content tc) (Patterns (tg_Condition trigger))
      else False)"

fun first_trigger :: "TraceContext \<Rightarrow> EvidenceLevel \<Rightarrow> AutoCertTrigger list \<Rightarrow> EvaluationResult" where
  "first_trigger tc def [] = \<lparr>ShouldCert = False, er_Level = '''', TriggerReason = ''''\<rparr>"
| "first_trigger tc def (trigger # ts) =
     (if matchesTrigger tc trigger
      then \<lparr>ShouldCert = True, er_Level = (if tg_Level trigger = '''' then def else tg_Level trigger),
            TriggerReason = tg_Description trigger\<rparr>
      else first_trigger tc def ts)"

definition Evaluate :: "AutoCertStrategy \<Rightarrow> TraceContext \<Rightarrow> EvaluationResult" where
  "Evaluate strategy tc =
     (if \<not> Enabled strategy then \<lparr>ShouldCert = False, er_Level = '''', TriggerReason = ''''\<rparr>
      else first_trigger tc (DefaultLevel strategy) (Triggers strategy))"

definition UpdateStrategy :: "AutoCertStrategy \<Rightarrow> AutoCertStrategy \<Rightarrow> AutoCertStrategy" where
  "UpdateStrategy e strategy = strategy"

definition GetStrategy :: "AutoCertStrategy \<Rightarrow> AutoCertStrategy" where
  "GetStrategy e = e"

definition ExampleStrategies :: "string \<rightharpoonup> AutoCertStrategy" where
  "ExampleStrategies =
     [''minimal'' \<mapsto>
        \<lparr>Enabled = True, DefaultLevel = EvidenceLevelInternal, Triggers = [],
         Schedule = Some \<lparr>sc_Interval = ''daily'', sc_TimeOfDay = ''03:00'', sc_DayOfWeek = None,
           sc_MaxTraceAge = ''24h''\<rparr>\<rparr>,
      ''compliance'' \<mapsto>
        \<lparr>Enabled = True, DefaultLevel = EvidenceLevelCompliance,
         Triggers = [\<lparr>tg_Type = ''model'', tg_Condition = no_condition\<lparr>Models := [''gpt-4'', ''claude-3'']\<rparr>,
           tg_Level = EvidenceLevelCompliance, tg_Description = ''All GPT-4 and Claude calls''\<rparr>],
         Schedule = Some \<lparr>sc_Interval = ''hourly'', sc_TimeOfDay = '''', sc_DayOfWeek = None,
           sc_MaxTraceAge = ''1h''\<rparr>\<rparr>,
      ''strict'' \<mapsto>
        \<lparr>Enabled = True, DefaultLevel = EvidenceLevelCompliance,
         Triggers =
           [\<lparr>tg_Type = ''model'',
             tg_Condition = no_condition\<lparr>Models := [''gpt'', ''claude'', ''llama'', ''deepseek'']\<rparr>,
             tg_Level = EvidenceLevelCompliance, tg_Description = ''All AI calls''\<rparr>,
            \<lparr>tg_Type = ''token_count'', tg_Condition = no_condition\<lparr>MinTokens := 1000\<rparr>,
             tg_Level = EvidenceLevelCompliance, tg_Description = ''Large responses''\<rparr>],
         Schedule = None\<rparr>]"

subsection \<open>Lemmas\<close>

lemma first_trigger_find:
  "first_trigger tc def ts = (case List.find (matchesTrigger tc) ts of
     None \<Rightarrow> \<lparr>ShouldCert = False, er_Level = '''', TriggerReason = ''''\<rparr>
   | Some t \<Rightarrow> \<lparr>ShouldCert = True, er_Level = (if tg_Level t = '''' then def else tg_Level t),
                TriggerReason = tg_Description t\<rparr>)"
  by (induction ts) auto

lemma matchesModel_iff: "matchesModel m ps \<longleftrightarrow> (\<exists>p \<in> set ps. \<exists>u v. toLower m = u @ toLower p @ v)"
  by (induction ps) (auto simp: containsStr_iff)

lemma matchesPattern_iff: "matchesPattern m ps \<longleftrightarrow> (\<exists>p \<in> set ps. \<exists>u v. toLower m = u @ toLower p @ v)"
  by (induction ps) (auto simp: containsStr_iff)

lemma matchesIndustry_iff: "matchesIndustry i is \<longleftrightarrow> (\<exists>x \<in> set is. toLower i = toLower x)"
  by (induction "is") auto

lemma isSpaceC_toLower: "isSpaceC (toLowerC c) = isSpaceC c"
proof -
  have "of_char (char_of (n + 32) :: char) = n + 32" if "n \<le> 90" for n :: nat
    using that by (simp add: of_char_of)
  then show ?thesis by (auto simp: toLowerC_def isSpaceC_def Let_def)
qed

lemma trimSpace_toLower: "trimSpace (toLower s) = toLower (trimSpace s)"
proof -
  have drop: "dropWhile isSpaceC (map toLowerC xs) = map toLowerC (dropWhile isSpaceC xs)" for xs
    by (induction xs) (auto simp: isSpaceC_toLower)
  show ?thesis by (simp add: trimSpace_def toLower_def drop rev_map)
qed

subsection \<open>Property\<close>

text \<open>Levels and triggers. \<open>ParseEvidenceLevel\<close> is total, ignores case, yields one of the three
  levels, and inverts both the level names and the legacy codes; \<open>GetEvidenceLevelInfo\<close> agrees with
  \<open>LegacyCode\<close> and \<open>DisplayName\<close>. \<open>Evaluate\<close> certifies exactly when the strategy is enabled and some
  trigger matches, with the level of the first one that does (the default level when it has none).
  A content pattern is a case-insensitive substring, and the documented type \<open>time_window\<close> never fires.\<close>

theorem levels_and_triggers:
  shows "ParseEvidenceLevel s \<in> {EvidenceLevelInternal, EvidenceLevelCompliance, EvidenceLevelLegal}
    \<and> ParseEvidenceLevel (toLower s) = ParseEvidenceLevel s
    \<and> (l \<in> {EvidenceLevelInternal, EvidenceLevelCompliance, EvidenceLevelLegal} \<longrightarrow>
         ParseEvidenceLevel l = l \<and> ParseEvidenceLevel (LegacyCode l) = l
         \<and> (\<exists>info. GetEvidenceLevelInfo l = Some info \<and> ei_LegacyCode info = LegacyCode l
              \<and> ei_DisplayName info = DisplayName l))
    \<and> Evaluate st tc = (case List.find (matchesTrigger tc) (if Enabled st then Triggers st else []) of
         None \<Rightarrow> \<lparr>ShouldCert = False, er_Level = '''', TriggerReason = ''''\<rparr>
       | Some t \<Rightarrow> \<lparr>ShouldCert = True, er_Level = (if tg_Level t = '''' then DefaultLevel st else tg_Level t),
                    TriggerReason = tg_Description t\<rparr>)
    \<and> (tg_Type t = ''content_pattern'' \<longrightarrow> matchesTrigger tc t =
         (\<exists>p \<in> set (Patterns (tg_Condition t)). \<exists>u v. toLower (tc_Content tc) = u @ toLower p @ v))
    \<and> (tg_Type t = ''time_window'' \<longrightarrow> \<not> matchesTrigger tc t)"
proof (intro conjI impI)
  show "ParseEvidenceLevel s \<in> {EvidenceLevelInternal, EvidenceLevelCompliance, EvidenceLevelLegal}"
    by (simp add: ParseEvidenceLevel_def Let_def)
  show "ParseEvidenceLevel (toLower s) = ParseEvidenceLevel s"
    by (simp add: ParseEvidenceLevel_def trimSpace_toLower)
next
  assume l: "l \<in> {EvidenceLevelInternal, EvidenceLevelCompliance, EvidenceLevelLegal}"
  have "ParseEvidenceLevel EvidenceLevelInternal = EvidenceLevelInternal"
    "ParseEvidenceLevel EvidenceLevelCompliance = EvidenceLevelCompliance"
    "ParseEvidenceLevel EvidenceLevelLegal = EvidenceLevelLegal"
    "ParseEvidenceLevel ''L1'' = EvidenceLevelInternal" "ParseEvidenceLevel ''L2'' = EvidenceLevelCompliance"
    "ParseEvidenceLevel ''L3'' = EvidenceLevelLegal"
    by code_simp+
  then show "ParseEvidenceLevel l = l" and "ParseEvidenceLevel (LegacyCode l) = l"
    using l by (auto simp: LegacyCode_def level_defs)
  show "\<exists>info. GetEvidenceLevelInfo l = Some info \<and> ei_LegacyCode info = LegacyCode l
      \<and> ei_DisplayName info = DisplayName l"
    using l by (auto simp: GetEvidenceLevelInfo_def AllEvidenceLevels_def LegacyCode_def DisplayName_def level_defs)
next
  show "Evaluate st tc = (case List.find (matchesTrigger tc) (if Enabled st then Triggers st else []) of
         None \<Rightarrow> \<lparr>ShouldCert = False, er_Level = '''', TriggerReason = ''''\<rparr>
       | Some t \<Rightarrow> \<lparr>ShouldCert = True, er_Level = (if tg_Level t = '''' then DefaultLevel st else tg_Level t),
                    TriggerReason = tg_Description t\<rparr>)"
    by (simp add: Evaluate_def first_trigger_find)
qed (simp_all add: matchesTrigger_def matchesPattern_iff)

theorem levels_and_triggers_witness:
  "ParseEvidenceLevel (toLower ''L2 '') = ParseEvidenceLevel ''L2 ''
   \<and> ParseEvidenceLevel (LegacyCode EvidenceLevelLegal) = EvidenceLevelLegal
   \<and> (\<forall>tc. \<not> matchesTrigger tc \<lparr>tg_Type = ''time_window'', tg_Condition = no_condition, tg_Level = '''', tg_Description = ''''\<rparr>)"
  using levels_and_triggers [where s = "''L2 ''" and l = EvidenceLevelLegal
      and t = "\<lparr>tg_Type = ''time_window'', tg_Condition = no_condition, tg_Level = '''', tg_Description = ''''\<rparr>"]
  by auto

end
