(* ===== verification/AesGcm.thy ===== *)
theory AesGcm
  imports Prelude
begin

text \<open>
  Authenticated encryption as the program gets it from \<open>crypto/aes\<close> and \<open>crypto/cipher\<close> of the Go
  standard library: the AES block cipher of FIPS 197 for keys of 16, 24 and 32 bytes, and the
  Galois/Counter mode of NIST SP 800-38D with a 12-byte nonce, a 16-byte tag and no additional data.
  \<open>gcm_seal\<close> and \<open>gcm_open\<close> are \<open>Seal(nil, nonce, plaintext, nil)\<close> and \<open>Open(nil, nonce, ciphertext, nil)\<close>.

  Opening what was sealed gives the plaintext back, for every key. Secrecy and unforgeability are not
  stated: they are assumptions on the cipher.
\<close>

type_synonym bytes = "8 word list"

subsection \<open>The block cipher\<close>

definition aes_sbox :: "8 word list" where
  "aes_sbox =
    [99, 124, 119, 123, 242, 107, 111, 197, 48, 1, 103, 43, 254, 215, 171, 118,
     202, 130, 201, 125, 250, 89, 71, 240, 173, 212, 162, 175, 156, 164, 114, 192,
     183, 253, 147, 38, 54, 63, 247, 204, 52, 165, 229, 241, 113, 216, 49, 21,
     4, 199, 35, 195, 24, 150, 5, 154, 7, 18, 128, 226, 235, 39, 178, 117,
     9, 131, 44, 26, 27, 110, 90, 160, 82, 59, 214, 179, 41, 227, 47, 132,
     83, 209, 0, 237, 32, 252, 177, 91, 106, 203, 190, 57, 74, 76, 88, 207,
     208, 239, 170, 251, 67, 77, 51, 133, 69, 249, 2, 127, 80, 60, 159, 168,
     81, 163, 64, 143, 146, 157, 56, 245, 188, 182, 218, 33, 16, 255, 243, 210,
     205, 12, 19, 236, 95, 151, 68, 23, 196, 167, 126, 61, 100, 93, 25, 115,
     96, 129, 79, 220, 34, 42, 144, 136, 70, 238, 184, 20, 222, 94, 11, 219,
     224, 50, 58, 10, 73, 6, 36, 92, 194, 211, 172, 98, 145, 149, 228, 121,
     231, 200, 55, 109, 141, 213, 78, 169, 108, 86, 244, 234, 101, 122, 174, 8,
     186, 120, 37, 46, 28, 166, 180, 198, 232, 221, 116, 31, 75, 189, 139, 138,
     112, 62, 181, 102, 72, 3, 246, 14, 97, 53, 87, 185, 134, 193, 29, 158,
     225, 248, 152, 17, 105, 217, 142, 148, 155, 30, 135, 233, 206, 85, 40, 223,
     140, 161, 137, 13, 191, 230, 66, 104, 65, 153, 45, 15, 176, 84, 187, 22]"

definition subByte :: "8 word \<Rightarrow> 8 word" where
  "subByte b = aes_sbox ! unat b"

definition xtime :: "8 word \<Rightarrow> 8 word" where
  "xtime b = push_bit 1 b XOR (if bit b 7 then 0x1b else 0)"

definition xor_bytes :: "bytes \<Rightarrow> bytes \<Rightarrow> bytes" where
  "xor_bytes xs ys = map2 (XOR) xs ys"

text \<open>A block and a round key are 16 bytes, a column of the state after the other.\<close>

definition shiftRows :: "bytes \<Rightarrow> bytes" where
  "shiftRows s = map (\<lambda>i. s ! ((i + 4 * (i mod 4)) mod 16)) [0..<16]"

fun mixColumn :: "bytes \<Rightarrow> bytes" where
  "mixColumn [a, b, c, d] =
     (let t = a XOR b XOR c XOR d in
      [a XOR t XOR xtime (a XOR b), b XOR t XOR xtime (b XOR c), c XOR t XOR xtime (c XOR d), d XOR t XOR xtime (d XOR a)])"
| "mixColumn xs = xs"

definition mixColumns :: "bytes \<Rightarrow> bytes" where
  "mixColumns s = concat (map (\<lambda>j. mixColumn (take 4 (drop (4 * j) s))) [0..<4])"

text \<open>
  Key expansion: words of four bytes, the key's first. \<open>nk\<close> is the length of the key in words, \<open>rcon\<close> the
  round constant of the next multiple of \<open>nk\<close>; the list is kept newest first.
\<close>

fun expand_words :: "nat \<Rightarrow> nat \<Rightarrow> nat \<Rightarrow> 8 word \<Rightarrow> bytes list \<Rightarrow> bytes list" where
  "expand_words 0 nk i rcon ws = ws"
| "expand_words (Suc n) nk i rcon ws =
     (let t = hd ws;
          t' = (if i mod nk = 0 then xor_bytes (map subByte (rotate1 t)) [rcon, 0, 0, 0]
                else if 6 < nk \<and> i mod nk = 4 then map subByte t else t)
      in expand_words n nk (Suc i) (if i mod nk = 0 then xtime rcon else rcon) (xor_bytes (ws ! (nk - 1)) t' # ws))"

fun chunks :: "nat \<Rightarrow> nat \<Rightarrow> 'a list \<Rightarrow> 'a list list" where
  "chunks 0 n xs = []"
| "chunks (Suc k) n xs = take n xs # chunks k n (drop n xs)"

definition aes_rounds :: "bytes \<Rightarrow> nat" where
  "aes_rounds key = length key div 4 + 6"

definition round_keys :: "bytes \<Rightarrow> bytes list" where
  "round_keys key =
     (let nk = length key div 4; r = aes_rounds key;
          ws = rev (expand_words (4 * (r + 1) - nk) nk nk 1 (rev (chunks nk 4 key)))
      in map concat (chunks (r + 1) 4 ws))"

fun aes_steps :: "bytes list \<Rightarrow> bytes \<Rightarrow> bytes" where
  "aes_steps [] s = s"
| "aes_steps [k] s = xor_bytes (shiftRows (map subByte s)) k"
| "aes_steps (k # k' # ks) s = aes_steps (k' # ks) (xor_bytes (mixColumns (shiftRows (map subByte s))) k)"

definition aes_encrypt :: "bytes \<Rightarrow> bytes \<Rightarrow> bytes" where
  "aes_encrypt key block =
     (let ks = round_keys key in aes_steps (tl ks) (xor_bytes block (hd ks)))"

text \<open>\<open>aes.NewCipher\<close> takes these key lengths only.\<close>

definition aes_key_ok :: "bytes \<Rightarrow> bool" where
  "aes_key_ok key \<longleftrightarrow> length key \<in> {16, 24, 32}"

subsection \<open>Galois/Counter mode\<close>

definition NonceSize :: nat where "NonceSize = 12"
definition TagSize :: nat where "TagSize = 16"

definition block_word :: "bytes \<Rightarrow> 128 word" where
  "block_word bs = foldl (\<lambda>w b. push_bit 8 w OR ucast b) 0 bs"

definition word_block :: "128 word \<Rightarrow> bytes" where
  "word_block w = map (\<lambda>i. ucast (drop_bit (120 - 8 * i) w)) [0..<16]"

text \<open>Multiplication in the field of GCM, whose first coefficient is the first bit of the block.\<close>

fun gf_loop :: "nat \<Rightarrow> 128 word \<Rightarrow> 128 word \<Rightarrow> 128 word \<Rightarrow> 128 word" where
  "gf_loop 0 x v z = z"
| "gf_loop (Suc n) x v z =
     gf_loop n x (if bit v 0 then drop_bit 1 v XOR push_bit 120 0xe1 else drop_bit 1 v)
       (if bit x n then z XOR v else z)"

definition gf_mult :: "128 word \<Rightarrow> 128 word \<Rightarrow> 128 word" where
  "gf_mult x y = gf_loop 128 x y 0"

definition pad16 :: "bytes \<Rightarrow> bytes" where
  "pad16 bs = bs @ replicate ((16 - length bs mod 16) mod 16) 0"

definition blocks16 :: "bytes \<Rightarrow> bytes list" where
  "blocks16 bs = chunks ((length bs + 15) div 16) 16 bs"

definition ghash :: "128 word \<Rightarrow> bytes list \<Rightarrow> 128 word" where
  "ghash h xs = foldl (\<lambda>y x. gf_mult (y XOR block_word x) h) 0 xs"

definition counter_block :: "bytes \<Rightarrow> nat \<Rightarrow> bytes" where
  "counter_block nonce n = nonce @ map (\<lambda>i. word_of_nat (n div 256 ^ (3 - i))) [0..<4]"

text \<open>The key stream of a text of \<open>n\<close> bytes starts at the counter 2; the counter 1 is for the tag.\<close>

definition key_stream :: "bytes \<Rightarrow> bytes \<Rightarrow> nat \<Rightarrow> bytes" where
  "key_stream key nonce n =
     take n (concat (map (\<lambda>i. aes_encrypt key (counter_block nonce (i + 2))) [0..<(n + 15) div 16]))"

definition gcm_tag :: "bytes \<Rightarrow> bytes \<Rightarrow> bytes \<Rightarrow> bytes" where
  "gcm_tag key nonce c =
     xor_bytes
       (word_block (ghash (block_word (aes_encrypt key (replicate 16 0)))
          (blocks16 (pad16 c) @ [replicate 8 0 @ map (\<lambda>i. word_of_nat (8 * length c div 256 ^ (7 - i))) [0..<8]])))
       (aes_encrypt key (counter_block nonce 1))"

definition gcm_crypt :: "bytes \<Rightarrow> bytes \<Rightarrow> bytes \<Rightarrow> bytes" where
  "gcm_crypt key nonce text = xor_bytes text (key_stream key nonce (length text))"

definition gcm_seal :: "bytes \<Rightarrow> bytes \<Rightarrow> bytes \<Rightarrow> bytes" where
  "gcm_seal key nonce plaintext =
     (let c = gcm_crypt key nonce plaintext in c @ gcm_tag key nonce c)"

definition gcm_open :: "bytes \<Rightarrow> bytes \<Rightarrow> bytes \<Rightarrow> bytes option" where
  "gcm_open key nonce ciphertext =
     (if length ciphertext < TagSize then None
      else let n = length ciphertext - TagSize; c = take n ciphertext in
           if drop n ciphertext = gcm_tag key nonce c then Some (gcm_crypt key nonce c) else None)"

subsection \<open>Lengths\<close>

lemma length_xor_bytes [simp]: "length (xor_bytes xs ys) = min (length xs) (length ys)"
  by (simp add: xor_bytes_def)

lemma xor_bytes_twice: "length xs \<le> length ys \<Longrightarrow> xor_bytes (xor_bytes xs ys) ys = xs"
  by (intro nth_equalityI) (simp_all add: xor_bytes_def xor.assoc)

lemma length_chunks [simp]: "length (chunks k n xs) = k"
  by (induction k arbitrary: xs) auto

lemma chunks_lengths: "k * n \<le> length xs \<Longrightarrow> c \<in> set (chunks k n xs) \<Longrightarrow> length c = n"
proof (induction k arbitrary: xs)
  case (Suc k)
  then have "k * n \<le> length (drop n xs)" "n \<le> length xs" by simp_all
  with Suc.IH [of "drop n xs"] Suc.prems(2) show ?case by auto
qed simp

lemma set_chunks: "c \<in> set (chunks k n xs) \<Longrightarrow> set c \<subseteq> set xs"
proof (induction k arbitrary: xs)
  case (Suc k)
  then show ?case using set_take_subset [of n xs] set_drop_subset [of n xs] by fastforce
qed simp

lemma length_expand_words: "length (expand_words n nk i rcon ws) = length ws + n"
  by (induction n nk i rcon ws rule: expand_words.induct) (simp_all add: Let_def)

lemma expand_words_words:
  assumes "0 < nk" and "nk \<le> length ws" and "\<forall>w \<in> set ws. length w = 4"
  shows "\<forall>w \<in> set (expand_words n nk i rcon ws). length w = 4"
  using assms
proof (induction n nk i rcon ws rule: expand_words.induct)
  case (2 n nk i rcon ws)
  let ?t = "if i mod nk = 0 then xor_bytes (map subByte (rotate1 (hd ws))) [rcon, 0, 0, 0]
    else if 6 < nk \<and> i mod nk = 4 then map subByte (hd ws) else hd ws"
  have "ws \<noteq> []" "nk - 1 < length ws" using "2.prems"(1,2) by auto
  then have "hd ws \<in> set ws" "ws ! (nk - 1) \<in> set ws" by simp_all
  then have "length (hd ws) = 4" "length (ws ! (nk - 1)) = 4" using "2.prems"(3) by blast+
  then have "length (xor_bytes (ws ! (nk - 1)) ?t) = 4" by simp
  then have "\<forall>w \<in> set (xor_bytes (ws ! (nk - 1)) ?t # ws). length w = 4" using "2.prems"(3) by simp
  moreover have "nk \<le> length (xor_bytes (ws ! (nk - 1)) ?t # ws)" using "2.prems"(2) by simp
  ultimately show ?case unfolding expand_words.simps Let_def by (intro "2.IH" [OF refl refl "2.prems"(1)])
qed simp

lemma length_concat_words: "\<forall>w \<in> set ws. length w = m \<Longrightarrow> length (concat ws) = m * length ws"
  by (induction ws) auto

lemma chunk_blocks:
  assumes "\<forall>w \<in> set ws. length w = 4" and "length ws = n * 4" and "k \<in> set (map concat (chunks n 4 ws))"
  shows "length k = 16"
proof -
  obtain c where c: "c \<in> set (chunks n 4 ws)" "k = concat c" using assms(3) by auto
  have "length c = 4" using chunks_lengths [of n 4 ws c] assms(2) c(1) by simp
  moreover have "\<forall>w \<in> set c. length w = 4" using set_chunks [OF c(1)] assms(1) by blast
  ultimately have "length (concat c) = 4 * 4" by (metis length_concat_words)
  then show ?thesis by (simp add: c(2))
qed

lemma round_keys_blocks:
  assumes "aes_key_ok key"
  shows "round_keys key \<noteq> []" and "k \<in> set (round_keys key) \<Longrightarrow> length k = 16"
proof -
  define nk r where "nk = length key div 4" and "r = aes_rounds key + 1"
  have len: "nk * 4 \<le> length key" "0 < nk" "nk \<le> 4 * r" "0 < r"
    using assms by (auto simp: aes_key_ok_def aes_rounds_def nk_def r_def)
  define ws where "ws = rev (expand_words (4 * r - nk) nk nk 1 (rev (chunks nk 4 key)))"
  have "\<forall>w \<in> set (rev (chunks nk 4 key)). length w = 4" using chunks_lengths [OF len(1)] by simp
  moreover have "nk \<le> length (rev (chunks nk 4 key))" by simp
  ultimately have "\<forall>w \<in> set (expand_words (4 * r - nk) nk nk 1 (rev (chunks nk 4 key))). length w = 4"
    using expand_words_words [OF len(2)] by blast
  then have words: "\<forall>w \<in> set ws. length w = 4" by (simp add: ws_def)
  have count: "length ws = r * 4" using len(3) by (simp add: ws_def length_expand_words)
  have keys: "round_keys key = map concat (chunks r 4 ws)"
    by (simp add: round_keys_def Let_def nk_def r_def ws_def)
  show "round_keys key \<noteq> []" using len(4) unfolding keys by (cases r) simp_all
  show "k \<in> set (round_keys key) \<Longrightarrow> length k = 16" unfolding keys by (rule chunk_blocks [OF words count])
qed

lemma length_mixColumn: "length c = 4 \<Longrightarrow> length (mixColumn c) = 4"
  by (cases c rule: mixColumn.cases) (simp_all add: Let_def)

lemma length_mixColumns: "length s = 16 \<Longrightarrow> length (mixColumns s) = 16"
  by (simp add: mixColumns_def upt_rec length_mixColumn)

lemma length_aes_steps: "\<forall>k \<in> set ks. length k = 16 \<Longrightarrow> length s = 16 \<Longrightarrow> length (aes_steps ks s) = 16"
  by (induction ks s rule: aes_steps.induct) (simp_all add: shiftRows_def length_mixColumns)

lemma length_aes_encrypt: "aes_key_ok key \<Longrightarrow> length block = 16 \<Longrightarrow> length (aes_encrypt key block) = 16"
  using round_keys_blocks [of key] unfolding aes_encrypt_def Let_def
  by (cases "round_keys key") (auto intro!: length_aes_steps)

subsection \<open>Opening what was sealed\<close>

lemma length_counter_block: "length nonce = NonceSize \<Longrightarrow> length (counter_block nonce n) = 16"
  by (simp add: counter_block_def NonceSize_def)

lemma length_key_stream:
  assumes "aes_key_ok key" and "length nonce = NonceSize"
  shows "length (key_stream key nonce n) = n"
proof -
  let ?bs = "map (\<lambda>i. aes_encrypt key (counter_block nonce (i + 2))) [0..<(n + 15) div 16]"
  have "\<forall>b \<in> set ?bs. length b = 16" using assms by (auto simp: length_aes_encrypt length_counter_block)
  then have "length (concat ?bs) = 16 * length ?bs" by (rule length_concat_words)
  then have "length (concat ?bs) = 16 * ((n + 15) div 16)" by (simp only: length_map length_upt diff_zero)
  moreover have "n \<le> 16 * ((n + 15) div 16)" by presburger
  ultimately show ?thesis by (simp add: key_stream_def)
qed

lemma length_gcm_crypt: "aes_key_ok key \<Longrightarrow> length nonce = NonceSize \<Longrightarrow> length (gcm_crypt key nonce t) = length t"
  by (simp add: gcm_crypt_def length_key_stream)

lemma length_gcm_tag: "aes_key_ok key \<Longrightarrow> length nonce = NonceSize \<Longrightarrow> length (gcm_tag key nonce c) = TagSize"
  by (simp add: gcm_tag_def length_aes_encrypt length_counter_block word_block_def TagSize_def)

lemma length_gcm_seal:
  "aes_key_ok key \<Longrightarrow> length nonce = NonceSize \<Longrightarrow> length (gcm_seal key nonce p) = length p + TagSize"
  by (simp add: gcm_seal_def Let_def length_gcm_crypt length_gcm_tag)

lemma gcm_open_seal: "aes_key_ok key \<Longrightarrow> length nonce = NonceSize \<Longrightarrow> gcm_open key nonce (gcm_seal key nonce p) = Some p"
  by (simp add: gcm_open_def gcm_seal_def Let_def length_gcm_crypt length_gcm_tag length_key_stream
      gcm_crypt_def xor_bytes_twice)

lemma gcm_open_SomeD:
  assumes "gcm_open key nonce c = Some p" and "aes_key_ok key" and "length nonce = NonceSize"
  shows "c = gcm_seal key nonce p"
proof -
  let ?n = "length c - TagSize"
  have c: "\<not> length c < TagSize" "drop ?n c = gcm_tag key nonce (take ?n c)" "p = gcm_crypt key nonce (take ?n c)"
    using assms(1) by (auto simp: gcm_open_def Let_def split: if_splits)
  have "gcm_crypt key nonce p = take ?n c"
    using assms(2,3) by (simp add: c(3) gcm_crypt_def length_key_stream xor_bytes_twice)
  then show ?thesis using c(2) append_take_drop_id [of ?n c] by (simp add: gcm_seal_def Let_def)
qed

end
