(* ===== verification/Encoding.thy ===== *)
theory Encoding
  imports Prelude
begin

text \<open>
  The text encodings of bytes the program uses: \<open>hex.DecodeString\<close> (both letter cases, an odd length is
  an error) and \<open>base64.StdEncoding\<close> (padded, carriage returns and newlines ignored when decoding).
  Each decoder inverts its encoder.
\<close>

named_theorems roundtrips "decoders on the output of their encoders"

subsection \<open>Hexadecimal\<close>

definition hex_val :: "char \<Rightarrow> nat option" where
  "hex_val c = (let n = of_char c :: nat in
     if 48 \<le> n \<and> n \<le> 57 then Some (n - 48)
     else if 97 \<le> n \<and> n \<le> 102 then Some (n - 87)
     else if 65 \<le> n \<and> n \<le> 70 then Some (n - 55) else None)"

fun hex_decode :: "string \<Rightarrow> 8 word list option" where
  "hex_decode [] = Some []"
| "hex_decode [c] = None"
| "hex_decode (c # d # s) =
     (case (hex_val c, hex_val d) of
        (Some h, Some l) \<Rightarrow> map_option (\<lambda>bs. word_of_nat (16 * h + l) # bs) (hex_decode s)
      | _ \<Rightarrow> None)"

lemma unat_byte: "unat (b :: 8 word) < 256"
  using unsigned_less [of b] by simp

lemma hex_val_digit: "n < 16 \<Longrightarrow> hex_val (hex_digit n) = Some n"
proof -
  have "\<forall>n \<in> set [0..<16]. hex_val (hex_digit n) = Some n" by code_simp
  then show "n < 16 \<Longrightarrow> hex_val (hex_digit n) = Some n" by simp
qed

lemma hex_roundtrip [roundtrips]: "hex_decode (hex_encode bs) = Some bs"
proof (induction bs)
  case Nil
  show ?case by (simp add: hex_encode_def)
next
  case (Cons b bs)
  have "unat b < 256" by (rule unat_byte)
  then have "unat b div 16 < 16" "unat b mod 16 < 16" by auto
  then have "hex_val (hex_digit (unat b div 16)) = Some (unat b div 16)"
    "hex_val (hex_digit (unat b mod 16)) = Some (unat b mod 16)" by (simp_all only: hex_val_digit)
  moreover have "16 * (unat b div 16) + unat b mod 16 = unat b" by simp
  ultimately show ?case using Cons.IH by (simp add: hex_encode_def hex_byte_def)
qed

lemma length_hex_decode: "hex_decode s = Some bs \<Longrightarrow> length s = 2 * length bs"
  by (induction s arbitrary: bs rule: hex_decode.induct) (auto split: option.splits)

subsection \<open>Base64\<close>

definition b64_alphabet :: string where
  "b64_alphabet = ''ABCDEFGHIJKLMNOPQRSTUVWXYZabcdefghijklmnopqrstuvwxyz0123456789+/''"

definition b64_char :: "nat \<Rightarrow> char" where
  "b64_char n = b64_alphabet ! (n mod 64)"

definition b64_val :: "char \<Rightarrow> nat option" where
  "b64_val c = (let n = length (takeWhile (\<lambda>x. x \<noteq> c) b64_alphabet) in if n < 64 then Some n else None)"

fun b64_encode :: "8 word list \<Rightarrow> string" where
  "b64_encode [] = ''''"
| "b64_encode [a] = [b64_char (unat a div 4), b64_char (unat a mod 4 * 16), CHR ''='', CHR ''='']"
| "b64_encode [a, b] =
     [b64_char (unat a div 4), b64_char (unat a mod 4 * 16 + unat b div 16), b64_char (unat b mod 16 * 4), CHR ''='']"
| "b64_encode (a # b # c # bs) =
     [b64_char (unat a div 4), b64_char (unat a mod 4 * 16 + unat b div 16),
      b64_char (unat b mod 16 * 4 + unat c div 64), b64_char (unat c mod 64)] @ b64_encode bs"

fun b64_quads :: "string \<Rightarrow> 8 word list option" where
  "b64_quads [] = Some []"
| "b64_quads (c1 # c2 # c3 # c4 # s) =
     (case (b64_val c1, b64_val c2) of
        (Some x, Some y) \<Rightarrow>
          let b1 = word_of_nat (x * 4 + y div 16) in
          if c3 = CHR ''='' \<and> c4 = CHR ''='' then (if s = [] then Some [b1] else None)
          else (case b64_val c3 of
              None \<Rightarrow> None
            | Some z \<Rightarrow>
                let b2 = word_of_nat (y mod 16 * 16 + z div 4) in
                if c4 = CHR ''='' then (if s = [] then Some [b1, b2] else None)
                else (case b64_val c4 of
                    None \<Rightarrow> None
                  | Some u \<Rightarrow> map_option (\<lambda>bs. b1 # b2 # word_of_nat (z mod 4 * 64 + u) # bs) (b64_quads s)))
      | _ \<Rightarrow> None)"
| "b64_quads s = None"

definition b64_decode :: "string \<Rightarrow> 8 word list option" where
  "b64_decode s = b64_quads (filter (\<lambda>c. c \<noteq> CHR 0x0A \<and> c \<noteq> CHR 0x0D) s)"

lemma b64_encode_nonempty: "bs \<noteq> [] \<Longrightarrow> b64_encode bs \<noteq> ''''"
  by (induction bs rule: b64_encode.induct) auto

lemma b64_val_char: "n < 64 \<Longrightarrow> b64_val (b64_char n) = Some n"
proof -
  have "\<forall>n \<in> set [0..<64]. b64_val (b64_char n) = Some n" by code_simp
  then show "n < 64 \<Longrightarrow> b64_val (b64_char n) = Some n" by simp
qed

lemma b64_char_plain: "b64_char n \<noteq> CHR ''='' \<and> b64_char n \<noteq> CHR 0x0A \<and> b64_char n \<noteq> CHR 0x0D"
proof -
  have "\<forall>n \<in> set [0..<64]. b64_char n \<noteq> CHR ''='' \<and> b64_char n \<noteq> CHR 0x0A \<and> b64_char n \<noteq> CHR 0x0D" by code_simp
  moreover have "b64_char n = b64_char (n mod 64)" by (simp add: b64_char_def)
  ultimately show ?thesis by simp
qed

text \<open>The three bytes of a quad are put together again.\<close>

lemma quad_bytes:
  fixes a b c :: nat
  assumes "a < 256" and "b < 256" and "c < 256"
  shows "a div 4 < 64" "a mod 4 * 16 + b div 16 < 64" "b mod 16 * 4 + c div 64 < 64" "c mod 64 < 64"
    and "a div 4 * 4 + (a mod 4 * 16 + b div 16) div 16 = a"
    and "(a mod 4 * 16 + b div 16) mod 16 * 16 + (b mod 16 * 4 + c div 64) div 4 = b"
    and "(b mod 16 * 4 + c div 64) mod 4 * 64 + c mod 64 = c"
proof -
  have b: "b div 16 < 16" and c: "c div 64 < 4" using assms by auto
  show "a div 4 < 64" "c mod 64 < 64" using assms by auto
  have "a mod 4 < 4" "b mod 16 < 16" by simp_all
  then show "a mod 4 * 16 + b div 16 < 64" "b mod 16 * 4 + c div 64 < 64" using b c by linarith+
  show "a div 4 * 4 + (a mod 4 * 16 + b div 16) div 16 = a" using b by simp
  have "(a mod 4 * 16 + b div 16) mod 16 = b div 16" "(b mod 16 * 4 + c div 64) div 4 = b mod 16"
    "(b mod 16 * 4 + c div 64) mod 4 = c div 64" using b c by simp_all
  then show "(a mod 4 * 16 + b div 16) mod 16 * 16 + (b mod 16 * 4 + c div 64) div 4 = b"
    "(b mod 16 * 4 + c div 64) mod 4 * 64 + c mod 64 = c" by simp_all
qed

lemma b64_quads_encode: "b64_quads (b64_encode bs) = Some bs"
proof (induction bs rule: b64_encode.induct)
  case (2 a)
  show ?case using quad_bytes(1,2,5) [of "unat a" 0 0] unat_byte [of a]
    by (simp add: b64_val_char)
next
  case (3 a b)
  show ?case using quad_bytes(1,2,3,5,6) [of "unat a" "unat b" 0] unat_byte [of a] unat_byte [of b]
    by (simp add: b64_val_char b64_char_plain)
next
  case (4 a b c bs)
  show ?case using quad_bytes [of "unat a" "unat b" "unat c"] unat_byte [of a] unat_byte [of b] unat_byte [of c] "4.IH"
    by (simp add: b64_val_char b64_char_plain)
qed simp

lemma b64_roundtrip [roundtrips]: "b64_decode (b64_encode bs) = Some bs"
proof -
  have "filter (\<lambda>c. c \<noteq> CHR 0x0A \<and> c \<noteq> CHR 0x0D) (b64_encode bs) = b64_encode bs"
    by (induction bs rule: b64_encode.induct) (simp_all add: b64_char_plain)
  then show ?thesis by (simp add: b64_decode_def b64_quads_encode)
qed

subsection \<open>Decimal numbers\<close>

text \<open>\<open>strconv.Atoi\<close>: an optional sign, at least one digit, and a value in the range of \<open>int\<close>.\<close>

definition isDigit :: "char \<Rightarrow> bool" where
  "isDigit c \<longleftrightarrow> 48 \<le> (of_char c :: nat) \<and> (of_char c :: nat) \<le> 57"

definition digits_value :: "string \<Rightarrow> nat" where
  "digits_value = foldl (\<lambda>n c. 10 * n + (of_char c - 48)) 0"

definition atoi :: "string \<Rightarrow> int option" where
  "atoi s =
     (let neg = (take 1 s = ''-'');
          ds = (if take 1 s = ''-'' \<or> take 1 s = ''+'' then drop 1 s else s)
      in if ds = '''' \<or> \<not> list_all isDigit ds then None
         else let v = (if neg then - int (digits_value ds) else int (digits_value ds))
              in if - (2 ^ 63) \<le> v \<and> v < 2 ^ 63 then Some v else None)"

lemma itoa_nat_digits: "list_all isDigit (itoa_nat n) \<and> digits_value (itoa_nat n) = n"
proof (induction n rule: itoa_nat.induct)
  case (1 n)
  have digit: "of_char (char_of (48 + k) :: char) = 48 + k" if "k < 10" for k :: nat
    using that by (simp add: of_char_of)
  show ?case
  proof (cases "n < 10")
    case True
    then show ?thesis by (subst (1 2) itoa_nat.simps) (simp add: isDigit_def digits_value_def digit)
  next
    case False
    with 1 have "list_all isDigit (itoa_nat (n div 10))" "digits_value (itoa_nat (n div 10)) = n div 10" by auto
    with False show ?thesis
      by (subst (1 2) itoa_nat.simps) (simp add: isDigit_def digits_value_def digit)
  qed
qed

lemma itoa_nat_sign: "take 1 (itoa_nat n) \<noteq> ''-'' \<and> take 1 (itoa_nat n) \<noteq> ''+''"
proof -
  have "list_all isDigit (take 1 (itoa_nat n))"
    using itoa_nat_digits [of n] by (auto simp: list_all_iff dest: in_set_takeD)
  then show ?thesis by (auto simp: isDigit_def)
qed

lemma atoi_roundtrip [roundtrips]: "- (2 ^ 63) \<le> i \<Longrightarrow> i < 2 ^ 63 \<Longrightarrow> atoi (itoa i) = Some i"
  using itoa_nat_digits [of "nat i"] itoa_nat_digits [of "nat (- i)"] itoa_nat_sign [of "nat i"]
  by (cases "i < 0") (simp_all add: atoi_def itoa_def Let_def)

end
