(* ===== verification/Crypto.thy ===== *)
theory Crypto
  imports AesGcm Encoding Sha256
begin

text \<open>
  Content encryption: \<open>server/internal/crypto/crypto.go\<close>.

  Randomness is an argument: \<open>rand\<close> is what \<open>io.ReadFull(rand.Reader, \<dots>)\<close> put into the buffer, or
  \<open>None\<close> when it failed. The cipher itself is computed (theory AesGcm). An error that wraps another keeps
  only the text it adds.
\<close>

datatype crypto_error = ErrInvalidKey | ErrInvalidCiphertext | ErrDecryptionFailed
  | CipherFailed | NonceFailed | KeyFailed | CiphertextNotBase64 | NonceNotBase64 | KeyNotHex

record AES256GCM =
  gcm_key :: bytes

definition NewAES256GCM :: "bytes \<Rightarrow> (crypto_error, AES256GCM) outcome" where
  "NewAES256GCM key = (if length key \<noteq> 32 then Err ErrInvalidKey else Ok \<lparr>gcm_key = key\<rparr>)"

definition NewAES256GCMFromString :: "string \<Rightarrow> (crypto_error, AES256GCM) outcome" where
  "NewAES256GCMFromString keyStr = NewAES256GCM (sha256_sum (bytes_of keyStr))"

text \<open>\<open>aes.NewCipher\<close> fails for a key of another length; \<open>cipher.NewGCM\<close> does not fail for AES.\<close>

definition Encrypt :: "AES256GCM \<Rightarrow> bytes option \<Rightarrow> bytes \<Rightarrow> (crypto_error, bytes \<times> bytes) outcome" where
  "Encrypt e rand plaintext =
     (if \<not> aes_key_ok (gcm_key e) then Err CipherFailed
      else case rand of
          None \<Rightarrow> Err NonceFailed
        | Some nonce \<Rightarrow> Ok (gcm_seal (gcm_key e) nonce plaintext, nonce))"

definition Decrypt :: "AES256GCM \<Rightarrow> bytes \<Rightarrow> bytes \<Rightarrow> (crypto_error, bytes) outcome" where
  "Decrypt e ciphertext nonce =
     (if \<not> aes_key_ok (gcm_key e) then Err CipherFailed
      else if length nonce \<noteq> NonceSize then Err ErrInvalidCiphertext
      else case gcm_open (gcm_key e) nonce ciphertext of
          None \<Rightarrow> Err ErrDecryptionFailed
        | Some plaintext \<Rightarrow> Ok plaintext)"

definition EncryptToBase64 :: "AES256GCM \<Rightarrow> bytes option \<Rightarrow> bytes \<Rightarrow> (crypto_error, string \<times> string) outcome" where
  "EncryptToBase64 e rand plaintext =
     bind_outcome (Encrypt e rand plaintext) (\<lambda>(ciphertext, nonce). Ok (b64_encode ciphertext, b64_encode nonce))"

definition DecryptFromBase64 :: "AES256GCM \<Rightarrow> string \<Rightarrow> string \<Rightarrow> (crypto_error, bytes) outcome" where
  "DecryptFromBase64 e ciphertextB64 nonceB64 =
     (case b64_decode ciphertextB64 of
        None \<Rightarrow> Err CiphertextNotBase64
      | Some ciphertext \<Rightarrow>
          (case b64_decode nonceB64 of
             None \<Rightarrow> Err NonceNotBase64
           | Some nonce \<Rightarrow> Decrypt e ciphertext nonce))"

definition GenerateKey :: "bytes option \<Rightarrow> (crypto_error, bytes) outcome" where
  "GenerateKey rand = (case rand of None \<Rightarrow> Err KeyFailed | Some key \<Rightarrow> Ok key)"

definition GenerateKeyHex :: "bytes option \<Rightarrow> (crypto_error, string) outcome" where
  "GenerateKeyHex rand = bind_outcome (GenerateKey rand) (\<lambda>key. Ok (hex_encode key))"

definition KeyFromHex :: "string \<Rightarrow> (crypto_error, bytes) outcome" where
  "KeyFromHex hexKey =
     (case hex_decode hexKey of
        None \<Rightarrow> Err KeyNotHex
      | Some key \<Rightarrow> if length key \<noteq> 32 then Err ErrInvalidKey else Ok key)"

definition DeriveKey :: "bytes \<Rightarrow> string \<Rightarrow> bytes" where
  "DeriveKey masterKey context = sha256_sum (masterKey @ bytes_of context)"

subsection \<open>Keys\<close>

lemma NewAES256GCM_Ok_iff: "NewAES256GCM key = Ok e \<longleftrightarrow> length key = 32 \<and> e = \<lparr>gcm_key = key\<rparr>"
  by (auto simp: NewAES256GCM_def)

text \<open>A key made from a string always has the right length, the empty string's too.\<close>

lemma NewAES256GCMFromString_Ok: "NewAES256GCMFromString s = Ok \<lparr>gcm_key = sha256_sum (bytes_of s)\<rparr>"
  by (simp add: NewAES256GCMFromString_def NewAES256GCM_def)

lemma KeyFromHex_GenerateKeyHex: "length key = 32 \<Longrightarrow> GenerateKeyHex (Some key) = Ok h \<Longrightarrow> KeyFromHex h = Ok key"
  by (auto simp: GenerateKeyHex_def GenerateKey_def KeyFromHex_def hex_roundtrip)

lemma aes_key_ok_32: "length key = 32 \<Longrightarrow> aes_key_ok key"
  by (simp add: aes_key_ok_def)

subsection \<open>Decryption inverts encryption\<close>

text \<open>
  The interface \<open>Encryptor\<close>: encryption with a nonce of the right length succeeds, and decryption inverts
  it exactly. \<open>valid\<close> says what a constructor guarantees.
\<close>

locale encryption =
  fixes valid :: "'e \<Rightarrow> bool"
    and encrypt :: "'e \<Rightarrow> bytes option \<Rightarrow> bytes \<Rightarrow> (crypto_error, bytes \<times> bytes) outcome"
    and decrypt :: "'e \<Rightarrow> bytes \<Rightarrow> bytes \<Rightarrow> (crypto_error, bytes) outcome"
  assumes encrypt_ok: "valid e \<Longrightarrow> \<exists>c. encrypt e (Some n) p = Ok (c, n)"
    and decrypt_encrypt: "valid e \<Longrightarrow> length n = NonceSize \<Longrightarrow> encrypt e (Some n) p = Ok (c, n) \<Longrightarrow> decrypt e c n = Ok p"
    and encrypt_decrypt: "valid e \<Longrightarrow> decrypt e c n = Ok p \<Longrightarrow> length n = NonceSize \<and> encrypt e (Some n) p = Ok (c, n)"
begin

text \<open>What decrypts is exactly what encryption with that nonce produces.\<close>

lemma decrypt_Ok_iff: "valid e \<Longrightarrow> decrypt e c n = Ok p \<longleftrightarrow> length n = NonceSize \<and> encrypt e (Some n) p = Ok (c, n)"
  using decrypt_encrypt encrypt_decrypt by blast

lemma encrypt_inj:
  assumes "valid e" and "length n = NonceSize" and "encrypt e (Some n) p = Ok (c, n)" and "encrypt e (Some n) q = Ok (c, n)"
  shows "p = q"
  using decrypt_encrypt [OF assms(1,2,3)] decrypt_encrypt [OF assms(1,2,4)] by simp

end

lemma Encrypt_total:
  "length (gcm_key e) = 32 \<Longrightarrow> Encrypt e (Some n) p = Ok (gcm_seal (gcm_key e) n p, n)"
  by (simp add: Encrypt_def aes_key_ok_32)

interpretation aes: encryption "\<lambda>e. length (gcm_key e) = 32" Encrypt Decrypt
proof
  fix e :: AES256GCM and c n p :: bytes
  assume key: "length (gcm_key e) = 32"
  show "\<exists>c. Encrypt e (Some n) p = Ok (c, n)" using Encrypt_total [OF key] by simp
  show "length n = NonceSize \<Longrightarrow> Encrypt e (Some n) p = Ok (c, n) \<Longrightarrow> Decrypt e c n = Ok p"
    using gcm_open_seal [OF aes_key_ok_32 [OF key], of n p]
    by (auto simp: Encrypt_total [OF key] Decrypt_def aes_key_ok_32 [OF key])
  show "Decrypt e c n = Ok p \<Longrightarrow> length n = NonceSize \<and> Encrypt e (Some n) p = Ok (c, n)"
    using gcm_open_SomeD [of "gcm_key e" n c p]
    by (auto simp: Encrypt_total [OF key] Decrypt_def aes_key_ok_32 [OF key] split: if_splits option.splits)
qed

lemma base64_is_binary:
  "EncryptToBase64 e rand p = Ok (c64, n64) \<Longrightarrow>
    \<exists>c n. Encrypt e rand p = Ok (c, n) \<and> c64 = b64_encode c \<and> n64 = b64_encode n
      \<and> DecryptFromBase64 e c64 n64 = Decrypt e c n"
  by (auto simp: EncryptToBase64_def outcome_simps DecryptFromBase64_def b64_roundtrip)

text \<open>C25. Encrypted content comes back, and only what was encrypted does. For every 32-byte key and every
  12-byte nonce of the random source, \<open>Encrypt\<close> gives a ciphertext sixteen bytes longer than the
  text; \<open>Decrypt\<close> returns the text, also over the base64 form; and a ciphertext that decrypts at all under
  a key and nonce is the one encryption makes from the result, so no other ciphertext stands for the
  same text.\<close>

theorem Encrypt_Decrypt:
  assumes "NewAES256GCM key = Ok e" and "rand = Some n" and "length n = NonceSize"
  shows "\<exists>c. Encrypt e rand p = Ok (c, n) \<and> length c = length p + 16
    \<and> (\<forall>c' p'. Decrypt e c' n = Ok p' \<longleftrightarrow> Encrypt e rand p' = Ok (c', n))
    \<and> Decrypt e c n = Ok p
    \<and> (\<exists>c64 n64. EncryptToBase64 e rand p = Ok (c64, n64) \<and> DecryptFromBase64 e c64 n64 = Ok p)"
proof -
  have key: "length (gcm_key e) = 32" using assms(1) by (auto simp: NewAES256GCM_Ok_iff)
  let ?c = "gcm_seal (gcm_key e) n p"
  have enc: "Encrypt e rand p = Ok (?c, n)" using Encrypt_total [OF key] assms(2) by simp
  have iff: "Decrypt e c' n = Ok p' \<longleftrightarrow> Encrypt e rand p' = Ok (c', n)" for c' p'
    using aes.decrypt_Ok_iff [OF key] assms(2,3) by simp
  have "length ?c = length p + 16" using length_gcm_seal [OF aes_key_ok_32 [OF key] assms(3)] by (simp add: TagSize_def)
  moreover have "EncryptToBase64 e rand p = Ok (b64_encode ?c, b64_encode n)" using enc by (simp add: EncryptToBase64_def)
  moreover have "DecryptFromBase64 e (b64_encode ?c) (b64_encode n) = Ok p"
    using enc iff by (simp add: DecryptFromBase64_def b64_roundtrip)
  ultimately show ?thesis using enc iff by blast
qed

theorem Encrypt_Decrypt_witness:
  "\<exists>c. Encrypt \<lparr>gcm_key = replicate 32 7\<rparr> (Some (replicate 12 1)) (bytes_of ''secret'') = Ok (c, replicate 12 1)
    \<and> length c = 22 \<and> Decrypt \<lparr>gcm_key = replicate 32 7\<rparr> c (replicate 12 1) = Ok (bytes_of ''secret'')"
proof -
  have k: "NewAES256GCM (replicate 32 7) = Ok \<lparr>gcm_key = replicate 32 7\<rparr>" by (simp add: NewAES256GCM_def)
  have n: "length (replicate 12 (1 :: 8 word)) = NonceSize" by (simp add: NonceSize_def)
  have "length (bytes_of ''secret'') + 16 = 22" by (simp add: bytes_of_def)
  then show ?thesis using Encrypt_Decrypt [OF k refl n, of "bytes_of ''secret''"] by metis
qed

end
