(* ===== verification/KeyStore.thy ===== *)
theory KeyStore
  imports Crypto
begin

text \<open>
  The in-memory store of tenant keys: \<open>server/internal/crypto/keystore.go\<close>.

  The clock and the random source are arguments: \<open>ke_generate\<close> is the key \<open>GenerateKey\<close> reads, \<open>ke_nonce\<close>
  the nonce of its encryption under the master key. A zero \<open>ExpiresAt\<close> is \<open>None\<close>. Slicing \<open>tenantID[:8]\<close>
  panics on a shorter id, and so does the use of the nil encryptor that a master key of a wrong length
  gives. \<open>keys\<close> is the Go map.
\<close>

datatype key_error = ErrKeyNotFound | ErrKeyExpired | GenerateFailed crypto_error | EncryptFailed crypto_error

record TenantKey =
  TenantID :: string
  KeyID :: string
  DEK :: bytes
  EncryptedDEK :: string
  CreatedAt :: time
  ExpiresAt :: "time option"
  Version :: int

record MemoryKeyStore =
  keys :: "string \<rightharpoonup> TenantKey"
  kek :: bytes

text \<open>The world of one call: the clock, and the two answers of the random source.\<close>

record key_env =
  ke_now :: time
  ke_generate :: "bytes option"
  ke_nonce :: "bytes option"

definition NewMemoryKeyStore :: "bytes \<Rightarrow> (crypto_error, MemoryKeyStore) outcome" where
  "NewMemoryKeyStore k = (if length k \<noteq> 32 then Err ErrInvalidKey else Ok \<lparr>keys = Map.empty, kek = k\<rparr>)"

definition NewMemoryKeyStoreFromString :: "string \<Rightarrow> (crypto_error, MemoryKeyStore) outcome" where
  "NewMemoryKeyStoreFromString kekStr =
     bind_outcome (NewAES256GCMFromString kekStr) (\<lambda>e. Ok \<lparr>keys = Map.empty, kek = gcm_key e\<rparr>)"

definition GetTenantDEK :: "MemoryKeyStore \<Rightarrow> time \<Rightarrow> string \<Rightarrow> (key_error, bytes) outcome" where
  "GetTenantDEK s now tenantID =
     (case keys s tenantID of
        None \<Rightarrow> Err ErrKeyNotFound
      | Some key \<Rightarrow>
          (case ExpiresAt key of
             Some e \<Rightarrow> if now > e then Err ErrKeyExpired else Ok (DEK key)
           | None \<Rightarrow> Ok (DEK key)))"

definition unix :: "time \<Rightarrow> int" where
  "unix t = t div 1000000000"

text \<open>The part \<open>CreateTenantDEK\<close> and \<open>RotateKey\<close> share: generate, encrypt, name and store a key.\<close>

definition store_new_key :: "key_env \<Rightarrow> MemoryKeyStore \<Rightarrow> string \<Rightarrow> int \<Rightarrow> (key_error, bytes \<times> MemoryKeyStore) outcome" where
  "store_new_key env s tenantID version =
     (case GenerateKey (ke_generate env) of
        Err e \<Rightarrow> Err (GenerateFailed e)
      | Panic \<Rightarrow> Panic
      | Ok dek \<Rightarrow>
          (case NewAES256GCM (kek s) of
             Ok encryptor \<Rightarrow>
               (case Encrypt encryptor (ke_nonce env) dek of
                  Err e \<Rightarrow> Err (EncryptFailed e)
                | Panic \<Rightarrow> Panic
                | Ok (encryptedDEK, nonce) \<Rightarrow>
                    (case go_prefix tenantID 8 of
                       None \<Rightarrow> Panic
                     | Some p \<Rightarrow>
                         Ok (dek, s\<lparr>keys := (keys s)(tenantID \<mapsto>
                           \<lparr>TenantID = tenantID, KeyID = ''key_'' @ p @ ''_'' @ itoa (unix (ke_now env)),
                            DEK = dek, EncryptedDEK = hex_encode (nonce @ encryptedDEK),
                            CreatedAt = ke_now env, ExpiresAt = None, Version = version\<rparr>)\<rparr>)))
           | _ \<Rightarrow> Panic))"

definition CreateTenantDEK :: "key_env \<Rightarrow> MemoryKeyStore \<Rightarrow> string \<Rightarrow> (key_error, bytes \<times> MemoryKeyStore) outcome" where
  "CreateTenantDEK env s tenantID =
     (case keys s tenantID of
        Some key \<Rightarrow> Ok (DEK key, s)
      | None \<Rightarrow> store_new_key env s tenantID 1)"

definition GetOrCreateTenantDEK :: "key_env \<Rightarrow> MemoryKeyStore \<Rightarrow> string \<Rightarrow> (key_error, bytes \<times> MemoryKeyStore) outcome" where
  "GetOrCreateTenantDEK env s tenantID =
     (case GetTenantDEK s (ke_now env) tenantID of
        Ok dek \<Rightarrow> Ok (dek, s)
      | Err ErrKeyNotFound \<Rightarrow> CreateTenantDEK env s tenantID
      | Err e \<Rightarrow> Err e
      | Panic \<Rightarrow> Panic)"

definition RotateKey :: "key_env \<Rightarrow> MemoryKeyStore \<Rightarrow> string \<Rightarrow> (key_error, MemoryKeyStore) outcome" where
  "RotateKey env s tenantID =
     (case keys s tenantID of
        None \<Rightarrow> Err ErrKeyNotFound
      | Some oldKey \<Rightarrow>
          bind_outcome (store_new_key env s tenantID (Version oldKey + 1)) (\<lambda>(dek, s'). Ok s'))"

definition DeleteKey :: "MemoryKeyStore \<Rightarrow> string \<Rightarrow> (key_error, MemoryKeyStore) outcome" where
  "DeleteKey s tenantID =
     (case keys s tenantID of
        None \<Rightarrow> Err ErrKeyNotFound
      | Some _ \<Rightarrow> Ok (s\<lparr>keys := (keys s)(tenantID := None)\<rparr>))"

definition ListTenants :: "MemoryKeyStore \<Rightarrow> string set" where
  "ListTenants s = dom (keys s)"

definition GetKeyInfo :: "MemoryKeyStore \<Rightarrow> string \<Rightarrow> (key_error, TenantKey) outcome" where
  "GetKeyInfo s tenantID =
     (case keys s tenantID of
        None \<Rightarrow> Err ErrKeyNotFound
      | Some key \<Rightarrow> Ok (key\<lparr>DEK := []\<rparr>))"

lemmas key_defs = GetTenantDEK_def CreateTenantDEK_def GetOrCreateTenantDEK_def RotateKey_def DeleteKey_def
  store_new_key_def go_prefix_def

text \<open>The random source works: it gives as many bytes as were asked for.\<close>

definition random_ok :: "key_env \<Rightarrow> bytes \<Rightarrow> bool" where
  "random_ok env dek \<longleftrightarrow> ke_generate env = Some dek \<and> length dek = 32
     \<and> (\<exists>n. ke_nonce env = Some n \<and> length n = NonceSize)"

text \<open>The key an entry keeps in encrypted form.\<close>

definition unwrap_key :: "bytes \<Rightarrow> string \<Rightarrow> bytes option" where
  "unwrap_key k h =
     (case hex_decode h of
        None \<Rightarrow> None
      | Some b \<Rightarrow> gcm_open k (take NonceSize b) (drop NonceSize b))"

text \<open>Every entry is filed under its tenant, and its encrypted form holds its key.\<close>

definition key_entry_ok :: "bytes \<Rightarrow> string \<Rightarrow> TenantKey \<Rightarrow> bool" where
  "key_entry_ok k t e \<longleftrightarrow> TenantID e = t \<and> length (DEK e) = 32 \<and> 1 \<le> Version e \<and> ExpiresAt e = None
     \<and> take 12 (KeyID e) = ''key_'' @ take 8 t \<and> unwrap_key k (EncryptedDEK e) = Some (DEK e)"

definition keystore_inv :: "MemoryKeyStore \<Rightarrow> bool" where
  "keystore_inv s \<longleftrightarrow> length (kek s) = 32 \<and> (\<forall>t e. keys s t = Some e \<longrightarrow> key_entry_ok (kek s) t e)"

lemma NewMemoryKeyStore_inv: "NewMemoryKeyStore k = Ok s \<Longrightarrow> keystore_inv s"
  by (auto simp: NewMemoryKeyStore_def keystore_inv_def split: if_splits)

lemma NewMemoryKeyStoreFromString_inv: "\<exists>s. NewMemoryKeyStoreFromString str = Ok s \<and> keystore_inv s"
  by (simp add: NewMemoryKeyStoreFromString_def NewAES256GCMFromString_Ok keystore_inv_def)

lemma store_new_key_cases:
  assumes "random_ok env dek" and "length (kek s) = 32"
  shows "if length tenantID < 8 then store_new_key env s tenantID v = Panic
    else \<exists>key. store_new_key env s tenantID v = Ok (dek, s\<lparr>keys := (keys s)(tenantID \<mapsto> key)\<rparr>)
      \<and> DEK key = dek \<and> Version key = v \<and> ExpiresAt key = None \<and> (1 \<le> v \<longrightarrow> key_entry_ok (kek s) tenantID key)"
proof -
  obtain n where n: "ke_generate env = Some dek" "length dek = 32" "ke_nonce env = Some n" "length n = NonceSize"
    using assms(1) by (auto simp: random_ok_def)
  have wrap: "unwrap_key (kek s) (hex_encode (n @ gcm_seal (kek s) n dek)) = Some dek"
    using n(4) assms(2) by (simp add: unwrap_key_def hex_roundtrip gcm_open_seal aes_key_ok_32)
  let ?key = "\<lparr>TenantID = tenantID, KeyID = ''key_'' @ take 8 tenantID @ ''_'' @ itoa (unix (ke_now env)), DEK = dek,
    EncryptedDEK = hex_encode (n @ gcm_seal (kek s) n dek), CreatedAt = ke_now env, ExpiresAt = None, Version = v\<rparr>"
  have "\<not> length tenantID < 8 \<Longrightarrow> 1 \<le> v \<longrightarrow> key_entry_ok (kek s) tenantID ?key"
    using n(2) wrap by (simp add: key_entry_ok_def)
  moreover have "store_new_key env s tenantID v =
      (if length tenantID < 8 then Panic else Ok (dek, s\<lparr>keys := (keys s)(tenantID \<mapsto> ?key)\<rparr>))"
    using n assms(2) by (simp add: store_new_key_def GenerateKey_def NewAES256GCM_def Encrypt_total go_prefix_def)
  ultimately show ?thesis by (auto intro!: exI [of _ ?key])
qed

text \<open>A failure of the random source changes nothing, and neither does a panic.\<close>

lemma store_new_key_OkD:
  assumes "store_new_key env s t v = Ok (dek, s')" and "length (kek s) = 32" and "1 \<le> v"
    and "\<And>k. ke_generate env = Some k \<Longrightarrow> length k = 32" and "\<And>n. ke_nonce env = Some n \<Longrightarrow> length n = NonceSize"
  shows "\<exists>key. s' = s\<lparr>keys := (keys s)(t \<mapsto> key)\<rparr> \<and> DEK key = dek \<and> key_entry_ok (kek s) t key"
proof -
  have "ke_generate env = Some dek" "ke_nonce env \<noteq> None"
    using assms(1,2) by (auto simp: store_new_key_def GenerateKey_def NewAES256GCM_def Encrypt_def aes_key_ok_32
        split: option.splits)
  then have "random_ok env dek" using assms(4,5) by (auto simp: random_ok_def)
  from store_new_key_cases [OF this assms(2), of t v] show ?thesis using assms(1,3) by (auto split: if_splits)
qed

lemma keystore_inv_update:
  "keystore_inv s \<Longrightarrow> key_entry_ok (kek s) t key \<Longrightarrow> keystore_inv (s\<lparr>keys := (keys s)(t \<mapsto> key)\<rparr>)"
  by (simp add: keystore_inv_def)

lemma GetOrCreateTenantDEK_cases:
  "GetOrCreateTenantDEK env s t = Ok (dek, s') \<Longrightarrow>
    (s' = s \<and> (\<exists>e. keys s t = Some e \<and> DEK e = dek)) \<or> (keys s t = None \<and> store_new_key env s t 1 = Ok (dek, s'))"
  by (auto simp: GetOrCreateTenantDEK_def CreateTenantDEK_def GetTenantDEK_def split: option.splits if_splits)

subsection \<open>Properties\<close>

lemma keystore_invariant_facts:
  assumes "keystore_inv s"
    and "\<And>k. ke_generate env = Some k \<Longrightarrow> length k = 32" and "\<And>n. ke_nonce env = Some n \<Longrightarrow> length n = NonceSize"
  shows "CreateTenantDEK env s t = Ok (dek, s1) \<Longrightarrow> keystore_inv s1 \<and> length dek = 32"
    and "GetOrCreateTenantDEK env s t = Ok (dek, s2) \<Longrightarrow> keystore_inv s2 \<and> length dek = 32"
    and "RotateKey env s t = Ok s3 \<Longrightarrow> keystore_inv s3"
    and "DeleteKey s t = Ok s4 \<Longrightarrow> keystore_inv s4"
proof -
  have kek: "length (kek s) = 32" using assms(1) by (simp add: keystore_inv_def)
  have entry: "key_entry_ok (kek s) u e" if "keys s u = Some e" for u e using that assms(1) by (simp add: keystore_inv_def)
  have new: "keystore_inv s' \<and> length d = 32" if "store_new_key env s u v = Ok (d, s')" "1 \<le> v" for u v d s'
    using store_new_key_OkD [OF that(1) kek that(2) assms(2,3)] keystore_inv_update [OF assms(1)]
    by (auto simp: key_entry_ok_def)
  have old: "length (DEK e) = 32" if "keys s u = Some e" for u e using entry [OF that] by (simp add: key_entry_ok_def)
  show "CreateTenantDEK env s t = Ok (dek, s1) \<Longrightarrow> keystore_inv s1 \<and> length dek = 32"
    using new [of t 1] old [of t] assms(1) by (auto simp: CreateTenantDEK_def split: option.splits)
  show "GetOrCreateTenantDEK env s t = Ok (dek, s2) \<Longrightarrow> keystore_inv s2 \<and> length dek = 32"
    using new [of t 1] old [of t] assms(1) GetOrCreateTenantDEK_cases [of env s t dek s2] by auto
  show "RotateKey env s t = Ok s3 \<Longrightarrow> keystore_inv s3"
    using new [of t] entry [of t] by (auto simp: RotateKey_def outcome_simps key_entry_ok_def split: option.splits)
  show "DeleteKey s t = Ok s4 \<Longrightarrow> keystore_inv s4"
    using assms(1) by (auto simp: DeleteKey_def keystore_inv_def split: option.splits if_splits)
qed

text \<open>C26. The wrapped keys stay recoverable. Every store the constructors give satisfies the invariant that
  each entry is filed under its tenant, has a 32-byte key that never expires, a version of at least one and an encrypted form
  from which the master key recovers exactly that key; creation, rotation and deletion keep it, whatever
  the random source does as long as a successful read fills its buffer.\<close>

theorem keystore_invariant:
  assumes "keystore_inv s"
    and "\<And>k. ke_generate env = Some k \<Longrightarrow> length k = 32" and "\<And>n. ke_nonce env = Some n \<Longrightarrow> length n = NonceSize"
  shows "((CreateTenantDEK env s t = Ok (dek, s1)) \<longrightarrow> (keystore_inv s1 \<and> length dek = 32)) \<and>
    ((GetOrCreateTenantDEK env s t = Ok (dek, s2)) \<longrightarrow> (keystore_inv s2 \<and> length dek = 32)) \<and>
    ((RotateKey env s t = Ok s3) \<longrightarrow> keystore_inv s3) \<and>
    ((DeleteKey s t = Ok s4) \<longrightarrow> keystore_inv s4)"
  by (intro conjI impI) (use keystore_invariant_facts [OF assms] in blast)+

theorem keystore_invariant_witness:
  "\<exists>s1 s2. CreateTenantDEK \<lparr>ke_now = 0, ke_generate = Some (replicate 32 1), ke_nonce = Some (replicate 12 2)\<rparr>
      \<lparr>keys = Map.empty, kek = replicate 32 0\<rparr> ''tenant-01'' = Ok (replicate 32 1, s1) \<and> keystore_inv s1
    \<and> DeleteKey s1 ''tenant-01'' = Ok s2 \<and> keystore_inv s2"
proof -
  let ?env = "\<lparr>ke_now = 0, ke_generate = Some (replicate 32 1), ke_nonce = Some (replicate 12 2)\<rparr>"
  let ?s = "\<lparr>keys = Map.empty, kek = replicate 32 0\<rparr>"
  have inv: "keystore_inv ?s" by (simp add: keystore_inv_def)
  have env: "ke_generate ?env = Some k \<Longrightarrow> length k = 32" "ke_nonce ?env = Some n \<Longrightarrow> length n = NonceSize" for k n
    by (auto simp: NonceSize_def)
  have "random_ok ?env (replicate 32 1)" by (simp add: random_ok_def NonceSize_def)
  from store_new_key_cases [OF this, of ?s "''tenant-01''" 1] obtain k where
    c: "CreateTenantDEK ?env ?s ''tenant-01'' = Ok (replicate 32 1, ?s\<lparr>keys := (keys ?s)(''tenant-01'' \<mapsto> k)\<rparr>)"
    by (auto simp: CreateTenantDEK_def)
  let ?s1 = "?s\<lparr>keys := (keys ?s)(''tenant-01'' \<mapsto> k)\<rparr>"
  have inv1: "keystore_inv ?s1" using keystore_invariant [OF inv env] c by blast
  have d: "DeleteKey ?s1 ''tenant-01'' = Ok (?s1\<lparr>keys := (keys ?s1)(''tenant-01'' := None)\<rparr>)" by (simp add: DeleteKey_def)
  show ?thesis using c inv1 d keystore_invariant [OF inv1 env] by blast
qed

text \<open>The life of a tenant key. While the random source works, \<open>GetOrCreateTenantDEK\<close>
  for a new tenant stores a key of version 1 and from then on returns that key without change;
  \<open>RotateKey\<close> replaces it by the next version, after which only the new key can be read (the old one
  is not kept, against the comment in the code); \<open>DeleteKey\<close> removes it. For a tenant id of fewer
  than eight bytes creation panics.\<close>

theorem tenant_key_life:
  assumes "random_ok env dek" and "random_ok env2 dek2" and "keystore_inv s" and "keys s t = None"
  shows "if length t < 8 then GetOrCreateTenantDEK env s t = Panic
    else \<exists>s1 s2 s3 k1 k2. GetOrCreateTenantDEK env s t = Ok (dek, s1)
      \<and> keys s1 t = Some k1 \<and> Version k1 = 1 \<and> GetOrCreateTenantDEK env3 s1 t = Ok (dek, s1)
      \<and> RotateKey env2 s1 t = Ok s2 \<and> keys s2 t = Some k2 \<and> Version k2 = 2
      \<and> GetTenantDEK s2 now t = Ok dek2 \<and> (\<forall>u. u \<noteq> t \<longrightarrow> keys s2 u = keys s u)
      \<and> DeleteKey s2 t = Ok s3 \<and> GetTenantDEK s3 now t = Err ErrKeyNotFound"
proof (cases "length t < 8")
  case True
  then show ?thesis using store_new_key_cases [OF assms(1), of s t 1] assms(3,4)
    by (simp add: keystore_inv_def GetOrCreateTenantDEK_def GetTenantDEK_def CreateTenantDEK_def)
next
  case False
  have kek: "length (kek s) = 32" using assms(3) by (simp add: keystore_inv_def)
  obtain k1 where k1: "store_new_key env s t 1 = Ok (dek, s\<lparr>keys := (keys s)(t \<mapsto> k1)\<rparr>)"
    "DEK k1 = dek" "Version k1 = 1" "ExpiresAt k1 = None"
    using store_new_key_cases [OF assms(1) kek, of t 1] False by auto
  let ?s1 = "s\<lparr>keys := (keys s)(t \<mapsto> k1)\<rparr>"
  have "length (kek ?s1) = 32" using kek by simp
  then obtain k2 where k2: "store_new_key env2 ?s1 t 2 = Ok (dek2, ?s1\<lparr>keys := (keys ?s1)(t \<mapsto> k2)\<rparr>)"
    "DEK k2 = dek2" "Version k2 = 2" "ExpiresAt k2 = None"
    using store_new_key_cases [OF assms(2), of ?s1 t 2] False by auto
  let ?s2 = "?s1\<lparr>keys := (keys ?s1)(t \<mapsto> k2)\<rparr>"
  have one: "GetOrCreateTenantDEK env s t = Ok (dek, ?s1)" "GetOrCreateTenantDEK env3 ?s1 t = Ok (dek, ?s1)"
    using k1 assms(4) by (simp_all add: GetOrCreateTenantDEK_def GetTenantDEK_def CreateTenantDEK_def)
  have two: "RotateKey env2 ?s1 t = Ok ?s2" using k1(3) k2(1) by (simp add: RotateKey_def)
  have three: "GetTenantDEK ?s2 now t = Ok dek2" using k2 by (simp add: GetTenantDEK_def)
  have four: "DeleteKey ?s2 t = Ok (?s2\<lparr>keys := (keys ?s2)(t := None)\<rparr>)"
    "GetTenantDEK (?s2\<lparr>keys := (keys ?s2)(t := None)\<rparr>) now t = Err ErrKeyNotFound"
    by (simp_all add: DeleteKey_def GetTenantDEK_def)
  have five: "keys ?s1 t = Some k1" "keys ?s2 t = Some k2" "\<forall>u. u \<noteq> t \<longrightarrow> keys ?s2 u = keys s u"
    by simp_all
  show ?thesis unfolding if_not_P [OF False] using one two three four five k1(3) k2(3) by blast
qed

theorem tenant_key_life_witness:
  "let env = \<lparr>ke_now = 0, ke_generate = Some (replicate 32 1), ke_nonce = Some (replicate 12 2)\<rparr>;
       s = \<lparr>keys = Map.empty, kek = replicate 32 0\<rparr>
   in GetOrCreateTenantDEK env s ''default'' = Panic
     \<and> (\<exists>s1. GetOrCreateTenantDEK env s ''tenant-01'' = Ok (replicate 32 1, s1))"
proof -
  let ?env = "\<lparr>ke_now = 0, ke_generate = Some (replicate 32 1), ke_nonce = Some (replicate 12 2)\<rparr>"
  let ?s = "\<lparr>keys = Map.empty, kek = replicate 32 0\<rparr>"
  have e: "random_ok ?env (replicate 32 1)" by (simp add: random_ok_def NonceSize_def)
  have inv: "keystore_inv ?s" by (simp add: keystore_inv_def)
  have k: "keys ?s t = None" for t by simp
  have "GetOrCreateTenantDEK ?env ?s ''default'' = Panic"
    using tenant_key_life [OF e e inv k, of "''default''"] by simp
  moreover have "\<exists>s1. GetOrCreateTenantDEK ?env ?s ''tenant-01'' = Ok (replicate 32 1, s1)"
    using tenant_key_life [OF e e inv k, of "''tenant-01''" ?env 0] by (simp del: fun_upd_apply) blast
  ultimately show ?thesis unfolding Let_def by blast
qed

end
