(* ===== verification/DagPath.thy ===== *)
theory DagPath
  imports Dag
begin

text \<open>
  \<open>GetPath\<close> of \<open>server/internal/dag/dag.go\<close>: a breadth-first search from one event along the successors,
  with a visited set and a parent map, and the path read back from the parent map. Nodes are their
  event ids, as in the graph model. Both loops take fuel; \<open>dag_fuel\<close>, one more than the number of
  nodes, is enough for any graph that \<open>AddEvent\<close> builds, since every node is queued at most once and
  the depth decreases along the parents.
\<close>

datatype path_error = FromNotFound | ToNotFound | NoPath

type_synonym bfs_state = "string list \<times> string set \<times> (string \<rightharpoonup> string)"

text \<open>The inner loop: the unvisited successors are marked, given their parent and queued.\<close>

fun push_succs :: "string \<Rightarrow> string list \<Rightarrow> bfs_state \<Rightarrow> bfs_state" where
  "push_succs current [] st = st"
| "push_succs current (s # ss) (q, visited, parent) =
     (if s \<notin> visited then push_succs current ss (q @ [s], insert s visited, parent(s \<mapsto> current))
      else push_succs current ss (q, visited, parent))"

fun rebuild :: "nat \<Rightarrow> (string \<rightharpoonup> string) \<Rightarrow> string \<Rightarrow> string list \<Rightarrow> string list option" where
  "rebuild 0 parent n path = None"
| "rebuild (Suc f) parent n path =
     (case parent n of None \<Rightarrow> Some (n # path) | Some m \<Rightarrow> rebuild f parent m (n # path))"

fun bfs :: "DAG \<Rightarrow> string \<Rightarrow> nat \<Rightarrow> bfs_state \<Rightarrow> string list option option" where
  "bfs d dst 0 st = None"
| "bfs d dst (Suc f) ([], visited, parent) = Some None"
| "bfs d dst (Suc f) (current # q, visited, parent) =
     (if current = dst then map_option Some (rebuild (dag_fuel d) parent current [])
      else bfs d dst f (push_succs current (succs d current) (q, visited, parent)))"

definition GetPath :: "DAG \<Rightarrow> string \<Rightarrow> string \<Rightarrow> (path_error, string list) outcome" where
  "GetPath d src dst =
     (if node_of d src = None then Err FromNotFound
      else if node_of d dst = None then Err ToNotFound
      else case bfs d dst (dag_fuel d) ([src], {src}, Map.empty) of
        None \<Rightarrow> Panic
      | Some None \<Rightarrow> Err NoPath
      | Some (Some path) \<Rightarrow> Ok path)"

subsection \<open>The search\<close>

lemma push_succs_run:
  "\<exists>N. push_succs c ss (q, v, par) = (q @ N, v \<union> set ss, (\<lambda>x. if x \<in> set N then Some c else par x))
     \<and> distinct N \<and> set N = set ss - v"
proof (induction ss arbitrary: q v par)
  case Nil
  show ?case by (intro exI [of _ "[]"]) auto
next
  case (Cons s ss)
  show ?case
  proof (cases "s \<in> v")
    case True
    with Cons.IH [of q v par] show ?thesis by (auto simp: insert_absorb)
  next
    case False
    obtain N where N: "push_succs c ss (q @ [s], insert s v, par(s \<mapsto> c))
        = ((q @ [s]) @ N, insert s v \<union> set ss, (\<lambda>x. if x \<in> set N then Some c else (par(s \<mapsto> c)) x))"
      "distinct N" "set N = set ss - insert s v" using Cons.IH [of "q @ [s]" "insert s v" "par(s \<mapsto> c)"] by blast
    then show ?thesis using False by (intro exI [of _ "s # N"]) (auto simp: fun_eq_iff)
  qed
qed

definition search_inv :: "DAG \<Rightarrow> string \<Rightarrow> string \<Rightarrow> bfs_state \<Rightarrow> bool" where
  "search_inv d src dst = (\<lambda>(q, v, par).
     set q \<subseteq> v \<and> distinct q \<and> v \<subseteq> set (keys d) \<and> src \<in> v \<and> par src = None
     \<and> (\<forall>x \<in> v. x \<noteq> src \<longrightarrow> (\<exists>u. par x = Some u \<and> u \<in> v \<and> x \<in> set (succs d u)))
     \<and> (\<forall>x \<in> v - set q. set (succs d x) \<subseteq> v) \<and> dst \<notin> v - set q)"

lemma search_inv_pop:
  assumes "dag_inv d" and inv: "search_inv d src dst (c # q, v, par)" and "c \<noteq> dst"
  shows "search_inv d src dst (push_succs c (succs d c) (q, v, par))"
    and "\<exists>q' v' par'. push_succs c (succs d c) (q, v, par) = (q', v', par') \<and> v' - set q' = insert c (v - set (c # q))"
proof -
  obtain N where N: "push_succs c (succs d c) (q, v, par) =
      (q @ N, v \<union> set (succs d c), (\<lambda>x. if x \<in> set N then Some c else par x))"
    "distinct N" "set N = set (succs d c) - v" using push_succs_run by blast
  have keys: "set (succs d c) \<subseteq> set (keys d)"
    using edge_sym [OF assms(1)] edge_keys [OF assms(1)] by blast
  have fin: "(v \<union> set (succs d c)) - set (q @ N) = insert c (v - set (c # q))"
    using inv N(3) by (auto simp: search_inv_def)
  then show "\<exists>q' v' par'. push_succs c (succs d c) (q, v, par) = (q', v', par') \<and> v' - set q' = insert c (v - set (c # q))"
    using N(1) by blast
  have "\<forall>x \<in> insert c (v - set (c # q)). set (succs d x) \<subseteq> v \<union> set (succs d c)"
    using inv by (auto simp: search_inv_def)
  moreover have "\<exists>u. (if x \<in> set N then Some c else par x) = Some u \<and> u \<in> v \<union> set (succs d c) \<and> x \<in> set (succs d u)"
    if x: "x \<in> v \<union> set (succs d c)" "x \<noteq> src" for x
  proof (cases "x \<in> set N")
    case True
    then show ?thesis using inv N(3) by (auto simp: search_inv_def)
  next
    case False
    then have "x \<in> v" using x N(3) by blast
    then obtain u where "par x = Some u" "u \<in> v" "x \<in> set (succs d u)" using inv x(2) by (auto simp: search_inv_def)
    with False show ?thesis by auto
  qed
  ultimately show "search_inv d src dst (push_succs c (succs d c) (q, v, par))"
    using inv N(2,3) keys assms(3) unfolding N(1) search_inv_def prod.case fin
    by (auto simp: search_inv_def)
qed

text \<open>A path, from its first node to its last, along the successors.\<close>

definition is_path :: "DAG \<Rightarrow> string \<Rightarrow> string \<Rightarrow> string list \<Rightarrow> bool" where
  "is_path d src dst p \<longleftrightarrow> p \<noteq> [] \<and> hd p = src \<and> last p = dst
     \<and> (\<forall>k. Suc k < length p \<longrightarrow> p ! Suc k \<in> set (succs d (p ! k)))"

lemma is_path_snoc: "is_path d src u p \<Longrightarrow> x \<in> set (succs d u) \<Longrightarrow> is_path d src x (p @ [x])"
proof -
  assume p: "is_path d src u p" and x: "x \<in> set (succs d u)"
  have "(p @ [x]) ! Suc k \<in> set (succs d ((p @ [x]) ! k))" if "Suc k < length (p @ [x])" for k
  proof (cases "Suc k < length p")
    case True
    with p show ?thesis by (simp add: is_path_def nth_append)
  next
    case False
    with that have "k = length p - 1" "Suc k = length p" "p \<noteq> []" by auto
    with p x show ?thesis by (simp add: is_path_def nth_append last_conv_nth)
  qed
  with p show ?thesis by (simp add: is_path_def)
qed

lemma rebuild_path:
  assumes "dag_inv d" and "search_inv d src dst (q, v, par)"
  shows "x \<in> v \<Longrightarrow> depth d x < f \<Longrightarrow> \<exists>p. rebuild f par x path = Some (p @ path) \<and> is_path d src x p"
proof (induction f arbitrary: x path)
  case (Suc f)
  show ?case
  proof (cases "x = src")
    case True
    with assms(2) show ?thesis by (intro exI [of _ "[x]"]) (auto simp: search_inv_def is_path_def)
  next
    case False
    then obtain u where u: "par x = Some u" "u \<in> v" "x \<in> set (succs d u)"
      using assms(2) Suc.prems(1) by (auto simp: search_inv_def)
    then have "depth d u < f"
      using depth_pred_less [OF assms(1)] edge_sym [OF assms(1)] Suc.prems(2) by fastforce
    from Suc.IH [OF u(2) this, of "x # path"] obtain p
      where "rebuild f par u (x # path) = Some (p @ x # path)" "is_path d src u p" by blast
    then show ?thesis using u is_path_snoc by (intro exI [of _ "p @ [x]"]) auto
  qed
qed simp

text \<open>A run of the search ends within the fuel, with a path, or with a closed set without the goal.\<close>

lemma bfs_run:
  assumes "dag_inv d"
  shows "search_inv d src dst (q, v, par) \<Longrightarrow> card (set (keys d) - (v - set q)) < f \<Longrightarrow>
    (\<exists>p. bfs d dst f (q, v, par) = Some (Some p) \<and> is_path d src dst p)
    \<or> bfs d dst f (q, v, par) = Some None \<and> (\<exists>w. src \<in> w \<and> dst \<notin> w \<and> (\<forall>x \<in> w. set (succs d x) \<subseteq> w))"
proof (induction f arbitrary: q v par)
  case (Suc f)
  show ?case
  proof (cases q)
    case Nil
    then have "src \<in> v \<and> dst \<notin> v \<and> (\<forall>x \<in> v. set (succs d x) \<subseteq> v)"
      using Suc.prems(1) by (auto simp: search_inv_def)
    with Nil show ?thesis by auto
  next
    case (Cons c r)
    have c: "c \<in> v" "c \<in> set (keys d)" using Suc.prems(1) Cons by (auto simp: search_inv_def)
    show ?thesis
    proof (cases "c = dst")
      case True
      have "depth d c < dag_fuel d" using depth_less [OF assms c(2)] by (simp add: dag_fuel_def)
      from rebuild_path [OF assms Suc.prems(1) c(1) this, of "[]"] True Cons show ?thesis by auto
    next
      case False
      note inv = Suc.prems(1) [unfolded Cons]
      obtain q' v' par' where st: "push_succs c (succs d c) (r, v, par) = (q', v', par')"
        "v' - set q' = insert c (v - set (c # r))" using search_inv_pop(2) [OF assms inv False] by blast
      have "set (keys d) - (v' - set q') \<subset> set (keys d) - (v - set (c # r))"
        using c inv unfolding st(2) by auto
      then have "card (set (keys d) - (v' - set q')) < card (set (keys d) - (v - set (c # r)))"
        by (intro psubset_card_mono) auto
      then have "card (set (keys d) - (v' - set q')) < f" using Suc.prems(2) Cons by simp
      from Suc.IH [OF _ this] search_inv_pop(1) [OF assms inv False] False show ?thesis
        by (simp add: Cons st(1))
    qed
  qed
qed simp

lemma closed_no_path:
  "(\<lambda>a b. b \<in> set (succs d a))\<^sup>*\<^sup>* src x \<Longrightarrow> src \<in> w \<Longrightarrow> \<forall>x \<in> w. set (succs d x) \<subseteq> w \<Longrightarrow> x \<in> w"
  by (induction rule: rtranclp_induct) auto

lemma is_path_reaches:
  assumes "is_path d src dst p"
  shows "(\<lambda>a b. b \<in> set (succs d a))\<^sup>*\<^sup>* src dst"
proof -
  have "(\<lambda>a b. b \<in> set (succs d a))\<^sup>*\<^sup>* (hd p) (p ! k)" if "k < length p" for k
    using that
  proof (induction k)
    case 0
    then show ?case by (simp add: hd_conv_nth)
  next
    case (Suc k)
    then have "p ! Suc k \<in> set (succs d (p ! k))" using assms by (simp add: is_path_def)
    with Suc show ?case by (auto intro: rtranclp.rtrancl_into_rtrancl)
  qed
  then show ?thesis using assms by (auto simp: is_path_def last_conv_nth)
qed

subsection \<open>Property\<close>



end
