(* ===== verification/Sign.thy ===== *)
theory Sign
  imports Encoding
begin

text \<open>
  Signatures: \<open>server/pkg/sign/ed25519.go\<close>.

  The record \<open>ed25519\<close> holds the functions of the standard package of that name; \<open>ed25519_correct\<close> is its
  documented behaviour: a signature made with a private key verifies under its public key, and keys and
  signatures have their fixed lengths. A nil private key is \<open>None\<close>. \<open>GetDefaultSigner\<close> keeps the package variables
  \<open>once\<close> and \<open>defaultSigner\<close> in \<open>sign_state\<close>; the environment variable and the key generator are
  arguments.
\<close>

type_synonym bytes = "8 word list"

record ed25519 =
  ed_public :: "bytes \<Rightarrow> bytes"
  ed_sign :: "bytes \<Rightarrow> bytes \<Rightarrow> bytes"
  ed_verify :: "bytes \<Rightarrow> bytes \<Rightarrow> bytes \<Rightarrow> bool"

definition ed25519_correct :: "ed25519 \<Rightarrow> bool" where
  "ed25519_correct ed \<longleftrightarrow> (\<forall>sk msg. length sk = 64 \<longrightarrow>
     length (ed_public ed sk) = 32 \<and> length (ed_sign ed sk msg) = 64 \<and> ed_verify ed (ed_public ed sk) msg (ed_sign ed sk msg))"

record Signer =
  privateKey :: "bytes option"
  publicKey :: bytes

datatype sign_error = InvalidKeyHex | InvalidKeySize | GenerateFailed | NotInitialized | InvalidPublicKey
  | InvalidPublicKeySize | InvalidSignatureFormat

text \<open>\<open>env_key\<close> is the environment variable; \<open>generated\<close> the key pair of the generator, if it works.\<close>

definition NewSigner :: "ed25519 \<Rightarrow> string \<Rightarrow> (bytes \<times> bytes) option \<Rightarrow> (sign_error, Signer) outcome" where
  "NewSigner ed env_key generated =
     (if env_key \<noteq> ''''
      then (case hex_decode env_key of
          None \<Rightarrow> Err InvalidKeyHex
        | Some privKey \<Rightarrow>
            if length privKey \<noteq> 64 then Err InvalidKeySize
            else Ok \<lparr>privateKey = Some privKey, publicKey = ed_public ed privKey\<rparr>)
      else (case generated of
          None \<Rightarrow> Err GenerateFailed
        | Some (pubKey, privKey) \<Rightarrow> Ok \<lparr>privateKey = Some privKey, publicKey = pubKey\<rparr>))"

record sign_state =
  once_done :: bool
  defaultSigner :: "Signer option"

definition sign_start :: sign_state where
  "sign_start = \<lparr>once_done = False, defaultSigner = None\<rparr>"

text \<open>The signer (nil is \<open>None\<close>), the error of this call, and the new package state.\<close>

definition GetDefaultSigner :: "ed25519 \<Rightarrow> string \<Rightarrow> (bytes \<times> bytes) option \<Rightarrow> sign_state
    \<Rightarrow> Signer option \<times> sign_error option \<times> sign_state" where
  "GetDefaultSigner ed env_key generated st =
     (if once_done st then (defaultSigner st, None, st)
      else case NewSigner ed env_key generated of
          Ok s \<Rightarrow> (Some s, None, st\<lparr>once_done := True, defaultSigner := Some s\<rparr>)
        | Err e \<Rightarrow> (None, Some e, st\<lparr>once_done := True, defaultSigner := None\<rparr>)
        | Panic \<Rightarrow> (None, None, st))"

definition sign_data :: "ed25519 \<Rightarrow> Signer \<Rightarrow> bytes \<Rightarrow> (sign_error, string) outcome" where
  "sign_data ed s data =
     (case privateKey s of
        None \<Rightarrow> Err NotInitialized
      | Some sk \<Rightarrow> Ok (b64_encode (ed_sign ed sk data)))"

definition SignString :: "ed25519 \<Rightarrow> Signer \<Rightarrow> string \<Rightarrow> (sign_error, string) outcome" where
  "SignString ed s data = sign_data ed s (bytes_of data)"

definition verify_data :: "ed25519 \<Rightarrow> Signer \<Rightarrow> bytes \<Rightarrow> string \<Rightarrow> (sign_error, bool) outcome" where
  "verify_data ed s data signatureB64 =
     (case b64_decode signatureB64 of
        None \<Rightarrow> Err InvalidSignatureFormat
      | Some signature \<Rightarrow> Ok (ed_verify ed (publicKey s) data signature))"

definition VerifyString :: "ed25519 \<Rightarrow> Signer \<Rightarrow> string \<Rightarrow> string \<Rightarrow> (sign_error, bool) outcome" where
  "VerifyString ed s data signatureB64 = verify_data ed s (bytes_of data) signatureB64"

definition VerifyWithPublicKey :: "ed25519 \<Rightarrow> string \<Rightarrow> bytes \<Rightarrow> string \<Rightarrow> (sign_error, bool) outcome" where
  "VerifyWithPublicKey ed pubKeyHex data signatureB64 =
     (case hex_decode pubKeyHex of
        None \<Rightarrow> Err InvalidPublicKey
      | Some pubKey \<Rightarrow>
          if length pubKey \<noteq> 32 then Err InvalidPublicKeySize
          else (case b64_decode signatureB64 of
              None \<Rightarrow> Err InvalidSignatureFormat
            | Some signature \<Rightarrow> Ok (ed_verify ed pubKey data signature)))"

definition GetPublicKeyHex :: "Signer \<Rightarrow> string" where
  "GetPublicKeyHex s = hex_encode (publicKey s)"

definition GetPrivateKeyHex :: "Signer \<Rightarrow> string" where
  "GetPrivateKeyHex s = hex_encode (case privateKey s of None \<Rightarrow> [] | Some sk \<Rightarrow> sk)"

definition cert_text :: "string \<Rightarrow> string \<Rightarrow> string \<Rightarrow> string \<Rightarrow> string" where
  "cert_text certID rootHash evidenceLevel timestamp =
     certID @ ''|'' @ rootHash @ ''|'' @ evidenceLevel @ ''|'' @ timestamp"

definition SignCertificate :: "ed25519 \<Rightarrow> Signer \<Rightarrow> string \<Rightarrow> string \<Rightarrow> string \<Rightarrow> string
    \<Rightarrow> (sign_error, string) outcome" where
  "SignCertificate ed s certID rootHash evidenceLevel timestamp =
     SignString ed s (cert_text certID rootHash evidenceLevel timestamp)"

definition VerifyCertificateSignature :: "ed25519 \<Rightarrow> Signer \<Rightarrow> string \<Rightarrow> string \<Rightarrow> string \<Rightarrow> string
    \<Rightarrow> string \<Rightarrow> (sign_error, bool) outcome" where
  "VerifyCertificateSignature ed s certID rootHash evidenceLevel timestamp signature =
     VerifyString ed s (cert_text certID rootHash evidenceLevel timestamp) signature"

subsection \<open>Signers that match their keys\<close>

definition signer_ok :: "ed25519 \<Rightarrow> Signer \<Rightarrow> bool" where
  "signer_ok ed s \<longleftrightarrow> (\<exists>sk. privateKey s = Some sk \<and> length sk = 64 \<and> publicKey s = ed_public ed sk)"

lemma NewSigner_ok:
  assumes "NewSigner ed env_key generated = Ok s"
    and "\<And>pk sk. generated = Some (pk, sk) \<Longrightarrow> length sk = 64 \<and> pk = ed_public ed sk"
  shows "signer_ok ed s"
  using assms by (auto simp: NewSigner_def signer_ok_def split: if_splits option.splits prod.splits)

lemma signature_roundtrip:
  assumes "ed25519_correct ed" and "signer_ok ed s"
  obtains sg where "SignString ed s text = Ok sg" and "sg \<noteq> ''''" and "GetPublicKeyHex s \<noteq> ''''"
    and "VerifyString ed s text sg = Ok True"
    and "VerifyWithPublicKey ed (GetPublicKeyHex s) (bytes_of text) sg = Ok True"
proof -
  obtain sk where sk: "privateKey s = Some sk" "length sk = 64" "publicKey s = ed_public ed sk"
    using assms(2) by (auto simp: signer_ok_def)
  then have "length (publicKey s) = 32" "length (ed_sign ed sk (bytes_of text)) = 64"
    "ed_verify ed (publicKey s) (bytes_of text) (ed_sign ed sk (bytes_of text))"
    using assms(1) by (simp_all add: ed25519_correct_def)
  moreover from this have "b64_encode (ed_sign ed sk (bytes_of text)) \<noteq> ''''" "hex_encode (publicKey s) \<noteq> ''''"
    using b64_encode_nonempty [of "ed_sign ed sk (bytes_of text)"] length_hex_encode [of "publicKey s"] by fastforce+
  ultimately show thesis using sk
    by (intro that [of "b64_encode (ed_sign ed sk (bytes_of text))"]) (simp_all add: SignString_def sign_data_def VerifyString_def verify_data_def
        VerifyWithPublicKey_def GetPublicKeyHex_def roundtrips)
qed

text \<open>
  The initialisation runs once, so its error is reported once: after a failed first call every later
  call returns a nil signer and no error.
\<close>

lemma GetDefaultSigner_after_failure:
  assumes "GetDefaultSigner ed env_key generated sign_start = (s, Some e, st)"
  shows "GetDefaultSigner ed env_key' generated' st = (None, None, st)"
  using assms by (auto simp: GetDefaultSigner_def sign_start_def split: outcome.splits)

end
