(* ===== verification/CertModel.thy ===== *)
theory CertModel
  imports Sign Evidence Merkle
begin

text \<open>
  Certificates as the server keeps them: the structs of \<open>server/internal/cert/model.go\<close> (a pointer is an
  option; the names the offline verifier also uses end in \<open>S\<close>), the table \<open>certificates\<close> and the WORM
  storage of \<open>server/internal/store/worm.go\<close>.

  A row keeps the JSON of its certificate in a value of type \<open>'j\<close>, whose encoder and decoder are
  parameters. The table has the constraints its \<open>CREATE TABLE\<close> states: \<open>cert_id\<close> is unique, and a text
  longer than its column is refused. \<open>schema\<close> holds the column widths, which differ between
  \<open>scripts/init.sql\<close> and \<open>server/deploy/init.sql\<close>. The object store of the WORM storage is a map; \<open>put\<close>
  stands for the answer of the MinIO client.
\<close>

subsection \<open>The structs\<close>

record TimeProofS =
  ts_ProofType :: string
  ts_Timestamp :: time
  ts_TSAAuthority :: string
  ts_TSAToken :: string
  ts_TSACertChain :: "string list"
  ts_Signature :: string

record BlockchainProofS =
  bs_ChainID :: string
  bs_TxHash :: string
  bs_BlockHeight :: int
  bs_ContractAddress :: string

record AnchorProofS =
  as_AnchorType :: string
  as_AnchorID :: string
  as_StorageProvider :: string
  as_ObjectKey :: string
  as_AnchorTimestamp :: time
  as_Blockchain :: "BlockchainProofS option"

record DisclosurePolicy =
  PolicyID :: string
  AllowedFields :: "string list"
  MaskedFields :: "string list"
  EncryptedFields :: "string list"

record CertMetadata =
  cm_TenantID :: string
  cm_CreatedAt :: time
  cm_CreatedBy :: string
  cm_EvidenceLevel :: EvidenceLevel
  cm_PublicKey :: string

record CertificateS =
  cs_CertID :: string
  cs_CertVersion :: string
  cs_SchemaVersion :: string
  cs_TraceID :: string
  cs_EventHashes :: "string list"
  cs_MerkleTree :: "tree option"
  cs_RootHash :: string
  cs_TimeProof :: "TimeProofS option"
  cs_AnchorProof :: "AnchorProofS option"
  cs_DisclosurePolicy :: "DisclosurePolicy option"
  cs_Metadata :: "CertMetadata option"

record DisclosedEventS =
  de_EventIndex :: int
  de_EventType :: string
  de_EventHash :: string
  de_DisclosedFields :: "string \<rightharpoonup> string"

record EventMerkleProofS =
  em_EventIndex :: int
  em_EventHash :: string
  em_ProofPath :: "proof_node list"

record VerificationInstructions =
  VerifierURL :: string
  VerifyCommand :: string

record MinimalDisclosureProof =
  mdp_SchemaVersion :: string
  mdp_CertID :: string
  mdp_RootHash :: string
  mdp_DisclosedEvents :: "DisclosedEventS list"
  mdp_MerkleProofs :: "EventMerkleProofS list"
  mdp_TimeProof :: "TimeProofS option"
  mdp_AnchorProof :: "AnchorProofS option"
  mdp_Instructions :: "VerificationInstructions option"

subsection \<open>The table\<close>

record 'j cert_row =
  rw_cert_id :: string
  rw_trace_id :: string
  rw_tenant_id :: string
  rw_root_hash :: string
  rw_event_count :: nat
  rw_evidence_level :: string
  rw_cert_data :: 'j
  rw_created_at :: time

record schema =
  id_width :: nat
  hash_width :: nat
  level_width :: nat

definition scripts_schema :: schema where
  "scripts_schema = \<lparr>id_width = 50, hash_width = 100, level_width = 10\<rparr>"

definition deploy_schema :: schema where
  "deploy_schema = \<lparr>id_width = 64, hash_width = 128, level_width = 8\<rparr>"

definition row_fits :: "schema \<Rightarrow> 'j cert_row \<Rightarrow> bool" where
  "row_fits s r \<longleftrightarrow> length (rw_cert_id r) \<le> id_width s \<and> length (rw_trace_id r) \<le> id_width s
     \<and> length (rw_tenant_id r) \<le> id_width s \<and> length (rw_root_hash r) \<le> hash_width s
     \<and> length (rw_evidence_level r) \<le> level_width s"

definition insert_row :: "schema \<Rightarrow> 'j cert_row \<Rightarrow> 'j cert_row list \<Rightarrow> 'j cert_row list option" where
  "insert_row s r rows =
     (if row_fits s r \<and> rw_cert_id r \<notin> rw_cert_id ` set rows then Some (rows @ [r]) else None)"

lemma insert_row_distinct:
  "insert_row s r rows = Some rows' \<Longrightarrow> distinct (map rw_cert_id rows) \<Longrightarrow> distinct (map rw_cert_id rows')"
  by (auto simp: insert_row_def split: if_splits)

subsection \<open>WORM storage\<close>

record WORMStorage =
  ws_bucket :: string
  ws_retentionDays :: int

record WORMUploadResult =
  wr_ObjectKey :: string
  wr_ETag :: string
  wr_VersionID :: string
  wr_RetentionMode :: string
  wr_RetentionDate :: time

datatype worm_error = MarshalFailed | UploadFailed | GetFailed

definition NewWORMStorage :: "string \<Rightarrow> int \<Rightarrow> WORMStorage" where
  "NewWORMStorage bucket retentionDays =
     \<lparr>ws_bucket = bucket, ws_retentionDays = (if retentionDays \<le> 0 then 365 else retentionDays)\<rparr>"

text \<open>
  \<open>day\<close> formats a date as \<open>2006/01/02\<close>; the answer of \<open>put\<close> is the ETag and the version. A failure to set
  the retention is only printed, so it is not a branch.
\<close>

definition StoreCertificate :: "WORMStorage \<Rightarrow> (time \<Rightarrow> string) \<Rightarrow> ('c \<Rightarrow> 'j option)
    \<Rightarrow> (string \<Rightarrow> 'j \<Rightarrow> (string \<times> string) option) \<Rightarrow> time \<Rightarrow> string \<Rightarrow> 'c
    \<Rightarrow> (string \<rightharpoonup> 'j) \<Rightarrow> (worm_error, WORMUploadResult) outcome \<times> (string \<rightharpoonup> 'j)" where
  "StoreCertificate w day marshal put now certID certData objects =
     (case marshal certData of
        None \<Rightarrow> (Err MarshalFailed, objects)
      | Some data \<Rightarrow>
          let objectKey = ''certs/'' @ day now @ ''/'' @ certID @ ''.json'';
              retentionDate = now + ws_retentionDays w * 24 * 3600000000000
          in (case put objectKey data of
                None \<Rightarrow> (Err UploadFailed, objects)
              | Some (etag, version) \<Rightarrow>
                  (Ok \<lparr>wr_ObjectKey = objectKey, wr_ETag = etag, wr_VersionID = version,
                       wr_RetentionMode = ''GOVERNANCE'', wr_RetentionDate = retentionDate\<rparr>,
                   objects(objectKey \<mapsto> data))))"

definition GetCertificate :: "(string \<rightharpoonup> 'j) \<Rightarrow> string \<Rightarrow> (worm_error, 'j) outcome" where
  "GetCertificate objects objectKey =
     (case objects objectKey of None \<Rightarrow> Err GetFailed | Some data \<Rightarrow> Ok data)"

lemma StoreCertificate_Get:
  assumes "StoreCertificate w day marshal put now certID c objects = (Ok r, objects')"
  shows "\<exists>j. marshal c = Some j \<and> GetCertificate objects' (wr_ObjectKey r) = Ok j
    \<and> wr_RetentionDate r = now + ws_retentionDays w * 24 * 3600000000000"
  using assms by (auto simp: StoreCertificate_def GetCertificate_def Let_def split: option.splits)

end
