(* ===== verification/Certs.thy ===== *)
theory Certs
  imports CertModel
begin

text \<open>
  The certificate handlers: \<open>server/internal/api/certs.go\<close>, \<open>certs_verify.go\<close> and \<open>certs_search.go\<close>.

  A handler maps the request, the tenant the middleware has set, and the state to a response or an
  error (status and text). The state is the table of certificates, the package state of the signer,
  and the objects of the WORM storage. \<open>cert_world\<close> is what does not change while the server runs: the
  signature functions, JSON, the formats of a time, the schema; \<open>commit_call\<close> what one call of
  \<open>CommitCert\<close> meets: identifiers, clock, the answer of the event query, of the object store and of
  the database. A request whose body does not bind is \<open>None\<close>. Times are in the server's zone.
\<close>

type_synonym http_error = "nat \<times> string"

record 'j cert_world =
  cw_ed :: ed25519
  cw_env_key :: string
  cw_rfc3339 :: "time \<Rightarrow> string"
  cw_summary_time :: "time \<Rightarrow> string"
  cw_day :: "time \<Rightarrow> string"
  cw_marshal :: "CertificateS \<Rightarrow> 'j option"
  cw_unmarshal :: "'j \<Rightarrow> CertificateS option"
  cw_schema :: schema
  cw_minio :: bool
  cw_bucket :: string

record 'j commit_call =
  cc_uuid_cert :: string
  cc_uuid_anchor :: string
  cc_now :: time
  cc_worm_at :: time
  cc_stored_at :: time
  cc_generated :: "(bytes \<times> bytes) option"
  cc_query :: "string \<Rightarrow> string \<Rightarrow> (string option list \<times> bool) option"
  cc_put :: "string \<Rightarrow> 'j \<Rightarrow> (string \<times> string) option"
  cc_exec_ok :: bool

record 'j cert_state =
  st_rows :: "'j cert_row list"
  st_sign :: sign_state
  st_objects :: "string \<rightharpoonup> 'j"

record CommitCertRequest =
  cq_TraceID :: string
  cq_EvidenceLevel :: string

record CommitResponse =
  co_cert_id :: string
  co_trace_id :: string
  co_root_hash :: string
  co_event_count :: nat
  co_evidence_level :: EvidenceLevel
  co_evidence_description :: string
  co_time_proof :: "TimeProofS option"
  co_anchor_proof :: "AnchorProofS option"
  co_created_at :: time
  co_next_steps :: "string list"

subsection \<open>Committing\<close>

text \<open>The rows of the query; a row that does not scan is skipped.\<close>

definition scan_hashes :: "string option list \<Rightarrow> string list" where
  "scan_hashes rows = List.map_filter id rows"

definition level_description :: "EvidenceLevel \<Rightarrow> string" where
  "level_description l =
     (if l = EvidenceLevelInternal then ''Internal audit level - Ed25519 signed, instant generation''
      else if l = EvidenceLevelCompliance then ''Compliance level - WORM storage with TSA timestamp''
      else if l = EvidenceLevelLegal then ''Legal evidence level - Blockchain anchored'' else '''')"

definition new_certificate :: "'j commit_call \<Rightarrow> string \<Rightarrow> string \<Rightarrow> string list \<Rightarrow> tree \<Rightarrow> EvidenceLevel
    \<Rightarrow> string \<Rightarrow> string \<Rightarrow> CertificateS" where
  "new_certificate call tenantID traceID eventHashes tree level signature pub =
     \<lparr>cs_CertID = ''cert_'' @ take 12 (cc_uuid_cert call), cs_CertVersion = ''1.0'', cs_SchemaVersion = ''0.1'',
      cs_TraceID = traceID, cs_EventHashes = eventHashes, cs_MerkleTree = Some tree, cs_RootHash = GetRoot tree,
      cs_TimeProof = Some \<lparr>ts_ProofType = ''local'', ts_Timestamp = cc_now call, ts_TSAAuthority = '''',
        ts_TSAToken = '''', ts_TSACertChain = [], ts_Signature = signature\<rparr>,
      cs_AnchorProof = Some \<lparr>as_AnchorType = ''local'', as_AnchorID = ''anchor_'' @ take 8 (cc_uuid_anchor call),
        as_StorageProvider = '''', as_ObjectKey = '''', as_AnchorTimestamp = cc_now call, as_Blockchain = None\<rparr>,
      cs_DisclosurePolicy = None,
      cs_Metadata = Some \<lparr>cm_TenantID = tenantID, cm_CreatedAt = cc_now call, cm_CreatedBy = ''ai-trace-server/v0.1'',
        cm_EvidenceLevel = level, cm_PublicKey = pub\<rparr>\<rparr>"

definition set_anchor :: "(AnchorProofS \<Rightarrow> AnchorProofS) \<Rightarrow> CertificateS \<Rightarrow> CertificateS" where
  "set_anchor f c = c\<lparr>cs_AnchorProof := map_option f (cs_AnchorProof c)\<rparr>"

text \<open>The compliance branch: the certificate is written before the answer is entered in its anchor proof.\<close>

definition worm_branch :: "'j cert_world \<Rightarrow> 'j commit_call \<Rightarrow> CertificateS \<Rightarrow> (string \<rightharpoonup> 'j)
    \<Rightarrow> CertificateS \<times> (string \<rightharpoonup> 'j)" where
  "worm_branch w call c objects =
     (let c1 = set_anchor (\<lambda>a. a\<lparr>as_AnchorType := ''worm'', as_StorageProvider := ''minio''\<rparr>) c in
      if cw_minio w
      then (case StoreCertificate (NewWORMStorage (cw_bucket w) 365) (cw_day w) (cw_marshal w) (cc_put call)
                   (cc_worm_at call) (cs_CertID c1) c1 objects of
          (Ok r, objects') \<Rightarrow>
            (set_anchor (\<lambda>a. a\<lparr>as_ObjectKey := wr_ObjectKey r, as_AnchorID := wr_ETag r\<rparr>) c1, objects')
        | (_, objects') \<Rightarrow> (c1, objects'))
      else (c1, objects))"

definition commit_steps :: "string \<Rightarrow> string list" where
  "commit_steps certID =
     [''Verify: curl -X POST /api/v1/certs/verify -d '' @ [CHR 0x27] @ ''{'' @ [CHR 0x22] @ ''cert_id'' @ [CHR 0x22] @ '':''
        @ [CHR 0x22] @ certID @ [CHR 0x22] @ ''}'' @ [CHR 0x27],
      ''Retrieve: curl /api/v1/certs/'' @ certID,
      ''Generate proof: curl -X POST /api/v1/certs/'' @ certID @ ''/prove'']"

text \<open>The end of the handler: serialise, insert, answer.\<close>

definition row_of :: "'j commit_call \<Rightarrow> string \<Rightarrow> EvidenceLevel \<Rightarrow> CertificateS \<Rightarrow> 'j \<Rightarrow> 'j cert_row" where
  "row_of call tenantID level c certJSON =
     \<lparr>rw_cert_id = cs_CertID c, rw_trace_id = cs_TraceID c, rw_tenant_id = tenantID, rw_root_hash = cs_RootHash c,
      rw_event_count = length (cs_EventHashes c), rw_evidence_level = level, rw_cert_data = certJSON,
      rw_created_at = cc_stored_at call\<rparr>"

definition store_certificate :: "'j cert_world \<Rightarrow> 'j commit_call \<Rightarrow> string \<Rightarrow> EvidenceLevel \<Rightarrow> CertificateS
    \<Rightarrow> 'j cert_state \<Rightarrow> (http_error, CommitResponse) outcome \<times> 'j cert_state" where
  "store_certificate w call tenantID level c st =
     (case cw_marshal w c of
        None \<Rightarrow> (Err (500, ''Failed to serialize certificate''), st)
      | Some certJSON \<Rightarrow>
          (case (if cc_exec_ok call then insert_row (cw_schema w) (row_of call tenantID level c certJSON) (st_rows st)
                   else None) of
                None \<Rightarrow> (Err (500, ''Failed to store certificate''), st)
              | Some rows \<Rightarrow>
                  (Ok \<lparr>co_cert_id = cs_CertID c, co_trace_id = cs_TraceID c, co_root_hash = cs_RootHash c,
                       co_event_count = length (cs_EventHashes c), co_evidence_level = level,
                       co_evidence_description = level_description level, co_time_proof = cs_TimeProof c,
                       co_anchor_proof = cs_AnchorProof c, co_created_at = cc_now call,
                       co_next_steps = commit_steps (cs_CertID c)\<rparr>, st\<lparr>st_rows := rows\<rparr>)))"

text \<open>The handler from the signature on.\<close>

definition sign_and_store :: "'j cert_world \<Rightarrow> 'j commit_call \<Rightarrow> string \<Rightarrow> string \<Rightarrow> string list \<Rightarrow> tree
    \<Rightarrow> EvidenceLevel \<Rightarrow> Signer \<Rightarrow> 'j cert_state \<Rightarrow> (http_error, CommitResponse) outcome \<times> 'j cert_state" where
  "sign_and_store w call tenantID traceID eventHashes tree evidenceLevel signer st =
     (let certID = ''cert_'' @ take 12 (cc_uuid_cert call) in
      case SignCertificate (cw_ed w) signer certID (GetRoot tree) evidenceLevel (cw_rfc3339 w (cc_now call)) of
        Panic \<Rightarrow> (Panic, st)
      | Err _ \<Rightarrow> (Err (500, ''Failed to sign certificate''), st)
      | Ok signature \<Rightarrow>
          let c = new_certificate call tenantID traceID eventHashes tree evidenceLevel signature (GetPublicKeyHex signer);
              (c, objects) = (if evidenceLevel = EvidenceLevelCompliance
                then worm_branch w call c (st_objects st) else (c, st_objects st))
          in store_certificate w call tenantID evidenceLevel c (st\<lparr>st_objects := objects\<rparr>))"

definition CommitCert :: "'j cert_world \<Rightarrow> 'j commit_call \<Rightarrow> string \<Rightarrow> CommitCertRequest option
    \<Rightarrow> 'j cert_state \<Rightarrow> (http_error, CommitResponse) outcome \<times> 'j cert_state" where
  "CommitCert w call tenantID req st =
     (case req of
        None \<Rightarrow> (Err (400, ''Invalid request body''), st)
      | Some req \<Rightarrow>
        if cq_TraceID req = '''' then (Err (400, ''Invalid request body''), st)
        else case cc_query call (cq_TraceID req) tenantID of
          None \<Rightarrow> (Err (500, ''Failed to query events''), st)
        | Some (rows, rowsErr) \<Rightarrow>
          let eventHashes = scan_hashes rows in
          if rowsErr then (Err (500, ''Failed to read events''), st)
          else if length eventHashes = 0 then (Err (404, ''No events found for trace_id''), st)
          else case NewTree eventHashes of
            Panic \<Rightarrow> (Panic, st)
          | Err _ \<Rightarrow> (Err (500, ''Failed to build merkle tree''), st)
          | Ok tree \<Rightarrow>
            let level = ParseEvidenceLevel (cq_EvidenceLevel req);
                evidenceLevel = (if level = '''' then EvidenceLevelInternal else level)
            in case GetDefaultSigner (cw_ed w) (cw_env_key w) (cc_generated call) (st_sign st) of
                (_, Some _, sg) \<Rightarrow> (Err (500, ''Signing service unavailable''), st\<lparr>st_sign := sg\<rparr>)
              | (None, None, sg) \<Rightarrow> (Panic, st\<lparr>st_sign := sg\<rparr>)
              | (Some signer, None, sg) \<Rightarrow>
                sign_and_store w call tenantID (cq_TraceID req) eventHashes tree evidenceLevel signer
                  (st\<lparr>st_sign := sg\<rparr>))"

subsection \<open>Verifying\<close>

record VerifyCertRequest =
  vq_CertID :: string
  vq_RootHash :: string

record cert_check =
  ck_passed :: bool
  ck_message :: string
  ck_type :: string
  ck_anchor_id :: string
  ck_timestamp :: "time option"

definition check_message :: "bool \<Rightarrow> string \<Rightarrow> cert_check" where
  "check_message ok msg = \<lparr>ck_passed = ok, ck_message = msg, ck_type = '''', ck_anchor_id = '''', ck_timestamp = None\<rparr>"

record VerificationSummary =
  sm_status :: string
  sm_message :: string
  sm_trace_id :: "string option"
  sm_event_count :: "nat option"
  sm_evidence_level :: "string option"
  sm_created_at :: "string option"
  sm_evidence_description :: "string option"

record VerifyResponse =
  vr_valid :: bool
  vr_summary :: VerificationSummary
  vr_checks :: "(string \<times> cert_check) list"
  vr_certificate :: CertificateS
  vr_next_steps :: "string list"

text \<open>The database returns one matching row: the first in the order of insertion.\<close>

definition query_row :: "('j cert_row \<Rightarrow> bool) \<Rightarrow> string \<Rightarrow> 'j cert_state \<Rightarrow> 'j cert_row option" where
  "query_row P tenantID st = List.find (\<lambda>r. P r \<and> rw_tenant_id r = tenantID) (st_rows st)"

definition summary_description :: "EvidenceLevel \<Rightarrow> string option" where
  "summary_description l =
     (if l = ''internal'' then Some ''Internal audit level - Ed25519 signed, suitable for development and team reviews''
      else if l = ''compliance'' then Some ''Compliance level - WORM storage with TSA timestamp, suitable for SOC2/GDPR/HIPAA''
      else if l = ''legal''
        then Some ''Legal evidence level - Blockchain anchored, suitable for legal disputes and court proceedings''
      else None)"

definition buildVerificationSummary :: "'j cert_world \<Rightarrow> bool \<Rightarrow> CertificateS option \<Rightarrow> bool \<Rightarrow> bool
    \<Rightarrow> VerificationSummary" where
  "buildVerificationSummary w valid c hashOK sigOK =
     (let meta = (case c of None \<Rightarrow> None | Some c \<Rightarrow> cs_Metadata c) in
      \<lparr>sm_status = (if valid then ''VERIFIED'' else ''FAILED''),
       sm_message =
         (if valid then ''This certificate is valid and has not been tampered with.''
          else if \<not> hashOK then ''Certificate integrity check failed - the data may have been modified.''
          else if \<not> sigOK then ''Signature verification failed - the certificate may not be authentic.''
          else ''Verification failed due to unknown reasons.''),
       sm_trace_id = map_option cs_TraceID c,
       sm_event_count = map_option (\<lambda>c. length (cs_EventHashes c)) c,
       sm_evidence_level = map_option cm_EvidenceLevel meta,
       sm_created_at = map_option (\<lambda>m. cw_summary_time w (cm_CreatedAt m)) meta,
       sm_evidence_description = (case meta of None \<Rightarrow> None | Some m \<Rightarrow> summary_description (cm_EvidenceLevel m))\<rparr>)"

definition buildNextSteps :: "bool \<Rightarrow> CertificateS option \<Rightarrow> string list" where
  "buildNextSteps valid c =
     (if valid
      then [''You can share this verification result as proof of AI decision audit'',
            ''Use GET /api/v1/certs/{cert_id} to retrieve the full certificate'',
            ''Use POST /api/v1/certs/{cert_id}/prove to generate a minimal disclosure proof'']
      else [''Re-generate the certificate using POST /api/v1/certs/commit'',
            ''Check if the original trace events still exist'',
            ''Contact support if this error persists''])"

text \<open>The signature check: it needs a time proof with a signature and a public key in the metadata.\<close>

definition signature_valid :: "'j cert_world \<Rightarrow> CertificateS \<Rightarrow> bool" where
  "signature_valid w c =
     (case (cs_TimeProof c, cs_Metadata c) of
        (Some tp, Some m) \<Rightarrow>
          if ts_Signature tp \<noteq> '''' \<and> cm_PublicKey m \<noteq> ''''
          then (case VerifyWithPublicKey (cw_ed w) (cm_PublicKey m)
                  (bytes_of (cs_CertID c @ ''|'' @ cs_RootHash c @ ''|'' @ cm_EvidenceLevel m @ ''|''
                    @ cw_rfc3339 w (ts_Timestamp tp)))
                  (ts_Signature tp) of
              Ok verified \<Rightarrow> verified
            | _ \<Rightarrow> False)
          else False
      | _ \<Rightarrow> False)"

definition time_checks :: "bool \<Rightarrow> TimeProofS option \<Rightarrow> (string \<times> cert_check) list" where
  "time_checks signatureValid timeProof =
     (case timeProof of
        Some tp \<Rightarrow>
          [(''time_proof'', \<lparr>ck_passed = True, ck_message = '''', ck_type = ts_ProofType tp, ck_anchor_id = '''',
             ck_timestamp = Some (ts_Timestamp tp)\<rparr>),
           (''signature'', check_message signatureValid
             (if signatureValid then ''Ed25519 signature verified''
              else ''Signature verification failed or not available''))]
      | None \<Rightarrow>
          [(''time_proof'', check_message False ''Time proof not available''),
           (''signature'', check_message False ''No signature available'')])"

definition anchor_checks :: "AnchorProofS option \<Rightarrow> (string \<times> cert_check) list" where
  "anchor_checks anchorProof =
     [(''anchor_proof'',
       case anchorProof of
         Some a \<Rightarrow> \<lparr>ck_passed = True, ck_message = '''', ck_type = as_AnchorType a, ck_anchor_id = as_AnchorID a,
           ck_timestamp = Some (as_AnchorTimestamp a)\<rparr>
       | None \<Rightarrow> check_message False ''Anchor proof not available'')]"

definition VerifyCert :: "'j cert_world \<Rightarrow> string \<Rightarrow> VerifyCertRequest option \<Rightarrow> 'j cert_state
    \<Rightarrow> (http_error, VerifyResponse) outcome" where
  "VerifyCert w tenantID req st =
     (case req of
        None \<Rightarrow> Err (400, ''Invalid request body'')
      | Some req \<Rightarrow>
        if vq_CertID req = '''' \<and> vq_RootHash req = '''' then Err (400, ''cert_id or root_hash is required'')
        else case (if vq_CertID req \<noteq> '''' then query_row (\<lambda>r. rw_cert_id r = vq_CertID req) tenantID st
                   else query_row (\<lambda>r. rw_root_hash r = vq_RootHash req) tenantID st) of
          None \<Rightarrow> Err (404, ''Certificate not found'')
        | Some row \<Rightarrow>
          (case cw_unmarshal w (rw_cert_data row) of
             None \<Rightarrow> Err (500, ''Failed to parse certificate'')
           | Some certificate \<Rightarrow>
             (case NewTree (cs_EventHashes certificate) of
                Panic \<Rightarrow> Panic
              | Err _ \<Rightarrow> Err (500, ''Failed to rebuild merkle tree'')
              | Ok verifyTree \<Rightarrow>
                let hashIntegrity = (GetRoot verifyTree = cs_RootHash certificate);
                    signatureValid = signature_valid w certificate;
                    valid = (hashIntegrity \<and> signatureValid)
                in Ok \<lparr>vr_valid = valid,
                       vr_summary = buildVerificationSummary w valid (Some certificate) hashIntegrity signatureValid,
                       vr_checks =
                         [(''hash_integrity'', check_message hashIntegrity ''Event hashes match merkle root''),
                          (''merkle_root'', check_message hashIntegrity ''Root hash verified'')]
                         @ time_checks signatureValid (cs_TimeProof certificate)
                         @ anchor_checks (cs_AnchorProof certificate),
                       vr_certificate = certificate,
                       vr_next_steps = buildNextSteps valid (Some certificate)\<rparr>)))"

subsection \<open>Looking up\<close>

definition GetCert :: "'j cert_world \<Rightarrow> string \<Rightarrow> string \<Rightarrow> 'j cert_state \<Rightarrow> (http_error, CertificateS) outcome" where
  "GetCert w tenantID certID st =
     (case query_row (\<lambda>r. rw_cert_id r = certID) tenantID st of
        None \<Rightarrow> Err (404, ''Certificate not found'')
      | Some row \<Rightarrow>
          (case cw_unmarshal w (rw_cert_data row) of
             None \<Rightarrow> Err (500, ''Failed to parse certificate data'')
           | Some certificate \<Rightarrow> Ok certificate))"

subsection \<open>What a committed certificate holds\<close>

lemma set_anchor_simps [simp]:
  "cs_CertID (set_anchor f c) = cs_CertID c" "cs_TraceID (set_anchor f c) = cs_TraceID c"
  "cs_EventHashes (set_anchor f c) = cs_EventHashes c" "cs_MerkleTree (set_anchor f c) = cs_MerkleTree c"
  "cs_RootHash (set_anchor f c) = cs_RootHash c" "cs_TimeProof (set_anchor f c) = cs_TimeProof c"
  "cs_Metadata (set_anchor f c) = cs_Metadata c"
  "set_anchor f (set_anchor g c) = set_anchor (f \<circ> g) c"
  by (simp_all add: set_anchor_def option.map_comp)

lemma set_anchor_id: "set_anchor id c = c"
  by (simp add: set_anchor_def option.map_id)

lemma worm_branch_anchor: "\<exists>f objects'. worm_branch w call c objects = (set_anchor f c, objects')"
proof (cases "cw_minio w")
  case True
  let ?c1 = "set_anchor (\<lambda>a. a\<lparr>as_AnchorType := ''worm'', as_StorageProvider := ''minio''\<rparr>) c"
  obtain r objects' where s: "StoreCertificate (NewWORMStorage (cw_bucket w) 365) (cw_day w) (cw_marshal w) (cc_put call)
      (cc_worm_at call) (cs_CertID ?c1) ?c1 objects = (r, objects')" by (meson surj_pair)
  show ?thesis using True s by (cases r) (auto simp: worm_branch_def Let_def comp_def)
qed (auto simp: worm_branch_def Let_def)

text \<open>
  The object is the certificate before the answer of the object store is entered: it names no object
  key, and the anchor id of the row is not the one in the object.
\<close>

lemma worm_branch_stored:
  assumes "cw_minio w" and "cw_marshal w c1 = Some data"
    and c1: "c1 = set_anchor (\<lambda>a. a\<lparr>as_AnchorType := ''worm'', as_StorageProvider := ''minio''\<rparr>) c"
    and key: "key = ''certs/'' @ cw_day w (cc_worm_at call) @ ''/'' @ cs_CertID c @ ''.json''"
    and "cc_put call key data = Some (etag, version)"
  shows "worm_branch w call c objects
    = (set_anchor (\<lambda>a. a\<lparr>as_ObjectKey := key, as_AnchorID := etag\<rparr>) c1, objects(key \<mapsto> data))"
proof -
  have "cs_CertID c1 = cs_CertID c" by (simp add: c1)
  then have "StoreCertificate (NewWORMStorage (cw_bucket w) 365) (cw_day w) (cw_marshal w) (cc_put call)
      (cc_worm_at call) (cs_CertID c1) c1 objects
    = (Ok \<lparr>wr_ObjectKey = key, wr_ETag = etag, wr_VersionID = version, wr_RetentionMode = ''GOVERNANCE'',
         wr_RetentionDate = cc_worm_at call + 365 * 24 * 3600000000000\<rparr>, objects(key \<mapsto> data))"
    using assms(2,5) by (simp add: StoreCertificate_def NewWORMStorage_def key [symmetric] del: append.simps)
  then show ?thesis using assms(1) by (simp add: worm_branch_def c1 [symmetric])
qed

lemma store_certificate_Ok:
  assumes "store_certificate w call tenantID level c st = (Ok resp, st')"
  shows "\<exists>j. cw_marshal w c = Some j
    \<and> cs_CertID c \<notin> rw_cert_id ` set (st_rows st)
    \<and> length level \<le> level_width (cw_schema w)
    \<and> st' = st\<lparr>st_rows := st_rows st @ [row_of call tenantID level c j]\<rparr> \<and> co_cert_id resp = cs_CertID c \<and> co_root_hash resp = cs_RootHash c
    \<and> co_event_count resp = length (cs_EventHashes c) \<and> co_evidence_level resp = level"
  using assms by (auto simp: store_certificate_def insert_row_def row_fits_def row_of_def
      split: option.splits if_splits)

text \<open>The facts behind a successful call, as an elimination rule.\<close>

lemma CommitCert_OkE:
  assumes "CommitCert w call tenantID req st = (Ok resp, st')"
  obtains rq rows tree level signer sg signature f row where
    "req = Some rq" "cc_query call (cq_TraceID rq) tenantID = Some (rows, False)" "scan_hashes rows \<noteq> []"
    "NewTree (scan_hashes rows) = Ok tree"
    "GetDefaultSigner (cw_ed w) (cw_env_key w) (cc_generated call) (st_sign st) = (Some signer, None, sg)"
    "SignCertificate (cw_ed w) signer (''cert_'' @ take 12 (cc_uuid_cert call)) (GetRoot tree) level
       (cw_rfc3339 w (cc_now call)) = Ok signature"
    "cw_marshal w (set_anchor f (new_certificate call tenantID (cq_TraceID rq) (scan_hashes rows) tree level signature
       (GetPublicKeyHex signer))) = Some (rw_cert_data row)"
    "rw_cert_id row = ''cert_'' @ take 12 (cc_uuid_cert call)" "rw_tenant_id row = tenantID"
    "rw_cert_id row \<notin> rw_cert_id ` set (st_rows st)" "length level \<le> level_width (cw_schema w)"
    "st_rows st' = st_rows st @ [row]" "st_sign st' = sg" "co_cert_id resp = rw_cert_id row"
    "co_root_hash resp = GetRoot tree" "co_event_count resp = length (scan_hashes rows)"
    "co_evidence_level resp = level" "level = ParseEvidenceLevel (cq_EvidenceLevel rq)"
proof -
  obtain rq where rq: "req = Some rq" and tr: "cq_TraceID rq \<noteq> ''''"
    using assms by (auto simp: CommitCert_def split: option.splits if_splits)
  obtain rows where rows: "cc_query call (cq_TraceID rq) tenantID = Some (rows, False)" "scan_hashes rows \<noteq> []"
    using assms rq tr by (auto simp: CommitCert_def Let_def split: option.splits if_splits prod.splits)
  obtain tree where tree: "NewTree (scan_hashes rows) = Ok tree" using NewTree_Ok rows(2) by blast
  have nonempty: "ParseEvidenceLevel x \<noteq> ''''" for x by (simp add: ParseEvidenceLevel_def Let_def level_defs)
  define level where "level = (if ParseEvidenceLevel (cq_EvidenceLevel rq) = '''' then EvidenceLevelInternal
    else ParseEvidenceLevel (cq_EvidenceLevel rq))"
  obtain s e sg where sg: "GetDefaultSigner (cw_ed w) (cw_env_key w) (cc_generated call) (st_sign st) = (s, e, sg)"
    using prod_cases3 by blast
  have "e = None" and "s \<noteq> None"
    using assms rq tr rows tree by (auto simp: CommitCert_def Let_def sg split: option.splits)
  then obtain signer where se: "s = Some signer" "e = None" by auto
  have tail: "sign_and_store w call tenantID (cq_TraceID rq) (scan_hashes rows) tree level signer (st\<lparr>st_sign := sg\<rparr>)
      = (Ok resp, st')"
    using assms rq tr rows tree by (simp add: CommitCert_def Let_def sg se level_def)
  then obtain signature where sig: "SignCertificate (cw_ed w) signer (''cert_'' @ take 12 (cc_uuid_cert call))
      (GetRoot tree) level (cw_rfc3339 w (cc_now call)) = Ok signature"
    by (auto simp: sign_and_store_def Let_def split: outcome.splits)
  let ?c = "new_certificate call tenantID (cq_TraceID rq) (scan_hashes rows) tree level signature (GetPublicKeyHex signer)"
  obtain f objects where f: "(if level = EvidenceLevelCompliance then worm_branch w call ?c
      (st_objects (st\<lparr>st_sign := sg\<rparr>)) else (?c, st_objects (st\<lparr>st_sign := sg\<rparr>))) = (set_anchor f ?c, objects)"
    using worm_branch_anchor [of w call ?c "st_objects (st\<lparr>st_sign := sg\<rparr>)"] set_anchor_id [of ?c] by (metis (full_types))
  have "store_certificate w call tenantID level (set_anchor f ?c) (st\<lparr>st_sign := sg, st_objects := objects\<rparr>) = (Ok resp, st')"
    using tail sig f by (simp add: sign_and_store_def Let_def)
  from store_certificate_Ok [OF this] show thesis
    by (elim exE conjE) (rule that [OF rq rows tree _ sig, of sg f], auto simp: sg se new_certificate_def row_of_def level_def nonempty)
qed

subsection \<open>Rows and later calls\<close>

fun commit_all :: "'j cert_world \<Rightarrow> ('j commit_call \<times> string \<times> CommitCertRequest option) list \<Rightarrow> 'j cert_state
    \<Rightarrow> 'j cert_state" where
  "commit_all w [] st = st"
| "commit_all w ((call, tenantID, req) # calls) st = commit_all w calls (snd (CommitCert w call tenantID req st))"

definition appends_row :: "'j cert_state \<Rightarrow> 'j cert_state \<Rightarrow> bool" where
  "appends_row st st' \<longleftrightarrow> st_rows st' = st_rows st
     \<or> (\<exists>row. st_rows st' = st_rows st @ [row] \<and> rw_cert_id row \<notin> rw_cert_id ` set (st_rows st))"

lemma store_certificate_rows: "appends_row st (snd (store_certificate w call tenantID level c st))"
  by (auto simp: appends_row_def store_certificate_def insert_row_def split: option.splits)

lemma sign_and_store_rows:
  "appends_row st (snd (sign_and_store w call tenantID tr hs tree level signer st))"
proof (cases "SignCertificate (cw_ed w) signer (''cert_'' @ take 12 (cc_uuid_cert call)) (GetRoot tree) level
    (cw_rfc3339 w (cc_now call))")
  case (Ok signature)
  let ?c = "new_certificate call tenantID tr hs tree level signature (GetPublicKeyHex signer)"
  obtain c objects where c: "(if level = EvidenceLevelCompliance then worm_branch w call ?c (st_objects st)
      else (?c, st_objects st)) = (c, objects)" by (meson surj_pair)
  have "sign_and_store w call tenantID tr hs tree level signer st
      = store_certificate w call tenantID level c (st\<lparr>st_objects := objects\<rparr>)"
    using Ok c by (simp add: sign_and_store_def)
  then show ?thesis using store_certificate_rows [of "st\<lparr>st_objects := objects\<rparr>"] by (simp add: appends_row_def)
qed (simp_all add: sign_and_store_def appends_row_def)

lemma sign_and_store_rows_sign [simp]:
  "appends_row st (snd (sign_and_store w call tenantID tr hs tree level signer (st\<lparr>st_sign := sg\<rparr>)))"
  using sign_and_store_rows [of "st\<lparr>st_sign := sg\<rparr>"] by (simp add: appends_row_def)

lemma appends_row_sign [simp]: "appends_row st st" "appends_row st (st\<lparr>st_sign := sg\<rparr>)"
  by (simp_all add: appends_row_def)

lemma CommitCert_rows: "appends_row st (snd (CommitCert w call tenantID req st))"
  by (auto simp: CommitCert_def Let_def split: option.splits outcome.splits prod.splits if_splits)

lemma commit_all_rows:
  "\<exists>more. st_rows (commit_all w calls st) = st_rows st @ more
     \<and> (\<forall>r \<in> set more. rw_cert_id r \<notin> rw_cert_id ` set (st_rows st))"
proof (induction w calls st rule: commit_all.induct)
  case (2 w call tenantID req calls st)
  from 2 obtain more where more: "st_rows (commit_all w calls (snd (CommitCert w call tenantID req st)))
      = st_rows (snd (CommitCert w call tenantID req st)) @ more"
    "\<forall>r \<in> set more. rw_cert_id r \<notin> rw_cert_id ` set (st_rows (snd (CommitCert w call tenantID req st)))" by blast
  with CommitCert_rows [of st w call tenantID req] show ?case by (auto simp: appends_row_def)
qed simp

lemma find_middle: "\<forall>x \<in> set xs. \<not> P x \<Longrightarrow> List.find P (xs @ y # ys) = (if P y then Some y else List.find P ys)"
  by (induction xs) auto

lemma query_row_unique:
  assumes "st_rows st = xs @ row # ys" and "rw_cert_id row \<notin> rw_cert_id ` set xs" and "rw_cert_id row \<notin> rw_cert_id ` set ys"
  shows "query_row (\<lambda>r. rw_cert_id r = rw_cert_id row) t st = (if rw_tenant_id row = t then Some row else None)"
proof -
  have "List.find (\<lambda>r. rw_cert_id r = rw_cert_id row \<and> rw_tenant_id r = t) ys = None"
    using assms(3) by (auto simp: find_None_iff) (metis image_eqI)
  moreover have "\<forall>x \<in> set xs. \<not> (rw_cert_id x = rw_cert_id row \<and> rw_tenant_id x = t)" using assms(2) by (metis image_eqI)
  ultimately show ?thesis by (simp add: query_row_def assms(1) find_middle)
qed

subsection \<open>Hypotheses on the surroundings\<close>

text \<open>
  \<open>world_ok\<close>: the signature functions are correct, and the JSON of a certificate decodes to it.
  \<open>signing_ok\<close>: the signer, if there is one, and the generator have matching keys.
\<close>

definition world_ok :: "'j cert_world \<Rightarrow> bool" where
  "world_ok w \<longleftrightarrow> ed25519_correct (cw_ed w) \<and> (\<forall>c j. cw_marshal w c = Some j \<longrightarrow> cw_unmarshal w j = Some c)"

definition signing_ok :: "'j cert_world \<Rightarrow> 'j commit_call \<Rightarrow> 'j cert_state \<Rightarrow> bool" where
  "signing_ok w call st \<longleftrightarrow>
     (\<forall>pk sk. cc_generated call = Some (pk, sk) \<longrightarrow> length sk = 64 \<and> pk = ed_public (cw_ed w) sk)
     \<and> (\<forall>s. defaultSigner (st_sign st) = Some s \<longrightarrow> signer_ok (cw_ed w) s)"

lemma signer_of_call:
  assumes "signing_ok w call st"
    and "GetDefaultSigner (cw_ed w) (cw_env_key w) (cc_generated call) (st_sign st) = (Some s, None, sg)"
  shows "signer_ok (cw_ed w) s"
proof (cases "once_done (st_sign st)")
  case True
  then show ?thesis using assms by (auto simp: GetDefaultSigner_def signing_ok_def)
next
  case False
  then have "NewSigner (cw_ed w) (cw_env_key w) (cc_generated call) = Ok s"
    using assms(2) by (auto simp: GetDefaultSigner_def split: outcome.splits)
  then show ?thesis using assms(1) by (intro NewSigner_ok) (auto simp: signing_ok_def)
qed

lemma NewTree_root: "NewTree hs = Ok t \<Longrightarrow> hs \<noteq> [] \<and> GetRoot t = tree_root hashPair hs"
  using NewTree_Ok [of hs] by (cases "hs = []") (auto simp: NewTree_def GetRoot_def)

lemma VerifyCert_row:
  assumes "query_row (\<lambda>r. rw_cert_id r = cid) t st = Some row" and "cid \<noteq> ''''"
    and "cw_unmarshal w (rw_cert_data row) = Some c" and "cs_EventHashes c \<noteq> []"
  obtains v where "VerifyCert w t (Some \<lparr>vq_CertID = cid, vq_RootHash = rh\<rparr>) st = Ok v" and "vr_certificate v = c"
    and "vr_valid v \<longleftrightarrow> tree_root hashPair (cs_EventHashes c) = cs_RootHash c \<and> signature_valid w c"
    and "sm_status (vr_summary v) = (if vr_valid v then ''VERIFIED'' else ''FAILED'')"
  using assms NewTree_Ok [OF assms(4)]
  by (intro that) (auto simp: VerifyCert_def Let_def buildVerificationSummary_def GetRoot_def)

lemma VerifyCert_root:
  "VerifyCert w t rq st = Ok v \<Longrightarrow> vr_valid v
     \<Longrightarrow> tree_root hashPair (cs_EventHashes (vr_certificate v)) = cs_RootHash (vr_certificate v)"
  by (auto simp: VerifyCert_def Let_def dest!: NewTree_root split: option.splits outcome.splits if_splits)

lemma new_certificate_signed:
  assumes "world_ok w" and "signer_ok (cw_ed w) signer"
    and "SignCertificate (cw_ed w) signer (''cert_'' @ take 12 (cc_uuid_cert call)) (GetRoot tree) level
       (cw_rfc3339 w (cc_now call)) = Ok signature"
  shows "signature_valid w (set_anchor f (new_certificate call t tr hs tree level signature (GetPublicKeyHex signer)))"
proof -
  let ?text = "cert_text (''cert_'' @ take 12 (cc_uuid_cert call)) (GetRoot tree) level (cw_rfc3339 w (cc_now call))"
  have ed: "ed25519_correct (cw_ed w)" using assms(1) by (simp add: world_ok_def)
  obtain sg where sg: "SignString (cw_ed w) signer ?text = Ok sg" "sg \<noteq> ''''" "GetPublicKeyHex signer \<noteq> ''''"
    "VerifyWithPublicKey (cw_ed w) (GetPublicKeyHex signer) (bytes_of ?text) sg = Ok True"
    by (rule signature_roundtrip [OF ed assms(2), of ?text])
  moreover have "sg = signature" using sg(1) assms(3) by (simp add: SignCertificate_def)
  ultimately show ?thesis by (simp add: signature_valid_def new_certificate_def cert_text_def)
qed

text \<open>
  The row and the certificate of a successful call; the certificate verifies in every state in which
  its id finds the row.
\<close>

lemma CommitCert_row:
  assumes "world_ok w" and "signing_ok w call st" and "CommitCert w call t req st = (Ok resp, st')"
  obtains row c rq rows where "req = Some rq" and "cc_query call (cq_TraceID rq) t = Some (rows, False)"
    and "scan_hashes rows \<noteq> []" and "st_rows st' = st_rows st @ [row]"
    and "rw_cert_id row \<notin> rw_cert_id ` set (st_rows st)" and "rw_tenant_id row = t" and "co_cert_id resp = rw_cert_id row"
    and "cw_unmarshal w (rw_cert_data row) = Some c" and "cs_EventHashes c = scan_hashes rows"
    and "co_root_hash resp = tree_root hashPair (scan_hashes rows)" and "co_event_count resp = length (scan_hashes rows)"
    and "\<forall>st rh. query_row (\<lambda>r. rw_cert_id r = rw_cert_id row) t st = Some row \<longrightarrow> (\<exists>v.
      VerifyCert w t (Some \<lparr>vq_CertID = rw_cert_id row, vq_RootHash = rh\<rparr>) st = Ok v \<and> vr_certificate v = c
      \<and> vr_valid v \<and> sm_status (vr_summary v) = ''VERIFIED'')"
    and "rw_cert_id row \<noteq> ''''"
proof -
  from assms(3) show thesis
  proof (rule CommitCert_OkE)
    fix rq :: CommitCertRequest and rows and tree :: tree and level and signer :: Signer and sg :: sign_state
      and signature f and row :: "'a cert_row"
    let ?c = "set_anchor f (new_certificate call t (cq_TraceID rq) (scan_hashes rows) tree level signature
       (GetPublicKeyHex signer))"
    assume req: "req = Some rq" and rows: "cc_query call (cq_TraceID rq) t = Some (rows, False)" "scan_hashes rows \<noteq> []"
      and tree: "NewTree (scan_hashes rows) = Ok tree"
      and sg: "GetDefaultSigner (cw_ed w) (cw_env_key w) (cc_generated call) (st_sign st) = (Some signer, None, sg)"
      and sig: "SignCertificate (cw_ed w) signer (''cert_'' @ take 12 (cc_uuid_cert call)) (GetRoot tree) level
        (cw_rfc3339 w (cc_now call)) = Ok signature"
      and json: "cw_marshal w ?c = Some (rw_cert_data row)"
      and id: "rw_cert_id row = ''cert_'' @ take 12 (cc_uuid_cert call)" and tenant: "rw_tenant_id row = t"
      and fresh: "rw_cert_id row \<notin> rw_cert_id ` set (st_rows st)" and st': "st_rows st' = st_rows st @ [row]"
      and co: "co_cert_id resp = rw_cert_id row" "co_root_hash resp = GetRoot tree"
        "co_event_count resp = length (scan_hashes rows)"
    have dec: "cw_unmarshal w (rw_cert_data row) = Some ?c" using assms(1) json by (simp add: world_ok_def)
    have c: "cs_EventHashes ?c = scan_hashes rows" "cs_RootHash ?c = GetRoot tree" by (simp_all add: new_certificate_def)
    have root: "GetRoot tree = tree_root hashPair (scan_hashes rows)" using NewTree_root [OF tree] by simp
    have ne: "rw_cert_id row \<noteq> ''''" using id by simp
    have hne: "cs_EventHashes ?c \<noteq> []" using rows(2) by (simp only: c(1) simp_thms)
    have valid: "signature_valid w ?c"
      using new_certificate_signed [OF assms(1) signer_of_call [OF assms(2) sg] sig] .
    have found: "\<exists>v. VerifyCert w t (Some \<lparr>vq_CertID = rw_cert_id row, vq_RootHash = rh\<rparr>) s = Ok v \<and> vr_certificate v = ?c
        \<and> vr_valid v \<and> sm_status (vr_summary v) = ''VERIFIED''"
      if q: "query_row (\<lambda>r. rw_cert_id r = rw_cert_id row) t s = Some row" for s rh
    proof -
      obtain v where "VerifyCert w t (Some \<lparr>vq_CertID = rw_cert_id row, vq_RootHash = rh\<rparr>) s = Ok v" "vr_certificate v = ?c"
        "vr_valid v \<longleftrightarrow> tree_root hashPair (cs_EventHashes ?c) = cs_RootHash ?c \<and> signature_valid w ?c"
        "sm_status (vr_summary v) = (if vr_valid v then ''VERIFIED'' else ''FAILED'')"
        by (rule VerifyCert_row [OF q ne dec hne])
      moreover have "tree_root hashPair (cs_EventHashes ?c) = cs_RootHash ?c" by (simp only: c root)
      ultimately show ?thesis using valid by (intro exI [of _ v]) (simp only: simp_thms if_True)
    qed
    show thesis
      by (rule that [OF req rows st' fresh tenant co(1) dec c(1) _ co(3) _ ne]) (use co(2) root found in auto)
  qed
qed

subsection \<open>Properties\<close>


text \<open>A world for the witnesses: one event, JSON that is the certificate itself, a constant signature.\<close>

definition demo_hash :: string where
  "demo_hash = ''sha256:'' @ replicate 64 (CHR ''1'')"

definition demo_world :: "CertificateS cert_world" where
  "demo_world = \<lparr>cw_ed = \<lparr>ed_public = (\<lambda>_. replicate 32 0), ed_sign = (\<lambda>_ _. replicate 64 0), ed_verify = (\<lambda>_ _ _. True)\<rparr>,
     cw_env_key = '''', cw_rfc3339 = (\<lambda>_. ''2026-01-01T00:00:00Z''), cw_summary_time = (\<lambda>_. ''''), cw_day = (\<lambda>_. ''2026/01/01''),
     cw_marshal = Some, cw_unmarshal = Some, cw_schema = scripts_schema, cw_minio = True, cw_bucket = ''certs''\<rparr>"

definition demo_call_of :: "string option list \<Rightarrow> CertificateS commit_call" where
  "demo_call_of rows = \<lparr>cc_uuid_cert = ''0123456789abcdef'', cc_uuid_anchor = ''fedcba9876543210'', cc_now = 0, cc_worm_at = 0,
     cc_stored_at = 0, cc_generated = Some (replicate 32 0, replicate 64 0), cc_query = (\<lambda>_ _. Some (rows, False)),
     cc_put = (\<lambda>_ _. Some (''etag'', ''1'')), cc_exec_ok = True\<rparr>"

definition demo_call :: "CertificateS commit_call" where
  "demo_call = demo_call_of [Some demo_hash, None]"

definition demo_state :: "CertificateS cert_state" where
  "demo_state = \<lparr>st_rows = [], st_sign = sign_start, st_objects = Map.empty\<rparr>"

lemmas demo_defs = demo_world_def demo_call_def demo_call_of_def demo_state_def

lemma demo_ok: "world_ok demo_world" "signing_ok demo_world demo_call demo_state"
  by (simp_all add: world_ok_def signing_ok_def ed25519_correct_def demo_defs sign_start_def)

lemma demo_tree: "NewTree [demo_hash] = Ok \<lparr>t_leaves = [demo_hash], t_nodes = [[demo_hash]],
    t_root = demo_hash, t_algorithm = ''sha256''\<rparr>"
  using NewTree_Ok [of "[demo_hash]"] by (simp add: levels_from_stop tree_root_stop)

text \<open>In this world a call with any events whose root fits its column succeeds.\<close>

lemma demo_commit:
  assumes "scan_hashes rows \<noteq> []" and "length (tree_root hashPair (scan_hashes rows)) \<le> 100"
  shows "\<exists>resp st'. CommitCert demo_world (demo_call_of rows) ''t'' (Some \<lparr>cq_TraceID = ''trc'', cq_EvidenceLevel = ''L2''\<rparr>)
     demo_state = (Ok resp, st')"
proof -
  have level: "ParseEvidenceLevel ''L2'' = EvidenceLevelCompliance" by code_simp
  have query: "cc_query (demo_call_of rows) x y = Some (rows, False)" for x y by (simp add: demo_defs)
  have signer: "GetDefaultSigner (cw_ed demo_world) (cw_env_key demo_world) (cc_generated (demo_call_of rows)) (st_sign demo_state)
    = (Some \<lparr>privateKey = Some (replicate 64 0), publicKey = replicate 32 0\<rparr>, None,
       \<lparr>once_done = True, defaultSigner = Some \<lparr>privateKey = Some (replicate 64 0), publicKey = replicate 32 0\<rparr>\<rparr>)"
    by (simp add: GetDefaultSigner_def NewSigner_def demo_defs sign_start_def)
  obtain tree where tree: "NewTree (scan_hashes rows) = Ok tree" "GetRoot tree = tree_root hashPair (scan_hashes rows)"
    using NewTree_Ok [OF assms(1)] NewTree_root by blast
  show ?thesis using assms
    by (simp add: CommitCert_def query tree level level_defs signer)
      (simp add: sign_and_store_def SignCertificate_def SignString_def sign_data_def worm_branch_def tree
        StoreCertificate_def store_certificate_def new_certificate_def set_anchor_def row_of_def insert_row_def row_fits_def
        cert_text_def demo_defs scripts_schema_def level_defs Let_def)
qed


text \<open>C12. What \<open>VerifyCert\<close> establishes. A certificate is valid exactly when it lists events, the root of
  their tree is its root hash, and its signature over id, root, level and time verifies under the
  public key that the certificate itself carries. The trace id, the stored tree, the anchor proof,
  the tenant and the creation time are not covered: with other values the verdict is the same. The
  checks \<open>time_proof\<close> and \<open>anchor_proof\<close> only say that these proofs are present.\<close>

theorem VerifyCert_valid_iff:
  assumes "VerifyCert w t rq st = Ok v"
  shows "(vr_valid v \<longleftrightarrow> tree_root hashPair (cs_EventHashes (vr_certificate v)) = cs_RootHash (vr_certificate v)
      \<and> (case (cs_TimeProof (vr_certificate v), cs_Metadata (vr_certificate v)) of
          (Some tp, Some m) \<Rightarrow> ts_Signature tp \<noteq> '''' \<and> cm_PublicKey m \<noteq> ''''
            \<and> VerifyWithPublicKey (cw_ed w) (cm_PublicKey m)
               (bytes_of (cert_text (cs_CertID (vr_certificate v)) (cs_RootHash (vr_certificate v)) (cm_EvidenceLevel m)
                 (cw_rfc3339 w (ts_Timestamp tp)))) (ts_Signature tp) = Ok True
        | _ \<Rightarrow> False))
    \<and> cs_EventHashes (vr_certificate v) \<noteq> []
    \<and> map_of (vr_checks v) ''anchor_proof'' \<noteq> None
    \<and> (ck_passed (the (map_of (vr_checks v) ''anchor_proof'')) \<longleftrightarrow> cs_AnchorProof (vr_certificate v) \<noteq> None)
    \<and> (ck_passed (the (map_of (vr_checks v) ''time_proof'')) \<longleftrightarrow> cs_TimeProof (vr_certificate v) \<noteq> None)
    \<and> (signature_valid w (vr_certificate v) \<longrightarrow>
        signature_valid w ((vr_certificate v)\<lparr>cs_TraceID := tr, cs_MerkleTree := mt, cs_AnchorProof := ap,
          cs_Metadata := map_option (\<lambda>m. m\<lparr>cm_TenantID := t', cm_CreatedAt := ca\<rparr>) (cs_Metadata (vr_certificate v))\<rparr>))"
proof -
  obtain c where c: "vr_certificate v = c" "cs_EventHashes c \<noteq> []"
    "vr_valid v \<longleftrightarrow> tree_root hashPair (cs_EventHashes c) = cs_RootHash c \<and> signature_valid w c"
    "vr_checks v = [(''hash_integrity'', check_message (tree_root hashPair (cs_EventHashes c) = cs_RootHash c)
        ''Event hashes match merkle root''),
      (''merkle_root'', check_message (tree_root hashPair (cs_EventHashes c) = cs_RootHash c) ''Root hash verified'')]
      @ time_checks (signature_valid w c) (cs_TimeProof c) @ anchor_checks (cs_AnchorProof c)"
    using assms by (auto simp: VerifyCert_def Let_def dest!: NewTree_root split: option.splits outcome.splits if_splits)
  then have "map_of (vr_checks v) ''anchor_proof'' \<noteq> None"
    "ck_passed (the (map_of (vr_checks v) ''anchor_proof'')) \<longleftrightarrow> cs_AnchorProof c \<noteq> None"
    "ck_passed (the (map_of (vr_checks v) ''time_proof'')) \<longleftrightarrow> cs_TimeProof c \<noteq> None"
    by (auto simp: time_checks_def anchor_checks_def check_message_def split: option.splits)
  moreover have "signature_valid w c \<longleftrightarrow> (case (cs_TimeProof c, cs_Metadata c) of
      (Some tp, Some m) \<Rightarrow> ts_Signature tp \<noteq> '''' \<and> cm_PublicKey m \<noteq> ''''
        \<and> VerifyWithPublicKey (cw_ed w) (cm_PublicKey m) (bytes_of (cert_text (cs_CertID c) (cs_RootHash c)
            (cm_EvidenceLevel m) (cw_rfc3339 w (ts_Timestamp tp)))) (ts_Signature tp) = Ok True
    | _ \<Rightarrow> False)"
    by (auto simp: signature_valid_def cert_text_def split: option.splits outcome.splits)
  moreover have "signature_valid w c \<Longrightarrow> signature_valid w (c\<lparr>cs_TraceID := tr, cs_MerkleTree := mt, cs_AnchorProof := ap,
          cs_Metadata := map_option (\<lambda>m. m\<lparr>cm_TenantID := t', cm_CreatedAt := ca\<rparr>) (cs_Metadata c)\<rparr>)"
    by (auto simp: signature_valid_def split: option.splits)
  ultimately show ?thesis using c(1,2,3) by (simp only: c(1)) blast
qed

definition demo_cert :: CertificateS where
  "demo_cert = set_anchor id (new_certificate demo_call ''t'' ''trc'' [demo_hash] 
     \<lparr>t_leaves = [demo_hash], t_nodes = [[demo_hash]], t_root = demo_hash, t_algorithm = ''sha256''\<rparr> ''internal''
     (b64_encode (replicate 64 0)) (hex_encode (replicate 32 0)))"

definition stored_state :: "CertificateS cert_state" where
  "stored_state = demo_state\<lparr>st_rows := [row_of demo_call ''t'' ''internal'' demo_cert demo_cert]\<rparr>"

lemma stored_row:
  "query_row (\<lambda>r. rw_cert_id r = ''cert_0123456789ab'') ''t'' stored_state
     = Some (row_of demo_call ''t'' ''internal'' demo_cert demo_cert)"
  "cw_unmarshal demo_world (rw_cert_data (row_of demo_call ''t'' ''internal'' demo_cert demo_cert)) = Some demo_cert"
  "cs_EventHashes demo_cert = [demo_hash]"
  "cs_RootHash demo_cert = tree_root hashPair [demo_hash]"
  by (simp_all add: query_row_def stored_state_def row_of_def demo_cert_def new_certificate_def demo_call_def demo_call_of_def set_anchor_def
      demo_world_def GetRoot_def tree_root_stop)

lemma stored_verifies:
  obtains v where "VerifyCert demo_world ''t'' (Some \<lparr>vq_CertID = ''cert_0123456789ab'', vq_RootHash = ''''\<rparr>) stored_state = Ok v"
    "vr_certificate v = demo_cert" "vr_valid v"
proof -
  have "hex_encode (replicate 32 0) \<noteq> ''''" using length_hex_encode [of "replicate 32 0"] by fastforce
  moreover have "b64_encode (replicate 64 0) \<noteq> ''''" by (rule b64_encode_nonempty) simp
  ultimately have "signature_valid demo_world demo_cert"
    by (simp add: signature_valid_def demo_cert_def new_certificate_def set_anchor_def VerifyWithPublicKey_def roundtrips
        demo_world_def)
  moreover obtain v where "VerifyCert demo_world ''t'' (Some \<lparr>vq_CertID = ''cert_0123456789ab'', vq_RootHash = ''''\<rparr>)
      stored_state = Ok v" "vr_certificate v = demo_cert"
    "vr_valid v \<longleftrightarrow> tree_root hashPair (cs_EventHashes demo_cert) = cs_RootHash demo_cert
       \<and> signature_valid demo_world demo_cert"
    by (rule VerifyCert_row [OF stored_row(1) _ stored_row(2), of "''''"]) (simp_all add: stored_row)
  ultimately show thesis using stored_row by (intro that [of v]) simp_all
qed

theorem VerifyCert_valid_iff_witness:
  "\<exists>v. VerifyCert demo_world ''t'' (Some \<lparr>vq_CertID = ''cert_0123456789ab'', vq_RootHash = ''''\<rparr>) stored_state = Ok v
     \<and> ck_passed (the (map_of (vr_checks v) ''anchor_proof''))"
proof -
  obtain v where v: "VerifyCert demo_world ''t'' (Some \<lparr>vq_CertID = ''cert_0123456789ab'', vq_RootHash = ''''\<rparr>)
    stored_state = Ok v" "vr_certificate v = demo_cert" by (rule stored_verifies)
  have "cs_AnchorProof demo_cert \<noteq> None" by (simp add: demo_cert_def new_certificate_def set_anchor_def)
  then show ?thesis using VerifyCert_valid_iff [OF v(1)] v by auto
qed

text \<open>No key of the server is involved. Whoever can write the data of a row makes it verify with a key
  of their own: a certificate with any events, trace, level and time, whose public key and signature
  come from any private key, is \<open>VERIFIED\<close>.\<close>

theorem self_signed_certificate_verifies:
  assumes "world_ok w" and "length sk = 64" and "cs_EventHashes c \<noteq> []"
    and "cs_RootHash c = tree_root hashPair (cs_EventHashes c)" and "cs_TimeProof c = Some tp" and "cs_Metadata c = Some m"
    and "cm_PublicKey m = hex_encode (ed_public (cw_ed w) sk)"
    and "ts_Signature tp = b64_encode (ed_sign (cw_ed w) sk (bytes_of (cert_text (cs_CertID c) (cs_RootHash c)
      (cm_EvidenceLevel m) (cw_rfc3339 w (ts_Timestamp tp)))))"
    and "query_row (\<lambda>r. rw_cert_id r = cid) t st = Some row" and "cid \<noteq> ''''"
    and "cw_unmarshal w (rw_cert_data row) = Some c"
  shows "\<exists>v. VerifyCert w t (Some \<lparr>vq_CertID = cid, vq_RootHash = rh\<rparr>) st = Ok v \<and> vr_certificate v = c
    \<and> vr_valid v \<and> sm_status (vr_summary v) = ''VERIFIED''"
proof -
  let ?s = "\<lparr>privateKey = Some sk, publicKey = ed_public (cw_ed w) sk\<rparr>"
  let ?text = "cert_text (cs_CertID c) (cs_RootHash c) (cm_EvidenceLevel m) (cw_rfc3339 w (ts_Timestamp tp))"
  have ed: "ed25519_correct (cw_ed w)" using assms(1) by (simp add: world_ok_def)
  have ok: "signer_ok (cw_ed w) ?s" using assms(2) by (simp add: signer_ok_def)
  obtain sg where sg: "SignString (cw_ed w) ?s ?text = Ok sg" "sg \<noteq> ''''" "GetPublicKeyHex ?s \<noteq> ''''"
    "VerifyWithPublicKey (cw_ed w) (GetPublicKeyHex ?s) (bytes_of ?text) sg = Ok True"
    by (rule signature_roundtrip [OF ed ok, of ?text])
  have "sg = ts_Signature tp" "GetPublicKeyHex ?s = cm_PublicKey m"
    using sg(1) assms(7,8) by (simp_all add: SignString_def sign_data_def GetPublicKeyHex_def)
  with sg assms(5,6) have "signature_valid w c" by (simp add: signature_valid_def cert_text_def)
  moreover obtain v where "VerifyCert w t (Some \<lparr>vq_CertID = cid, vq_RootHash = rh\<rparr>) st = Ok v" "vr_certificate v = c"
    "vr_valid v \<longleftrightarrow> tree_root hashPair (cs_EventHashes c) = cs_RootHash c \<and> signature_valid w c"
    "sm_status (vr_summary v) = (if vr_valid v then ''VERIFIED'' else ''FAILED'')"
    by (rule VerifyCert_row [OF assms(9,10,11,3)])
  ultimately show ?thesis using assms(4) by auto
qed

theorem self_signed_certificate_verifies_witness:
  "\<exists>v. VerifyCert demo_world ''t'' (Some \<lparr>vq_CertID = ''cert_0123456789ab'', vq_RootHash = ''''\<rparr>) stored_state = Ok v
     \<and> vr_certificate v = demo_cert \<and> vr_valid v"
  using self_signed_certificate_verifies [OF demo_ok(1), of "replicate 64 0" demo_cert "the (cs_TimeProof demo_cert)"
      "the (cs_Metadata demo_cert)" "''cert_0123456789ab''" "''t''" stored_state _ "''''", OF _ _ _ _ _ _ _ stored_row(1) _ stored_row(2)]
    stored_row
  by (auto simp: demo_cert_def new_certificate_def set_anchor_def demo_world_def)

text \<open>C11. A root binds its events. Two valid certificates with one root hash and the same number of events,
  whose hashes have the printed length of a digest, list the same events, or a collision of SHA-256
  is computed from their trees.\<close>

theorem valid_certificates_bind_events:
  assumes "VerifyCert w t rq st = Ok v" and "vr_valid v" and "VerifyCert w' t' rq' st' = Ok v'" and "vr_valid v'"
    and "cs_RootHash (vr_certificate v) = cs_RootHash (vr_certificate v')"
    and "cs_EventHashes (vr_certificate v) = xs" and "cs_EventHashes (vr_certificate v') = ys"
    and "length xs = length ys" and "\<forall>x \<in> set xs. length x = 71" and "\<forall>y \<in> set ys. length y = 71"
  shows "xs = ys \<or> (\<exists>i < length xs. is_collision sha256_hex
    (path_collision sha256_hex ''sha256:'' (ys ! i) (full_path (levels_from hashPair ys) i)
       (xs ! i) (full_path (levels_from hashPair xs) i)))"
proof -
  have "tree_root hashPair xs = tree_root hashPair ys"
    using VerifyCert_root [OF assms(1,2)] VerifyCert_root [OF assms(3,4)] assms(5-7) by simp
  then show ?thesis
    using tree_node.root_sound [of xs ys] assms(8-10) by (simp add: hashPair_fun)
qed

theorem valid_certificates_bind_events_witness:
  "\<exists>v. VerifyCert demo_world ''t'' (Some \<lparr>vq_CertID = ''cert_0123456789ab'', vq_RootHash = ''''\<rparr>) stored_state = Ok v
     \<and> cs_EventHashes (vr_certificate v) = [demo_hash]
     \<and> ([demo_hash] = [demo_hash] \<or> (\<exists>i < Suc 0. is_collision sha256_hex
          (path_collision sha256_hex ''sha256:'' ([demo_hash] ! i) (full_path (levels_from hashPair [demo_hash]) i)
            ([demo_hash] ! i) (full_path (levels_from hashPair [demo_hash]) i))))"
proof -
  obtain v where v: "VerifyCert demo_world ''t'' (Some \<lparr>vq_CertID = ''cert_0123456789ab'', vq_RootHash = ''''\<rparr>)
    stored_state = Ok v" "vr_certificate v = demo_cert" "vr_valid v" by (rule stored_verifies)
  then have h: "cs_EventHashes (vr_certificate v) = [demo_hash]" by (simp add: stored_row)
  have "length demo_hash = 71" by (simp add: demo_hash_def)
  then show ?thesis
    using valid_certificates_bind_events [OF v(1,3) v(1,3) refl h h] v(1) h by auto
qed

text \<open>The compliance level needs a wide column. When the column \<open>evidence_level\<close> is narrower than ten
  characters, as in \<open>server/deploy/init.sql\<close>, a request for the compliance level is never answered with
  success and stores no row. If the call gets as far as the database, the certificate nevertheless
  stays in the WORM storage, without a row that refers to it.\<close>

theorem compliance_needs_wide_column:
  assumes "level_width (cw_schema w) < 10" and "ParseEvidenceLevel (cq_EvidenceLevel rq) = EvidenceLevelCompliance"
  shows "(\<forall>resp st'. CommitCert w call t (Some rq) st \<noteq> (Ok resp, st'))
    \<and> (cw_minio w \<and> cq_TraceID rq \<noteq> '''' \<and> cc_query call (cq_TraceID rq) t = Some (rows, False) \<and> scan_hashes rows \<noteq> []
        \<and> GetDefaultSigner (cw_ed w) (cw_env_key w) (cc_generated call) (st_sign st) = (Some s, None, sg)
        \<and> privateKey s \<noteq> None \<and> (\<forall>c. cw_marshal w c \<noteq> None) \<and> (\<forall>k j. cc_put call k j \<noteq> None) \<longrightarrow>
       (\<exists>data. CommitCert w call t (Some rq) st = (Err (500, ''Failed to store certificate''),
          st\<lparr>st_sign := sg, st_objects := (st_objects st)
            (''certs/'' @ cw_day w (cc_worm_at call) @ ''/'' @ ''cert_'' @ take 12 (cc_uuid_cert call) @ ''.json'' \<mapsto> data)\<rparr>)))"
proof (intro conjI allI impI notI)
  fix resp st'
  assume "CommitCert w call t (Some rq) st = (Ok resp, st')"
  then show False using assms by (elim CommitCert_OkE) (auto simp: EvidenceLevelCompliance_def)
next
  assume h: "cw_minio w \<and> cq_TraceID rq \<noteq> '''' \<and> cc_query call (cq_TraceID rq) t = Some (rows, False)
      \<and> scan_hashes rows \<noteq> []
      \<and> GetDefaultSigner (cw_ed w) (cw_env_key w) (cc_generated call) (st_sign st) = (Some s, None, sg)
      \<and> privateKey s \<noteq> None \<and> (\<forall>c. cw_marshal w c \<noteq> None) \<and> (\<forall>k j. cc_put call k j \<noteq> None)"
  then obtain sk where sk: "privateKey s = Some sk" by auto
  obtain tree where tree: "NewTree (scan_hashes rows) = Ok tree" using h NewTree_Ok by blast
  let ?sg = "b64_encode (ed_sign (cw_ed w) sk (bytes_of (cert_text (''cert_'' @ take 12 (cc_uuid_cert call)) (GetRoot tree)
    EvidenceLevelCompliance (cw_rfc3339 w (cc_now call)))))"
  let ?c = "new_certificate call t (cq_TraceID rq) (scan_hashes rows) tree EvidenceLevelCompliance ?sg (GetPublicKeyHex s)"
  let ?st = "st\<lparr>st_sign := sg\<rparr>"
  let ?key = "''certs/'' @ cw_day w (cc_worm_at call) @ ''/'' @ ''cert_'' @ take 12 (cc_uuid_cert call) @ ''.json''"
  let ?c1 = "set_anchor (\<lambda>a. a\<lparr>as_AnchorType := ''worm'', as_StorageProvider := ''minio''\<rparr>) ?c"
  obtain data etag ver where put: "cw_marshal w ?c1 = Some data" "cc_put call ?key data = Some (etag, ver)"
    using h by (metis not_None_eq prod.exhaust)
  define c where "c = set_anchor (\<lambda>a. a\<lparr>as_ObjectKey := ?key, as_AnchorID := etag\<rparr>) ?c1"
  have id: "cs_CertID ?c = ''cert_'' @ take 12 (cc_uuid_cert call)" by (simp add: new_certificate_def)
  have worm: "worm_branch w call ?c (st_objects ?st) = (c, (st_objects ?st)(?key \<mapsto> data))"
    unfolding c_def using h put by (intro worm_branch_stored [OF _ put(1) refl]) (simp_all add: id del: append.simps)
  have "CommitCert w call t (Some rq) st
      = sign_and_store w call t (cq_TraceID rq) (scan_hashes rows) tree EvidenceLevelCompliance s ?st"
    using h tree assms(2) by (simp add: CommitCert_def EvidenceLevelCompliance_def)
  also have "\<dots> = store_certificate w call t EvidenceLevelCompliance c (?st\<lparr>st_objects := (st_objects ?st)(?key \<mapsto> data)\<rparr>)"
    using sk worm by (simp add: sign_and_store_def SignCertificate_def SignString_def sign_data_def del: append.simps)
  also have "\<dots> = (Err (500, ''Failed to store certificate''), ?st\<lparr>st_objects := (st_objects ?st)(?key \<mapsto> data)\<rparr>)"
    using h assms(1) by (auto simp: store_certificate_def insert_row_def row_fits_def row_of_def EvidenceLevelCompliance_def
        split: option.splits)
  finally show "\<exists>data. CommitCert w call t (Some rq) st = (Err (500, ''Failed to store certificate''),
      st\<lparr>st_sign := sg, st_objects := (st_objects st)(?key \<mapsto> data)\<rparr>)" by auto
qed

theorem compliance_needs_wide_column_witness:
  "level_width deploy_schema < 10 \<and> \<not> is_Ok (fst (CommitCert (demo_world\<lparr>cw_schema := deploy_schema\<rparr>) demo_call ''t''
     (Some \<lparr>cq_TraceID = ''trc'', cq_EvidenceLevel = ''L2''\<rparr>) demo_state))"
proof -
  let ?w = "demo_world\<lparr>cw_schema := deploy_schema\<rparr>" and ?rq = "\<lparr>cq_TraceID = ''trc'', cq_EvidenceLevel = ''L2''\<rparr>"
  have narrow: "level_width (cw_schema ?w) < 10" by (simp add: deploy_schema_def)
  have level: "ParseEvidenceLevel (cq_EvidenceLevel ?rq) = EvidenceLevelCompliance" by code_simp
  obtain r st' where r: "CommitCert ?w demo_call ''t'' (Some ?rq) demo_state = (r, st')" by (meson surj_pair)
  have "\<forall>resp st'. CommitCert ?w demo_call ''t'' (Some ?rq) demo_state \<noteq> (Ok resp, st')"
    using compliance_needs_wide_column [OF narrow level] by blast
  with r show ?thesis by (cases r) (simp_all add: deploy_schema_def)
qed

end
