(* ===== verification/CertSearch.thy ===== *)
theory CertSearch
  imports Certs
begin

text \<open>
  Listing the certificates of a tenant: \<open>SearchCerts\<close> of \<open>server/internal/api/certs_search.go\<close>.

  The two query parameters are strings, absent when empty. The database's count and page come from
  the table; \<open>search_env\<close> says whether each query works, and which rows scan. \<open>ORDER BY created_at DESC\<close>
  is a stable sort of the rows in the order of insertion. Products of \<open>int\<close> values wrap at 64 bits, and the
  database refuses a negative \<open>OFFSET\<close>.
\<close>

record search_env =
  se_count_ok :: bool
  se_query_ok :: bool
  se_rows_err :: bool
  se_scans :: "string \<Rightarrow> bool"

record cert_item =
  ci_cert_id :: string
  ci_trace_id :: string
  ci_root_hash :: string
  ci_event_count :: nat
  ci_evidence_level :: string
  ci_created_at :: time

record SearchResponse =
  sr_certificates :: "cert_item list"
  sr_page :: int
  sr_page_size :: int
  sr_total_count :: int
  sr_total_pages :: int
  sr_has_more :: bool
  sr_size :: nat

definition page_param :: "string \<Rightarrow> int" where
  "page_param pageStr =
     (if pageStr \<noteq> '''' then (case atoi pageStr of Some p \<Rightarrow> if p > 0 then p else 1 | None \<Rightarrow> 1) else 1)"

definition size_param :: "string \<Rightarrow> int" where
  "size_param sizeStr =
     (if sizeStr \<noteq> '''' then (case atoi sizeStr of Some s \<Rightarrow> if s > 0 \<and> s \<le> 100 then s else 20 | None \<Rightarrow> 20) else 20)"

definition tenant_rows :: "string \<Rightarrow> 'j cert_state \<Rightarrow> 'j cert_row list" where
  "tenant_rows tenantID st = filter (\<lambda>r. rw_tenant_id r = tenantID) (st_rows st)"

text \<open>The page query: \<open>None\<close> is an error of the database.\<close>

definition query_page :: "search_env \<Rightarrow> string \<Rightarrow> int \<Rightarrow> int \<Rightarrow> 'j cert_state \<Rightarrow> 'j cert_row list option" where
  "query_page env tenantID limit offset st =
     (if \<not> se_query_ok env \<or> offset < 0 then None
      else Some (take (nat limit) (drop (nat offset) (sort_key (\<lambda>r. - rw_created_at r) (tenant_rows tenantID st)))))"

definition item_of :: "'j cert_row \<Rightarrow> cert_item" where
  "item_of r = \<lparr>ci_cert_id = rw_cert_id r, ci_trace_id = rw_trace_id r, ci_root_hash = rw_root_hash r,
     ci_event_count = rw_event_count r, ci_evidence_level = rw_evidence_level r, ci_created_at = rw_created_at r\<rparr>"

definition SearchCerts :: "search_env \<Rightarrow> string \<Rightarrow> string \<Rightarrow> string \<Rightarrow> 'j cert_state
    \<Rightarrow> (http_error, SearchResponse) outcome" where
  "SearchCerts env tenantID pageStr sizeStr st =
     (let page = page_param pageStr;
          pageSize = size_param sizeStr;
          totalCount = (if se_count_ok env then int (length (tenant_rows tenantID st)) else 0)
      in case query_page env tenantID pageSize (wrap64 ((page - 1) * pageSize)) st of
          None \<Rightarrow> Err (500, ''Query failed'')
        | Some rows \<Rightarrow>
            let certs = map item_of (filter (\<lambda>r. se_scans env (rw_cert_id r)) rows) in
            if se_rows_err env then Err (500, ''Failed to read certificates'')
            else let totalPages = (totalCount + pageSize - 1) div pageSize;
                     hasMore = page < totalPages
                 in Ok \<lparr>sr_certificates = certs, sr_page = page, sr_page_size = pageSize, sr_total_count = totalCount,
                        sr_total_pages = totalPages, sr_has_more = hasMore, sr_size = length certs\<rparr>)"

subsection \<open>Pages\<close>

lemma size_param_bounds: "1 \<le> size_param s \<and> size_param s \<le> 100"
  by (auto simp: size_param_def split: option.splits)

lemma page_param_pos: "1 \<le> page_param s"
  by (auto simp: page_param_def split: option.splits)

lemma concat_pages: "concat (map (\<lambda>k. take n (drop (k * n) xs)) [0..<m]) = take (m * n) xs"
proof (induction m)
  case (Suc m)
  have "take (Suc m * n) xs = take (m * n) xs @ take n (drop (m * n) xs)"
    by (simp add: add.commute [of n] take_add)
  with Suc show ?case by simp
qed simp

lemma has_more_pages: "map (\<lambda>k. k < p) [1..<Suc p] = replicate (p - 1) True @ replicate (min p 1) False"
proof (cases p)
  case (Suc m)
  have "map (\<lambda>k. k < Suc m) [1..<Suc m] = replicate m True" by (intro nth_equalityI) (auto simp del: upt_Suc)
  with Suc show ?thesis by simp
qed simp


text \<open>Two rows of one tenant and one of another, one row per page.\<close>

definition search_state :: "nat cert_state" where
  "search_state = \<lparr>st_rows = map (\<lambda>(i, t). \<lparr>rw_cert_id = i, rw_trace_id = ''trc'', rw_tenant_id = t, rw_root_hash = ''r'',
       rw_event_count = 1, rw_evidence_level = ''internal'', rw_cert_data = 0, rw_created_at = 0\<rparr>)
       [(''a'', ''t''), (''b'', ''u''), (''c'', ''t'')], st_sign = sign_start, st_objects = Map.empty\<rparr>"


end
