(* ===== verification/Disclosure.thy ===== *)
theory Disclosure
  imports Certs Verifier
begin

text \<open>
  Minimal disclosure: \<open>server/internal/api/certs_proof.go\<close>, and what the offline verifier makes of its
  output.

  \<open>GenerateProof\<close> is the handler; an index outside of the certificate's events is skipped, and a
  certificate whose JSON has no tree makes it dereference nil. The percentage in the summary (a
  formatted float) is left out. \<open>offline_proof\<close> reads the printed proof as the verifier's struct: field by
  field by JSON name, times as their JSON texts.
\<close>

record GenerateProofRequest =
  gq_DiscloseEvents :: "int list"
  gq_DiscloseFields :: "string list"

record ProofResponse =
  gr_proof :: MinimalDisclosureProof
  gr_disclosed_count :: nat
  gr_total_events :: nat
  gr_next_steps :: "string list"

text \<open>The loop over the requested indices; \<open>None\<close> is the nil dereference.\<close>

fun disclose :: "CertificateS \<Rightarrow> int list \<Rightarrow> EventMerkleProofS list \<Rightarrow> EventMerkleProofS list option" where
  "disclose c [] merkleProofs = Some merkleProofs"
| "disclose c (idx # idxs) merkleProofs =
     (if idx \<ge> 0 \<and> idx < int (length (cs_EventHashes c))
      then (case cs_MerkleTree c of
          None \<Rightarrow> None
        | Some tree \<Rightarrow>
            (case GetProof tree idx of
               Ok p \<Rightarrow> disclose c idxs (merkleProofs @
                 [\<lparr>em_EventIndex = idx, em_EventHash = cs_EventHashes c ! nat idx, em_ProofPath = pr_path p\<rparr>])
             | _ \<Rightarrow> disclose c idxs merkleProofs))
      else disclose c idxs merkleProofs)"

definition GenerateProof :: "'j cert_world \<Rightarrow> string \<Rightarrow> string \<Rightarrow> GenerateProofRequest option \<Rightarrow> 'j cert_state
    \<Rightarrow> (http_error, ProofResponse) outcome" where
  "GenerateProof w tenantID certID req st =
     (case req of
        None \<Rightarrow> Err (400, ''Invalid request body'')
      | Some req \<Rightarrow>
        (case query_row (\<lambda>r. rw_cert_id r = certID) tenantID st of
           None \<Rightarrow> Err (404, ''Certificate not found'')
         | Some row \<Rightarrow>
           (case cw_unmarshal w (rw_cert_data row) of
              None \<Rightarrow> Err (500, ''Failed to parse certificate data'')
            | Some c \<Rightarrow>
              (case disclose c (gq_DiscloseEvents req) [] of
                 None \<Rightarrow> Panic
               | Some merkleProofs \<Rightarrow>
                 Ok \<lparr>gr_proof =
                       \<lparr>mdp_SchemaVersion = ''0.1'', mdp_CertID = cs_CertID c, mdp_RootHash = cs_RootHash c,
                        mdp_DisclosedEvents = [], mdp_MerkleProofs = merkleProofs, mdp_TimeProof = cs_TimeProof c,
                        mdp_AnchorProof = cs_AnchorProof c,
                        mdp_Instructions = Some \<lparr>VerifierURL = ''https://github.com/ai-trace/verifier'',
                          VerifyCommand = ''ai-trace verify --proof proof.json''\<rparr>\<rparr>,
                     gr_disclosed_count = length merkleProofs, gr_total_events = length (cs_EventHashes c),
                     gr_next_steps =
                       [''Share this proof with third parties for verification'',
                        ''The proof can be verified independently without the full certificate'',
                        CHR ''U'' # ''se '' @ [CHR 0x27] @ ''ai-trace verify --proof proof.json'' @ [CHR 0x27]
                          @ '' to verify offline'']\<rparr>))))"

subsection \<open>The proof as the verifier reads it\<close>

definition offline_time :: "(time \<Rightarrow> string) \<Rightarrow> TimeProofS \<Rightarrow> TimeProof" where
  "offline_time json_time tp =
     \<lparr>tp_ProofType = ts_ProofType tp, tp_Timestamp = json_time (ts_Timestamp tp), tp_TSAAuthority = ts_TSAAuthority tp,
      tp_Signature = ts_Signature tp\<rparr>"

definition offline_anchor :: "(time \<Rightarrow> string) \<Rightarrow> AnchorProofS \<Rightarrow> AnchorProof" where
  "offline_anchor json_time ap =
     \<lparr>ap_AnchorType = as_AnchorType ap, ap_AnchorID = as_AnchorID ap, ap_StorageProvider = as_StorageProvider ap,
      ap_AnchorTimestamp = json_time (as_AnchorTimestamp ap),
      ap_Blockchain = map_option (\<lambda>b. \<lparr>bp_ChainID = bs_ChainID b, bp_TxHash = bs_TxHash b,
        bp_BlockHeight = bs_BlockHeight b\<rparr>) (as_Blockchain ap)\<rparr>"

definition offline_proof :: "(time \<Rightarrow> string) \<Rightarrow> MinimalDisclosureProof \<Rightarrow> DisclosureProof" where
  "offline_proof json_time p =
     \<lparr>dp_SchemaVersion = mdp_SchemaVersion p, dp_CertID = mdp_CertID p, dp_RootHash = mdp_RootHash p,
      dp_DisclosedEvents = map (\<lambda>d. \<lparr>dv_EventIndex = de_EventIndex d, dv_EventType = de_EventType d,
        dv_EventHash = de_EventHash d, dv_DisclosedFields = de_DisclosedFields d\<rparr>) (mdp_DisclosedEvents p),
      dp_MerkleProofs = map (\<lambda>m. \<lparr>mp_EventIndex = em_EventIndex m, mp_EventHash = em_EventHash m,
        mp_ProofPath = em_ProofPath m\<rparr>) (mdp_MerkleProofs p),
      dp_TimeProof = map_option (offline_time json_time) (mdp_TimeProof p),
      dp_AnchorProof = map_option (offline_anchor json_time) (mdp_AnchorProof p)\<rparr>"

definition offline_certificate :: "(time \<Rightarrow> string) \<Rightarrow> CertificateS \<Rightarrow> Certificate" where
  "offline_certificate json_time c =
     \<lparr>ct_CertID = cs_CertID c, ct_CertVersion = cs_CertVersion c, ct_SchemaVersion = cs_SchemaVersion c,
      ct_TraceID = cs_TraceID c, ct_EventHashes = cs_EventHashes c, ct_MerkleTree = cs_MerkleTree c,
      ct_RootHash = cs_RootHash c, ct_TimeProof = map_option (offline_time json_time) (cs_TimeProof c),
      ct_AnchorProof = map_option (offline_anchor json_time) (cs_AnchorProof c),
      ct_Metadata = map_option (\<lambda>m. \<lparr>md_TenantID = cm_TenantID m, md_CreatedAt = json_time (cm_CreatedAt m),
        md_CreatedBy = cm_CreatedBy m, md_EvidenceLevel = cm_EvidenceLevel m\<rparr>) (cs_Metadata c)\<rparr>"

subsection \<open>Lemmas\<close>

definition disclosed :: "string list \<Rightarrow> int list \<Rightarrow> nat list" where
  "disclosed hashes idxs = map nat (filter (\<lambda>i. 0 \<le> i \<and> i < int (length hashes)) idxs)"

definition event_proof :: "string list \<Rightarrow> nat \<Rightarrow> EventMerkleProofS" where
  "event_proof hashes i =
     \<lparr>em_EventIndex = int i, em_EventHash = hashes ! i, em_ProofPath = proof_path (levels_from hashPair hashes) i\<rparr>"

lemma disclose_eq:
  assumes "cs_MerkleTree c = Some tree" and "NewTree (cs_EventHashes c) = Ok tree"
  shows "disclose c idxs acc = Some (acc @ map (event_proof (cs_EventHashes c)) (disclosed (cs_EventHashes c) idxs))"
proof (induction idxs arbitrary: acc)
  case (Cons idx idxs)
  show ?case
  proof (cases "0 \<le> idx \<and> idx < int (length (cs_EventHashes c))")
    case True
    then obtain p where "GetProof tree idx = Ok p" and "pr_path p = proof_path (levels_from hashPair (cs_EventHashes c)) (nat idx)"
      using GetProof_NewTree [OF assms(2), of "nat idx"] by auto
    with True assms(1) Cons show ?thesis by (simp add: disclosed_def event_proof_def)
  qed (use Cons in \<open>auto simp: disclosed_def\<close>)
qed (simp add: disclosed_def)

lemma paired_proof:
  "paired (length hashes) i \<Longrightarrow> i < length hashes
     \<Longrightarrow> fold_path (hashes ! i) (proof_path (levels_from hashPair hashes) i) = tree_root hashPair hashes"
  by (simp add: fold_path_sides proof_path_paired fold_full_path)

lemma offline_valid:
  assumes "mdp_SchemaVersion p = ''0.1''" and "mdp_MerkleProofs p = map (event_proof hashes) is"
  shows "r_Valid (VerifyDisclosure (offline_proof jt p)) \<longleftrightarrow> hasPrefix (mdp_RootHash p) ''sha256:'' \<and> is \<noteq> []
     \<and> (\<forall>i \<in> set is. fold_path (hashes ! i) (proof_path (levels_from hashPair hashes) i) = mdp_RootHash p)"
  using assms by (auto simp: Disclosure_valid offline_proof_def event_proof_def)

subsection \<open>Properties\<close>

text \<open>C13. A disclosure proof of the server, checked offline. For a stored certificate whose tree is the tree
  of its events, \<open>GenerateProof\<close> answers one Merkle proof per requested index in range, in the order of
  the request, and no event: the requested fields change nothing. The offline verifier accepts it
  when at least one index is in range, each such event has siblings on every level and the root has
  the prefix \<open>sha256:\<close>; with no index in range the proof is invalid.\<close>

theorem GenerateProof_offline:
  assumes "GetCert w t cid st = Ok c" and "cs_MerkleTree c = Some tree" and "NewTree (cs_EventHashes c) = Ok tree"
    and "cs_RootHash c = GetRoot tree" and "hasPrefix (cs_RootHash c) ''sha256:''"
  shows "\<exists>r. GenerateProof w t cid (Some \<lparr>gq_DiscloseEvents = idxs, gq_DiscloseFields = flds\<rparr>) st = Ok r
    \<and> GenerateProof w t cid (Some \<lparr>gq_DiscloseEvents = idxs, gq_DiscloseFields = []\<rparr>) st = Ok r
    \<and> mdp_DisclosedEvents (gr_proof r) = []
    \<and> map em_EventIndex (mdp_MerkleProofs (gr_proof r)) = filter (\<lambda>i. 0 \<le> i \<and> i < int (length (cs_EventHashes c))) idxs
    \<and> gr_disclosed_count r = length (disclosed (cs_EventHashes c) idxs)
    \<and> (disclosed (cs_EventHashes c) idxs \<noteq> []
         \<and> (\<forall>i \<in> set (disclosed (cs_EventHashes c) idxs). paired (length (cs_EventHashes c)) i) \<longrightarrow>
       r_Valid (VerifyDisclosure (offline_proof jt (gr_proof r))))
    \<and> (disclosed (cs_EventHashes c) idxs = [] \<longrightarrow> \<not> r_Valid (VerifyDisclosure (offline_proof jt (gr_proof r))))"
proof -
  let ?hs = "cs_EventHashes c"
  obtain row where row: "query_row (\<lambda>r. rw_cert_id r = cid) t st = Some row" "cw_unmarshal w (rw_cert_data row) = Some c"
    using assms(1) by (auto simp: GetCert_def split: option.splits)
  note mp = disclose_eq [OF assms(2,3), of idxs "[]", simplified]
  obtain r where r: "\<forall>x. GenerateProof w t cid (Some \<lparr>gq_DiscloseEvents = idxs, gq_DiscloseFields = x\<rparr>) st = Ok r"
    and p: "mdp_SchemaVersion (gr_proof r) = ''0.1''" "mdp_RootHash (gr_proof r) = cs_RootHash c"
      "mdp_DisclosedEvents (gr_proof r) = []" "mdp_MerkleProofs (gr_proof r) = map (event_proof ?hs) (disclosed ?hs idxs)"
      "gr_disclosed_count r = length (disclosed ?hs idxs)"
    using row mp by (auto simp: GenerateProof_def)
  have root: "cs_RootHash c = tree_root hashPair ?hs" using NewTree_root [OF assms(3)] assms(4) by simp
  have valid: "r_Valid (VerifyDisclosure (offline_proof jt (gr_proof r))) \<longleftrightarrow> disclosed ?hs idxs \<noteq> []
     \<and> (\<forall>i \<in> set (disclosed ?hs idxs). fold_path (?hs ! i) (proof_path (levels_from hashPair ?hs) i) = cs_RootHash c)"
    using offline_valid [OF p(1,4)] assms(5) p(2) by simp
  have range: "\<forall>i \<in> set (disclosed ?hs idxs). i < length ?hs" by (auto simp: disclosed_def)
  have "map em_EventIndex (mdp_MerkleProofs (gr_proof r)) = map int (disclosed ?hs idxs)"
    by (simp add: p(4) event_proof_def comp_def)
  also have "\<dots> = filter (\<lambda>i. 0 \<le> i \<and> i < int (length ?hs)) idxs" by (auto simp: disclosed_def comp_def intro!: map_idI)
  finally show ?thesis using r p valid range paired_proof root by auto
qed

theorem GenerateProof_offline_witness:
  "\<exists>r. GenerateProof demo_world ''t'' ''cert_0123456789ab'' (Some \<lparr>gq_DiscloseEvents = [0, 7], gq_DiscloseFields = [''x'']\<rparr>)
       stored_state = Ok r \<and> r_Valid (VerifyDisclosure (offline_proof (\<lambda>_. '''') (gr_proof r)))"
proof -
  let ?tree = "\<lparr>t_leaves = [demo_hash], t_nodes = [[demo_hash]], t_root = demo_hash, t_algorithm = ''sha256''\<rparr>"
  have cert: "GetCert demo_world ''t'' ''cert_0123456789ab'' stored_state = Ok demo_cert"
    by (simp add: GetCert_def stored_row)
  have tree: "cs_MerkleTree demo_cert = Some ?tree" by (simp add: demo_cert_def new_certificate_def set_anchor_def)
  have new: "NewTree (cs_EventHashes demo_cert) = Ok ?tree" by (simp add: stored_row demo_tree)
  have root: "cs_RootHash demo_cert = GetRoot ?tree" "hasPrefix (cs_RootHash demo_cert) ''sha256:''"
    by (simp_all add: stored_row tree_root_stop GetRoot_def demo_hash_def hasPrefix_def)
  have "disclosed (cs_EventHashes demo_cert) [0, 7] = [0]" by (simp add: disclosed_def stored_row)
  then show ?thesis
    using GenerateProof_offline [OF cert tree new root, of "[0, 7]" "[''x'']" "\<lambda>_. ''''"]
    by (auto simp: stored_row paired.simps)
qed

text \<open>The offline check of a certificate is weaker than the server's. A certificate the server finds valid
  and that has an id and its tree is valid offline too. The offline verdict does not depend on the
  signature, the key, the time or the anchor, so it also holds for certificates the server rejects.\<close>

theorem server_valid_offline_valid:
  assumes "VerifyCert w t rq st = Ok v" and "cs_CertID (vr_certificate v) \<noteq> ''''" and "cs_MerkleTree (vr_certificate v) = Some tree"
  shows "(vr_valid v \<longrightarrow> r_Valid (VerifyCertificate (offline_certificate jt (vr_certificate v))))
    \<and> (r_Valid (VerifyCertificate (offline_certificate jt (vr_certificate v)))
        \<longleftrightarrow> tree_root hashPair (cs_EventHashes (vr_certificate v)) = cs_RootHash (vr_certificate v))
    \<and> r_Valid (VerifyCertificate (offline_certificate jt
          ((vr_certificate v)\<lparr>cs_TimeProof := tp, cs_Metadata := md, cs_AnchorProof := ap\<rparr>)))
        = r_Valid (VerifyCertificate (offline_certificate jt (vr_certificate v)))"
proof -
  have ne: "cs_EventHashes (vr_certificate v) \<noteq> []"
    using assms(1) by (auto simp: VerifyCert_def Let_def dest!: NewTree_root split: option.splits outcome.splits if_splits)
  have "r_Valid (VerifyCertificate (offline_certificate jt
          ((vr_certificate v)\<lparr>cs_TimeProof := x, cs_Metadata := y, cs_AnchorProof := z\<rparr>)))
        \<longleftrightarrow> tree_root hashPair (cs_EventHashes (vr_certificate v)) = cs_RootHash (vr_certificate v)" for x y z
    using assms(2,3) ne by (simp add: Certificate_valid offline_certificate_def)
  moreover have "(vr_certificate v)\<lparr>cs_TimeProof := cs_TimeProof (vr_certificate v),
      cs_Metadata := cs_Metadata (vr_certificate v), cs_AnchorProof := cs_AnchorProof (vr_certificate v)\<rparr> = vr_certificate v"
    by simp
  ultimately show ?thesis using VerifyCert_root [OF assms(1)] by metis
qed

theorem server_valid_offline_valid_witness:
  "r_Valid (VerifyCertificate (offline_certificate (\<lambda>_. '''') demo_cert))"
proof -
  obtain v where v: "VerifyCert demo_world ''t'' (Some \<lparr>vq_CertID = ''cert_0123456789ab'', vq_RootHash = ''''\<rparr>)
    stored_state = Ok v" "vr_certificate v = demo_cert" "vr_valid v" by (rule stored_verifies)
  have "cs_CertID demo_cert \<noteq> ''''" "\<exists>tree. cs_MerkleTree demo_cert = Some tree"
    by (simp_all add: demo_cert_def new_certificate_def set_anchor_def)
  then show ?thesis using server_valid_offline_valid [OF v(1)] v by fastforce
qed

end
