(* ===== verification/EventStore.thy ===== *)
theory EventStore
  imports Gateway CertSearch "HOL-Library.Multiset"
begin

text \<open>
  The event handlers: \<open>server/internal/api/events.go\<close>, and the way of an event from a chat into a
  certificate.

  The table \<open>events\<close> is the list of its rows in the order of insertion. \<open>accepts\<close> stands for the column
  constraints other than the unique \<open>event_id\<close> (lengths, JSON), and for a database that is down. The
  parameters \<open>parse_time\<close> and \<open>parse_payload\<close> are \<open>time.Parse\<close> with RFC 3339 and the decoding of a payload into a
  map; a payload that does not decode is listed as nil. The SQL text that \<open>SearchEvents\<close> puts together is
  represented by the conditions it contains.
\<close>

subsection \<open>Ingesting\<close>

record IngestEventResult =
  ir_EventID :: string
  ir_EventHash :: string
  ir_Error :: string

record IngestEventsResponse =
  rs_Success :: bool
  rs_Results :: "IngestEventResult list"

definition storeEvent :: "(event \<Rightarrow> bool) \<Rightarrow> event \<Rightarrow> event list \<Rightarrow> event list option" where
  "storeEvent accepts evt db =
     (if accepts evt \<and> EventID evt \<notin> EventID ` set db then Some (db @ [evt]) else None)"

definition with_tenant :: "string \<Rightarrow> event \<Rightarrow> event" where
  "with_tenant tenantID evt = (if TenantID evt = '''' then evt\<lparr>TenantID := tenantID\<rparr> else evt)"

text \<open>The loop of \<open>IngestEvents\<close>; \<open>db_error\<close> is the text of the driver's error.\<close>

fun ingest_loop :: "(event \<Rightarrow> bool) \<Rightarrow> string \<Rightarrow> string \<Rightarrow> event list \<Rightarrow> event list
    \<Rightarrow> IngestEventResult list \<times> event list" where
  "ingest_loop accepts db_error tenantID [] db = ([], db)"
| "ingest_loop accepts db_error tenantID (evt # evts) db =
     (let evt = with_tenant tenantID evt;
          (r, db) = (case storeEvent accepts evt db of
              None \<Rightarrow> (\<lparr>ir_EventID = EventID evt, ir_EventHash = '''', ir_Error = db_error\<rparr>, db)
            | Some db' \<Rightarrow> (\<lparr>ir_EventID = EventID evt, ir_EventHash = EventHash evt, ir_Error = ''''\<rparr>, db'));
          (rs, db) = ingest_loop accepts db_error tenantID evts db
      in (r # rs, db))"

definition IngestEvents :: "(event \<Rightarrow> bool) \<Rightarrow> string \<Rightarrow> string \<Rightarrow> event list option \<Rightarrow> event list
    \<Rightarrow> (http_error, IngestEventsResponse) outcome \<times> event list" where
  "IngestEvents accepts db_error tenantID req db =
     (case req of
        None \<Rightarrow> (Err (400, ''Invalid request body''), db)
      | Some evts \<Rightarrow>
          let (results, db) = ingest_loop accepts db_error tenantID evts db
          in (Ok \<lparr>rs_Success = True, rs_Results = results\<rparr>, db))"

text \<open>The goroutine of the chat handlers: every event is stored, an error only logged.\<close>

fun store_all :: "(event \<Rightarrow> bool) \<Rightarrow> event list \<Rightarrow> event list \<Rightarrow> event list" where
  "store_all accepts [] db = db"
| "store_all accepts (evt # evts) db =
     store_all accepts evts (case storeEvent accepts evt db of None \<Rightarrow> db | Some db' \<Rightarrow> db')"

text \<open>The answer of the event query of \<open>CommitCert\<close>.\<close>

definition trace_hashes :: "event list \<Rightarrow> string \<Rightarrow> string \<Rightarrow> string option list" where
  "trace_hashes db trID tenantID =
     map (\<lambda>e. Some (EventHash e))
       (sort_key Sequence (filter (\<lambda>e. TraceID e = trID \<and> TenantID e = tenantID) db))"

subsection \<open>Searching\<close>

record SearchEventsRequest =
  sq_TraceID :: string
  sq_EventType :: string
  sq_StartTime :: string
  sq_EndTime :: string
  sq_Page :: int
  sq_PageSize :: int

record 'p event_item =
  ei_event_id :: string
  ei_trace_id :: string
  ei_event_type :: EventType
  ei_timestamp :: time
  ei_payload :: "'p option"
  ei_event_hash :: string

record 'p SearchEventsResponse =
  es_events :: "'p event_item list"
  es_page :: int
  es_page_size :: int
  es_total_count :: int
  es_total_pages :: int
  es_has_more :: bool
  es_size :: nat

text \<open>The conditions of the page query and of the count query.\<close>

definition time_filter :: "(string \<Rightarrow> time option) \<Rightarrow> string \<Rightarrow> (time \<Rightarrow> bool) \<Rightarrow> bool" where
  "time_filter parse_time s P =
     (if s \<noteq> '''' then (case parse_time s of Some t \<Rightarrow> P t | None \<Rightarrow> True) else True)"

definition count_filter :: "string \<Rightarrow> SearchEventsRequest \<Rightarrow> event \<Rightarrow> bool" where
  "count_filter tenantID req e \<longleftrightarrow> TenantID e = tenantID
     \<and> (if sq_TraceID req \<noteq> '''' then TraceID e = sq_TraceID req else True)
     \<and> (if sq_EventType req \<noteq> '''' then EventType e = sq_EventType req else True)"

definition page_filter :: "(string \<Rightarrow> time option) \<Rightarrow> string \<Rightarrow> SearchEventsRequest \<Rightarrow> event \<Rightarrow> bool" where
  "page_filter parse_time tenantID req e \<longleftrightarrow> TenantID e = tenantID
     \<and> (if sq_TraceID req \<noteq> '''' then TraceID e = sq_TraceID req else True)
     \<and> (if sq_EventType req \<noteq> '''' then EventType e = sq_EventType req else True)
     \<and> time_filter parse_time (sq_StartTime req) (\<lambda>t. Timestamp e \<ge> t)
     \<and> time_filter parse_time (sq_EndTime req) (\<lambda>t. Timestamp e \<le> t)"

definition event_page :: "search_env \<Rightarrow> (string \<Rightarrow> time option) \<Rightarrow> string \<Rightarrow> SearchEventsRequest \<Rightarrow> event list
    \<Rightarrow> event list option" where
  "event_page env parse_time tenantID req db =
     (let offset = wrap64 (wrap64 (sq_Page req - 1) * sq_PageSize req) in
      if \<not> se_query_ok env \<or> sq_PageSize req < 0 \<or> offset < 0 then None
      else Some (take (nat (sq_PageSize req)) (drop (nat offset)
        (sort_key (\<lambda>e. - Timestamp e) (filter (page_filter parse_time tenantID req) db)))))"

definition event_item_of :: "(string \<Rightarrow> 'p option) \<Rightarrow> event \<Rightarrow> 'p event_item" where
  "event_item_of parse_payload e = \<lparr>ei_event_id = EventID e, ei_trace_id = TraceID e, ei_event_type = EventType e,
     ei_timestamp = Timestamp e, ei_payload = parse_payload (Payload e), ei_event_hash = EventHash e\<rparr>"

text \<open>Go's division truncates; a divisor of zero panics.\<close>

definition quot64 :: "int \<Rightarrow> int \<Rightarrow> int" where
  "quot64 a b = (if (a < 0) = (b < 0) then \<bar>a\<bar> div \<bar>b\<bar> else - (\<bar>a\<bar> div \<bar>b\<bar>))"

definition SearchEvents :: "search_env \<Rightarrow> (string \<Rightarrow> time option) \<Rightarrow> (string \<Rightarrow> 'p option) \<Rightarrow> string
    \<Rightarrow> SearchEventsRequest option \<Rightarrow> event list \<Rightarrow> (http_error, 'p SearchEventsResponse) outcome" where
  "SearchEvents env parse_time parse_payload tenantID req db =
     (case req of
        None \<Rightarrow> Err (400, ''Invalid query parameters'')
      | Some req \<Rightarrow>
          let totalCount = (if se_count_ok env then int (length (filter (count_filter tenantID req) db)) else 0) in
          case event_page env parse_time tenantID req db of
            None \<Rightarrow> Err (500, ''Query failed'')
          | Some rows \<Rightarrow>
              let events = map (event_item_of parse_payload) (filter (\<lambda>e. se_scans env (EventID e)) rows) in
              if se_rows_err env then Err (500, ''Failed to read events'')
              else if sq_PageSize req = 0 then Panic
              else let totalPages = quot64 (wrap64 (totalCount + sq_PageSize req - 1)) (sq_PageSize req);
                       hasMore = sq_Page req < totalPages
                   in Ok \<lparr>es_events = events, es_page = sq_Page req, es_page_size = sq_PageSize req,
                          es_total_count = totalCount, es_total_pages = totalPages, es_has_more = hasMore,
                          es_size = length events\<rparr>)"

record 'p event_detail =
  ed_event_id :: string
  ed_trace_id :: string
  ed_event_type :: EventType
  ed_timestamp :: time
  ed_sequence :: int
  ed_payload :: "'p option"
  ed_event_hash :: string

definition GetEvent :: "(string \<Rightarrow> 'p option) \<Rightarrow> string \<Rightarrow> string \<Rightarrow> event list \<Rightarrow> (http_error, 'p event_detail) outcome" where
  "GetEvent parse_payload tenantID eventID db =
     (case List.find (\<lambda>e. EventID e = eventID \<and> TenantID e = tenantID) db of
        None \<Rightarrow> Err (404, ''Event not found'')
      | Some e \<Rightarrow> Ok \<lparr>ed_event_id = eventID, ed_trace_id = TraceID e, ed_event_type = EventType e,
          ed_timestamp = Timestamp e, ed_sequence = Sequence e, ed_payload = parse_payload (Payload e),
          ed_event_hash = EventHash e\<rparr>)"

subsection \<open>Storing\<close>

lemma storeEvent_Some:
  "storeEvent accepts e db = Some db' \<longleftrightarrow> accepts e \<and> EventID e \<notin> EventID ` set db \<and> db' = db @ [e]"
  by (auto simp: storeEvent_def)

text \<open>Events with new, different ids that the database accepts are all stored.\<close>

lemma store_all_fresh:
  assumes "\<forall>e \<in> set evts. accepts e" and "distinct (map EventID (db @ evts))"
  shows "store_all accepts evts db = db @ evts"
  using assms
proof (induction accepts evts db rule: store_all.induct)
  case (2 accepts evt evts db)
  then have "storeEvent accepts evt db = Some (db @ [evt])" by (auto simp: storeEvent_def)
  with 2 show ?case by simp
qed simp

lemma ingest_loop_db:
  "snd (ingest_loop accepts err tenantID evts db) = store_all accepts (map (with_tenant tenantID) evts) db"
proof (induction evts arbitrary: db)
  case (Cons evt evts)
  then show ?case
    by (cases "storeEvent accepts (with_tenant tenantID evt) db") (auto simp: Let_def split: prod.split, (metis snd_conv)+)
qed simp

lemma ingest_loop_results:
  assumes "\<forall>e \<in> set evts. accepts (with_tenant t e)" and "distinct (map EventID (db @ evts))"
  shows "fst (ingest_loop accepts err t evts db)
    = map (\<lambda>e. \<lparr>ir_EventID = EventID e, ir_EventHash = EventHash e, ir_Error = ''''\<rparr>) evts"
  using assms
proof (induction evts arbitrary: db)
  case (Cons evt evts)
  have id: "EventID (with_tenant t evt) = EventID evt" "EventHash (with_tenant t evt) = EventHash evt"
    by (simp_all add: with_tenant_def)
  then have "storeEvent accepts (with_tenant t evt) db = Some (db @ [with_tenant t evt])"
    using Cons.prems by (auto simp: storeEvent_def)
  with Cons.IH [of "db @ [with_tenant t evt]"] Cons.prems id show ?case
    by (auto simp: Let_def split: prod.split dest: arg_cong [of _ _ fst])
qed simp

text \<open>Sorting by sequence numbers restores a chain.\<close>

lemma sort_key_chain:
  assumes "mset xs = mset evts" and "\<And>n. n < length evts \<Longrightarrow> Sequence (evts ! n) = int n + 1"
  shows "sort_key Sequence xs = evts"
proof -
  have seq: "map Sequence evts = map (\<lambda>n. int n + 1) [0..<length evts]" by (intro nth_equalityI) (auto simp: assms(2))
  have "distinct (map Sequence evts)" unfolding seq by (simp add: distinct_map inj_on_def)
  then have "inj_on Sequence (set evts)" by (simp add: distinct_map)
  moreover have "set xs = set evts" using assms(1) by (rule mset_eq_setD)
  moreover have "sorted (map Sequence evts)" unfolding seq by (simp add: sorted_iff_nth_mono)
  ultimately show ?thesis using assms(1) by (intro sort_key_inj_key_eq) simp_all
qed

lemma chained_sequence: "chained w evts \<Longrightarrow> n < length evts \<Longrightarrow> Sequence (evts ! n) = int n + 1"
  by (simp add: chained_def)

lemma trace_hashes_snoc_other:
  "\<forall>e \<in> set evts. TraceID e \<noteq> tr \<or> TenantID e \<noteq> t \<Longrightarrow> trace_hashes (evts @ xs) tr t = trace_hashes xs tr t"
  by (simp add: trace_hashes_def)

lemma trace_hashes_chain:
  assumes "mset xs = mset evts" and "chained w evts" and "\<forall>e \<in> set evts. TraceID e = tr \<and> TenantID e = t"
  shows "trace_hashes xs tr t = map (\<lambda>e. Some (EventHash e)) evts"
proof -
  have "set xs = set evts" using assms(1) by (rule mset_eq_setD)
  then have "filter (\<lambda>e. TraceID e = tr \<and> TenantID e = t) xs = xs" using assms(3) by simp
  then show ?thesis
    using sort_key_chain [OF assms(1) chained_sequence [OF assms(2)]] by (simp add: trace_hashes_def)
qed

lemma scan_hashes_all [simp]: "scan_hashes (map (\<lambda>e. Some (f e)) xs) = map f xs"
  by (induction xs) (simp_all add: scan_hashes_def List.map_filter_def)

text \<open>Storing, reading back, committing and verifying, as one step.\<close>

lemma certified_chain:
  assumes "chained w evts" and "mset stored = mset evts" and "\<forall>e \<in> set evts. TraceID e = tr \<and> TenantID e = t"
    and "\<forall>e \<in> set evts. accepts e" and "distinct (map EventID (db @ stored))"
    and "\<forall>e \<in> set db. TraceID e \<noteq> tr \<or> TenantID e \<noteq> t"
    and "cc_query call tr t = Some (trace_hashes (store_all accepts stored db) tr t, False)"
    and "world_ok cw" and "signing_ok cw call st"
    and "CommitCert cw call t (Some \<lparr>cq_TraceID = tr, cq_EvidenceLevel = l\<rparr>) st = (Ok resp, st')"
  shows "\<exists>v. VerifyCert cw t (Some \<lparr>vq_CertID = co_cert_id resp, vq_RootHash = rh\<rparr>) st' = Ok v \<and> vr_valid v
    \<and> cs_EventHashes (vr_certificate v) = map EventHash evts \<and> co_root_hash resp = tree_root hashPair (map EventHash evts)
    \<and> ValidateCausalOrder evts"
proof -
  have sets: "set stored = set evts" using assms(2) by (rule mset_eq_setD)
  have "store_all accepts stored db = db @ stored" using assms(4,5) sets by (intro store_all_fresh) auto
  then have q: "trace_hashes (store_all accepts stored db) tr t = map (\<lambda>e. Some (EventHash e)) evts"
    using trace_hashes_chain [OF assms(2,1,3)] assms(6) by (simp add: trace_hashes_snoc_other)
  obtain row c rq rows where r: "Some \<lparr>cq_TraceID = tr, cq_EvidenceLevel = l\<rparr> = Some rq"
      "cc_query call (cq_TraceID rq) t = Some (rows, False)"
      "st_rows st' = st_rows st @ [row]" "rw_cert_id row \<notin> rw_cert_id ` set (st_rows st)"
      "rw_tenant_id row = t" "co_cert_id resp = rw_cert_id row"
    and c: "cs_EventHashes c = scan_hashes rows" "co_root_hash resp = tree_root hashPair (scan_hashes rows)"
    and v: "\<forall>st rh. query_row (\<lambda>r. rw_cert_id r = rw_cert_id row) t st = Some row \<longrightarrow> (\<exists>v.
      VerifyCert cw t (Some \<lparr>vq_CertID = rw_cert_id row, vq_RootHash = rh\<rparr>) st = Ok v \<and> vr_certificate v = c
      \<and> vr_valid v \<and> sm_status (vr_summary v) = ''VERIFIED'')"
    by (rule CommitCert_row [OF assms(8-10)], rule that, assumption+)
  have "scan_hashes rows = map EventHash evts" using r(1,2) assms(7) q by auto
  moreover have "query_row (\<lambda>r. rw_cert_id r = rw_cert_id row) t st' = Some row"
    using query_row_unique [of st' "st_rows st" row "[]"] r(3-5) by simp
  moreover from this obtain v where "VerifyCert cw t (Some \<lparr>vq_CertID = rw_cert_id row, vq_RootHash = rh\<rparr>) st' = Ok v"
    "vr_certificate v = c" "vr_valid v" using v by blast
  ultimately show ?thesis using r(6) c chained_causal [OF assms(1)] by auto
qed

subsection \<open>Properties\<close>

text \<open>C3. From a chat to a certificate. Store the events of a chain of one tenant and trace in any order (the
  streaming result lists OUTPUT before the chunks), with fresh ids, into a table that has no event of the
  trace. Then a certificate committed for the trace lists exactly the hashes of the chain in
  causal order, and it verifies.\<close>

theorem stored_chain_is_certified:
  assumes "chained w evts" and "mset stored = mset evts" and "\<forall>e \<in> set evts. TraceID e = tr \<and> TenantID e = t"
    and "\<forall>e \<in> set evts. accepts e" and "distinct (map EventID (db @ stored))"
    and "\<forall>e \<in> set db. TraceID e \<noteq> tr \<or> TenantID e \<noteq> t"
    and "cc_query call tr t = Some (trace_hashes (store_all accepts stored db) tr t, False)"
    and "world_ok cw" and "signing_ok cw call st"
    and "CommitCert cw call t (Some \<lparr>cq_TraceID = tr, cq_EvidenceLevel = l\<rparr>) st = (Ok resp, st')"
  shows "\<exists>v. VerifyCert cw t (Some \<lparr>vq_CertID = co_cert_id resp, vq_RootHash = rh\<rparr>) st' = Ok v \<and> vr_valid v
    \<and> cs_EventHashes (vr_certificate v) = map EventHash evts \<and> co_root_hash resp = tree_root hashPair (map EventHash evts)
    \<and> ValidateCausalOrder evts"
  using assms by (rule certified_chain)

theorem stored_chain_is_certified_witness:
  "\<exists>i m resp st' v. chained sample_world [i, m]
     \<and> CommitCert demo_world (demo_call_of (trace_hashes (store_all (\<lambda>_. True) [m, i] []) ''trc'' ''t'')) ''t''
         (Some \<lparr>cq_TraceID = ''trc'', cq_EvidenceLevel = ''L2''\<rparr>) demo_state = (Ok resp, st')
     \<and> VerifyCert demo_world ''t'' (Some \<lparr>vq_CertID = co_cert_id resp, vq_RootHash = ''''\<rparr>) st' = Ok v
     \<and> vr_valid v \<and> cs_EventHashes (vr_certificate v) = [EventHash i, EventHash m]"
proof -
  let ?ctx = "sample_context\<lparr>tx_TraceID := ''trc'', tx_TenantID := ''t''\<rparr>"
  define i where "i = createInputEvent sample_world sample_request ?ctx"
  define m where "m = createModelEvent sample_world sample_request ?ctx (EventHash i)"
  let ?call = "demo_call_of (trace_hashes (store_all (\<lambda>_. True) [m, i] []) ''trc'' ''t'')"
  have ch: "chained sample_world [i, m]" unfolding i_def m_def by (rule chained_request)
  have ev: "\<forall>e \<in> set [i, m]. TraceID e = ''trc'' \<and> TenantID e = ''t''" by (simp add: i_def m_def gateway_events Let_def)
  have ids: "EventID i = event_id sample_world 0" "EventID m = event_id sample_world 1"
    by (simp_all add: i_def m_def gateway_events Let_def)
  have dist: "distinct (map EventID ([] @ [m, i]))"
    by (simp add: ids event_id_def sample_world_def)
  have perm: "mset [m, i] = mset [i, m]" by simp
  have acc: "\<forall>e \<in> set [i, m]. (\<lambda>_. True) e" by simp
  have th: "trace_hashes (store_all (\<lambda>_. True) [m, i] []) ''trc'' ''t'' = [Some (EventHash i), Some (EventHash m)]"
  proof -
    have "store_all (\<lambda>_. True) [m, i] [] = [] @ [m, i]" by (rule store_all_fresh) (use dist in simp_all)
    then show ?thesis using trace_hashes_chain [OF perm ch ev] by simp
  qed
  have sc: "scan_hashes [Some (EventHash i), Some (EventHash m)] = [EventHash i, EventHash m]"
    by (simp add: scan_hashes_def List.map_filter_def)
  have "\<exists>resp st'. CommitCert demo_world ?call ''t'' (Some \<lparr>cq_TraceID = ''trc'', cq_EvidenceLevel = ''L2''\<rparr>)
      demo_state = (Ok resp, st')"
    unfolding th by (rule demo_commit) (simp_all add: sc tree_root_step tree_root_stop)
  then obtain resp st' where c: "CommitCert demo_world ?call ''t'' (Some \<lparr>cq_TraceID = ''trc'', cq_EvidenceLevel = ''L2''\<rparr>)
      demo_state = (Ok resp, st')" by blast
  have sign: "signing_ok demo_world ?call demo_state"
    by (simp add: signing_ok_def demo_defs sign_start_def)
  have query: "cc_query ?call ''trc'' ''t'' = Some (trace_hashes (store_all (\<lambda>_. True) [m, i] []) ''trc'' ''t'', False)"
    by (simp add: demo_call_of_def)
  obtain v where "VerifyCert demo_world ''t'' (Some \<lparr>vq_CertID = co_cert_id resp, vq_RootHash = ''''\<rparr>) st' = Ok v"
    "vr_valid v" "cs_EventHashes (vr_certificate v) = [EventHash i, EventHash m]"
    using stored_chain_is_certified [OF ch perm ev acc dist _ query demo_ok(1) sign c, of "''''"] by auto
  with ch c show ?thesis by blast
qed

text \<open>What \<open>IngestEvents\<close> keeps. It answers success whatever happens, with one result per event. Accepted
  events with new ids are stored as they came, in order: hash and payload hash are not recomputed, and
  the tenant is only filled in when the client leaves it out. So one tenant can write an event
  into another tenant's trace, and the other tenant's next certificate covers it.\<close>

theorem IngestEvents_trusts_client:
  assumes "\<forall>e \<in> set evts. accepts (with_tenant a e)" and "distinct (map EventID (db @ evts))"
    and "e \<in> set evts" and "TenantID e = b" and "b \<noteq> ''''"
  shows "\<exists>r. IngestEvents accepts err a (Some evts) db = (Ok r, db @ map (with_tenant a) evts)
    \<and> rs_Success r \<and> map ir_EventHash (rs_Results r) = map EventHash evts
    \<and> e \<in> set (snd (IngestEvents accepts err a (Some evts) db))
    \<and> Some (EventHash e) \<in> set (trace_hashes (snd (IngestEvents accepts err a (Some evts) db)) (TraceID e) b)"
proof -
  have id: "map EventID (map (with_tenant a) evts) = map EventID evts" by (simp add: with_tenant_def)
  have db: "snd (ingest_loop accepts err a evts db) = db @ map (with_tenant a) evts"
    unfolding ingest_loop_db using assms(1,2) id by (intro store_all_fresh) (auto simp flip: map_map)
  have "with_tenant a e = e" using assms(4,5) by (simp add: with_tenant_def)
  then have "e \<in> set (map (with_tenant a) evts)" using assms(3) by force
  with assms(3-5) ingest_loop_results [OF assms(1,2), of err] db show ?thesis
    by (cases "ingest_loop accepts err a evts db") (auto simp: IngestEvents_def trace_hashes_def)
qed

definition foreign_event :: event where
  "foreign_event = \<lparr>EventID = ''e'', TraceID = ''trc'', ParentEventID = '''', PrevEventHash = '''', PrevEventHashes = [],
     EventType = EventTypeOutput, Timestamp = 0, Sequence = 9, TenantID = ''victim'', UserID = '''', SessionID = '''',
     Payload = ''{}'', PayloadHash = '''', EventHash = ''sha256:made-up''\<rparr>"

theorem IngestEvents_trusts_client_witness:
  "Some ''sha256:made-up'' \<in> set (trace_hashes (snd (IngestEvents (\<lambda>_. True) ''error'' ''attacker'' (Some [foreign_event]) []))
     ''trc'' ''victim'')"
proof -
  have "\<forall>e \<in> set [foreign_event]. (\<lambda>_. True) (with_tenant ''attacker'' e)" "distinct (map EventID ([] @ [foreign_event]))"
    "foreign_event \<in> set [foreign_event]" "''victim'' \<noteq> ''''" by simp_all
  moreover have fe: "TenantID foreign_event = ''victim''" "TraceID foreign_event = ''trc''"
    "EventHash foreign_event = ''sha256:made-up''" by (simp_all add: foreign_event_def)
  ultimately have "Some (EventHash foreign_event) \<in> set (trace_hashes (snd (IngestEvents (\<lambda>_. True) ''error'' ''attacker''
      (Some [foreign_event]) [])) (TraceID foreign_event) ''victim'')"
    using IngestEvents_trusts_client [of "[foreign_event]" "\<lambda>_. True" "''attacker''" "[]" foreign_event "''victim''" "''error''"]
    by blast
  then show ?thesis by (simp only: fe)
qed

text \<open>Searching events. The answer lists the page of the tenant's events that meet every condition, newest
  first, but its count leaves the time range out, so it is an upper bound and \<open>has_more\<close> can promise
  pages that are empty. A page size of zero panics: the division follows the query.\<close>

theorem SearchEvents_count:
  assumes "SearchEvents env pt pp t (Some req) db = r" and "se_query_ok env" and "\<not> se_rows_err env" and "se_count_ok env"
    and "\<And>c. se_scans env c" and "1 \<le> sq_Page req" and "sq_Page req < 2 ^ 31" and "0 \<le> sq_PageSize req" and "sq_PageSize req < 2 ^ 31"
  shows "if sq_PageSize req = 0 then r = Panic
    else \<exists>resp. r = Ok resp
      \<and> es_events resp = map (event_item_of pp) (take (nat (sq_PageSize req)) (drop (nat ((sq_Page req - 1) * sq_PageSize req))
          (sort_key (\<lambda>e. - Timestamp e) (filter (page_filter pt t req) db))))
      \<and> es_total_count resp = int (length (filter (count_filter t req) db))
      \<and> int (length (filter (page_filter pt t req) db)) \<le> es_total_count resp
      \<and> (sq_StartTime req = '''' \<and> sq_EndTime req = '''' \<longrightarrow>
          es_total_count resp = int (length (filter (page_filter pt t req) db)))"
proof -
  have "(sq_Page req - 1) * sq_PageSize req \<le> 2 ^ 31 * 2 ^ 31"
    using assms(6-9) by (intro mult_mono) auto
  moreover have nn: "0 \<le> (sq_Page req - 1) * sq_PageSize req" using assms(6,8) by simp
  ultimately have "wrap64 ((sq_Page req - 1) * sq_PageSize req) = (sq_Page req - 1) * sq_PageSize req"
    by (intro wrap64_id) simp_all
  moreover have "wrap64 (sq_Page req - 1) = sq_Page req - 1" using assms(6,7) by (intro wrap64_id) simp_all
  moreover have "\<not> (sq_Page req - 1) * sq_PageSize req < 0" using nn by (simp only: not_less)
  ultimately have page: "event_page env pt t req db = Some (take (nat (sq_PageSize req)) (drop (nat ((sq_Page req - 1) * sq_PageSize req))
      (sort_key (\<lambda>e. - Timestamp e) (filter (page_filter pt t req) db))))"
    using assms(2,8) by (simp add: event_page_def Let_def)
  have "page_filter pt t req e \<longleftrightarrow> count_filter t req e \<and> time_filter pt (sq_StartTime req) (\<lambda>x. Timestamp e \<ge> x)
      \<and> time_filter pt (sq_EndTime req) (\<lambda>x. Timestamp e \<le> x)" for e
    unfolding page_filter_def count_filter_def by (simp only: conj_assoc)
  then have sub: "filter (page_filter pt t req) db = filter (\<lambda>e. time_filter pt (sq_StartTime req) (\<lambda>x. Timestamp e \<ge> x)
      \<and> time_filter pt (sq_EndTime req) (\<lambda>x. Timestamp e \<le> x)) (filter (count_filter t req) db)"
    by (simp add: conj_ac cong: filter_cong)
  then have "int (length (filter (page_filter pt t req) db)) \<le> int (length (filter (count_filter t req) db))"
    by (metis length_filter_le of_nat_le_iff)
  moreover have "filter (page_filter pt t req) db = filter (count_filter t req) db"
    if "sq_StartTime req = ''''" "sq_EndTime req = ''''"
    using that by (simp add: sub time_filter_def)
  ultimately show ?thesis
    using assms(2-5) by (auto simp: assms(1) [symmetric] SearchEvents_def page Let_def)
qed

theorem SearchEvents_count_witness:
  "SearchEvents \<lparr>se_count_ok = True, se_query_ok = True, se_rows_err = False, se_scans = (\<lambda>_. True)\<rparr> (\<lambda>_. None) (\<lambda>_. None :: unit option) ''t''
     (Some \<lparr>sq_TraceID = '''', sq_EventType = '''', sq_StartTime = '''', sq_EndTime = '''', sq_Page = 1, sq_PageSize = 0\<rparr>) [] = Panic"
  using SearchEvents_count [OF refl, of "\<lparr>se_count_ok = True, se_query_ok = True, se_rows_err = False, se_scans = (\<lambda>_. True)\<rparr>"
      "\<lparr>sq_TraceID = '''', sq_EventType = '''', sq_StartTime = '''', sq_EndTime = '''', sq_Page = 1, sq_PageSize = 0\<rparr>"
      "\<lambda>_. None" "\<lambda>_. None :: unit option" "''t''" "[]"] by simp

end
