(* ===== verification/Federated.thy ===== *)
theory Federated
  imports Sign "HOL-Library.Multiset"
begin

text \<open>
  Anchoring with other nodes: \<open>server/internal/anchor/anchor.go\<close> (types) and \<open>federated.go\<close>.

  The record \<open>FederatedAnchor\<close> holds the fields of the struct that change or are read; the maps are Go maps.
  The two HTTP exchanges are parameters: \<open>ask\<close> is the answer of an endpoint to a confirmation request
  (\<open>None\<close>: no answer, or one that does not parse), \<open>status\<close> the status code of a GET. The nodes are asked in
  parallel, and \<open>arrival\<close> puts the confirmations into the order in which they come in. \<open>clock\<close> gives the
  successive readings of the clock. A key of the wrong length makes \<open>ed25519.Verify\<close> panic.

  \<open>net_verify\<close> composes the nodes: a node that does not have an anchor in its cache asks the nodes it
  knows, over the route that runs \<open>Verify\<close> there. The depth is bounded by the fuel, which stands for the
  timeout of the clients.
\<close>

subsection \<open>Types\<close>

type_synonym AnchorType = string

definition AnchorTypeFederated :: AnchorType where "AnchorTypeFederated = ''federated''"
definition AnchorTypeEthereum :: AnchorType where "AnchorTypeEthereum = ''ethereum''"

record AnchorRequest =
  aq_CertID :: string
  aq_RootHash :: string
  aq_Timestamp :: time
  aq_Metadata :: string

record AnchorResult =
  ax_AnchorID :: string
  ax_AnchorType :: AnchorType
  ax_TxHash :: string
  ax_BlockNumber :: nat
  ax_BlockHash :: string
  ax_ContractAddress :: string
  ax_ChainID :: int
  ax_GasUsed :: nat
  ax_Timestamp :: time
  ax_ProofURL :: string
  ax_FederatedNodes :: "string list"
  ax_Confirmations :: nat

record Config =
  EthereumRPCURL :: string
  EthereumPrivateKey :: string
  EthereumChainID :: int
  PolygonRPCURL :: string
  PolygonPrivateKey :: string
  PolygonChainID :: int
  ContractAddress :: string
  FederatedNodes :: "string list"
  MinConfirmations :: int
  GasLimit :: nat
  MaxGasPrice :: nat
  RetryAttempts :: int
  RetryDelay :: duration

definition DefaultConfig :: Config where
  "DefaultConfig = \<lparr>EthereumRPCURL = '''', EthereumPrivateKey = '''', EthereumChainID = 1, PolygonRPCURL = '''',
     PolygonPrivateKey = '''', PolygonChainID = 137, ContractAddress = '''', FederatedNodes = [], MinConfirmations = 3,
     GasLimit = 100000, MaxGasPrice = 100000000000, RetryAttempts = 3, RetryDelay = 5 * 1000000000\<rparr>"

datatype anchor_error = ErrNotConfigured | ErrInvalidProof | ErrChainUnavailable | ErrNoConfirmations int int
  | KeyGenerationFailed | TypeNotConfigured AnchorType | InvalidKeyFormat | InvalidKeyLength nat

record FederatedConfirmation =
  fc_NodeID :: string
  fc_AnchorID :: string
  fc_RootHash :: string
  fc_Timestamp :: time
  fc_Signature :: string

record FederatedAnchorRequest =
  fq_CertID :: string
  fq_RootHash :: string
  fq_Timestamp :: time
  fq_OriginNode :: string
  fq_Signature :: string

record FederatedAnchorResponse =
  fr_Accepted :: bool
  fr_NodeID :: string
  fr_AnchorID :: string
  fr_Signature :: string
  fr_Error :: string
  fr_Timestamp :: time

record FederatedAnchor =
  fa_nodes :: "string list"
  fa_minConfirm :: int
  fa_publicKey :: bytes
  fa_privateKey :: bytes
  fa_nodeID :: string
  fa_knownAnchors :: "string \<rightharpoonup> AnchorResult"
  fa_trustedKeys :: "string \<rightharpoonup> bytes"

definition unix_time :: "time \<Rightarrow> int" where
  "unix_time t = t div 1000000000"

subsection \<open>The anchor\<close>

definition NewFederatedAnchor :: "Config \<Rightarrow> (bytes \<times> bytes) option \<Rightarrow> (anchor_error, FederatedAnchor) outcome" where
  "NewFederatedAnchor cfg generated =
     (if length (FederatedNodes cfg) = 0 then Err ErrNotConfigured
      else case generated of
          None \<Rightarrow> Err KeyGenerationFailed
        | Some (pub, priv) \<Rightarrow>
            Ok \<lparr>fa_nodes = FederatedNodes cfg, fa_minConfirm = MinConfirmations cfg, fa_publicKey = pub,
                fa_privateKey = priv, fa_nodeID = hex_encode (take 8 pub), fa_knownAnchors = Map.empty,
                fa_trustedKeys = Map.empty\<rparr>)"

definition signed_text :: "string \<Rightarrow> string \<Rightarrow> time \<Rightarrow> string" where
  "signed_text a b t = a @ ''|'' @ b @ ''|'' @ itoa (unix_time t)"

definition requestConfirmation :: "(string \<Rightarrow> FederatedAnchorRequest \<Rightarrow> FederatedAnchorResponse option) \<Rightarrow> string
    \<Rightarrow> FederatedAnchorRequest \<Rightarrow> FederatedConfirmation option" where
  "requestConfirmation ask endpoint req =
     (case ask endpoint req of
        None \<Rightarrow> None
      | Some resp \<Rightarrow>
          if \<not> fr_Accepted resp then None
          else Some \<lparr>fc_NodeID = fr_NodeID resp, fc_AnchorID = fr_AnchorID resp, fc_RootHash = '''',
                fc_Timestamp = fr_Timestamp resp, fc_Signature = fr_Signature resp\<rparr>)"

definition fed_request :: "ed25519 \<Rightarrow> FederatedAnchor \<Rightarrow> AnchorRequest \<Rightarrow> FederatedAnchorRequest" where
  "fed_request ed f req =
     \<lparr>fq_CertID = aq_CertID req, fq_RootHash = aq_RootHash req, fq_Timestamp = aq_Timestamp req,
      fq_OriginNode = fa_nodeID f,
      fq_Signature = hex_encode (ed_sign ed (fa_privateKey f)
        (bytes_of (signed_text (aq_CertID req) (aq_RootHash req) (aq_Timestamp req))))\<rparr>"

definition fed_Anchor :: "ed25519 \<Rightarrow> (string \<Rightarrow> FederatedAnchorRequest \<Rightarrow> FederatedAnchorResponse option)
    \<Rightarrow> (FederatedConfirmation list \<Rightarrow> FederatedConfirmation list) \<Rightarrow> (nat \<Rightarrow> time) \<Rightarrow> FederatedAnchor \<Rightarrow> AnchorRequest
    \<Rightarrow> (anchor_error, AnchorResult) outcome \<times> FederatedAnchor" where
  "fed_Anchor ed ask arrival clock f req =
     (let fedReq = fed_request ed f req;
          confirmations = arrival (List.map_filter (\<lambda>ep. requestConfirmation ask ep fedReq) (fa_nodes f));
          confirmedNodes = map fc_NodeID confirmations
      in if int (length confirmedNodes) < fa_minConfirm f
         then (Err (ErrNoConfirmations (int (length confirmedNodes)) (fa_minConfirm f)), f)
         else case go_prefix (aq_CertID req) 8 of
             None \<Rightarrow> (Panic, f)
           | Some short \<Rightarrow>
               let anchorID = ''fed_'' @ short @ ''_'' @ itoa (unix_time (clock 0));
                   result = \<lparr>ax_AnchorID = anchorID, ax_AnchorType = AnchorTypeFederated, ax_TxHash = '''',
                     ax_BlockNumber = 0, ax_BlockHash = '''', ax_ContractAddress = '''', ax_ChainID = 0, ax_GasUsed = 0,
                     ax_Timestamp = clock 1, ax_ProofURL = '''', ax_FederatedNodes = confirmedNodes,
                     ax_Confirmations = length confirmedNodes\<rparr>
               in (Ok result, f\<lparr>fa_knownAnchors := (fa_knownAnchors f)(anchorID \<mapsto> result)\<rparr>))"

definition verifyWithNode :: "(string \<Rightarrow> string \<Rightarrow> int option) \<Rightarrow> string \<Rightarrow> AnchorResult \<Rightarrow> bool" where
  "verifyWithNode status endpoint result = (status endpoint (ax_AnchorID result) = Some 200)"

definition fed_Verify :: "(string \<Rightarrow> string \<Rightarrow> int option) \<Rightarrow> FederatedAnchor \<Rightarrow> AnchorResult
    \<Rightarrow> (anchor_error, bool) outcome" where
  "fed_Verify status f result =
     (if ax_AnchorType result \<noteq> AnchorTypeFederated then Err ErrInvalidProof
      else case fa_knownAnchors f (ax_AnchorID result) of
          Some cached \<Rightarrow> Ok (int (ax_Confirmations cached) \<ge> fa_minConfirm f)
        | None \<Rightarrow> Ok (int (length (filter (\<lambda>ep. verifyWithNode status ep result) (fa_nodes f))) \<ge> fa_minConfirm f))"

definition reject :: "(nat \<Rightarrow> time) \<Rightarrow> FederatedAnchor \<Rightarrow> string \<Rightarrow> (anchor_error, FederatedAnchorResponse) outcome" where
  "reject clock f msg = Ok \<lparr>fr_Accepted = False, fr_NodeID = fa_nodeID f, fr_AnchorID = '''', fr_Signature = '''',
     fr_Error = msg, fr_Timestamp = clock 3\<rparr>"

text \<open>The signature check of a request: \<open>None\<close> when it passes, as it does for every node without a key.\<close>

definition origin_check :: "ed25519 \<Rightarrow> FederatedAnchor \<Rightarrow> FederatedAnchorRequest \<Rightarrow> string option option" where
  "origin_check ed f req =
     (case fa_trustedKeys f (fq_OriginNode req) of
        Some key \<Rightarrow>
          (case hex_decode (fq_Signature req) of
             None \<Rightarrow> Some (Some ''invalid signature format'')
           | Some sigBytes \<Rightarrow>
               if length key \<noteq> 32 then None
               else if \<not> ed_verify ed key (bytes_of (signed_text (fq_CertID req) (fq_RootHash req) (fq_Timestamp req))) sigBytes
               then Some (Some ''signature verification failed'')
               else Some None)
      | None \<Rightarrow> Some None)"

definition HandleConfirmRequest :: "ed25519 \<Rightarrow> (nat \<Rightarrow> time) \<Rightarrow> FederatedAnchor \<Rightarrow> FederatedAnchorRequest
    \<Rightarrow> (anchor_error, FederatedAnchorResponse) outcome" where
  "HandleConfirmRequest ed clock f req =
     (let timeDiff = clock 0 - fq_Timestamp req in
      if timeDiff < - (5 * 60 * 1000000000) \<or> timeDiff > 5 * 60 * 1000000000
      then reject clock f (''timestamp out of range ('' @ [CHR 0xC2, CHR 0xB1] @ ''5 minutes)'')
      else case origin_check ed f req of
          None \<Rightarrow> Panic
        | Some (Some msg) \<Rightarrow> reject clock f msg
        | Some None \<Rightarrow>
          if fq_CertID req = '''' \<or> fq_RootHash req = ''''
          then reject clock f ''missing required fields: cert_id or root_hash''
          else case go_prefix (fq_CertID req) 8 of
              None \<Rightarrow> Panic
            | Some short \<Rightarrow>
                let anchorID = ''fed_'' @ short @ ''_'' @ itoa (unix_time (clock 1));
                    signature = ed_sign ed (fa_privateKey f) (bytes_of (signed_text anchorID (fq_RootHash req) (clock 2)))
                in Ok \<lparr>fr_Accepted = True, fr_NodeID = fa_nodeID f, fr_AnchorID = anchorID,
                      fr_Signature = hex_encode signature, fr_Error = '''', fr_Timestamp = clock 3\<rparr>)"

subsection \<open>Keys and nodes\<close>

definition RegisterTrustedNode :: "FederatedAnchor \<Rightarrow> string \<Rightarrow> string \<Rightarrow> (anchor_error, FederatedAnchor) outcome" where
  "RegisterTrustedNode f nodeID publicKeyHex =
     (case hex_decode publicKeyHex of
        None \<Rightarrow> Err InvalidKeyFormat
      | Some pubKeyBytes \<Rightarrow>
          if length pubKeyBytes \<noteq> 32 then Err (InvalidKeyLength (length pubKeyBytes))
          else Ok (f\<lparr>fa_trustedKeys := (fa_trustedKeys f)(nodeID \<mapsto> pubKeyBytes)\<rparr>))"

definition RemoveTrustedNode :: "FederatedAnchor \<Rightarrow> string \<Rightarrow> FederatedAnchor" where
  "RemoveTrustedNode f nodeID = f\<lparr>fa_trustedKeys := (fa_trustedKeys f)(nodeID := None)\<rparr>"

definition GetTrustedNodes :: "FederatedAnchor \<Rightarrow> (string \<rightharpoonup> string)" where
  "GetTrustedNodes f nodeID = map_option hex_encode (fa_trustedKeys f nodeID)"

definition fed_IsAvailable :: "(string \<Rightarrow> int option) \<Rightarrow> FederatedAnchor \<Rightarrow> bool" where
  "fed_IsAvailable health f \<longleftrightarrow> int (length (filter (\<lambda>node. health node = Some 200) (fa_nodes f))) \<ge> fa_minConfirm f"

definition AddNode :: "FederatedAnchor \<Rightarrow> string \<Rightarrow> FederatedAnchor" where
  "AddNode f endpoint = (if endpoint \<in> set (fa_nodes f) then f else f\<lparr>fa_nodes := fa_nodes f @ [endpoint]\<rparr>)"

definition RemoveNode :: "FederatedAnchor \<Rightarrow> string \<Rightarrow> FederatedAnchor" where
  "RemoveNode f endpoint = f\<lparr>fa_nodes := remove1 endpoint (fa_nodes f)\<rparr>"

subsection \<open>The verification route and the network\<close>

text \<open>\<open>HandleFederatedVerify\<close> of \<open>api/federated.go\<close>: the status code; a nil anchor is \<open>None\<close>.\<close>

definition queried :: "string \<Rightarrow> AnchorResult" where
  "queried anchorID = \<lparr>ax_AnchorID = anchorID, ax_AnchorType = AnchorTypeFederated, ax_TxHash = '''', ax_BlockNumber = 0,
     ax_BlockHash = '''', ax_ContractAddress = '''', ax_ChainID = 0, ax_GasUsed = 0, ax_Timestamp = 0, ax_ProofURL = '''',
     ax_FederatedNodes = [], ax_Confirmations = 0\<rparr>"

definition HandleFederatedVerify :: "(string \<Rightarrow> string \<Rightarrow> int option) \<Rightarrow> FederatedAnchor option \<Rightarrow> string \<Rightarrow> int" where
  "HandleFederatedVerify status f anchorID =
     (case f of
        None \<Rightarrow> 503
      | Some f \<Rightarrow>
          (case fed_Verify status f (queried anchorID) of
             Ok True \<Rightarrow> 200
           | Ok False \<Rightarrow> 404
           | _ \<Rightarrow> 500))"

fun net_status :: "nat \<Rightarrow> (string \<rightharpoonup> FederatedAnchor) \<Rightarrow> string \<Rightarrow> string \<Rightarrow> int option" where
  "net_status 0 net endpoint anchorID = None"
| "net_status (Suc fuel) net endpoint anchorID =
     (case net endpoint of
        None \<Rightarrow> None
      | Some g \<Rightarrow> Some (HandleFederatedVerify (net_status fuel net) (Some g) anchorID))"

definition net_verify :: "nat \<Rightarrow> (string \<rightharpoonup> FederatedAnchor) \<Rightarrow> FederatedAnchor \<Rightarrow> AnchorResult
    \<Rightarrow> (anchor_error, bool) outcome" where
  "net_verify fuel net f result = fed_Verify (net_status fuel net) f result"

subsection \<open>Lemmas\<close>

definition keys_ok :: "FederatedAnchor \<Rightarrow> bool" where
  "keys_ok f \<longleftrightarrow> (\<forall>node key. fa_trustedKeys f node = Some key \<longrightarrow> length key = 32)"

lemma keys_ok_ops:
  "NewFederatedAnchor cfg gen = Ok f \<Longrightarrow> keys_ok f"
  "keys_ok f \<Longrightarrow> RegisterTrustedNode f n k = Ok f' \<Longrightarrow> keys_ok f'"
  "keys_ok f \<Longrightarrow> keys_ok (RemoveTrustedNode f n)"
  "keys_ok f \<Longrightarrow> keys_ok (AddNode f ep)" "keys_ok f \<Longrightarrow> keys_ok (RemoveNode f ep)"
  "keys_ok f \<Longrightarrow> keys_ok (snd (fed_Anchor ed ask arrival clock f req))"
  by (auto simp: keys_ok_def NewFederatedAnchor_def RegisterTrustedNode_def RemoveTrustedNode_def AddNode_def RemoveNode_def
      fed_Anchor_def Let_def split: if_splits option.splits prod.splits)

text \<open>A registered key is listed in hexadecimal until it is removed.\<close>

lemma trusted_listed:
  "RegisterTrustedNode f n (hex_encode key) = Ok f' \<Longrightarrow> GetTrustedNodes f' n = Some (hex_encode key)
     \<and> GetTrustedNodes (RemoveTrustedNode f' n) n = None"
  by (auto simp: RegisterTrustedNode_def GetTrustedNodes_def RemoveTrustedNode_def roundtrips split: if_splits)

lemma fed_Anchor_Ok:
  assumes "fed_Anchor ed ask arrival clock f req = (Ok r, f')"
  shows "f' = f\<lparr>fa_knownAnchors := (fa_knownAnchors f)(ax_AnchorID r \<mapsto> r)\<rparr> \<and> fa_minConfirm f \<le> int (ax_Confirmations r)
    \<and> ax_AnchorType r = AnchorTypeFederated \<and> 8 \<le> length (aq_CertID req)
    \<and> ax_FederatedNodes r = map fc_NodeID (arrival (List.map_filter (\<lambda>ep. requestConfirmation ask ep (fed_request ed f req)) (fa_nodes f)))
    \<and> ax_Confirmations r = length (ax_FederatedNodes r)"
  using assms by (auto simp: fed_Anchor_def Let_def go_prefix_def split: if_splits option.splits)

lemma fed_Verify_origin:
  "fed_Anchor ed ask arrival clock f req = (Ok r, f') \<Longrightarrow> fed_Verify status f' r = Ok True"
  by (drule fed_Anchor_Ok) (auto simp: fed_Verify_def)

lemma confirmations_accepted:
  "length (List.map_filter (\<lambda>ep. requestConfirmation ask ep rq) nodes)
     = length (filter (\<lambda>ep. \<exists>resp. ask ep rq = Some resp \<and> fr_Accepted resp) nodes)"
  by (induction nodes) (auto simp: List.map_filter_def requestConfirmation_def split: option.splits)

text \<open>When only one endpoint says yes, a node with a quorum of two says no.\<close>

lemma quorum_of_one:
  assumes "\<And>ep. status ep (ax_AnchorID r) = Some 200 \<Longrightarrow> ep = origin" and "count_list (fa_nodes f) origin \<le> 1"
    and "2 \<le> fa_minConfirm f" and "fa_knownAnchors f (ax_AnchorID r) = None" and "ax_AnchorType r = AnchorTypeFederated"
  shows "fed_Verify status f r = Ok False"
proof -
  have no: "\<not> verifyWithNode status ep r" if "ep \<noteq> origin" for ep
    using assms(1) that unfolding verifyWithNode_def by blast
  have "length (filter (\<lambda>ep. verifyWithNode status ep r) nodes) \<le> count_list nodes origin" for nodes
    by (induction nodes) (auto simp: no)
  from this [of "fa_nodes f"] have "int (length (filter (\<lambda>ep. verifyWithNode status ep r) (fa_nodes f))) < 2"
    using assms(2) by linarith
  then show ?thesis using assms(3-5) by (simp add: fed_Verify_def)
qed

lemma only_origin_confirms:
  assumes "\<And>ep g. net ep = Some g \<Longrightarrow> ep \<noteq> origin \<Longrightarrow> fa_knownAnchors g anchorID = None
    \<and> 2 \<le> fa_minConfirm g \<and> count_list (fa_nodes g) origin \<le> 1"
  shows "net_status fuel net ep anchorID = Some 200 \<Longrightarrow> ep = origin"
proof (induction fuel arbitrary: ep)
  case (Suc fuel)
  show ?case
  proof (rule ccontr)
    assume other: "ep \<noteq> origin"
    obtain g where g: "net ep = Some g" using Suc.prems by (auto split: option.splits)
    have "fed_Verify (net_status fuel net) g (queried anchorID) = Ok False"
      using Suc.IH assms [OF g other] by (intro quorum_of_one [of _ _ origin]) (auto simp: queried_def)
    with Suc.prems g show False by (simp add: HandleFederatedVerify_def)
  qed
qed simp

subsection \<open>Properties\<close>

text \<open>When a node confirms. With keys that came through \<open>RegisterTrustedNode\<close>, a request is accepted exactly
  when its time is within five minutes, its signature verifies or its origin has no registered key,
  its root hash is not empty and its certificate id has at least eight characters. A shorter, not
  empty id that passes the other checks makes the handler panic.\<close>

theorem HandleConfirmRequest_verdict:
  fixes f :: FederatedAnchor and req :: FederatedAnchorRequest and ed :: ed25519 and clock :: "nat \<Rightarrow> time"
  assumes "keys_ok f"
  defines "fresh \<equiv> \<bar>clock 0 - fq_Timestamp req\<bar> \<le> 5 * 60 * 1000000000"
    and "origin \<equiv> (case fa_trustedKeys f (fq_OriginNode req) of None \<Rightarrow> True
      | Some key \<Rightarrow> \<exists>sg. hex_decode (fq_Signature req) = Some sg
          \<and> ed_verify ed key (bytes_of (signed_text (fq_CertID req) (fq_RootHash req) (fq_Timestamp req))) sg)"
  shows "((\<exists>resp. HandleConfirmRequest ed clock f req = Ok resp \<and> fr_Accepted resp) \<longleftrightarrow>
      fresh \<and> origin \<and> fq_RootHash req \<noteq> '''' \<and> 8 \<le> length (fq_CertID req))
    \<and> (HandleConfirmRequest ed clock f req = Panic \<longleftrightarrow>
      fresh \<and> origin \<and> fq_RootHash req \<noteq> '''' \<and> fq_CertID req \<noteq> '''' \<and> length (fq_CertID req) < 8)
    \<and> (\<forall>e. HandleConfirmRequest ed clock f req \<noteq> Err e)"
proof -
  have no_panic: "origin_check ed f req \<noteq> None"
    using assms(1) by (auto simp: origin_check_def keys_ok_def split: option.splits)
  have passes: "origin_check ed f req = Some None \<longleftrightarrow> origin"
    using assms(1) unfolding origin_def by (auto simp: origin_check_def keys_ok_def split: option.splits)
  have window: "clock 0 - fq_Timestamp req < - (5 * 60 * 1000000000) \<or> clock 0 - fq_Timestamp req > 5 * 60 * 1000000000
      \<longleftrightarrow> \<not> fresh"
    unfolding fresh_def by linarith
  show ?thesis
  proof (cases "fresh \<and> origin")
    case True
    then have "HandleConfirmRequest ed clock f req =
      (if fq_CertID req = '''' \<or> fq_RootHash req = '''' then reject clock f ''missing required fields: cert_id or root_hash''
       else case go_prefix (fq_CertID req) 8 of None \<Rightarrow> Panic | Some short \<Rightarrow>
         (let anchorID = ''fed_'' @ short @ ''_'' @ itoa (unix_time (clock 1));
              signature = ed_sign ed (fa_privateKey f) (bytes_of (signed_text anchorID (fq_RootHash req) (clock 2)))
          in Ok \<lparr>fr_Accepted = True, fr_NodeID = fa_nodeID f, fr_AnchorID = anchorID,
                fr_Signature = hex_encode signature, fr_Error = '''', fr_Timestamp = clock 3\<rparr>))"
      unfolding HandleConfirmRequest_def Let_def window using passes by simp
    with True show ?thesis by (auto simp: reject_def go_prefix_def Let_def)
  next
    case False
    then obtain msg where "HandleConfirmRequest ed clock f req = reject clock f msg"
      unfolding HandleConfirmRequest_def Let_def window using passes no_panic by (cases fresh) auto
    with False show ?thesis by (auto simp: reject_def)
  qed
qed

definition demo_ed :: ed25519 where
  "demo_ed = \<lparr>ed_public = (\<lambda>_. replicate 32 0), ed_sign = (\<lambda>_ _. replicate 64 0), ed_verify = (\<lambda>_ _ _. True)\<rparr>"

definition demo_node :: "string list \<Rightarrow> FederatedAnchor" where
  "demo_node nodes = \<lparr>fa_nodes = nodes, fa_minConfirm = 2, fa_publicKey = replicate 32 0, fa_privateKey = replicate 64 0,
     fa_nodeID = ''0000000000000000'', fa_knownAnchors = Map.empty, fa_trustedKeys = Map.empty\<rparr>"

definition demo_anchor_request :: AnchorRequest where
  "demo_anchor_request = \<lparr>aq_CertID = ''cert_0123'', aq_RootHash = ''sha256:1'', aq_Timestamp = 0, aq_Metadata = ''''\<rparr>"

definition demo_confirm :: "string \<Rightarrow> FederatedAnchorRequest" where
  "demo_confirm cid = \<lparr>fq_CertID = cid, fq_RootHash = ''sha256:1'', fq_Timestamp = 0, fq_OriginNode = ''x'', fq_Signature = ''forged''\<rparr>"

theorem HandleConfirmRequest_verdict_witness:
  "(\<exists>resp. HandleConfirmRequest demo_ed (\<lambda>_. 0) (demo_node []) (demo_confirm ''cert_0123'') = Ok resp \<and> fr_Accepted resp)
   \<and> HandleConfirmRequest demo_ed (\<lambda>_. 0) (demo_node []) (demo_confirm ''cert'') = Panic"
proof -
  have "keys_ok (demo_node [])" by (simp add: keys_ok_def demo_node_def)
  from HandleConfirmRequest_verdict [OF this, of demo_ed "\<lambda>_. 0" "demo_confirm ''cert_0123''"]
    HandleConfirmRequest_verdict [OF this, of demo_ed "\<lambda>_. 0" "demo_confirm ''cert''"]
  show ?thesis by (simp add: demo_confirm_def demo_node_def)
qed

text \<open>The quorum. An anchor is made exactly when at least the minimal number of endpoints, counted as
  often as they are listed, answer that they accept, and the certificate id has eight characters.
  It lists the node ids the answers name, in the order of arrival. Nothing else in the answers matters:
  with any other signatures, anchor ids and node ids in them the count is the same, so a node that
  is listed twice, or that signs nothing, counts.\<close>

theorem fed_Anchor_quorum:
  fixes ed :: ed25519 and f :: FederatedAnchor and req :: AnchorRequest and ask :: "string \<Rightarrow> FederatedAnchorRequest \<Rightarrow> FederatedAnchorResponse option"
  assumes "\<And>xs. mset (arrival xs) = mset xs"
  defines "yes \<equiv> length (filter (\<lambda>ep. \<exists>resp. ask ep (fed_request ed f req) = Some resp \<and> fr_Accepted resp) (fa_nodes f))"
  shows "((\<exists>r f'. fed_Anchor ed ask arrival clock f req = (Ok r, f')) \<longleftrightarrow>
      fa_minConfirm f \<le> int yes \<and> 8 \<le> length (aq_CertID req))
    \<and> (\<forall>r f'. fed_Anchor ed ask arrival clock f req = (Ok r, f') \<longrightarrow> ax_Confirmations r = yes
        \<and> mset (ax_FederatedNodes r) = mset (List.map_filter (\<lambda>ep. map_option fc_NodeID
            (requestConfirmation ask ep (fed_request ed f req))) (fa_nodes f)))
    \<and> (\<exists>r f'. fed_Anchor ed (\<lambda>ep rq. map_option (\<lambda>a. a\<lparr>fr_Signature := sg ep, fr_NodeID := nid ep, fr_AnchorID := aid ep\<rparr>) (ask ep rq))
          arrival clock f req = (Ok r, f')) = (\<exists>r f'. fed_Anchor ed ask arrival clock f req = (Ok r, f'))"
proof -
  have len: "length (arrival xs) = length xs" for xs using assms(1) [of xs] by (metis size_mset)
  have ok: "(\<exists>r f'. fed_Anchor ed a arrival clock f req = (Ok r, f')) \<longleftrightarrow> fa_minConfirm f
      \<le> int (length (filter (\<lambda>ep. \<exists>resp. a ep (fed_request ed f req) = Some resp \<and> fr_Accepted resp) (fa_nodes f)))
      \<and> 8 \<le> length (aq_CertID req)" for a
    by (auto simp: fed_Anchor_def Let_def go_prefix_def len confirmations_accepted)
  have nodes: "map fc_NodeID (List.map_filter g xs) = List.map_filter (\<lambda>ep. map_option fc_NodeID (g ep)) xs" for g :: "string \<Rightarrow> FederatedConfirmation option" and xs
    by (induction xs) (auto simp: List.map_filter_def split: option.splits)
  have "ax_Confirmations r = yes \<and> mset (ax_FederatedNodes r) = mset (List.map_filter (\<lambda>ep. map_option fc_NodeID
      (requestConfirmation ask ep (fed_request ed f req))) (fa_nodes f))"
    if "fed_Anchor ed ask arrival clock f req = (Ok r, f')" for r f'
    using fed_Anchor_Ok [OF that] assms(1) by (simp add: len confirmations_accepted yes_def flip: nodes)
  moreover have "(\<exists>resp. map_option (\<lambda>a. a\<lparr>fr_Signature := sg ep, fr_NodeID := nid ep, fr_AnchorID := aid ep\<rparr>) (ask ep rq)
      = Some resp \<and> fr_Accepted resp) \<longleftrightarrow> (\<exists>resp. ask ep rq = Some resp \<and> fr_Accepted resp)" for ep rq
    by (cases "ask ep rq") auto
  ultimately show ?thesis unfolding ok yes_def by simp
qed

theorem fed_Anchor_quorum_witness:
  "\<exists>r f'. fed_Anchor demo_ed (\<lambda>ep rq. Some \<lparr>fr_Accepted = True, fr_NodeID = ''n'', fr_AnchorID = '''', fr_Signature = '''',
       fr_Error = '''', fr_Timestamp = 0\<rparr>) (\<lambda>xs. xs) (\<lambda>_. 0) (demo_node [''http://a'', ''http://a'']) demo_anchor_request = (Ok r, f')
     \<and> ax_Confirmations r = 2"
proof -
  let ?ask = "\<lambda>(ep :: string) (rq :: FederatedAnchorRequest). Some \<lparr>fr_Accepted = True, fr_NodeID = ''n'', fr_AnchorID = '''',
    fr_Signature = '''', fr_Error = '''', fr_Timestamp = 0\<rparr>"
  note q = fed_Anchor_quorum [where arrival = "\<lambda>xs. xs" and ed = demo_ed and ask = ?ask and clock = "\<lambda>_. 0"
      and f = "demo_node [''http://a'', ''http://a'']" and req = demo_anchor_request]
  have "\<exists>r f'. fed_Anchor demo_ed ?ask (\<lambda>xs. xs) (\<lambda>_. 0) (demo_node [''http://a'', ''http://a'']) demo_anchor_request = (Ok r, f')"
    using q by (simp add: demo_node_def demo_anchor_request_def)
  then show ?thesis using q by (fastforce simp: demo_node_def)
qed

text \<open>C10. An anchor can only be verified at its origin. A node that confirms keeps nothing, so after the node
  behind one endpoint has made an anchor, every other node of the network answers its verification
  with no, however long the nodes ask each other, if they need two confirmations or more (the default is
  three) and none lists the origin twice. The origin itself answers from its cache.\<close>

theorem anchor_verified_only_at_origin:
  assumes "net origin = Some f" and "fed_Anchor ed ask arrival clock f req = (Ok r, f')"
    and "\<And>ep g. net ep = Some g \<Longrightarrow> fa_knownAnchors g (ax_AnchorID r) = None
      \<and> 2 \<le> fa_minConfirm g \<and> count_list (fa_nodes g) origin \<le> 1"
    and "net ep = Some g" and "ep \<noteq> origin"
  shows "net_verify fuel (net(origin \<mapsto> f')) g r = Ok False
    \<and> net_status fuel (net(origin \<mapsto> f')) ep (ax_AnchorID r) \<noteq> Some 200
    \<and> net_verify fuel (net(origin \<mapsto> f')) f' r = Ok True
    \<and> net_status (Suc fuel) (net(origin \<mapsto> f')) origin (ax_AnchorID r) = Some 200"
proof -
  let ?net = "net(origin \<mapsto> f')"
  have known: "fa_knownAnchors h (ax_AnchorID r) = None \<and> 2 \<le> fa_minConfirm h \<and> count_list (fa_nodes h) origin \<le> 1"
    if "?net x = Some h" "x \<noteq> origin" for x h using assms(3) [of x h] that by simp
  have only: "net_status fuel ?net x (ax_AnchorID r) = Some 200 \<Longrightarrow> x = origin" for x
    using only_origin_confirms [of ?net origin "ax_AnchorID r" fuel x] known by blast
  note made = fed_Anchor_Ok [OF assms(2)]
  have "net_verify fuel ?net g r = Ok False"
    unfolding net_verify_def using known [of ep g] assms(4,5) only made by (intro quorum_of_one [of _ _ origin]) auto
  moreover have "fed_Verify status f' (queried (ax_AnchorID r)) = Ok True" for status
    using made by (auto simp: fed_Verify_def queried_def)
  then have "net_status (Suc fuel) ?net origin (ax_AnchorID r) = Some 200" by (simp add: HandleFederatedVerify_def)
  moreover have "net_verify fuel ?net f' r = Ok True"
    unfolding net_verify_def by (rule fed_Verify_origin [OF assms(2)])
  ultimately show ?thesis using only [of ep] assms(5) by blast
qed

theorem anchor_verified_only_at_origin_witness:
  "\<exists>r f'. fed_Anchor demo_ed (\<lambda>ep rq. Some \<lparr>fr_Accepted = True, fr_NodeID = ep, fr_AnchorID = '''', fr_Signature = '''',
       fr_Error = '''', fr_Timestamp = 0\<rparr>) (\<lambda>xs. xs) (\<lambda>_. 0) (demo_node [''b'', ''c'']) demo_anchor_request = (Ok r, f')
     \<and> net_verify 9 ([''a'' \<mapsto> demo_node [''b'', ''c''], ''b'' \<mapsto> demo_node [''a'', ''c'']](''a'' \<mapsto> f')) (demo_node [''a'', ''c'']) r = Ok False"
proof -
  let ?ask = "\<lambda>ep (rq :: FederatedAnchorRequest). Some \<lparr>fr_Accepted = True, fr_NodeID = ep, fr_AnchorID = '''',
    fr_Signature = '''', fr_Error = '''', fr_Timestamp = 0\<rparr>"
  let ?net = "[''a'' \<mapsto> demo_node [''b'', ''c''], ''b'' \<mapsto> demo_node [''a'', ''c'']]"
  obtain r f' where r: "fed_Anchor demo_ed ?ask (\<lambda>xs. xs) (\<lambda>_. 0) (demo_node [''b'', ''c'']) demo_anchor_request = (Ok r, f')"
    by (simp add: fed_Anchor_def demo_node_def demo_anchor_request_def requestConfirmation_def List.map_filter_def go_prefix_def Let_def)
  have a: "?net ''a'' = Some (demo_node [''b'', ''c''])" and b: "?net ''b'' = Some (demo_node [''a'', ''c''])" by simp_all
  have known: "fa_knownAnchors g (ax_AnchorID r) = None \<and> 2 \<le> fa_minConfirm g \<and> count_list (fa_nodes g) ''a'' \<le> 1"
    if "?net ep = Some g" for ep g using that by (auto simp: demo_node_def split: if_splits)
  have "net_verify 9 (?net(''a'' \<mapsto> f')) (demo_node [''a'', ''c'']) r = Ok False"
    by (rule anchor_verified_only_at_origin [OF a r _ b, THEN conjunct1], rule known, assumption) simp
  with r show ?thesis by blast
qed

end
