(* ===== verification/AnchorManager.thy ===== *)
theory AnchorManager
  imports Federated
begin

text \<open>
  The anchor manager (\<open>server/internal/anchor/manager.go\<close>) and the routes of a federated node
  (\<open>server/internal/api/federated.go\<close>).

  The Go interface \<open>Anchorer\<close> is the record \<open>Anchorer\<close> of a state and the functions on it; the locale \<open>anchorer\<close>
  states what the manager needs of one, and is interpreted for the federated anchor. The Ethereum anchor
  is a parameter of \<open>NewManager\<close>. A route maps the request and the node, nil or not, to a status with its
  payload, and the node afterwards.
\<close>

subsection \<open>The manager\<close>

record 's Anchorer =
  an_type :: AnchorType
  an_state :: 's
  an_anchor :: "'s \<Rightarrow> AnchorRequest \<Rightarrow> (anchor_error, AnchorResult) outcome \<times> 's"
  an_verify :: "'s \<Rightarrow> AnchorResult \<Rightarrow> (anchor_error, bool) outcome"
  an_available :: "'s \<Rightarrow> bool"

record 's Manager =
  mg_anchors :: "AnchorType \<rightharpoonup> 's Anchorer"

definition NewManager :: "Config \<Rightarrow> 's Anchorer option \<Rightarrow> (FederatedAnchor \<Rightarrow> 's Anchorer) \<Rightarrow> (bytes \<times> bytes) option
    \<Rightarrow> 's Manager" where
  "NewManager cfg eth wrap generated =
     (let m = Map.empty;
          m = (if EthereumRPCURL cfg \<noteq> ''''
               then (case eth of None \<Rightarrow> m | Some e \<Rightarrow> m(AnchorTypeEthereum \<mapsto> e)) else m);
          m = (if length (FederatedNodes cfg) > 0
               then (case NewFederatedAnchor cfg generated of
                   Ok f \<Rightarrow> m(AnchorTypeFederated \<mapsto> wrap f) | _ \<Rightarrow> m) else m)
      in \<lparr>mg_anchors = m\<rparr>)"

definition mgr_Anchor :: "'s Manager \<Rightarrow> AnchorType \<Rightarrow> AnchorRequest \<Rightarrow> (anchor_error, AnchorResult) outcome \<times> 's Manager" where
  "mgr_Anchor m anchorType req =
     (case mg_anchors m anchorType of
        None \<Rightarrow> (Err (TypeNotConfigured anchorType), m)
      | Some a \<Rightarrow>
          if \<not> an_available a (an_state a) then (Err ErrChainUnavailable, m)
          else let (r, s) = an_anchor a (an_state a) req
               in (r, m\<lparr>mg_anchors := (mg_anchors m)(anchorType \<mapsto> a\<lparr>an_state := s\<rparr>)\<rparr>))"

definition mgr_Verify :: "'s Manager \<Rightarrow> AnchorResult \<Rightarrow> (anchor_error, bool) outcome" where
  "mgr_Verify m result =
     (case mg_anchors m (ax_AnchorType result) of
        None \<Rightarrow> Err (TypeNotConfigured (ax_AnchorType result))
      | Some a \<Rightarrow> an_verify a (an_state a) result)"

text \<open>The types in the order of a map iteration, so a set.\<close>

definition GetAvailableAnchors :: "'s Manager \<Rightarrow> AnchorType set" where
  "GetAvailableAnchors m = {t. case mg_anchors m t of None \<Rightarrow> False | Some a \<Rightarrow> an_available a (an_state a)}"

definition GetAnchorer :: "'s Manager \<Rightarrow> AnchorType \<Rightarrow> 's Anchorer option" where
  "GetAnchorer m anchorType = mg_anchors m anchorType"

definition HasAnchor :: "'s Manager \<Rightarrow> AnchorType \<Rightarrow> bool" where
  "HasAnchor m anchorType \<longleftrightarrow> mg_anchors m anchorType \<noteq> None"

text \<open>What an anchorer promises: its results carry its type, it verifies what it has just anchored, and a
  failed call leaves it as it was.\<close>

locale anchorer =
  fixes a :: "'s Anchorer"
  assumes result_type: "an_anchor a s req = (Ok r, s') \<Longrightarrow> ax_AnchorType r = an_type a"
    and anchored_verifies: "an_anchor a s req = (Ok r, s') \<Longrightarrow> an_verify a s' r = Ok True"
    and failure_keeps: "an_anchor a s req = (Err e, s') \<Longrightarrow> s' = s"
begin

lemma managed_verifies:
  assumes "mg_anchors m (an_type a) = Some (a\<lparr>an_state := s\<rparr>)" and "mgr_Anchor m (an_type a) req = (Ok r, m')"
  shows "mgr_Verify m' r = Ok True \<and> HasAnchor m' (ax_AnchorType r)
    \<and> (\<forall>t. t \<noteq> an_type a \<longrightarrow> GetAnchorer m' t = GetAnchorer m t)"
proof -
  obtain s' where s': "an_anchor a s req = (Ok r, s')"
    and m': "m' = m\<lparr>mg_anchors := (mg_anchors m)(an_type a \<mapsto> a\<lparr>an_state := s'\<rparr>)\<rparr>"
    using assms by (auto simp: mgr_Anchor_def split: if_splits prod.splits)
  show ?thesis using result_type [OF s'] anchored_verifies [OF s']
    by (simp add: m' mgr_Verify_def HasAnchor_def GetAnchorer_def)
qed

lemma managed_failure_keeps:
  assumes "mg_anchors m (an_type a) = Some (a\<lparr>an_state := s\<rparr>)" and "mgr_Anchor m (an_type a) req = (Err e, m')"
  shows "m' = m"
proof (cases "an_available a s")
  case True
  obtain r s' where r: "an_anchor a s req = (r, s')" by (meson surj_pair)
  with True assms have "r = Err e" and m': "m' = m\<lparr>mg_anchors := (mg_anchors m)(an_type a \<mapsto> a\<lparr>an_state := s'\<rparr>)\<rparr>"
    by (simp_all add: mgr_Anchor_def)
  with r failure_keeps have "s' = s" by blast
  with assms(1) show ?thesis by (simp add: m' fun_upd_idem)
qed (use assms in \<open>simp add: mgr_Anchor_def\<close>)

end

definition fed_anchorer :: "ed25519 \<Rightarrow> (string \<Rightarrow> FederatedAnchorRequest \<Rightarrow> FederatedAnchorResponse option)
    \<Rightarrow> (FederatedConfirmation list \<Rightarrow> FederatedConfirmation list) \<Rightarrow> (nat \<Rightarrow> time)
    \<Rightarrow> (string \<Rightarrow> string \<Rightarrow> int option) \<Rightarrow> (string \<Rightarrow> int option) \<Rightarrow> FederatedAnchor \<Rightarrow> FederatedAnchor Anchorer" where
  "fed_anchorer ed ask arrival clock status health f =
     \<lparr>an_type = AnchorTypeFederated, an_state = f, an_anchor = fed_Anchor ed ask arrival clock,
      an_verify = fed_Verify status, an_available = fed_IsAvailable health\<rparr>"

interpretation fed: anchorer "fed_anchorer ed ask arrival clock status health f"
  for ed ask arrival clock status health f
proof unfold_locales
  fix s req r s'
  assume "an_anchor (fed_anchorer ed ask arrival clock status health f) s req = (Ok r, s')"
  then have "fed_Anchor ed ask arrival clock s req = (Ok r, s')" by (simp add: fed_anchorer_def)
  from fed_Anchor_Ok [OF this] fed_Verify_origin [OF this]
  show "ax_AnchorType r = an_type (fed_anchorer ed ask arrival clock status health f)"
    "an_verify (fed_anchorer ed ask arrival clock status health f) s' r = Ok True"
    by (simp_all add: fed_anchorer_def)
next
  fix s req e s'
  assume "an_anchor (fed_anchorer ed ask arrival clock status health f) s req = (Err e, s')"
  then show "s' = s" by (auto simp: fed_anchorer_def fed_Anchor_def Let_def split: if_splits option.splits)
qed

subsection \<open>The routes\<close>

type_synonym http_error = "nat \<times> string"

definition not_enabled :: "(http_error, 'a) outcome" where
  "not_enabled = Err (503, ''Federated anchor not enabled'')"

definition HandleFederatedConfirm :: "ed25519 \<Rightarrow> (nat \<Rightarrow> time) \<Rightarrow> FederatedAnchor option \<Rightarrow> FederatedAnchorRequest option
    \<Rightarrow> (http_error, FederatedAnchorResponse) outcome" where
  "HandleFederatedConfirm ed clock f req =
     (case f of
        None \<Rightarrow> not_enabled
      | Some f \<Rightarrow>
          (case req of
             None \<Rightarrow> Err (400, ''Invalid request body'')
           | Some req \<Rightarrow>
               (case HandleConfirmRequest ed clock f req of
                  Ok resp \<Rightarrow> Ok resp
                | Err _ \<Rightarrow> Err (500, ''error'')
                | Panic \<Rightarrow> Panic)))"

record NodeInfoResponse =
  ni_NodeID :: string
  ni_PublicKey :: string
  ni_Version :: string
  ni_Endpoints :: "string list"
  ni_Features :: "string list"

definition HandleNodeInfo :: "FederatedAnchor option \<Rightarrow> (http_error, NodeInfoResponse) outcome" where
  "HandleNodeInfo f =
     (case f of
        None \<Rightarrow> not_enabled
      | Some f \<Rightarrow> Ok \<lparr>ni_NodeID = fa_nodeID f, ni_PublicKey = hex_encode (fa_publicKey f), ni_Version = ''0.2.0'',
          ni_Endpoints = [''/federated/confirm'', ''/federated/verify''], ni_Features = [''anchor'', ''verify'']\<rparr>)"

definition HandleListNodes :: "FederatedAnchor option \<Rightarrow> (http_error, string list \<times> nat) outcome" where
  "HandleListNodes f =
     (case f of None \<Rightarrow> not_enabled | Some f \<Rightarrow> Ok (fa_nodes f, length (fa_nodes f)))"

text \<open>\<open>Endpoint\<close> and the two fields of a trust request are required, so a body where one is empty does not bind.\<close>

definition HandleRegisterNode :: "FederatedAnchor option \<Rightarrow> (string \<times> string) option
    \<Rightarrow> (http_error, string) outcome \<times> FederatedAnchor option" where
  "HandleRegisterNode f req =
     (case f of
        None \<Rightarrow> (not_enabled, f)
      | Some g \<Rightarrow>
          (case req of
             None \<Rightarrow> (Err (400, ''Invalid request body''), f)
           | Some (endpoint, pubKey) \<Rightarrow>
               if endpoint = '''' then (Err (400, ''Invalid request body''), f)
               else (Ok endpoint, Some (AddNode g endpoint))))"

definition HandleListTrustedNodes :: "FederatedAnchor option \<Rightarrow> (http_error, string \<rightharpoonup> string) outcome" where
  "HandleListTrustedNodes f = (case f of None \<Rightarrow> not_enabled | Some f \<Rightarrow> Ok (GetTrustedNodes f))"

definition HandleTrustNode :: "FederatedAnchor option \<Rightarrow> (string \<times> string) option
    \<Rightarrow> (http_error, string) outcome \<times> FederatedAnchor option" where
  "HandleTrustNode f req =
     (case f of
        None \<Rightarrow> (not_enabled, f)
      | Some g \<Rightarrow>
          (case req of
             None \<Rightarrow> (Err (400, ''Invalid request body: node_id and public_key are required''), f)
           | Some (node, key) \<Rightarrow>
               if node = '''' \<or> key = '''' then (Err (400, ''Invalid request body: node_id and public_key are required''), f)
               else (case RegisterTrustedNode g node key of
                   Ok g' \<Rightarrow> (Ok node, Some g')
                 | Err InvalidKeyFormat \<Rightarrow> (Err (400, ''invalid public key format''), f)
                 | Err _ \<Rightarrow> (Err (400, ''invalid public key length''), f)
                 | Panic \<Rightarrow> (Panic, f))))"

definition HandleUntrustNode :: "FederatedAnchor option \<Rightarrow> string \<Rightarrow> (http_error, string) outcome \<times> FederatedAnchor option" where
  "HandleUntrustNode f node =
     (case f of
        None \<Rightarrow> (not_enabled, f)
      | Some g \<Rightarrow>
          if node = '''' then (Err (400, ''node_id is required''), f)
          else (Ok node, Some (RemoveTrustedNode g node)))"

text \<open>The routes never leave a key of the wrong length, so confirming never panics on one.\<close>

lemma routes_keys_ok:
  "keys_ok g \<Longrightarrow> HandleRegisterNode (Some g) rq = (x, Some g') \<Longrightarrow> keys_ok g'"
  "keys_ok g \<Longrightarrow> HandleTrustNode (Some g) rq = (x, Some g') \<Longrightarrow> keys_ok g'"
  "keys_ok g \<Longrightarrow> HandleUntrustNode (Some g) n = (x, Some g') \<Longrightarrow> keys_ok g'"
  by (auto simp: HandleRegisterNode_def HandleTrustNode_def HandleUntrustNode_def keys_ok_ops(3,4)
      split: option.splits if_splits outcome.splits prod.splits anchor_error.splits dest: keys_ok_ops(2))

subsection \<open>Property\<close>

text \<open>The manager of a federated configuration anchors and verifies. A manager made from a configuration
  with federated nodes has that anchor; when it anchors, the result verifies at the manager afterwards,
  and any other anchor is untouched; when the anchor reports an error the manager is unchanged, and
  so it is when too few nodes are healthy.\<close>

theorem manager_anchors_and_verifies:
  fixes ed :: ed25519 and ask arrival clock status health and generated :: "(bytes \<times> bytes) option"
  defines "wrap \<equiv> fed_anchorer ed ask arrival clock status health"
  assumes "FederatedNodes cfg \<noteq> []" and "generated = Some kp"
  shows "\<exists>f. NewFederatedAnchor cfg generated = Ok f
    \<and> HasAnchor (NewManager cfg eth wrap generated) AnchorTypeFederated
    \<and> (\<forall>r m'. mgr_Anchor (NewManager cfg eth wrap generated) AnchorTypeFederated req = (Ok r, m') \<longrightarrow>
        mgr_Verify m' r = Ok True
        \<and> (\<forall>t. t \<noteq> AnchorTypeFederated \<longrightarrow> GetAnchorer m' t = GetAnchorer (NewManager cfg eth wrap generated) t))
    \<and> (\<forall>e m'. mgr_Anchor (NewManager cfg eth wrap generated) AnchorTypeFederated req = (Err e, m') \<longrightarrow>
        m' = NewManager cfg eth wrap generated)
    \<and> (\<not> fed_IsAvailable health f \<longrightarrow>
        mgr_Anchor (NewManager cfg eth wrap generated) AnchorTypeFederated req
          = (Err ErrChainUnavailable, NewManager cfg eth wrap generated))"
proof -
  let ?m = "NewManager cfg eth wrap generated"
  obtain f where f: "NewFederatedAnchor cfg generated = Ok f"
    using assms(2,3) by (cases kp) (simp add: NewFederatedAnchor_def)
  then have m: "mg_anchors ?m AnchorTypeFederated = Some (wrap f)" using assms(2) by (simp add: NewManager_def Let_def)
  have type: "an_type (wrap f) = AnchorTypeFederated" "an_available (wrap f) = fed_IsAvailable health" "an_state (wrap f) = f"
    by (simp_all add: wrap_def fed_anchorer_def)
  have self: "mg_anchors ?m (an_type (wrap f)) = Some ((wrap f)\<lparr>an_state := f\<rparr>)" using m type by (simp add: wrap_def fed_anchorer_def)
  note round = fed.managed_verifies [of ?m ed ask arrival clock status health f f req, folded wrap_def, OF self, unfolded type]
  note fails = fed.managed_failure_keeps [of ?m ed ask arrival clock status health f f req, folded wrap_def, OF self, unfolded type]
  show ?thesis using f m round fails by (auto simp: HasAnchor_def mgr_Anchor_def type)
qed

theorem manager_anchors_and_verifies_witness:
  "\<exists>r m'. mgr_Anchor (NewManager (DefaultConfig\<lparr>FederatedNodes := [''a'', ''b'', ''c'']\<rparr>) None
       (fed_anchorer demo_ed (\<lambda>ep rq. Some \<lparr>fr_Accepted = True, fr_NodeID = ep, fr_AnchorID = '''', fr_Signature = '''',
         fr_Error = '''', fr_Timestamp = 0\<rparr>) (\<lambda>xs. xs) (\<lambda>_. 0) (\<lambda>_ _. None) (\<lambda>_. Some 200)) (Some ([], [])))
       AnchorTypeFederated demo_anchor_request = (Ok r, m') \<and> mgr_Verify m' r = Ok True"
proof -
  let ?cfg = "DefaultConfig\<lparr>FederatedNodes := [''a'', ''b'', ''c'']\<rparr>"
  let ?m = "NewManager ?cfg None (fed_anchorer demo_ed (\<lambda>ep rq. Some \<lparr>fr_Accepted = True, fr_NodeID = ep, fr_AnchorID = '''',
    fr_Signature = '''', fr_Error = '''', fr_Timestamp = 0\<rparr>) (\<lambda>xs. xs) (\<lambda>_. 0) (\<lambda>_ _. None) (\<lambda>_. Some 200)) (Some ([], []))"
  have "\<exists>r m'. mgr_Anchor ?m AnchorTypeFederated demo_anchor_request = (Ok r, m')"
    by (simp add: NewManager_def NewFederatedAnchor_def mgr_Anchor_def fed_anchorer_def fed_IsAvailable_def fed_Anchor_def
        requestConfirmation_def List.map_filter_def go_prefix_def demo_anchor_request_def DefaultConfig_def Let_def)
  then show ?thesis
    using manager_anchors_and_verifies [of ?cfg "Some ([], [])" "([], [])" None] by (fastforce simp: DefaultConfig_def)
qed

end
