(* ===== verification/EncryptedStore.thy ===== *)
theory EncryptedStore
  imports KeyStore
begin

text \<open>
  Encrypted content in the object store: \<open>server/internal/store/encrypted.go\<close>.

  The MinIO server is a map from bucket and key to objects; \<open>store_env\<close> holds the answers of one call: the
  clock, the random source, a new UUID, and whether each request to MinIO works. Metadata come back under
  canonical header names, which is why the code writes \<open>nonce\<close> and reads \<open>Nonce\<close>. A call returns its
  outcome with the new world, which errors may have changed too: reading can create a tenant key.
\<close>

subsection \<open>The object store\<close>

record minio_object =
  ob_data :: bytes
  ob_meta :: "string \<rightharpoonup> string"

record store_world =
  sw_keys :: MemoryKeyStore
  sw_objects :: "string \<times> string \<rightharpoonup> minio_object"

record store_env = key_env +
  xe_nonce :: "bytes option"
  xe_uuid :: string
  xe_put :: bool
  xe_get :: bool
  xe_read :: bool
  xe_stat :: bool
  xe_remove :: bool

definition toUpperC :: "char \<Rightarrow> char" where
  "toUpperC c = (let n = of_char c :: nat in if 97 \<le> n \<and> n \<le> 122 then char_of (n - 32) else c)"

text \<open>\<open>textproto.CanonicalMIMEHeaderKey\<close>; the flag says whether the next letter becomes upper case.\<close>

fun canonical_from :: "bool \<Rightarrow> string \<Rightarrow> string" where
  "canonical_from u [] = []"
| "canonical_from u (c # s) = (if u then toUpperC c else toLowerC c) # canonical_from (c = CHR ''-'') s"

definition canonicalHeader :: "string \<Rightarrow> string" where
  "canonicalHeader s = canonical_from True s"

subsection \<open>The encrypted store\<close>

record EncryptedStore =
  xs_bucket :: string

record EncryptedContent =
  ec_Ref :: string
  ec_ContentType :: string
  ec_TenantID :: string
  ec_Hash :: string
  ec_Size :: int
  ec_EncryptedAt :: time
  ec_KeyVersion :: int

datatype store_error = ErrContentNotFound | ErrStoreDecryptionFailed
  | DEKFailed key_error | EncryptorFailed crypto_error | SealFailed crypto_error | PutFailed
  | GetObjectFailed | ReadFailed | StatFailed | NonceMissing | NonceInvalid | InvalidRef | RemoveFailed

definition NewEncryptedStore :: "string \<Rightarrow> EncryptedStore" where
  "NewEncryptedStore bucket = \<lparr>xs_bucket = bucket\<rparr>"

definition object_key :: "string \<Rightarrow> string \<Rightarrow> string \<Rightarrow> string" where
  "object_key tenantID contentType uuid =
     ''encrypted/'' @ tenantID @ ''/'' @ contentType @ ''/'' @ uuid"

definition user_metadata :: "string \<Rightarrow> string \<Rightarrow> string \<Rightarrow> string \<rightharpoonup> string" where
  "user_metadata nonceB64 contentType tenantID =
     [canonicalHeader ''nonce'' \<mapsto> nonceB64, canonicalHeader ''content-type'' \<mapsto> contentType,
      canonicalHeader ''tenant-id'' \<mapsto> tenantID]"

text \<open>The assertion on the type of the keystore holds for every store the server makes.\<close>

definition get_dek :: "store_env \<Rightarrow> store_world \<Rightarrow> string \<Rightarrow> (store_error, bytes) outcome \<times> store_world" where
  "get_dek env w tenantID =
     (case GetOrCreateTenantDEK (key_env.truncate env) (sw_keys w) tenantID of
        Ok (dek, ks) \<Rightarrow> (Ok dek, w\<lparr>sw_keys := ks\<rparr>)
      | Err e \<Rightarrow> (Err (DEKFailed e), w)
      | Panic \<Rightarrow> (Panic, w))"

definition Store :: "EncryptedStore \<Rightarrow> store_env \<Rightarrow> store_world \<Rightarrow> string \<Rightarrow> string \<Rightarrow> bytes
    \<Rightarrow> (store_error, EncryptedContent) outcome \<times> store_world" where
  "Store s env w tenantID contentType plaintext =
     (case get_dek env w tenantID of
        (Err e, w) \<Rightarrow> (Err e, w)
      | (Panic, w) \<Rightarrow> (Panic, w)
      | (Ok dek, w) \<Rightarrow>
          (case NewAES256GCM dek of
             Err e \<Rightarrow> (Err (EncryptorFailed e), w)
           | Panic \<Rightarrow> (Panic, w)
           | Ok encryptor \<Rightarrow>
               (case Encrypt encryptor (xe_nonce env) plaintext of
                  Err e \<Rightarrow> (Err (SealFailed e), w)
                | Panic \<Rightarrow> (Panic, w)
                | Ok (ciphertext, nonce) \<Rightarrow>
                    let objectKey = object_key tenantID contentType (xe_uuid env);
                        object = \<lparr>ob_data = ciphertext, ob_meta = user_metadata (b64_encode nonce) contentType tenantID\<rparr>
                    in if \<not> xe_put env then (Err PutFailed, w)
                       else (Ok \<lparr>ec_Ref = ''minio://'' @ xs_bucket s @ ''/'' @ objectKey, ec_ContentType = contentType,
                               ec_TenantID = tenantID, ec_Hash = '''', ec_Size = int (length plaintext),
                               ec_EncryptedAt = ke_now env, ec_KeyVersion = 0\<rparr>,
                             w\<lparr>sw_objects := (sw_objects w)((xs_bucket s, objectKey) \<mapsto> object)\<rparr>))))"

text \<open>A missing object shows when it is read, not when it is requested.\<close>

definition Retrieve :: "EncryptedStore \<Rightarrow> store_env \<Rightarrow> store_world \<Rightarrow> string \<Rightarrow> string
    \<Rightarrow> (store_error, bytes) outcome \<times> store_world" where
  "Retrieve s env w tenantID objectKey =
     (if \<not> xe_get env then (Err GetObjectFailed, w)
      else case sw_objects w (xs_bucket s, objectKey) of
          None \<Rightarrow> (Err ReadFailed, w)
        | Some object \<Rightarrow>
            if \<not> xe_read env then (Err ReadFailed, w)
            else if \<not> xe_stat env then (Err StatFailed, w)
            else let nonceB64 = (case ob_meta object ''Nonce'' of Some v \<Rightarrow> v | None \<Rightarrow> '''') in
              if nonceB64 = '''' then (Err NonceMissing, w)
              else case b64_decode nonceB64 of
                  None \<Rightarrow> (Err NonceInvalid, w)
                | Some nonce \<Rightarrow>
                    (case get_dek env w tenantID of
                       (Err e, w) \<Rightarrow> (Err e, w)
                     | (Panic, w) \<Rightarrow> (Panic, w)
                     | (Ok dek, w) \<Rightarrow>
                         (case NewAES256GCM dek of
                            Ok encryptor \<Rightarrow>
                              (case Decrypt encryptor (ob_data object) nonce of
                                 Ok plaintext \<Rightarrow> (Ok plaintext, w)
                               | Err e \<Rightarrow> (Err ErrStoreDecryptionFailed, w)
                               | Panic \<Rightarrow> (Panic, w))
                          | _ \<Rightarrow> (Panic, w))))"

text \<open>The object key of a reference: what follows the first slash after the scheme.\<close>

definition ref_key :: "string \<Rightarrow> string option" where
  "ref_key ref =
     (let prefix = ''minio://'' in
      if length ref \<le> length prefix \<or> take (length prefix) ref \<noteq> prefix then None
      else let pathPart = drop (length prefix) ref;
               slashIdx = (if CHR ''/'' \<in> set pathPart then int (length (takeWhile (\<lambda>c. c \<noteq> CHR ''/'') pathPart)) else -1)
           in if slashIdx \<le> 0 \<or> slashIdx \<ge> int (length pathPart) - 1 then None
              else let objectKey = drop (nat slashIdx + 1) pathPart in
                   if objectKey = '''' then None else Some objectKey)"

definition RetrieveByRef :: "EncryptedStore \<Rightarrow> store_env \<Rightarrow> store_world \<Rightarrow> string \<Rightarrow> string
    \<Rightarrow> (store_error, bytes) outcome \<times> store_world" where
  "RetrieveByRef s env w tenantID ref =
     (case ref_key ref of
        None \<Rightarrow> (Err InvalidRef, w)
      | Some objectKey \<Rightarrow> Retrieve s env w tenantID objectKey)"

text \<open>\<open>RemoveObject\<close> succeeds for a missing object.\<close>

definition Delete :: "EncryptedStore \<Rightarrow> store_env \<Rightarrow> store_world \<Rightarrow> string \<Rightarrow> (store_error, unit) outcome \<times> store_world" where
  "Delete s env w objectKey =
     (if xe_remove env then (Ok (), w\<lparr>sw_objects := (sw_objects w)((xs_bucket s, objectKey) := None)\<rparr>)
      else (Err RemoveFailed, w))"

definition Exists :: "EncryptedStore \<Rightarrow> store_env \<Rightarrow> store_world \<Rightarrow> string \<Rightarrow> (store_error, bool) outcome" where
  "Exists s env w objectKey =
     (if \<not> xe_stat env then Err StatFailed else Ok (sw_objects w (xs_bucket s, objectKey) \<noteq> None))"

record ContentRef =
  cr_Ref :: string
  cr_Hash :: string
  cr_Size :: int
  cr_Nonce :: string

definition content_ref :: "string \<Rightarrow> (store_error, EncryptedContent) outcome \<times> store_world
    \<Rightarrow> (store_error, ContentRef) outcome \<times> store_world" where
  "content_ref hash r =
     (bind_outcome (fst r) (\<lambda>content. Ok \<lparr>cr_Ref = ec_Ref content, cr_Hash = hash, cr_Size = ec_Size content, cr_Nonce = ''''\<rparr>), snd r)"

definition StorePrompt :: "EncryptedStore \<Rightarrow> store_env \<Rightarrow> store_world \<Rightarrow> string \<Rightarrow> bytes \<Rightarrow> string
    \<Rightarrow> (store_error, ContentRef) outcome \<times> store_world" where
  "StorePrompt s env w tenantID prompt hash = content_ref hash (Store s env w tenantID ''prompt'' prompt)"

definition StoreOutput :: "EncryptedStore \<Rightarrow> store_env \<Rightarrow> store_world \<Rightarrow> string \<Rightarrow> bytes \<Rightarrow> string
    \<Rightarrow> (store_error, ContentRef) outcome \<times> store_world" where
  "StoreOutput s env w tenantID out hash = content_ref hash (Store s env w tenantID ''output'' out)"

subsection \<open>References\<close>

lemma ref_key_Some_iff:
  "ref_key ref = Some k \<longleftrightarrow> (\<exists>b. ref = ''minio://'' @ b @ ''/'' @ k \<and> b \<noteq> '''' \<and> CHR ''/'' \<notin> set b \<and> k \<noteq> '''')"
proof
  assume some: "ref_key ref = Some k"
  define pathPart where "pathPart = drop (length ''minio://'') ref"
  have "take (length ''minio://'') ref = ''minio://''"
    using some by (simp add: ref_key_def Let_def split: if_splits)
  then have pre: "ref = ''minio://'' @ pathPart"
    using append_take_drop_id [of "length ''minio://''" ref] by (simp only: pathPart_def)
  let ?b = "takeWhile (\<lambda>c. c \<noteq> CHR ''/'') pathPart"
  have idx: "CHR ''/'' \<in> set pathPart" "?b \<noteq> ''''" and k: "k = drop (length ?b + 1) pathPart"
    using some unfolding pathPart_def by (simp_all add: ref_key_def Let_def split: if_splits)
  have ne: "k \<noteq> ''''" using some by (auto simp: ref_key_def Let_def split: if_splits)
  have "dropWhile (\<lambda>c. c \<noteq> CHR ''/'') pathPart \<noteq> []" using idx(1) by (simp add: dropWhile_eq_Nil_conv)
  then obtain r where r: "dropWhile (\<lambda>c. c \<noteq> CHR ''/'') pathPart = CHR ''/'' # r"
    using hd_dropWhile [of "\<lambda>c. c \<noteq> CHR ''/''" pathPart]
    by (cases "dropWhile (\<lambda>c. c \<noteq> CHR ''/'') pathPart") simp_all
  have path: "pathPart = ?b @ CHR ''/'' # r" using takeWhile_dropWhile_id [of "\<lambda>c. c \<noteq> CHR ''/''" pathPart] r by simp
  have "k = drop (length ?b + 1) (?b @ CHR ''/'' # r)" by (subst path [symmetric]) (rule k)
  then have "k = r" by simp
  moreover have "CHR ''/'' \<notin> set ?b" using set_takeWhileD [of _ "\<lambda>c. c \<noteq> CHR ''/''" pathPart] by blast
  ultimately show "\<exists>b. ref = ''minio://'' @ b @ ''/'' @ k \<and> b \<noteq> '''' \<and> CHR ''/'' \<notin> set b \<and> k \<noteq> ''''"
    using pre path idx(2) ne by (intro exI [of _ ?b]) simp
next
  assume "\<exists>b. ref = ''minio://'' @ b @ ''/'' @ k \<and> b \<noteq> '''' \<and> CHR ''/'' \<notin> set b \<and> k \<noteq> ''''"
  then obtain b where b: "ref = ''minio://'' @ b @ ''/'' @ k" "b \<noteq> ''''" "CHR ''/'' \<notin> set b" "k \<noteq> ''''" by blast
  have "takeWhile (\<lambda>c. c \<noteq> CHR ''/'') (b @ CHR ''/'' # k) = b"
    using b(3) by (subst takeWhile_append2) auto
  then show "ref_key ref = Some k" using b(2,4) by (simp add: ref_key_def b(1) Let_def)
qed

lemma object_key_nonempty [simp]: "object_key t c u \<noteq> ''''"
  by (simp add: object_key_def)

lemma object_key_uuid:
  "length u = length u' \<Longrightarrow> object_key t c u = object_key t' c' u' \<Longrightarrow> u = u'"
proof -
  assume len: "length u = length u'" and eq: "object_key t c u = object_key t' c' u'"
  from eq have "(''encrypted/'' @ t @ ''/'' @ c @ ''/'') @ u = (''encrypted/'' @ t' @ ''/'' @ c' @ ''/'') @ u'"
    by (simp add: object_key_def)
  moreover have "length (''encrypted/'' @ t @ ''/'' @ c @ ''/'') = length (''encrypted/'' @ t' @ ''/'' @ c' @ ''/'')
      \<or> length u = length u'" using len by blast
  ultimately show "u = u'" by (simp only: append_eq_append_conv)
qed

subsection \<open>Storing and reading back\<close>

text \<open>A working environment: the random source fills its buffers and MinIO answers.\<close>

definition env_works :: "store_env \<Rightarrow> bool" where
  "env_works env \<longleftrightarrow> (\<exists>k. random_ok (key_env.truncate env) k)
     \<and> (\<exists>n. xe_nonce env = Some n \<and> length n = NonceSize)
     \<and> xe_put env \<and> xe_get env \<and> xe_read env \<and> xe_stat env \<and> length (xe_uuid env) = 36"

text \<open>The object under a key holds a text encrypted with the tenant's present key.\<close>

definition holds_content :: "EncryptedStore \<Rightarrow> store_world \<Rightarrow> string \<Rightarrow> string \<Rightarrow> bytes \<Rightarrow> bool" where
  "holds_content s w t k p \<longleftrightarrow> (\<exists>e n m. keys (sw_keys w) t = Some e \<and> length n = NonceSize \<and> m ''Nonce'' = Some (b64_encode n)
     \<and> sw_objects w (xs_bucket s, k) = Some \<lparr>ob_data = gcm_seal (DEK e) n p, ob_meta = m\<rparr>)"

lemma canonical_nonce: "user_metadata n c t ''Nonce'' = Some n"
proof -
  have "canonicalHeader ''nonce'' = ''Nonce''" "canonicalHeader ''content-type'' = ''Content-Type''"
    "canonicalHeader ''tenant-id'' = ''Tenant-Id''" by code_simp+
  then show ?thesis by (simp add: user_metadata_def)
qed

lemma get_dek_existing:
  assumes "keystore_inv (sw_keys w)" and "keys (sw_keys w) t = Some e"
  shows "get_dek env w t = (Ok (DEK e), w)"
proof -
  have "ExpiresAt e = None" using assms by (auto simp: keystore_inv_def key_entry_ok_def)
  then show ?thesis using assms(2) by (simp add: get_dek_def GetOrCreateTenantDEK_def GetTenantDEK_def)
qed

lemma get_dek_works:
  assumes "keystore_inv (sw_keys w)" and "env_works env" and "8 \<le> length t"
  shows "\<exists>e w'. get_dek env w t = (Ok (DEK e), w') \<and> length (DEK e) = 32 \<and> keystore_inv (sw_keys w')
    \<and> keys (sw_keys w') t = Some e \<and> sw_objects w' = sw_objects w
    \<and> (\<forall>u. keys (sw_keys w) u \<noteq> None \<longrightarrow> keys (sw_keys w') u = keys (sw_keys w) u)"
proof (cases "keys (sw_keys w) t")
  case (Some e)
  then have "length (DEK e) = 32" using assms(1) by (auto simp: keystore_inv_def key_entry_ok_def)
  with Some assms(1) show ?thesis using get_dek_existing [OF assms(1) Some] by auto
next
  case None
  obtain k where k: "random_ok (key_env.truncate env) k" using assms(2) by (auto simp: env_works_def)
  have kek: "length (kek (sw_keys w)) = 32" using assms(1) by (simp add: keystore_inv_def)
  obtain e where e: "store_new_key (key_env.truncate env) (sw_keys w) t 1 = Ok (k, sw_keys w\<lparr>keys := (keys (sw_keys w))(t \<mapsto> e)\<rparr>)"
    "DEK e = k" "key_entry_ok (kek (sw_keys w)) t e"
    using store_new_key_cases [OF k kek, of t 1] assms(3) by (auto split: if_splits)
  have "get_dek env w t = (Ok (DEK e), w\<lparr>sw_keys := sw_keys w\<lparr>keys := (keys (sw_keys w))(t \<mapsto> e)\<rparr>\<rparr>)"
    using None e(1,2) by (simp add: get_dek_def GetOrCreateTenantDEK_def GetTenantDEK_def CreateTenantDEK_def)
  moreover have "length (DEK e) = 32" using e(3) by (simp add: key_entry_ok_def)
  moreover have "\<forall>u. keys (sw_keys w) u \<noteq> None \<longrightarrow> ((keys (sw_keys w))(t \<mapsto> e)) u = keys (sw_keys w) u"
    using None by simp
  ultimately show ?thesis using keystore_inv_update [OF assms(1) e(3)]
    by (intro exI [of _ e] exI [of _ "w\<lparr>sw_keys := sw_keys w\<lparr>keys := (keys (sw_keys w))(t \<mapsto> e)\<rparr>\<rparr>"]) simp
qed

lemma holds_content_keep:
  assumes "holds_content s w t k p"
    and "\<forall>u. keys (sw_keys w) u \<noteq> None \<longrightarrow> keys (sw_keys w') u = keys (sw_keys w) u"
    and "sw_objects w' (xs_bucket s, k) = sw_objects w (xs_bucket s, k)"
  shows "holds_content s w' t k p"
proof -
  obtain e n m where h: "keys (sw_keys w) t = Some e" "length n = NonceSize" "m ''Nonce'' = Some (b64_encode n)"
    "sw_objects w (xs_bucket s, k) = Some \<lparr>ob_data = gcm_seal (DEK e) n p, ob_meta = m\<rparr>"
    using assms(1) unfolding holds_content_def by blast
  have "keys (sw_keys w) t \<noteq> None" using h(1) by simp
  then have "keys (sw_keys w') t = Some e" using assms(2) h(1) by metis
  then show ?thesis unfolding holds_content_def using h(2-4) assms(3) by auto
qed

text \<open>With a working environment \<open>Store\<close> succeeds, the object holds the text, and nothing else changes.\<close>

lemma Store_works:
  assumes "keystore_inv (sw_keys w)" and "env_works env" and "8 \<le> length t"
  shows "\<exists>c w'. Store s env w t ct p = (Ok c, w') \<and> keystore_inv (sw_keys w')
    \<and> ec_Ref c = ''minio://'' @ xs_bucket s @ ''/'' @ object_key t ct (xe_uuid env) \<and> ec_Size c = int (length p)
    \<and> holds_content s w' t (object_key t ct (xe_uuid env)) p
    \<and> (\<forall>u. keys (sw_keys w) u \<noteq> None \<longrightarrow> keys (sw_keys w') u = keys (sw_keys w) u)
    \<and> (\<forall>b k. k \<noteq> object_key t ct (xe_uuid env) \<longrightarrow> sw_objects w' (b, k) = sw_objects w (b, k))"
proof -
  obtain e w1 where dek: "get_dek env w t = (Ok (DEK e), w1)" "length (DEK e) = 32" "keystore_inv (sw_keys w1)"
    "keys (sw_keys w1) t = Some e" "sw_objects w1 = sw_objects w"
    "\<forall>u. keys (sw_keys w) u \<noteq> None \<longrightarrow> keys (sw_keys w1) u = keys (sw_keys w) u"
    using get_dek_works [OF assms] by blast
  obtain n where n: "xe_nonce env = Some n" "length n = NonceSize" "xe_put env" using assms(2) by (auto simp: env_works_def)
  let ?k = "object_key t ct (xe_uuid env)"
  let ?w = "w1\<lparr>sw_objects := (sw_objects w1)((xs_bucket s, ?k) \<mapsto>
    \<lparr>ob_data = gcm_seal (DEK e) n p, ob_meta = user_metadata (b64_encode n) ct t\<rparr>)\<rparr>"
  let ?c = "\<lparr>ec_Ref = ''minio://'' @ xs_bucket s @ ''/'' @ ?k, ec_ContentType = ct, ec_TenantID = t, ec_Hash = '''',
    ec_Size = int (length p), ec_EncryptedAt = ke_now env, ec_KeyVersion = 0\<rparr>"
  have "Store s env w t ct p = (Ok ?c, ?w)"
    using dek(1,2) n by (simp add: Store_def NewAES256GCM_def Encrypt_total Let_def)
  moreover have "holds_content s ?w t ?k p"
    unfolding holds_content_def using dek(4) n(2) canonical_nonce by auto
  moreover have "\<forall>u. keys (sw_keys w) u \<noteq> None \<longrightarrow> keys (sw_keys ?w) u = keys (sw_keys w) u" using dek(6) by simp
  ultimately show ?thesis using dek(3,5) by (intro exI [of _ ?c] exI [of _ ?w]) simp
qed

lemma Retrieve_holds:
  assumes "keystore_inv (sw_keys w)" and "env_works env" and "holds_content s w t k p"
  shows "Retrieve s env w t k = (Ok p, w)"
proof -
  obtain e n m where h: "keys (sw_keys w) t = Some e" "length n = NonceSize" "m ''Nonce'' = Some (b64_encode n)"
    "sw_objects w (xs_bucket s, k) = Some \<lparr>ob_data = gcm_seal (DEK e) n p, ob_meta = m\<rparr>"
    using assms(3) unfolding holds_content_def by blast
  have key: "length (DEK e) = 32" using assms(1) h(1) by (auto simp: keystore_inv_def key_entry_ok_def)
  have "b64_encode n \<noteq> ''''" using h(2) by (intro b64_encode_nonempty) (auto simp: NonceSize_def)
  moreover have "Decrypt \<lparr>gcm_key = DEK e\<rparr> (gcm_seal (DEK e) n p) n = Ok p"
    using key h(2) by (simp add: Decrypt_def aes_key_ok_32 gcm_open_seal)
  ultimately show ?thesis using assms(2) h get_dek_existing [OF assms(1) h(1)] key
    by (simp add: Retrieve_def env_works_def b64_roundtrip NewAES256GCM_def)
qed

lemma RetrieveByRef_key:
  "xs_bucket s \<noteq> '''' \<Longrightarrow> CHR ''/'' \<notin> set (xs_bucket s) \<Longrightarrow>
    RetrieveByRef s env w t (''minio://'' @ xs_bucket s @ ''/'' @ object_key t' c u) = Retrieve s env w t (object_key t' c u)"
  using ref_key_Some_iff [of "''minio://'' @ xs_bucket s @ ''/'' @ object_key t' c u" "object_key t' c u"]
  by (simp add: RetrieveByRef_def)

subsection \<open>Properties\<close>

type_synonym store_request = "store_env \<times> string \<times> string \<times> bytes"

fun store_run :: "EncryptedStore \<Rightarrow> store_request list \<Rightarrow> store_world
    \<Rightarrow> (store_error, EncryptedContent) outcome list \<times> store_world" where
  "store_run s [] w = ([], w)"
| "store_run s ((env, t, ct, p) # reqs) w =
     (let (r, w) = Store s env w t ct p; (rs, w) = store_run s reqs w in (r # rs, w))"

fun request_key :: "store_request \<Rightarrow> string" where
  "request_key (env, t, ct, p) = object_key t ct (xe_uuid env)"

fun request_ok :: "store_request \<Rightarrow> bool" where
  "request_ok (env, t, ct, p) \<longleftrightarrow> env_works env \<and> 8 \<le> length t"

fun answers :: "EncryptedStore \<Rightarrow> store_world \<Rightarrow> store_request \<Rightarrow> EncryptedContent \<Rightarrow> bool" where
  "answers s w (env, t, ct, p) c \<longleftrightarrow>
     ec_Ref c = ''minio://'' @ xs_bucket s @ ''/'' @ object_key t ct (xe_uuid env) \<and> ec_Size c = int (length p)
     \<and> holds_content s w t (object_key t ct (xe_uuid env)) p"

lemma answers_keep:
  assumes "answers s w r c"
    and "\<forall>u. keys (sw_keys w) u \<noteq> None \<longrightarrow> keys (sw_keys w') u = keys (sw_keys w) u"
    and "sw_objects w' (xs_bucket s, request_key r) = sw_objects w (xs_bucket s, request_key r)"
  shows "answers s w' r c"
  using assms by (cases r) (auto intro: holds_content_keep)

lemma store_run_works:
  assumes "keystore_inv (sw_keys w)" and "\<forall>r \<in> set reqs. request_ok r" and "distinct (map request_key reqs)"
  shows "\<exists>cs w'. store_run s reqs w = (map Ok cs, w') \<and> keystore_inv (sw_keys w') \<and> list_all2 (answers s w') reqs cs
    \<and> (\<forall>u. keys (sw_keys w) u \<noteq> None \<longrightarrow> keys (sw_keys w') u = keys (sw_keys w) u)
    \<and> (\<forall>b k. k \<notin> request_key ` set reqs \<longrightarrow> sw_objects w' (b, k) = sw_objects w (b, k))"
  using assms
proof (induction reqs arbitrary: w)
  case (Cons r reqs)
  obtain env t ct p where r: "r = (env, t, ct, p)" by (cases r)
  have ok: "env_works env" "8 \<le> length t" using Cons.prems(2) r by auto
  obtain c w1 where one: "Store s env w t ct p = (Ok c, w1)" "keystore_inv (sw_keys w1)" "answers s w1 r c"
    "\<forall>u. keys (sw_keys w) u \<noteq> None \<longrightarrow> keys (sw_keys w1) u = keys (sw_keys w) u"
    "\<forall>b k. k \<noteq> request_key r \<longrightarrow> sw_objects w1 (b, k) = sw_objects w (b, k)"
    using Store_works [OF Cons.prems(1) ok, of s ct p] unfolding r by auto
  have rest: "\<forall>r \<in> set reqs. request_ok r" "distinct (map request_key reqs)" using Cons.prems(2,3) by auto
  obtain cs w2 where two: "store_run s reqs w1 = (map Ok cs, w2)" "keystore_inv (sw_keys w2)" "list_all2 (answers s w2) reqs cs"
    "\<forall>u. keys (sw_keys w1) u \<noteq> None \<longrightarrow> keys (sw_keys w2) u = keys (sw_keys w1) u"
    "\<forall>b k. k \<notin> request_key ` set reqs \<longrightarrow> sw_objects w2 (b, k) = sw_objects w1 (b, k)"
    using Cons.IH [OF one(2) rest] by blast
  have new: "request_key r \<notin> request_key ` set reqs" using Cons.prems(3) by simp
  have "sw_objects w2 (xs_bucket s, request_key r) = sw_objects w1 (xs_bucket s, request_key r)" using two(5) new by blast
  then have "answers s w2 r c" by (rule answers_keep [OF one(3) two(4)])
  moreover have "\<forall>u. keys (sw_keys w) u \<noteq> None \<longrightarrow> keys (sw_keys w2) u = keys (sw_keys w) u"
    using one(4) two(4) by metis
  moreover have "\<forall>b k. k \<notin> request_key ` set (r # reqs) \<longrightarrow> sw_objects w2 (b, k) = sw_objects w (b, k)"
    using one(5) two(5) by simp
  moreover have "store_run s (r # reqs) w = (map Ok (c # cs), w2)" using one(1) two(1) by (simp add: r)
  moreover have "list_all2 (answers s w2) (r # reqs) (c # cs)" using two(3) \<open>answers s w2 r c\<close> by simp
  ultimately show ?case using two(2) by (intro exI [of _ "c # cs"] exI [of _ w2]) blast
qed simp

lemma distinct_uuids_keys:
  assumes "\<forall>r \<in> set reqs. request_ok r" and "distinct (map (\<lambda>(env, t, ct, p). xe_uuid env) reqs)"
  shows "distinct (map request_key reqs)"
  using assms
proof (induction reqs)
  case (Cons r reqs)
  obtain env t ct p where r: "r = (env, t, ct, p)" by (cases r)
  have "request_key r \<noteq> request_key r'" if r': "r' \<in> set reqs" for r'
  proof
    assume eq: "request_key r = request_key r'"
    obtain env' t' ct' p' where s: "r' = (env', t', ct', p')" by (cases r')
    have "length (xe_uuid env) = length (xe_uuid env')" using Cons.prems(1) r s r' by (auto simp: env_works_def)
    with eq have "xe_uuid env = xe_uuid env'" unfolding r s request_key.simps by (rule object_key_uuid [rotated])
    with Cons.prems(2) r' show False unfolding r s by force
  qed
  with Cons show ?case by auto
qed simp


definition demo_senv :: "string \<Rightarrow> store_env" where
  "demo_senv u = \<lparr>ke_now = 0, ke_generate = Some (replicate 32 1), ke_nonce = Some (replicate 12 2),
     xe_nonce = Some (replicate 12 3), xe_uuid = u, xe_put = True, xe_get = True, xe_read = True, xe_stat = True, xe_remove = True\<rparr>"

lemma demo_senv_works: "length u = 36 \<Longrightarrow> env_works (demo_senv u)"
  by (simp add: env_works_def demo_senv_def random_ok_def NonceSize_def key_env.truncate_def)

definition demo_store :: store_world where
  "demo_store = \<lparr>sw_keys = \<lparr>keys = Map.empty, kek = replicate 32 0\<rparr>, sw_objects = Map.empty\<rparr>"

lemma demo_store_inv: "keystore_inv (sw_keys demo_store)"
  by (simp add: demo_store_def keystore_inv_def)


text \<open>C28. Rotation and stored content. After \<open>RotateKey\<close> only the new key is used: what was stored before
  decrypts to a text exactly when both keys encrypt to the same bytes (for the same text, only if the
  two keys collide on it); otherwise the answer is the decryption error, although the comment in
  \<open>RotateKey\<close> says old data stay readable.\<close>

theorem rotation_loses_content:
  assumes "keystore_inv (sw_keys w)" and "env_works env" and "holds_content s w t k p"
    and "random_ok renv dek2" and "RotateKey renv (sw_keys w) t = Ok ks" and "8 \<le> length t"
  shows "\<exists>e n. keys (sw_keys w) t = Some e \<and> length n = NonceSize
    \<and> (let w2 = w\<lparr>sw_keys := ks\<rparr> in
        if \<exists>q. gcm_seal dek2 n q = gcm_seal (DEK e) n p
        then \<exists>q. gcm_seal dek2 n q = gcm_seal (DEK e) n p \<and> Retrieve s env w2 t k = (Ok q, w2)
        else Retrieve s env w2 t k = (Err ErrStoreDecryptionFailed, w2))"
proof -
  obtain e n m where h: "keys (sw_keys w) t = Some e" "length n = NonceSize" "m ''Nonce'' = Some (b64_encode n)"
    "sw_objects w (xs_bucket s, k) = Some \<lparr>ob_data = gcm_seal (DEK e) n p, ob_meta = m\<rparr>"
    using assms(3) unfolding holds_content_def by blast
  have kek: "length (kek (sw_keys w)) = 32" using assms(1) by (simp add: keystore_inv_def)
  obtain e2 where e2: "ks = sw_keys w\<lparr>keys := (keys (sw_keys w))(t \<mapsto> e2)\<rparr>" "DEK e2 = dek2" "ExpiresAt e2 = None"
    using store_new_key_cases [OF assms(4) kek, of t "Version e + 1"] assms(5,6) h(1)
    by (auto simp: RotateKey_def outcome_simps split: if_splits)
  let ?w = "w\<lparr>sw_keys := ks\<rparr>"
  have key2: "length dek2 = 32" using assms(4) by (simp add: random_ok_def)
  have dek: "get_dek env ?w t = (Ok dek2, ?w)"
    using e2 by (simp add: get_dek_def GetOrCreateTenantDEK_def GetTenantDEK_def)
  have "b64_encode n \<noteq> ''''" using h(2) by (intro b64_encode_nonempty) (auto simp: NonceSize_def)
  then have get: "Retrieve s env ?w t k = (case gcm_open dek2 n (gcm_seal (DEK e) n p) of
      Some q \<Rightarrow> (Ok q, ?w) | None \<Rightarrow> (Err ErrStoreDecryptionFailed, ?w))"
    using assms(2) h dek key2
    by (simp add: Retrieve_def env_works_def b64_roundtrip NewAES256GCM_def Decrypt_def aes_key_ok_32 split: option.split)
  let ?c = "gcm_seal (DEK e) n p"
  have iff: "gcm_open dek2 n ?c = Some q \<longleftrightarrow> gcm_seal dek2 n q = ?c" for q
    using gcm_open_seal [OF aes_key_ok_32 [OF key2] h(2), of q] gcm_open_SomeD [of dek2 n ?c q] aes_key_ok_32 [OF key2] h(2)
    by auto
  have "if \<exists>q. gcm_seal dek2 n q = ?c then \<exists>q. gcm_seal dek2 n q = ?c \<and> Retrieve s env ?w t k = (Ok q, ?w)
    else Retrieve s env ?w t k = (Err ErrStoreDecryptionFailed, ?w)"
  proof (cases "gcm_open dek2 n ?c")
    case None
    then have "\<nexists>q. gcm_seal dek2 n q = ?c" using iff by simp
    with None get show ?thesis by simp
  next
    case (Some q)
    then have "gcm_seal dek2 n q = ?c" using iff by simp
    with Some get show ?thesis by auto
  qed
  then show ?thesis using h(1,2) unfolding Let_def by blast
qed

theorem rotation_loses_content_witness:
  "\<exists>c w ks r. Store \<lparr>xs_bucket = ''b''\<rparr> (demo_senv (replicate 36 CHR ''a'')) demo_store ''tenant-a'' ''prompt'' [7] = (Ok c, w)
    \<and> RotateKey (key_env.truncate (demo_senv '''')) (sw_keys w) ''tenant-a'' = Ok ks
    \<and> Retrieve \<lparr>xs_bucket = ''b''\<rparr> (demo_senv (replicate 36 CHR ''c'')) (w\<lparr>sw_keys := ks\<rparr>) ''tenant-a''
        (object_key ''tenant-a'' ''prompt'' (replicate 36 CHR ''a'')) = (r, w\<lparr>sw_keys := ks\<rparr>)
    \<and> ((\<exists>q. r = Ok q) \<or> r = Err ErrStoreDecryptionFailed)"
proof -
  let ?s = "\<lparr>xs_bucket = ''b''\<rparr>" and ?e = "demo_senv (replicate 36 CHR ''a'')" and ?r = "key_env.truncate (demo_senv '''')"
  have u: "xe_uuid ?e = replicate 36 CHR ''a''" by (simp add: demo_senv_def)
  have works: "env_works ?e" "env_works (demo_senv (replicate 36 CHR ''c''))" using demo_senv_works by simp_all
  have t: "8 \<le> length ''tenant-a''" by simp
  obtain c w where st: "Store ?s ?e demo_store ''tenant-a'' ''prompt'' [7] = (Ok c, w)" "keystore_inv (sw_keys w)"
    "holds_content ?s w ''tenant-a'' (object_key ''tenant-a'' ''prompt'' (replicate 36 CHR ''a'')) [7]"
    using Store_works [OF demo_store_inv works(1) t, of ?s "''prompt''" "[7]"] unfolding u by blast
  have rnd: "random_ok ?r (replicate 32 1)" by (simp add: random_ok_def demo_senv_def NonceSize_def key_env.truncate_def)
  obtain e where e: "keys (sw_keys w) ''tenant-a'' = Some e" using st(3) by (auto simp: holds_content_def)
  obtain ks where ks: "RotateKey ?r (sw_keys w) ''tenant-a'' = Ok ks"
    using store_new_key_cases [OF rnd, of "sw_keys w" "''tenant-a''" "Version e + 1"] st(2) e
    by (auto simp: RotateKey_def keystore_inv_def)
  show ?thesis using st(1) ks rotation_loses_content [OF st(2) works(2) st(3) rnd ks t]
    by (fastforce simp: Let_def split: if_splits)
qed

end
