(* ===== verification/Decrypt.thy ===== *)
theory Decrypt
  imports EncryptedStore CertSearch
begin

text \<open>
  Decrypting stored content for its owner, with an audit trail: \<open>server/internal/api/decrypt.go\<close> and
  \<open>server/internal/store/decrypt_audit.go\<close>.

  The audit table is the list of its rows in the order of insertion, with the constraints of its
  \<open>CREATE TABLE\<close> in \<open>deploy/init.sql\<close> (the other schema file has no such table, so that every insertion fails
  there). \<open>audit_env\<close> holds the clock, a new UUID, the id the database gives and whether it works. The
  tenant and the user of a request are what the authentication middleware put into the context.
\<close>

subsection \<open>The audit table\<close>

record DecryptAuditRecord =
  da_ID :: int
  da_AuditLogID :: string
  da_ContentID :: string
  da_EncryptedRef :: string
  da_ContentType :: string
  da_TenantID :: string
  da_UserID :: string
  da_ClientIP :: string
  da_UserAgent :: string
  da_RequestID :: string
  da_TraceID :: string
  da_Success :: bool
  da_FailReason :: string
  da_DecryptedAt :: "time option"

record audit_env =
  au_now :: time
  au_uuid :: string
  au_content_uuid :: string
  au_id :: int
  au_db :: bool

definition audit_row_fits :: "DecryptAuditRecord \<Rightarrow> bool" where
  "audit_row_fits r \<longleftrightarrow> length (da_AuditLogID r) \<le> 64 \<and> length (da_ContentID r) \<le> 64 \<and> length (da_EncryptedRef r) \<le> 512
     \<and> length (da_ContentType r) \<le> 16 \<and> length (da_TenantID r) \<le> 64 \<and> length (da_UserID r) \<le> 64
     \<and> length (da_ClientIP r) \<le> 45 \<and> length (da_RequestID r) \<le> 64"

definition insert_audit :: "DecryptAuditRecord \<Rightarrow> DecryptAuditRecord list \<Rightarrow> DecryptAuditRecord list option" where
  "insert_audit r db = (if audit_row_fits r \<and> da_AuditLogID r \<notin> da_AuditLogID ` set db then Some (db @ [r]) else None)"

text \<open>The row \<open>Log\<close> inserts; the trace id has no column, and is read back from the request id.\<close>

definition audit_row :: "audit_env \<Rightarrow> DecryptAuditRecord \<Rightarrow> DecryptAuditRecord" where
  "audit_row env r =
     (let requestID = (if da_RequestID r = '''' then da_TraceID r else da_RequestID r) in
      r\<lparr>da_ID := au_id env,
        da_AuditLogID := (if da_AuditLogID r = '''' then au_uuid env else da_AuditLogID r),
        da_ContentID := (if da_ContentID r = '''' then ''cnt_'' @ take 8 (au_content_uuid env) else da_ContentID r),
        da_RequestID := requestID, da_TraceID := requestID,
        da_DecryptedAt := (case da_DecryptedAt r of None \<Rightarrow> Some (au_now env) | Some t \<Rightarrow> Some t)\<rparr>)"

definition Log :: "audit_env \<Rightarrow> DecryptAuditRecord \<Rightarrow> DecryptAuditRecord list \<Rightarrow> DecryptAuditRecord list option" where
  "Log env r db = (if au_db env then insert_audit (audit_row env r) db else None)"

definition newest_first :: "DecryptAuditRecord list \<Rightarrow> DecryptAuditRecord list" where
  "newest_first = sort_key (\<lambda>r. case da_DecryptedAt r of Some t \<Rightarrow> - t | None \<Rightarrow> 0)"

definition audit_page :: "bool \<Rightarrow> (DecryptAuditRecord \<Rightarrow> bool) \<Rightarrow> int \<Rightarrow> int \<Rightarrow> DecryptAuditRecord list
    \<Rightarrow> (DecryptAuditRecord list \<times> int) option" where
  "audit_page db_ok P limit offset db =
     (if \<not> db_ok \<or> limit < 0 \<or> offset < 0 then None
      else Some (take (nat limit) (drop (nat offset) (newest_first (filter P db))), int (length (filter P db))))"

definition GetByEncryptedRef :: "bool \<Rightarrow> DecryptAuditRecord list \<Rightarrow> string \<Rightarrow> string \<Rightarrow> int \<Rightarrow> int
    \<Rightarrow> (DecryptAuditRecord list \<times> int) option" where
  "GetByEncryptedRef db_ok db tenantID encryptedRef limit offset =
     audit_page db_ok (\<lambda>r. da_TenantID r = tenantID \<and> da_EncryptedRef r = encryptedRef) limit offset db"

definition GetByUserID :: "bool \<Rightarrow> DecryptAuditRecord list \<Rightarrow> string \<Rightarrow> string \<Rightarrow> int \<Rightarrow> int
    \<Rightarrow> (DecryptAuditRecord list \<times> int) option" where
  "GetByUserID db_ok db tenantID userID limit offset =
     audit_page db_ok (\<lambda>r. da_TenantID r = tenantID \<and> da_UserID r = userID) limit offset db"

definition GetByContentID :: "bool \<Rightarrow> DecryptAuditRecord list \<Rightarrow> string \<Rightarrow> string \<Rightarrow> DecryptAuditRecord list option" where
  "GetByContentID db_ok db tenantID contentID =
     (if \<not> db_ok then None
      else Some (newest_first (filter (\<lambda>r. da_TenantID r = tenantID \<and> da_ContentID r = contentID) db)))"

subsection \<open>Who may decrypt\<close>

text \<open>\<open>strings.Index\<close>.\<close>

fun strIndex :: "string \<Rightarrow> string \<Rightarrow> int" where
  "strIndex [] p = (if p = '''' then 0 else -1)"
| "strIndex (c # s) p = (if hasPrefix (c # s) p then 0 else let i = strIndex s p in if i < 0 then -1 else i + 1)"

definition canDecrypt :: "string \<Rightarrow> string \<Rightarrow> string \<Rightarrow> bool" where
  "canDecrypt bucket encryptedRef tenantID =
     (if tenantID = '''' then False
      else if length encryptedRef < length tenantID then False
      else let expectedPrefix = ''minio://'' @ bucket @ ''/encrypted/'' @ tenantID @ ''/'' in
        if length encryptedRef \<ge> length expectedPrefix \<and> take (length expectedPrefix) encryptedRef = expectedPrefix then True
        else let altPrefix = ''encrypted/'' @ tenantID @ ''/'' in
          if containsStr encryptedRef altPrefix
          then let idx = strIndex encryptedRef ''encrypted/'' in
            if idx \<ge> 0
            then let afterEncrypted = drop (nat idx + length ''encrypted/'') encryptedRef in
              hasPrefix afterEncrypted (tenantID @ ''/'')
            else False
          else False)"

subsection \<open>The handlers\<close>

record DecryptRequest =
  dr_EncryptedRef :: string
  dr_ContentType :: string
  dr_TraceID :: string

record DecryptResponse =
  dp_Content :: string
  dp_ContentType :: string
  dp_DecryptedAt :: time
  dp_AuditLogID :: string

record caller =
  ca_tenant :: string
  ca_user :: string
  ca_ip :: string
  ca_agent :: string

definition string_of_bytes :: "bytes \<Rightarrow> string" where
  "string_of_bytes bs = map (\<lambda>b. char_of (unat b)) bs"

definition audit_record :: "audit_env \<Rightarrow> caller \<Rightarrow> DecryptRequest \<Rightarrow> DecryptAuditRecord" where
  "audit_record env c req =
     \<lparr>da_ID = 0, da_AuditLogID = ''audit_'' @ take 8 (au_uuid env), da_ContentID = '''', da_EncryptedRef = dr_EncryptedRef req,
      da_ContentType = dr_ContentType req, da_TenantID = ca_tenant c, da_UserID = ca_user c, da_ClientIP = ca_ip c,
      da_UserAgent = ca_agent c, da_RequestID = '''', da_TraceID = dr_TraceID req, da_Success = False, da_FailReason = '''',
      da_DecryptedAt = Some (au_now env)\<rparr>"

text \<open>A failure to log is only reported to the program's own log.\<close>

definition try_log :: "audit_env \<Rightarrow> DecryptAuditRecord \<Rightarrow> DecryptAuditRecord list \<Rightarrow> DecryptAuditRecord list" where
  "try_log env r db = (case Log env r db of Some db' \<Rightarrow> db' | None \<Rightarrow> db)"

definition retrieve_failure :: "store_error \<Rightarrow> string \<times> http_error" where
  "retrieve_failure e =
     (if e = ErrContentNotFound then (''content_not_found'', (404, ''Encrypted content not found''))
      else if e = ErrStoreDecryptionFailed then (''decryption_failed'', (500, ''Failed to decrypt content''))
      else (''internal_error'', (500, ''Failed to retrieve content'')))"

definition DecryptContent :: "string \<Rightarrow> EncryptedStore option \<Rightarrow> audit_env \<Rightarrow> store_env \<Rightarrow> caller \<Rightarrow> DecryptRequest option
    \<Rightarrow> store_world \<Rightarrow> DecryptAuditRecord list
    \<Rightarrow> (http_error, DecryptResponse) outcome \<times> store_world \<times> DecryptAuditRecord list" where
  "DecryptContent bucket es env senv c req w db =
     (case req of
        None \<Rightarrow> (Err (400, ''Invalid request body''), w, db)
      | Some req \<Rightarrow>
          let r = audit_record env c req in
          if \<not> canDecrypt bucket (dr_EncryptedRef req) (ca_tenant c) then
            (Err (403, ''You don't have permission to decrypt this content''), w,
             try_log env (r\<lparr>da_FailReason := ''permission_denied''\<rparr>) db)
          else case es of
              None \<Rightarrow> (Err (500, ''Encryption service not configured''), w,
                 try_log env (r\<lparr>da_FailReason := ''encryption_not_configured''\<rparr>) db)
            | Some s \<Rightarrow>
                (case RetrieveByRef s senv w (ca_tenant c) (dr_EncryptedRef req) of
                   (Err e, w) \<Rightarrow> (let (reason, answer) = retrieve_failure e
                     in (Err answer, w, try_log env (r\<lparr>da_FailReason := reason\<rparr>) db))
                 | (Panic, w) \<Rightarrow> (Panic, w, db)
                 | (Ok plaintext, w) \<Rightarrow>
                     (Ok \<lparr>dp_Content = string_of_bytes plaintext, dp_ContentType = dr_ContentType req,
                          dp_DecryptedAt = au_now env, dp_AuditLogID = da_AuditLogID r\<rparr>, w,
                      try_log env (r\<lparr>da_Success := True\<rparr>) db)))"

record DecryptAuditLog =
  dl_AuditLogID :: string
  dl_UserID :: string
  dl_TenantID :: string
  dl_DecryptedAt :: "time option"
  dl_ClientIP :: string
  dl_Success :: bool
  dl_FailReason :: string

record DecryptAuditLogsResponse =
  ls_EncryptedRef :: string
  ls_Logs :: "DecryptAuditLog list"
  ls_TotalCount :: int

definition audit_log_of :: "DecryptAuditRecord \<Rightarrow> DecryptAuditLog" where
  "audit_log_of r = \<lparr>dl_AuditLogID = da_AuditLogID r, dl_UserID = da_UserID r, dl_TenantID = da_TenantID r,
     dl_DecryptedAt = da_DecryptedAt r, dl_ClientIP = da_ClientIP r, dl_Success = da_Success r, dl_FailReason = da_FailReason r\<rparr>"

definition limit_param :: "string \<Rightarrow> int" where
  "limit_param l = (if l \<noteq> '''' then (case atoi l of Some p \<Rightarrow> if p > 0 \<and> p \<le> 100 then p else 20 | None \<Rightarrow> 20) else 20)"

definition offset_param :: "string \<Rightarrow> int" where
  "offset_param l = (if l \<noteq> '''' then (case atoi l of Some p \<Rightarrow> if p \<ge> 0 then p else 0 | None \<Rightarrow> 0) else 0)"

definition GetDecryptAuditLogs :: "string \<Rightarrow> bool \<Rightarrow> string \<Rightarrow> string \<Rightarrow> string \<Rightarrow> string \<Rightarrow> DecryptAuditRecord list
    \<Rightarrow> (http_error, DecryptAuditLogsResponse) outcome" where
  "GetDecryptAuditLogs bucket db_ok tenantID encryptedRef limit offset db =
     (if encryptedRef = '''' then Err (400, ''encrypted_ref is required'')
      else if \<not> canDecrypt bucket encryptedRef tenantID
        then Err (403, ''You don't have permission to view audit logs for this content'')
      else case GetByEncryptedRef db_ok db tenantID encryptedRef (limit_param limit) (offset_param offset) of
          None \<Rightarrow> Err (500, ''Failed to retrieve audit logs'')
        | Some (records, totalCount) \<Rightarrow>
            Ok \<lparr>ls_EncryptedRef = encryptedRef, ls_Logs = map audit_log_of records, ls_TotalCount = totalCount\<rparr>)"

subsection \<open>Where the first \<open>encrypted/\<close> of a reference is\<close>

lemma strIndex_ge: "-1 \<le> strIndex s p"
  by (induction s) (auto simp: Let_def)

lemma strIndex_found: "hasPrefix (drop i s) p \<Longrightarrow> i \<le> length s \<Longrightarrow> 0 \<le> strIndex s p \<and> strIndex s p \<le> int i"
proof (induction s arbitrary: i)
  case Nil
  then show ?case by (simp add: hasPrefix_def)
next
  case (Cons c s)
  show ?case
  proof (cases i)
    case 0
    with Cons.prems show ?thesis by simp
  next
    case (Suc j)
    with Cons.IH [of j] Cons.prems show ?thesis by (auto simp: Let_def)
  qed
qed

lemma strIndex_prefix: "0 \<le> strIndex s p \<Longrightarrow> nat (strIndex s p) \<le> length s \<and> hasPrefix (drop (nat (strIndex s p)) s) p"
proof (induction s)
  case (Cons c s)
  then show ?case by (auto simp: Let_def nat_add_distrib split: if_splits)
qed (simp add: hasPrefix_def split: if_splits)

lemma hasPrefix_iff: "hasPrefix s p \<longleftrightarrow> (\<exists>r. s = p @ r)"
  by (metis append_eq_conv_conj append_take_drop_id hasPrefix_def)

lemma split_at_slash:
  assumes "a @ CHR ''/'' # r = b @ CHR ''/'' # r'" and "CHR ''/'' \<notin> set a" and "CHR ''/'' \<notin> set b"
  shows "a = b" and "r = r'"
proof -
  have "takeWhile (\<lambda>c. c \<noteq> CHR ''/'') (x @ CHR ''/'' # y) = x" if "CHR ''/'' \<notin> set x" for x y
    using that by (subst takeWhile_append2) auto
  then show "a = b" using assms by metis
  with assms(1) show "r = r'" by simp
qed

text \<open>
  An occurrence of \<open>encrypted/\<close> in \<open>minio://bucket/encrypted/\<dots>\<close> that starts before the path does ends
  with the bucket: its only slash is its last character.
\<close>

lemma first_encrypted:
  assumes "ref = ''minio://'' @ b @ ''/encrypted/'' @ rest" and "CHR ''/'' \<notin> set b"
  shows "let after = drop (nat (strIndex ref ''encrypted/'') + 10) ref in
    0 \<le> strIndex ref ''encrypted/'' \<and> (after = rest \<or> after = ''encrypted/'' @ rest)"
proof -
  define i where "i = nat (strIndex ref ''encrypted/'')"
  define front where "front = ''minio://'' @ b @ ''/''"
  define path where "path = ''encrypted/'' @ rest"
  have ref: "ref = front @ path" and len: "length front = 9 + length b" by (simp_all add: assms(1) front_def path_def)
  have path: "drop 10 path = rest" "hasPrefix path ''encrypted/''" by (simp_all add: path_def hasPrefix_def)
  have "hasPrefix (drop (length front) ref) ''encrypted/''" using path(2) by (simp add: ref)
  moreover have "length front \<le> length ref" by (simp add: ref)
  ultimately have "0 \<le> strIndex ref ''encrypted/'' \<and> strIndex ref ''encrypted/'' \<le> int (length front)" by (rule strIndex_found)
  then have idx: "0 \<le> strIndex ref ''encrypted/''" "i \<le> length front" by (auto simp: i_def)
  have pre: "hasPrefix (drop i ref) ''encrypted/''" using strIndex_prefix [OF idx(1)] by (simp add: i_def)
  have nth: "ref ! (i + k) = ''encrypted/'' ! k" if "k < 10" for k
  proof -
    have "take (length ''encrypted/'') (drop i ref) = ''encrypted/''" using pre by (simp only: hasPrefix_def)
    moreover have "k < length ''encrypted/''" using that by simp
    moreover have "drop i ref ! k = ref ! (i + k)" using idx(2) by (intro nth_drop) (simp add: ref)
    ultimately show ?thesis by (metis nth_take)
  qed
  consider "i = length front" | "i < length front" using idx(2) by linarith
  then show ?thesis
  proof cases
    case 1
    then have "drop (i + 10) ref = rest" using path(1) by (simp add: ref add.commute)
    with idx(1) show ?thesis by (simp add: i_def)
  next
    case less: 2
    have front: "front ! j = CHR ''/'' \<Longrightarrow> j < length front \<Longrightarrow> j \<in> {6, 7, length front - 1}" for j
    proof (rule ccontr)
      assume j: "front ! j = CHR ''/''" "j < length front" "j \<notin> {6, 7, length front - 1}"
      have small: "''minio:'' ! k \<noteq> CHR ''/''" if "k < 6" for k :: nat
      proof -
        have "\<forall>k \<in> set [0..<6]. ''minio:'' ! k \<noteq> CHR ''/''" by code_simp
        then show ?thesis using that by simp
      qed
      have f: "front = ''minio:'' @ ''//'' @ b @ ''/''" by (simp add: front_def)
      consider "j < 6" | "8 \<le> j" "j < 8 + length b" using j(2,3) len by force
      then show False
      proof cases
        case 1
        then have "front ! j = ''minio:'' ! j" unfolding f by (subst nth_append) simp
        with small [OF 1] j(1) show False by simp
      next
        case 2
        define scheme where "scheme = ''minio://''"
        have "front = scheme @ b @ ''/''" "length scheme = 8" by (simp_all add: front_def scheme_def)
        moreover have "j - 8 < length b" using 2 by simp
        ultimately have "front ! j = b ! (j - 8)" using 2(1) by (simp add: nth_append)
        moreover have "b ! (j - 8) \<in> set b" using 2 by (intro nth_mem) simp
        ultimately show False using j(1) assms(2) by simp
      qed
    qed
    have slash: "ref ! (i + 9) = CHR ''/''" using nth [of 9] by simp
    have "i + 9 < length front"
    proof (rule ccontr)
      assume "\<not> i + 9 < length front"
      then have k: "i + 9 - length front < 9" "ref ! (i + 9) = path ! (i + 9 - length front)"
        using less by (simp_all add: ref nth_append)
      have "\<forall>k \<in> set [0..<9]. ''encrypted'' ! k \<noteq> CHR ''/''" by code_simp
      then have "''encrypted'' ! (i + 9 - length front) \<noteq> CHR ''/''" using k(1) by (simp only: set_upt atLeastLessThan_iff Ball_def) simp
      moreover have "path ! (i + 9 - length front) = ''encrypted'' ! (i + 9 - length front)"
        using k(1) nth_append [of "''encrypted''" "''/'' @ rest"] by (simp add: path_def)
      ultimately show False using k slash by simp
    qed
    moreover from this have "front ! (i + 9) = CHR ''/''" using slash by (simp add: ref nth_append)
    ultimately have "i + 9 = length front - 1" using front [of "i + 9"] by auto
    then have "drop (i + 10) ref = path" using len by (simp add: ref)
    with idx(1) show ?thesis by (simp add: i_def path_def)
  qed
qed

subsection \<open>Tenants and their objects\<close>

text \<open>A tenant may decrypt what \<open>Store\<close> wrote for it.\<close>

lemma take_length_append: "take (length p) (p @ r) = p"
  by simp

lemma canDecrypt_own: "t \<noteq> '''' \<Longrightarrow> canDecrypt b (''minio://'' @ b @ ''/'' @ object_key t c u) t"
proof -
  assume t: "t \<noteq> ''''"
  let ?p = "''minio://'' @ b @ ''/encrypted/'' @ t @ ''/''" and ?ref = "''minio://'' @ b @ ''/'' @ object_key t c u"
  have ref: "?ref = ?p @ c @ ''/'' @ u" by (simp add: object_key_def)
  have "take (length ?p) ?ref = ?p" unfolding ref by (rule take_length_append)
  moreover have "length ?p \<le> length ?ref" unfolding ref by (simp only: length_append)
  moreover from this have "\<not> length ?ref < length t" by simp
  ultimately show ?thesis using t by (simp only: canDecrypt_def Let_def if_False if_True simp_thms)
qed

text \<open>
  And nothing in the folder of another one. The exception is a tenant called \<open>encrypted\<close>, for which the
  second test can be met by the end of a bucket name.
\<close>

lemma canDecrypt_folder:
  assumes "canDecrypt b ref t" and "ref_key ref = Some (''encrypted/'' @ owner @ ''/'' @ rest)"
    and "CHR ''/'' \<notin> set b" and "CHR ''/'' \<notin> set owner" and "CHR ''/'' \<notin> set t"
  shows "t = owner \<or> t = ''encrypted''"
proof -
  obtain b' where ref: "ref = ''minio://'' @ b' @ ''/'' @ ''encrypted/'' @ owner @ ''/'' @ rest" and b': "CHR ''/'' \<notin> set b'"
    using assms(2) by (auto simp: ref_key_Some_iff)
  define tail where "tail = owner @ CHR ''/'' # rest"
  have ref': "ref = ''minio://'' @ b' @ ''/encrypted/'' @ tail" by (simp add: ref tail_def)
  have starts: "t = owner" if pre: "hasPrefix tail (t @ ''/'')"
  proof -
    obtain r where "tail = (t @ ''/'') @ r" using pre unfolding hasPrefix_iff by blast
    then have "tail = t @ CHR ''/'' # r" by simp
    then show ?thesis using split_at_slash(1) [of owner rest t r] assms(4,5) by (simp add: tail_def)
  qed
  let ?p = "''minio://'' @ b @ ''/encrypted/'' @ t @ ''/''"
  consider "take (length ?p) ref = ?p"
    | "0 \<le> strIndex ref ''encrypted/''" "hasPrefix (drop (nat (strIndex ref ''encrypted/'') + 10) ref) (t @ ''/'')"
    using assms(1) by (auto simp: canDecrypt_def Let_def numeral_eq_Suc split: if_splits)
  then show ?thesis
  proof cases
    case 1
    then obtain r where "ref = ?p @ r" by (metis append_take_drop_id)
    then have eq: "b' @ CHR ''/'' # ''encrypted/'' @ tail = b @ CHR ''/'' # ''encrypted/'' @ t @ CHR ''/'' # r"
      by (simp add: ref')
    have "tail = t @ CHR ''/'' # r" using split_at_slash(2) [OF eq b' assms(3)] by simp
    then show ?thesis using starts by (simp add: hasPrefix_iff)
  next
    case 2
    from first_encrypted [OF ref' b'] consider
      "drop (nat (strIndex ref ''encrypted/'') + 10) ref = tail"
      | "drop (nat (strIndex ref ''encrypted/'') + 10) ref = ''encrypted/'' @ tail" by (auto simp: Let_def)
    then show ?thesis
    proof cases
      case 1
      with 2 starts show ?thesis by simp
    next
      case enc: 2
      then obtain r where "''encrypted'' @ CHR ''/'' # tail = t @ CHR ''/'' # r" using 2(2) by (auto simp: hasPrefix_iff)
      from split_at_slash(1) [OF this _ assms(5)] show ?thesis by simp
    qed
  qed
qed

text \<open>Nothing reads the object store unless \<open>canDecrypt\<close> allows it, and the error for content that does not exist
  never comes: MinIO's own error is passed on instead.\<close>

lemma Retrieve_never_not_found: "fst (Retrieve s env w t k) \<noteq> Err ErrContentNotFound"
  by (auto simp: Retrieve_def get_dek_def Let_def split: option.splits outcome.splits prod.splits)

lemma RetrieveByRef_never_not_found: "fst (RetrieveByRef s env w t ref) \<noteq> Err ErrContentNotFound"
  using Retrieve_never_not_found by (auto simp: RetrieveByRef_def split: option.splits)

lemma DecryptContent_allowed:
  "canDecrypt b (dr_EncryptedRef req) (ca_tenant c) \<Longrightarrow> DecryptContent b (Some s) env senv c (Some req) w db =
    (case RetrieveByRef s senv w (ca_tenant c) (dr_EncryptedRef req) of
       (Err e, w) \<Rightarrow> (Err (snd (retrieve_failure e)), w, try_log env (audit_record env c req\<lparr>da_FailReason := fst (retrieve_failure e)\<rparr>) db)
     | (Panic, w) \<Rightarrow> (Panic, w, db)
     | (Ok p, w) \<Rightarrow> (Ok \<lparr>dp_Content = string_of_bytes p, dp_ContentType = dr_ContentType req,
          dp_DecryptedAt = au_now env, dp_AuditLogID = da_AuditLogID (audit_record env c req)\<rparr>, w,
        try_log env (audit_record env c req\<lparr>da_Success := True\<rparr>) db))"
  by (simp add: DecryptContent_def Let_def case_prod_beta split: outcome.split)

subsection \<open>Properties\<close>

text \<open>C29. Tenants are kept apart. A request of a tenant for a reference into the folder of another one is refused
  with status 403 before the object store or the keys are touched, whatever text surrounds the folder in
  the reference, and the attempt is written to the audit table; the audit logs of the reference are refused
  as well. Tenant ids without a slash, and none called \<open>encrypted\<close>, are assumed.\<close>

theorem decrypt_isolates_tenants:
  assumes "ref_key (dr_EncryptedRef req) = Some (''encrypted/'' @ owner @ ''/'' @ rest)"
    and "CHR ''/'' \<notin> set bucket" and "CHR ''/'' \<notin> set owner" and "CHR ''/'' \<notin> set (ca_tenant c)"
    and "ca_tenant c \<noteq> owner" and "ca_tenant c \<noteq> ''encrypted''"
  shows "DecryptContent bucket es env senv c (Some req) w db =
      (Err (403, ''You don't have permission to decrypt this content''), w,
       try_log env (audit_record env c req\<lparr>da_FailReason := ''permission_denied''\<rparr>) db)
    \<and> GetDecryptAuditLogs bucket db_ok (ca_tenant c) (dr_EncryptedRef req) limit offset db =
        Err (403, ''You don't have permission to view audit logs for this content'')"
proof -
  have "\<not> canDecrypt bucket (dr_EncryptedRef req) (ca_tenant c)"
    using canDecrypt_folder [OF _ assms(1-4)] assms(5,6) by blast
  moreover have "dr_EncryptedRef req \<noteq> ''''" using assms(1) by (auto simp: ref_key_def)
  ultimately show ?thesis by (simp add: DecryptContent_def GetDecryptAuditLogs_def)
qed

definition demo_audit_env :: audit_env where
  "demo_audit_env = \<lparr>au_now = 5, au_uuid = replicate 36 CHR ''e'', au_content_uuid = replicate 36 CHR ''f'', au_id = 1, au_db = True\<rparr>"

definition demo_caller :: "string \<Rightarrow> caller" where
  "demo_caller t = \<lparr>ca_tenant = t, ca_user = ''u'', ca_ip = ''1.2.3.4'', ca_agent = ''''\<rparr>"

theorem decrypt_isolates_tenants_witness:
  "fst (DecryptContent ''ai-trace'' None demo_audit_env (demo_senv '''') (demo_caller ''tenant-b'')
      (Some \<lparr>dr_EncryptedRef = ''minio://ai-trace/encrypted/tenant-a/x/encrypted/tenant-b/y'', dr_ContentType = ''prompt'', dr_TraceID = ''''\<rparr>)
      demo_store []) = Err (403, ''You don't have permission to decrypt this content'')"
proof -
  let ?req = "\<lparr>dr_EncryptedRef = ''minio://ai-trace/encrypted/tenant-a/x/encrypted/tenant-b/y'', dr_ContentType = ''prompt'', dr_TraceID = ''''\<rparr>"
  have "ref_key (dr_EncryptedRef ?req) = Some (''encrypted/'' @ ''tenant-a'' @ ''/'' @ ''x/encrypted/tenant-b/y'')" by code_simp
  from decrypt_isolates_tenants [OF this, of "''ai-trace''" "demo_caller ''tenant-b''" None demo_audit_env "demo_senv ''''" demo_store "[]"]
  show ?thesis by (simp add: demo_caller_def)
qed

lemma decrypt_held:
  assumes "keystore_inv (sw_keys w)" and "env_works senv" and "holds_content s w t (object_key t ct u) p"
    and "xs_bucket s \<noteq> ''''" and "CHR ''/'' \<notin> set (xs_bucket s)" and "ca_tenant c = t" and "t \<noteq> ''''"
    and "dr_EncryptedRef req = ''minio://'' @ xs_bucket s @ ''/'' @ object_key t ct u"
  shows "DecryptContent (xs_bucket s) (Some s) env senv c (Some req) w db =
    (Ok \<lparr>dp_Content = string_of_bytes p, dp_ContentType = dr_ContentType req, dp_DecryptedAt = au_now env,
         dp_AuditLogID = ''audit_'' @ take 8 (au_uuid env)\<rparr>, w,
     try_log env (audit_record env c req\<lparr>da_Success := True\<rparr>) db)"
proof -
  have get: "RetrieveByRef s senv w t (dr_EncryptedRef req) = (Ok p, w)"
    unfolding assms(8) using RetrieveByRef_key [OF assms(4,5)] Retrieve_holds [OF assms(1-3)] by simp
  have "canDecrypt (xs_bucket s) (dr_EncryptedRef req) (ca_tenant c)"
    unfolding assms(8) assms(6) by (rule canDecrypt_own [OF assms(7)])
  from DecryptContent_allowed [OF this] get show ?thesis using assms(6) by (simp add: audit_record_def)
qed

text \<open>From storing to decrypting. When \<open>Store\<close> has encrypted a text for a tenant whose id has at least eight
  bytes, the decryption handler answers that tenant's request for the returned reference with the text,
  and leaves the keys and objects as they are; the audit table gets one record of the success when the
  database takes it.\<close>

theorem decrypt_own_content:
  assumes "keystore_inv (sw_keys w)" and "env_works senv" and "env_works senv'" and "8 \<le> length t"
    and "bucket \<noteq> ''''" and "CHR ''/'' \<notin> set bucket" and "ca_tenant c = t"
  shows "\<exists>content w'. Store (NewEncryptedStore bucket) senv w t ct p = (Ok content, w')
    \<and> (\<forall>req. dr_EncryptedRef req = ec_Ref content \<longrightarrow>
        DecryptContent bucket (Some (NewEncryptedStore bucket)) env senv' c (Some req) w' db =
          (Ok \<lparr>dp_Content = string_of_bytes p, dp_ContentType = dr_ContentType req, dp_DecryptedAt = au_now env,
               dp_AuditLogID = ''audit_'' @ take 8 (au_uuid env)\<rparr>, w',
           try_log env (audit_record env c req\<lparr>da_Success := True\<rparr>) db))"
proof -
  let ?s = "NewEncryptedStore bucket" and ?k = "object_key t ct (xe_uuid senv)"
  have s: "xs_bucket ?s = bucket" by (simp add: NewEncryptedStore_def)
  obtain content w' where st: "Store ?s senv w t ct p = (Ok content, w')" "keystore_inv (sw_keys w')"
    "ec_Ref content = ''minio://'' @ bucket @ ''/'' @ ?k" "holds_content ?s w' t ?k p"
    using Store_works [OF assms(1,2,4), of ?s ct p] unfolding s by blast
  have t: "t \<noteq> ''''" using assms(4) by auto
  have "DecryptContent bucket (Some ?s) env senv' c (Some req) w' db =
      (Ok \<lparr>dp_Content = string_of_bytes p, dp_ContentType = dr_ContentType req, dp_DecryptedAt = au_now env,
           dp_AuditLogID = ''audit_'' @ take 8 (au_uuid env)\<rparr>, w',
       try_log env (audit_record env c req\<lparr>da_Success := True\<rparr>) db)" if "dr_EncryptedRef req = ec_Ref content" for req
    using decrypt_held [OF st(2) assms(3) st(4) _ _ assms(7) t, of req env db] assms(5,6) that st(3) by (simp add: s)
  with st(1) show ?thesis by blast
qed

text \<open>The request of the witness names the object the store writes.\<close>

definition demo_request :: "string \<Rightarrow> DecryptRequest" where
  "demo_request tr = \<lparr>dr_EncryptedRef = ''minio://b/'' @ object_key ''tenant-a'' ''prompt'' (replicate 36 CHR ''a''),
     dr_ContentType = ''prompt'', dr_TraceID = tr\<rparr>"

theorem decrypt_own_content_witness:
  "\<exists>content w' p db. Store (NewEncryptedStore ''b'') (demo_senv (replicate 36 CHR ''a'')) demo_store ''tenant-a'' ''prompt'' [104, 105] = (Ok content, w')
    \<and> DecryptContent ''b'' (Some (NewEncryptedStore ''b'')) demo_audit_env (demo_senv (replicate 36 CHR ''c'')) (demo_caller ''tenant-a'')
        (Some (demo_request '''')) w' [] = (Ok p, w', db) \<and> dp_Content p = ''hi''"
proof -
  let ?s = "NewEncryptedStore ''b''"
  have works: "env_works (demo_senv (replicate 36 CHR ''a''))" "env_works (demo_senv (replicate 36 CHR ''c''))"
    using demo_senv_works by simp_all
  have t: "8 \<le> length ''tenant-a''" "''b'' \<noteq> ''''" "CHR ''/'' \<notin> set ''b''" "ca_tenant (demo_caller ''tenant-a'') = ''tenant-a''"
    by (simp_all add: demo_caller_def)
  obtain content w' where st: "Store ?s (demo_senv (replicate 36 CHR ''a'')) demo_store ''tenant-a'' ''prompt'' [104, 105] = (Ok content, w')"
    and dec: "\<forall>req. dr_EncryptedRef req = ec_Ref content \<longrightarrow>
      DecryptContent ''b'' (Some ?s) demo_audit_env (demo_senv (replicate 36 CHR ''c'')) (demo_caller ''tenant-a'') (Some req) w' [] =
        (Ok \<lparr>dp_Content = string_of_bytes [104, 105], dp_ContentType = dr_ContentType req, dp_DecryptedAt = au_now demo_audit_env,
           dp_AuditLogID = ''audit_'' @ take 8 (au_uuid demo_audit_env)\<rparr>, w',
         try_log demo_audit_env (audit_record demo_audit_env (demo_caller ''tenant-a'') req\<lparr>da_Success := True\<rparr>) [])"
    using decrypt_own_content [OF demo_store_inv works t, of "''prompt''" "[104, 105]" demo_audit_env "[]"] by blast
  have "ec_Ref content = dr_EncryptedRef (demo_request '''')"
    using Store_works [OF demo_store_inv works(1) t(1), of ?s "''prompt''" "[104, 105]"] st
    by (auto simp: demo_request_def NewEncryptedStore_def demo_senv_def)
  moreover have "string_of_bytes [104, 105] = ''hi''" by code_simp
  ultimately show ?thesis using st dec by fastforce
qed

text \<open>The audit trail, and its hole. Every call adds at most one record, of the caller's tenant and reference,
  whose success flag says whether the content was returned; a call that does not panic adds it exactly
  when the database works, the id is new and the row fits its columns. The trace id and the content type of
  the row are what the caller wrote: with a trace id of more than 64 characters (or a content type of more
  than 16) the content is returned as usual and no record is made.\<close>

theorem decrypt_audit_trail:
  assumes "DecryptContent bucket es env senv c (Some req) w db = (r, w', db')" and "r \<noteq> Panic"
  shows "if au_db env \<and> ''audit_'' @ take 8 (au_uuid env) \<notin> da_AuditLogID ` set db
      \<and> length (dr_EncryptedRef req) \<le> 512 \<and> length (dr_ContentType req) \<le> 16 \<and> length (dr_TraceID req) \<le> 64
      \<and> length (ca_tenant c) \<le> 64 \<and> length (ca_user c) \<le> 64 \<and> length (ca_ip c) \<le> 45
    then \<exists>row. db' = db @ [row] \<and> da_TenantID row = ca_tenant c \<and> da_EncryptedRef row = dr_EncryptedRef req
      \<and> da_Success row = is_Ok r
    else db' = db"
proof -
  have log: "try_log env (audit_record env c req\<lparr>da_FailReason := f, da_Success := ok\<rparr>) db =
      (if au_db env \<and> ''audit_'' @ take 8 (au_uuid env) \<notin> da_AuditLogID ` set db
        \<and> length (dr_EncryptedRef req) \<le> 512 \<and> length (dr_ContentType req) \<le> 16 \<and> length (dr_TraceID req) \<le> 64
        \<and> length (ca_tenant c) \<le> 64 \<and> length (ca_user c) \<le> 64 \<and> length (ca_ip c) \<le> 45
       then db @ [audit_row env (audit_record env c req\<lparr>da_FailReason := f, da_Success := ok\<rparr>)] else db)" for f ok
    by (auto simp: try_log_def Log_def insert_audit_def audit_row_fits_def audit_row_def audit_record_def Let_def)
  have "\<exists>f. db' = try_log env (audit_record env c req\<lparr>da_FailReason := f, da_Success := is_Ok r\<rparr>) db"
  proof -
    show ?thesis
    proof (cases "canDecrypt bucket (dr_EncryptedRef req) (ca_tenant c) \<and> es \<noteq> None")
      case False
      then show ?thesis using assms(1) by (auto simp: DecryptContent_def Let_def audit_record_def split: if_splits)
    next
      case True
      then obtain s where es: "es = Some s" and may: "canDecrypt bucket (dr_EncryptedRef req) (ca_tenant c)" by blast
      obtain q w1 where q: "RetrieveByRef s senv w (ca_tenant c) (dr_EncryptedRef req) = (q, w1)" by fastforce
      show ?thesis using assms unfolding es DecryptContent_allowed [OF may] q by (cases q) (auto simp: audit_record_def)
    qed
  qed
  then obtain f where db': "db' = try_log env (audit_record env c req\<lparr>da_FailReason := f, da_Success := is_Ok r\<rparr>) db" by blast
  show ?thesis unfolding db' log by (auto simp: audit_row_def audit_record_def Let_def)
qed

theorem decrypt_audit_trail_witness:
  "\<exists>content w' a. Store (NewEncryptedStore ''b'') (demo_senv (replicate 36 CHR ''a'')) demo_store ''tenant-a'' ''prompt'' [104, 105] = (Ok content, w')
    \<and> DecryptContent ''b'' (Some (NewEncryptedStore ''b'')) demo_audit_env (demo_senv (replicate 36 CHR ''c'')) (demo_caller ''tenant-a'')
        (Some (demo_request (replicate 65 CHR ''x''))) w' [] = (Ok a, w', [])"
proof -
  let ?s = "NewEncryptedStore ''b''" and ?req = "demo_request (replicate 65 CHR ''x'')"
  have s: "xs_bucket ?s = ''b''" by (simp add: NewEncryptedStore_def)
  have works: "env_works (demo_senv (replicate 36 CHR ''a''))" "env_works (demo_senv (replicate 36 CHR ''c''))"
    using demo_senv_works by simp_all
  have u: "xe_uuid (demo_senv (replicate 36 CHR ''a'')) = replicate 36 CHR ''a''" by (simp add: demo_senv_def)
  have t: "8 \<le> length ''tenant-a''" by simp
  obtain content w' where st: "Store ?s (demo_senv (replicate 36 CHR ''a'')) demo_store ''tenant-a'' ''prompt'' [104, 105] = (Ok content, w')"
    "keystore_inv (sw_keys w')" "holds_content ?s w' ''tenant-a'' (object_key ''tenant-a'' ''prompt'' (replicate 36 CHR ''a'')) [104, 105]"
    using Store_works [OF demo_store_inv works(1) t, of ?s "''prompt''" "[104, 105]"] unfolding u by blast
  have ref: "dr_EncryptedRef ?req = ''minio://'' @ ''b'' @ ''/'' @ object_key ''tenant-a'' ''prompt'' (replicate 36 CHR ''a'')"
    by (simp add: demo_request_def)
  obtain a db' where dec: "DecryptContent ''b'' (Some ?s) demo_audit_env (demo_senv (replicate 36 CHR ''c'')) (demo_caller ''tenant-a'')
      (Some ?req) w' [] = (Ok a, w', db')"
    using decrypt_held [OF st(2) works(2) st(3), of "demo_caller ''tenant-a''" ?req demo_audit_env "[]"] ref
    by (simp add: s demo_caller_def)
  from decrypt_audit_trail [OF dec] have "db' = []" by (simp add: demo_request_def)
  with st(1) dec show ?thesis by blast
qed

end
