(* ===== verification/Circuit.thy ===== *)
theory Circuit
  imports Prelude
begin

text \<open>
  The circuits of the zero-knowledge proofs: \<open>server/internal/zkp/circuit.go\<close>.

  The constraint builder of gnark is a parameter, the record \<open>frontend_api\<close>: its arithmetic on variables,
  and for each kind of assertion whether an assignment satisfies it. \<open>gnark_laws\<close> is its documented
  behaviour: \<open>val\<close> gives the value of a variable, in the scalar field of \<open>r\<close> elements, an odd prime larger than
  any constant here; \<open>Select\<close> constrains its selector to be a bit; \<open>AssertIsLessOrEqual\<close> compares values as
  integers. A \<open>Define\<close> method is true of an assignment when every assertion it makes is. Go arrays are lists of
  their length.
\<close>

subsection \<open>The constraint builder\<close>

record 'v frontend_api =
  api_const :: "int \<Rightarrow> 'v"
  api_add :: "'v \<Rightarrow> 'v \<Rightarrow> 'v"
  api_sub :: "'v \<Rightarrow> 'v \<Rightarrow> 'v"
  api_mul :: "'v \<Rightarrow> 'v \<Rightarrow> 'v"
  api_select :: "'v \<Rightarrow> 'v \<Rightarrow> 'v \<Rightarrow> 'v"
  api_selects_on :: "'v \<Rightarrow> bool"
  api_isZero :: "'v \<Rightarrow> 'v"
  api_assertIsEqual :: "'v \<Rightarrow> 'v \<Rightarrow> bool"
  api_assertIsLessOrEqual :: "'v \<Rightarrow> 'v \<Rightarrow> bool"

definition gnark_laws :: "int \<Rightarrow> ('v \<Rightarrow> int) \<Rightarrow> 'v frontend_api \<Rightarrow> bool" where
  "gnark_laws r val api \<longleftrightarrow> 1000 < r \<and> odd r
     \<and> (\<forall>a. 0 \<le> val a \<and> val a < r)
     \<and> (\<forall>i. val (api_const api i) = i mod r)
     \<and> (\<forall>a b. val (api_add api a b) = (val a + val b) mod r \<and> val (api_sub api a b) = (val a - val b) mod r
          \<and> val (api_mul api a b) = val a * val b mod r)
     \<and> (\<forall>b x y. val (api_select api b x y) = (if val b = 1 then val x else val y) \<or> \<not> api_selects_on api b)
     \<and> (\<forall>b. api_selects_on api b \<longleftrightarrow> val b \<in> {0, 1})
     \<and> (\<forall>a. val (api_isZero api a) = (if val a = 0 then 1 else 0))
     \<and> (\<forall>a b. api_assertIsEqual api a b \<longleftrightarrow> val a = val b)
     \<and> (\<forall>a b. api_assertIsLessOrEqual api a b \<longleftrightarrow> val a \<le> val b)"

text \<open>Residues modulo \<open>r\<close>, the builder's values themselves.\<close>

definition residue_api :: "int \<Rightarrow> int frontend_api" where
  "residue_api r = \<lparr>api_const = (\<lambda>i. i mod r), api_add = (\<lambda>a b. (a + b) mod r), api_sub = (\<lambda>a b. (a - b) mod r),
     api_mul = (\<lambda>a b. a * b mod r), api_select = (\<lambda>b x y. if b mod r = 1 then x else y),
     api_selects_on = (\<lambda>b. b mod r \<in> {0, 1}), api_isZero = (\<lambda>a. if a mod r = 0 then 1 else 0),
     api_assertIsEqual = (\<lambda>a b. a mod r = b mod r), api_assertIsLessOrEqual = (\<lambda>a b. a mod r \<le> b mod r)\<rparr>"

lemma residue_api_laws: "1000 < r \<Longrightarrow> odd r \<Longrightarrow> gnark_laws r (\<lambda>a. a mod r) (residue_api r)"
  by (auto simp: gnark_laws_def residue_api_def mod_simps)

subsection \<open>The circuits\<close>

record 'v HashPreimageCircuit =
  hp_Preimage :: "'v list"
  hp_PreimageLength :: 'v
  hp_Hash :: 'v

record 'v ContentOwnershipCircuit =
  co_ContentHash :: 'v
  co_ContentChunks :: "'v list"
  co_Timestamp :: 'v
  co_OwnerID :: 'v
  co_PublicHash :: 'v
  co_BeforeTimestamp :: 'v

record 'v FingerprintVerificationCircuit =
  fv_StatisticalFeatures :: "'v list"
  fv_SemanticFeatures :: "'v list"
  fv_ModelID :: 'v
  fv_RegisteredFingerprint :: 'v
  fv_Threshold :: 'v

record 'v MerkleProofCircuit =
  mp_Leaf :: 'v
  mp_Path :: "'v list"
  mp_PathIndex :: "'v list"
  mp_Depth :: 'v
  mp_Root :: 'v

record 'v SelectiveDisclosureCircuit =
  sd_Data :: "'v list"
  sd_DataHash :: 'v
  sd_Conditions :: "'v list"

text \<open>The loop \<open>computed = computed + x[i] * (i + k)\<close>, and the plain sum.\<close>

fun weighted_loop :: "'v frontend_api \<Rightarrow> int \<Rightarrow> 'v list \<Rightarrow> 'v \<Rightarrow> 'v" where
  "weighted_loop api k [] acc = acc"
| "weighted_loop api k (x # xs) acc = weighted_loop api (k + 1) xs (api_add api acc (api_mul api x (api_const api k)))"

fun sum_loop :: "'v frontend_api \<Rightarrow> 'v list \<Rightarrow> 'v \<Rightarrow> 'v" where
  "sum_loop api [] acc = acc"
| "sum_loop api (x # xs) acc = sum_loop api xs (api_add api acc x)"

definition HashPreimage_Define :: "'v frontend_api \<Rightarrow> 'v HashPreimageCircuit \<Rightarrow> bool" where
  "HashPreimage_Define api c \<longleftrightarrow>
     api_assertIsEqual api (weighted_loop api 1 (hp_Preimage c) (api_const api 0)) (hp_Hash c)"

definition ContentOwnership_Define :: "'v frontend_api \<Rightarrow> 'v ContentOwnershipCircuit \<Rightarrow> bool" where
  "ContentOwnership_Define api c \<longleftrightarrow>
     (let computedHash = weighted_loop api 1 (co_ContentChunks c) (api_const api 0);
          commitment = api_add api (api_mul api (co_ContentHash c) (api_const api 1)) (api_mul api (co_OwnerID c) (api_const api 2));
          commitment = api_add api commitment (api_mul api (co_Timestamp c) (api_const api 3));
          diff = api_sub api (co_BeforeTimestamp c) (co_Timestamp c)
      in api_assertIsEqual api computedHash (co_ContentHash c)
        \<and> api_assertIsEqual api commitment (co_PublicHash c)
        \<and> api_assertIsLessOrEqual api (api_const api 0) diff)"

definition FingerprintVerification_Define :: "'v frontend_api \<Rightarrow> 'v FingerprintVerificationCircuit \<Rightarrow> bool" where
  "FingerprintVerification_Define api c \<longleftrightarrow>
     (let fingerprintHash = weighted_loop api 1 (fv_StatisticalFeatures c) (api_const api 0);
          fingerprintHash = weighted_loop api 10 (fv_SemanticFeatures c) fingerprintHash;
          fingerprintHash = api_add api fingerprintHash (api_mul api (fv_ModelID c) (api_const api 100))
      in api_assertIsEqual api fingerprintHash (fv_RegisteredFingerprint c))"

text \<open>The loop over the levels: the new value, and whether the selectors were bits.\<close>

fun merkle_loop :: "'v frontend_api \<Rightarrow> 'v \<Rightarrow> int \<Rightarrow> ('v \<times> 'v) list \<Rightarrow> 'v \<Rightarrow> 'v \<times> bool" where
  "merkle_loop api depth i [] current = (current, True)"
| "merkle_loop api depth i ((sib, dir) # ls) current =
     (let left = api_select api dir sib current;
          right = api_select api dir current sib;
          parent = api_add api (api_mul api left (api_const api 1)) (api_mul api right (api_const api 2));
          depthCheck = api_sub api depth (api_const api i);
          shouldUpdate = api_isZero api (api_sub api depthCheck (api_const api 1));
          (root, ok) = merkle_loop api depth (i + 1) ls (api_select api shouldUpdate current parent)
      in (root, ok \<and> api_selects_on api dir \<and> api_selects_on api shouldUpdate))"

definition MerkleProof_Define :: "'v frontend_api \<Rightarrow> 'v MerkleProofCircuit \<Rightarrow> bool" where
  "MerkleProof_Define api c \<longleftrightarrow>
     (let (current, ok) = merkle_loop api (mp_Depth c) 0 (zip (mp_Path c) (mp_PathIndex c)) (mp_Leaf c)
      in ok \<and> api_assertIsEqual api current (mp_Root c))"

definition SelectiveDisclosure_Define :: "'v frontend_api \<Rightarrow> 'v SelectiveDisclosureCircuit \<Rightarrow> bool" where
  "SelectiveDisclosure_Define api c \<longleftrightarrow>
     api_assertIsEqual api (weighted_loop api 1 (sd_Data c) (api_const api 0)) (sd_DataHash c)
     \<and> api_assertIsLessOrEqual api (api_const api 1) (sd_Data c ! 0)
     \<and> api_assertIsEqual api (sum_loop api (sd_Data c) (api_const api 0)) (sd_Conditions c ! 1)"

subsection \<open>What the circuits constrain\<close>

fun weighted_sum :: "int \<Rightarrow> int list \<Rightarrow> int" where
  "weighted_sum k [] = 0"
| "weighted_sum k (x # xs) = k * x + weighted_sum (k + 1) xs"

text \<open>One level of the tree hash the circuit computes, with the selector as a bit.\<close>

definition level_hash :: "int \<Rightarrow> int \<Rightarrow> int \<Rightarrow> int \<Rightarrow> int" where
  "level_hash r dir sib cur = (if dir = 1 then sib + 2 * cur else cur + 2 * sib) mod r"

text \<open>The root over all levels but number \<open>d - 1\<close>.\<close>

fun skipping_root :: "int \<Rightarrow> int \<Rightarrow> int \<Rightarrow> (int \<times> int) list \<Rightarrow> int \<Rightarrow> int" where
  "skipping_root r d i [] cur = cur"
| "skipping_root r d i ((sib, dir) # ls) cur =
     skipping_root r d (i + 1) ls (if d = i + 1 then cur else level_hash r dir sib cur)"

lemma gnark_simps:
  assumes "gnark_laws r val api"
  shows "val (api_const api i) = i mod r" and "val (api_add api a b) = (val a + val b) mod r"
    and "val (api_sub api a b) = (val a - val b) mod r" and "val (api_mul api a b) = val a * val b mod r"
    and "api_selects_on api a \<longleftrightarrow> val a = 0 \<or> val a = 1" and "val (api_isZero api a) = (if val a = 0 then 1 else 0)"
    and "api_assertIsEqual api a b \<longleftrightarrow> val a = val b" and "api_assertIsLessOrEqual api a b \<longleftrightarrow> val a \<le> val b"
  using assms by (simp_all add: gnark_laws_def)

lemma gnark_range: "gnark_laws r val api \<Longrightarrow> 0 \<le> val a \<and> val a < r \<and> val a mod r = val a \<and> 1000 < r \<and> odd r"
  by (simp add: gnark_laws_def)

lemma gnark_select: "gnark_laws r val api \<Longrightarrow> val b = 0 \<or> val b = 1 \<Longrightarrow>
    val (api_select api b x y) = (if val b = 1 then val x else val y)"
  unfolding gnark_laws_def by blast

lemma weighted_loop_val:
  assumes "gnark_laws r val api"
  shows "val (weighted_loop api k xs acc) = (val acc + weighted_sum k (map val xs)) mod r"
proof (induction xs arbitrary: k acc)
  case Nil
  show ?case using gnark_range [OF assms] by simp
next
  case (Cons x xs)
  then show ?case by (simp add: gnark_simps [OF assms] mod_simps algebra_simps)
qed

lemma sum_loop_val:
  assumes "gnark_laws r val api"
  shows "val (sum_loop api xs acc) = (val acc + sum_list (map val xs)) mod r"
proof (induction xs arbitrary: acc)
  case Nil
  show ?case using gnark_range [OF assms] by simp
next
  case (Cons x xs)
  then show ?case by (simp add: gnark_simps [OF assms] mod_simps algebra_simps)
qed

lemma weighted_sum_zeros [simp]: "weighted_sum k (replicate n 0) = 0"
  by (induction n arbitrary: k) auto

lemma HashPreimage_sat:
  assumes "gnark_laws r val api"
  shows "HashPreimage_Define api c \<longleftrightarrow> weighted_sum 1 (map val (hp_Preimage c)) mod r = val (hp_Hash c)"
  by (simp add: HashPreimage_Define_def gnark_simps [OF assms] weighted_loop_val [OF assms])

lemma ContentOwnership_sat:
  assumes "gnark_laws r val api"
  shows "ContentOwnership_Define api c \<longleftrightarrow>
    weighted_sum 1 (map val (co_ContentChunks c)) mod r = val (co_ContentHash c)
    \<and> (val (co_ContentHash c) + 2 * val (co_OwnerID c) + 3 * val (co_Timestamp c)) mod r = val (co_PublicHash c)"
  using gnark_range [OF assms, of "api_sub api (co_BeforeTimestamp c) (co_Timestamp c)"]
  by (simp add: ContentOwnership_Define_def Let_def gnark_simps [OF assms] weighted_loop_val [OF assms] mod_simps algebra_simps)

lemma FingerprintVerification_sat:
  assumes "gnark_laws r val api"
  shows "FingerprintVerification_Define api c \<longleftrightarrow>
    (weighted_sum 1 (map val (fv_StatisticalFeatures c)) + weighted_sum 10 (map val (fv_SemanticFeatures c))
      + 100 * val (fv_ModelID c)) mod r = val (fv_RegisteredFingerprint c)"
  by (simp add: FingerprintVerification_Define_def Let_def gnark_simps [OF assms] weighted_loop_val [OF assms] mod_simps algebra_simps)

lemma SelectiveDisclosure_sat:
  assumes "gnark_laws r val api"
  shows "SelectiveDisclosure_Define api c \<longleftrightarrow>
    weighted_sum 1 (map val (sd_Data c)) mod r = val (sd_DataHash c) \<and> 1 \<le> val (sd_Data c ! 0)
    \<and> sum_list (map val (sd_Data c)) mod r = val (sd_Conditions c ! 1)"
  using gnark_range [OF assms, of "sd_DataHash c"]
  by (simp add: SelectiveDisclosure_Define_def gnark_simps [OF assms] weighted_loop_val [OF assms] sum_loop_val [OF assms])

subsection \<open>The Merkle circuit\<close>

lemma should_update:
  assumes "gnark_laws r val api" and "0 \<le> i" and "i < 900"
  shows "val (api_isZero api (api_sub api (api_sub api depth (api_const api i)) (api_const api 1))) = (if val depth = i + 1 then 1 else 0)"
proof -
  have r: "0 \<le> val depth" "val depth < r" "1000 < r" using gnark_range [OF assms(1), of depth] by auto
  have "(val depth - i - 1) mod r = 0 \<longleftrightarrow> val depth = i + 1"
  proof
    assume "(val depth - i - 1) mod r = 0"
    then obtain k where k: "val depth - i - 1 = r * k" by (auto simp: mod_eq_0_iff_dvd)
    have "- r < r * k" "r * k < r" using r assms(2,3) k by linarith+
    then have "- 1 < k" "k < 1" using r(3) by (simp_all add: mult_less_cancel_left_pos [of r _ 1, simplified] mult_less_cancel_left_pos [of r "- 1", simplified])
    then have "k = 0" by simp
    then show "val depth = i + 1" using k by simp
  qed simp
  then show ?thesis by (simp add: gnark_simps [OF assms(1)] mod_simps)
qed

lemma level_parent:
  assumes "gnark_laws r val api" and "val dir = 0 \<or> val dir = 1"
  shows "val (api_add api (api_mul api (api_select api dir sib cur) (api_const api 1))
      (api_mul api (api_select api dir cur sib) (api_const api 2))) = level_hash r (val dir) (val sib) (val cur)"
  using gnark_select [OF assms] assms(2)
  by (auto simp: gnark_simps [OF assms(1)] level_hash_def mod_simps algebra_simps)

lemma merkle_loop_val:
  assumes "gnark_laws r val api" and "0 \<le> i" and "i + int (length ls) \<le> 900"
  shows "(snd (merkle_loop api depth i ls cur) \<longleftrightarrow> (\<forall>l \<in> set ls. val (snd l) = 0 \<or> val (snd l) = 1))
    \<and> ((\<forall>l \<in> set ls. val (snd l) = 0 \<or> val (snd l) = 1) \<longrightarrow> val (fst (merkle_loop api depth i ls cur)) =
      skipping_root r (val depth) i (map (map_prod val val) ls) (val cur))"
  using assms(2,3)
proof (induction ls arbitrary: i cur)
  case (Cons l ls)
  obtain sib dir where l: "l = (sib, dir)" by fastforce
  let ?u = "api_isZero api (api_sub api (api_sub api depth (api_const api i)) (api_const api 1))"
  let ?p = "api_add api (api_mul api (api_select api dir sib cur) (api_const api 1))
      (api_mul api (api_select api dir cur sib) (api_const api 2))"
  have loop: "merkle_loop api depth i (l # ls) cur =
      (let (root, ok) = merkle_loop api depth (i + 1) ls (api_select api ?u cur ?p)
       in (root, ok \<and> api_selects_on api dir \<and> api_selects_on api ?u))" by (simp add: l Let_def)
  have u: "val ?u = (if val depth = i + 1 then 1 else 0)" using Cons.prems by (intro should_update [OF assms(1)]) auto
  have on: "api_selects_on api ?u" by (simp add: gnark_simps(5) [OF assms(1)] u)
  have step: "0 \<le> i + 1" "i + 1 + int (length ls) \<le> 900" using Cons.prems by auto
  have next_cur: "val (api_select api ?u cur ?p) =
      (if val depth = i + 1 then val cur else level_hash r (val dir) (val sib) (val cur))" if "val dir = 0 \<or> val dir = 1"
    using gnark_select [OF assms(1), of ?u] u level_parent [OF assms(1) that] by simp
  show ?case using Cons.IH [OF step, of "api_select api ?u cur ?p"] on next_cur unfolding loop
    by (auto simp: l gnark_simps(5) [OF assms(1)] case_prod_beta)
qed simp

lemma MerkleProof_sat:
  assumes "gnark_laws r val api" and "length (mp_Path c) = 32" and "length (mp_PathIndex c) = 32"
  shows "MerkleProof_Define api c \<longleftrightarrow> (\<forall>dir \<in> set (mp_PathIndex c). val dir = 0 \<or> val dir = 1)
    \<and> skipping_root r (val (mp_Depth c)) 0 (zip (map val (mp_Path c)) (map val (mp_PathIndex c))) (val (mp_Leaf c)) = val (mp_Root c)"
proof -
  let ?ls = "zip (mp_Path c) (mp_PathIndex c)"
  have i: "(0 :: int) \<le> 0" "0 + int (length ?ls) \<le> 900" using assms(2,3) by auto
  have "set (mp_PathIndex c) = snd ` set ?ls" using assms(2,3) by (metis map_snd_zip set_map)
  then have bits: "(\<forall>dir \<in> set (mp_PathIndex c). val dir = 0 \<or> val dir = 1) \<longleftrightarrow> (\<forall>l \<in> set ?ls. val (snd l) = 0 \<or> val (snd l) = 1)"
    by simp
  have m: "map (map_prod val val) ?ls = zip (map val (mp_Path c)) (map val (mp_PathIndex c))"
    by (simp add: zip_map_map map_prod_def)
  have "MerkleProof_Define api c \<longleftrightarrow> snd (merkle_loop api (mp_Depth c) 0 ?ls (mp_Leaf c))
      \<and> val (fst (merkle_loop api (mp_Depth c) 0 ?ls (mp_Leaf c))) = val (mp_Root c)"
    by (simp add: MerkleProof_Define_def case_prod_beta gnark_simps(7) [OF assms(1)])
  then show ?thesis using merkle_loop_val [OF assms(1) i, of "mp_Depth c" "mp_Leaf c"] unfolding bits m by metis
qed

text \<open>The hash of a path, level by level; a level with a zero sibling on the right changes nothing.\<close>

fun path_root :: "int \<Rightarrow> (int \<times> int) list \<Rightarrow> int \<Rightarrow> int" where
  "path_root r [] cur = cur"
| "path_root r ((sib, dir) # ls) cur = path_root r ls (level_hash r dir sib cur)"

lemma level_hash_range: "0 < r \<Longrightarrow> 0 \<le> level_hash r dir sib cur \<and> level_hash r dir sib cur < r"
  by (simp add: level_hash_def)

lemma skipping_root_padding: "0 \<le> cur \<Longrightarrow> cur < r \<Longrightarrow> skipping_root r d i (replicate n (0, 0)) cur = cur"
  by (induction n arbitrary: i) (auto simp: level_hash_def)

lemma skipping_root_path:
  assumes "0 \<le> cur" and "cur < r" and "d = i + int (length ls)" and "ls \<noteq> []"
  shows "skipping_root r d i (ls @ replicate n (0, 0)) cur = path_root r (butlast ls) cur"
  using assms
proof (induction ls arbitrary: i cur)
  case (Cons l ls)
  obtain sib dir where l: "l = (sib, dir)" by fastforce
  show ?case
  proof (cases ls)
    case Nil
    then show ?thesis using Cons.prems by (simp add: l skipping_root_padding)
  next
    case (Cons l' ls')
    then have "d \<noteq> i + 1" using Cons.prems(3) by simp
    with Cons.IH [of "level_hash r dir sib cur" "i + 1"] Cons.prems Cons show ?thesis
      using level_hash_range [of r dir sib cur] by (simp add: l)
  qed
qed simp

lemma half_of:
  fixes r x y half :: int
  assumes "2 * half = r + 1"
  shows "(y + 2 * ((x - y) * half mod r)) mod r = x mod r"
proof -
  have "y + 2 * ((x - y) * half) = x + (x - y) * r" using assms by algebra
  then show ?thesis by (metis mod_add_right_eq mod_mult_right_eq mod_mult_self1 mult.commute)
qed

lemma residue_sum:
  fixes h a b r :: int
  shows "(((h - a mod r) mod r - b mod r) mod r + a + b) mod r = h mod r"
proof -
  have "((h - a mod r) mod r - b mod r) mod r = (h - a - b) mod r" by (simp add: mod_simps)
  moreover have "((h - a - b) mod r + (a + b)) mod r = h mod r" by (simp add: mod_add_left_eq)
  ultimately show ?thesis by (simp only: add.assoc)
qed

subsection \<open>Properties\<close>

lemma circuits_accept_anything_facts:
  assumes "gnark_laws r val api"
  shows "\<exists>c. HashPreimage_Define api c \<and> length (hp_Preimage c) = 8 \<and> hp_Hash c = h \<and> hp_PreimageLength c = len"
    and "\<exists>c. ContentOwnership_Define api c \<and> length (co_ContentChunks c) = 16 \<and> co_PublicHash c = h
      \<and> co_OwnerID c = owner \<and> co_Timestamp c = ts \<and> co_BeforeTimestamp c = before"
    and "\<exists>c. FingerprintVerification_Define api c \<and> length (fv_StatisticalFeatures c) = 8 \<and> length (fv_SemanticFeatures c) = 8
      \<and> fv_RegisteredFingerprint c = h \<and> fv_ModelID c = model \<and> fv_Threshold c = threshold"
    and "\<exists>c. MerkleProof_Define api c \<and> length (mp_Path c) = 32 \<and> length (mp_PathIndex c) = 32 \<and> mp_Leaf c = leaf \<and> mp_Root c = root"
proof -
  note simps = gnark_simps [OF assms] and range = gnark_range [OF assms]
  let ?z = "api_const api 0"
  have z: "val ?z = 0" "map val (replicate n ?z) = replicate n 0" for n by (simp_all add: simps)
  let ?c = "\<lparr>hp_Preimage = h # replicate 7 ?z, hp_PreimageLength = len, hp_Hash = h\<rparr>"
  have "HashPreimage_Define api ?c" unfolding HashPreimage_sat [OF assms] by (simp add: z range)
  then show "\<exists>c. HashPreimage_Define api c \<and> length (hp_Preimage c) = 8 \<and> hp_Hash c = h \<and> hp_PreimageLength c = len"
    by (intro exI [of _ ?c]) simp
  let ?x = "api_sub api (api_sub api h (api_mul api owner (api_const api 2))) (api_mul api ts (api_const api 3))"
  let ?c = "\<lparr>co_ContentHash = ?x, co_ContentChunks = ?x # replicate 15 ?z, co_Timestamp = ts, co_OwnerID = owner,
    co_PublicHash = h, co_BeforeTimestamp = before\<rparr>"
  have "(val ?x + 2 * val owner + 3 * val ts) mod r = val h"
    using range [of h] residue_sum [of "val h" "val owner * 2" r "val ts * 3"] by (simp add: simps mult.commute)
  then have "ContentOwnership_Define api ?c" unfolding ContentOwnership_sat [OF assms] by (simp add: z range)
  then show "\<exists>c. ContentOwnership_Define api c \<and> length (co_ContentChunks c) = 16 \<and> co_PublicHash c = h
      \<and> co_OwnerID c = owner \<and> co_Timestamp c = ts \<and> co_BeforeTimestamp c = before"
    by (intro exI [of _ ?c]) simp
  let ?x = "api_sub api h (api_mul api model (api_const api 100))"
  let ?c = "\<lparr>fv_StatisticalFeatures = ?x # replicate 7 ?z, fv_SemanticFeatures = replicate 8 ?z, fv_ModelID = model,
    fv_RegisteredFingerprint = h, fv_Threshold = threshold\<rparr>"
  have "(val ?x + 100 * val model) mod r = val h" using range [of h] by (simp add: simps mod_simps algebra_simps)
  then have "FingerprintVerification_Define api ?c" unfolding FingerprintVerification_sat [OF assms] by (simp add: z range)
  then show "\<exists>c. FingerprintVerification_Define api c \<and> length (fv_StatisticalFeatures c) = 8 \<and> length (fv_SemanticFeatures c) = 8
      \<and> fv_RegisteredFingerprint c = h \<and> fv_ModelID c = model \<and> fv_Threshold c = threshold"
    by (intro exI [of _ ?c]) simp
  have "odd r" using range by blast
  then have "2 * ((r + 1) div 2) = r + 1" by presburger
  then obtain half where half: "2 * half = r + 1" by blast
  let ?x = "api_mul api (api_sub api root leaf) (api_const api half)"
  let ?c = "\<lparr>mp_Leaf = leaf, mp_Path = ?x # replicate 31 ?z, mp_PathIndex = replicate 32 ?z, mp_Depth = ?z, mp_Root = root\<rparr>"
  have zs: "zip (map val (?x # replicate 31 ?z)) (map val (replicate 32 ?z)) = (val ?x, 0) # replicate 31 (0, 0)"
    using zip_replicate [of 31 "0 :: int" 31 "0 :: int"] by (simp add: z numeral_eq_Suc)
  have x: "val ?x = (val root - val leaf) * half mod r" by (simp add: simps mod_simps)
  have "level_hash r 0 (val ?x) (val leaf) = val root"
    using half_of [OF half, of "val leaf" "val root"] range [of root] by (simp add: x level_hash_def)
  then have "skipping_root r 0 0 ((val ?x, 0) # replicate 31 (0, 0)) (val leaf) = val root"
    using skipping_root_padding [of "val root" r 0 1 31] range [of root] by simp
  then have "MerkleProof_Define api ?c" using zs by (simp add: MerkleProof_sat [OF assms] z(1))
  then show "\<exists>c. MerkleProof_Define api c \<and> length (mp_Path c) = 32 \<and> length (mp_PathIndex c) = 32 \<and> mp_Leaf c = leaf \<and> mp_Root c = root"
    by (intro exI [of _ ?c]) simp
qed



lemma merkle_circuit_skips_top_facts:
  assumes "gnark_laws r val api" and "ls \<noteq> []" and "length ls \<le> 32" and "\<forall>l \<in> set ls. val (snd l) = 0 \<or> val (snd l) = 1"
    and "c = \<lparr>mp_Leaf = leaf, mp_Path = map fst ls @ replicate (32 - length ls) (api_const api 0),
      mp_PathIndex = map snd ls @ replicate (32 - length ls) (api_const api 0), mp_Depth = api_const api (int (length ls)), mp_Root = root\<rparr>"
  shows "MerkleProof_Define api c \<longleftrightarrow> val root = path_root r (butlast (map (map_prod val val) ls)) (val leaf)"
    and "val root = path_root r (map (map_prod val val) ls) (val leaf) \<Longrightarrow> MerkleProof_Define api c \<longleftrightarrow>
      level_hash r (val (snd (last ls))) (val (fst (last ls))) (path_root r (butlast (map (map_prod val val) ls)) (val leaf))
        = path_root r (butlast (map (map_prod val val) ls)) (val leaf)"
proof -
  let ?n = "32 - length ls" and ?z = "api_const api 0" and ?vs = "map (map_prod val val) ls"
  note simps = gnark_simps [OF assms(1)]
  have r: "1000 < r" using gnark_range [OF assms(1)] by blast
  have z: "val ?z = 0" by (simp add: simps)
  have d: "val (api_const api (int (length ls))) = int (length ls)" using r assms(3) by (simp add: simps)
  have "zip (map val (map fst ls)) (map val (map snd ls)) = ?vs"
    by (induction ls) auto
  then have zs: "zip (map val (mp_Path c)) (map val (mp_PathIndex c)) = ?vs @ replicate ?n (0, 0)"
    by (simp add: assms(5) z zip_append)
  have bits: "\<forall>dir \<in> set (mp_PathIndex c). val dir = 0 \<or> val dir = 1" using assms(4) z by (auto simp: assms(5))
  have "skipping_root r (int (length ls)) 0 (?vs @ replicate ?n (0, 0)) (val leaf) = path_root r (butlast ?vs) (val leaf)"
    using skipping_root_path [of "val leaf" r "int (length ls)" 0 ?vs ?n] gnark_range [OF assms(1), of leaf] assms(2) by simp
  then have sat: "MerkleProof_Define api c \<longleftrightarrow> path_root r (butlast ?vs) (val leaf) = val root"
    using MerkleProof_sat [OF assms(1), of c] bits zs d assms(3) by (simp add: assms(5) z)
  then show "MerkleProof_Define api c \<longleftrightarrow> val root = path_root r (butlast ?vs) (val leaf)" by auto
  have snoc: "path_root r (xs @ [(s, e)]) cur = level_hash r e s (path_root r xs cur)" for xs s e cur
    by (induction xs arbitrary: cur) auto
  have "?vs = butlast ?vs @ [(val (fst (last ls)), val (snd (last ls)))]"
    using assms(2) by (metis append_butlast_last_id last_map list.map_disc_iff map_prod_def split_beta)
  then have "path_root r ?vs (val leaf) = level_hash r (val (snd (last ls))) (val (fst (last ls))) (path_root r (butlast ?vs) (val leaf))"
    using snoc by metis
  then show "val root = path_root r ?vs (val leaf) \<Longrightarrow> MerkleProof_Define api c \<longleftrightarrow>
      level_hash r (val (snd (last ls))) (val (fst (last ls))) (path_root r (butlast ?vs) (val leaf)) = path_root r (butlast ?vs) (val leaf)"
    using sat by auto
qed

text \<open>The Merkle circuit leaves out the top level. For an honest proof of \<open>1\<close> to \<open>32\<close> levels, padded with
  zeros as the prover pads it, the circuit is satisfied exactly when the public root is the hash of the
  path without its last level: the update is made on every level but number \<open>Depth - 1\<close>, where the code's
  comment wants the levels below \<open>Depth\<close>. The real root is accepted only if the last level does not
  change the hash.\<close>

theorem merkle_circuit_skips_top:
  assumes "gnark_laws r val api" and "ls \<noteq> []" and "length ls \<le> 32" and "\<forall>l \<in> set ls. val (snd l) = 0 \<or> val (snd l) = 1"
    and "c = \<lparr>mp_Leaf = leaf, mp_Path = map fst ls @ replicate (32 - length ls) (api_const api 0),
      mp_PathIndex = map snd ls @ replicate (32 - length ls) (api_const api 0), mp_Depth = api_const api (int (length ls)), mp_Root = root\<rparr>"
  shows "(MerkleProof_Define api c \<longleftrightarrow> val root = path_root r (butlast (map (map_prod val val) ls)) (val leaf)) \<and>
    ((val root = path_root r (map (map_prod val val) ls) (val leaf)) \<longrightarrow> (MerkleProof_Define api c \<longleftrightarrow>
      level_hash r (val (snd (last ls))) (val (fst (last ls))) (path_root r (butlast (map (map_prod val val) ls)) (val leaf))
        = path_root r (butlast (map (map_prod val val) ls)) (val leaf)))"
  by (intro conjI impI) (use merkle_circuit_skips_top_facts [OF assms] in blast)+

theorem merkle_circuit_skips_top_witness:
  "\<not> MerkleProof_Define (residue_api 1009) \<lparr>mp_Leaf = 5, mp_Path = [7] @ replicate 31 0, mp_PathIndex = [0] @ replicate 31 0,
      mp_Depth = 1, mp_Root = 19\<rparr>"
proof -
  have c: "\<lparr>mp_Leaf = 5, mp_Path = [7] @ replicate 31 0, mp_PathIndex = [0] @ replicate 31 0, mp_Depth = 1, mp_Root = 19\<rparr>
    = \<lparr>mp_Leaf = 5, mp_Path = map fst [(7, 0)] @ replicate (32 - length [(7, 0 :: int)]) (api_const (residue_api 1009) 0),
      mp_PathIndex = map snd [(7, 0)] @ replicate (32 - length [(7, 0 :: int)]) (api_const (residue_api 1009) 0),
      mp_Depth = api_const (residue_api 1009) (int (length [(7, 0 :: int)])), mp_Root = 19\<rparr>" by (simp add: residue_api_def)
  have "path_root 1009 (butlast (map (map_prod (\<lambda>a. a mod 1009) (\<lambda>a. a mod 1009)) [(7, 0)])) 5 = 5" by simp
  then show ?thesis using merkle_circuit_skips_top [OF residue_api_laws _ _ _ c] by simp
qed

end
