(* ===== verification/Zkp.thy ===== *)
theory Zkp
  imports Circuit Encoding Sha256
begin

text \<open>
  The prover, the verifier and the service of the zero-knowledge proofs:
  \<open>server/internal/zkp/prover.go\<close>, \<open>verifier.go\<close> and \<open>service.go\<close>.

  The Groth16 backend of gnark is a parameter, the record \<open>groth16\<close>; \<open>groth16_laws\<close> is its documented
  behaviour for the circuits of theory Circuit: proving succeeds exactly for satisfying assignments, a proof
  made with a proving key verifies under the verifying key made with it, and what was written is read
  back. Writing into a buffer does not fail. Big integers are \<open>int\<close>. The conversion of a feature, a
  floating-point product, is an argument.
\<close>

subsection \<open>Assignments\<close>

datatype assignment =
    AHash "int HashPreimageCircuit" | AOwner "int ContentOwnershipCircuit" | AFinger "int FingerprintVerificationCircuit"
  | AMerkle "int MerkleProofCircuit" | ADisclose "int SelectiveDisclosureCircuit"

text \<open>An assignment satisfies its circuit when the circuit's constraints hold of its values in the field.\<close>

fun satisfied :: "'v frontend_api \<Rightarrow> assignment \<Rightarrow> bool" where
  "satisfied api (AHash c) = HashPreimage_Define api \<lparr>hp_Preimage = map (api_const api) (hp_Preimage c),
     hp_PreimageLength = api_const api (hp_PreimageLength c), hp_Hash = api_const api (hp_Hash c)\<rparr>"
| "satisfied api (AOwner c) = ContentOwnership_Define api \<lparr>co_ContentHash = api_const api (co_ContentHash c),
     co_ContentChunks = map (api_const api) (co_ContentChunks c), co_Timestamp = api_const api (co_Timestamp c),
     co_OwnerID = api_const api (co_OwnerID c), co_PublicHash = api_const api (co_PublicHash c),
     co_BeforeTimestamp = api_const api (co_BeforeTimestamp c)\<rparr>"
| "satisfied api (AFinger c) = FingerprintVerification_Define api
     \<lparr>fv_StatisticalFeatures = map (api_const api) (fv_StatisticalFeatures c),
      fv_SemanticFeatures = map (api_const api) (fv_SemanticFeatures c), fv_ModelID = api_const api (fv_ModelID c),
      fv_RegisteredFingerprint = api_const api (fv_RegisteredFingerprint c), fv_Threshold = api_const api (fv_Threshold c)\<rparr>"
| "satisfied api (AMerkle c) = MerkleProof_Define api \<lparr>mp_Leaf = api_const api (mp_Leaf c),
     mp_Path = map (api_const api) (mp_Path c), mp_PathIndex = map (api_const api) (mp_PathIndex c),
     mp_Depth = api_const api (mp_Depth c), mp_Root = api_const api (mp_Root c)\<rparr>"
| "satisfied api (ADisclose c) = SelectiveDisclosure_Define api \<lparr>sd_Data = map (api_const api) (sd_Data c),
     sd_DataHash = api_const api (sd_DataHash c), sd_Conditions = map (api_const api) (sd_Conditions c)\<rparr>"

type_synonym ProofType = string

definition ProofTypeHashPreimage :: ProofType where "ProofTypeHashPreimage = ''hash_preimage''"
definition ProofTypeContentOwnership :: ProofType where "ProofTypeContentOwnership = ''content_ownership''"
definition ProofTypeFingerprintVerify :: ProofType where "ProofTypeFingerprintVerify = ''fingerprint_verify''"
definition ProofTypeMerkleProof :: ProofType where "ProofTypeMerkleProof = ''merkle_proof''"
definition ProofTypeSelectiveDisclosure :: ProofType where "ProofTypeSelectiveDisclosure = ''selective_disclosure''"

definition known_types :: "ProofType list" where
  "known_types = [ProofTypeHashPreimage, ProofTypeContentOwnership, ProofTypeFingerprintVerify, ProofTypeMerkleProof,
     ProofTypeSelectiveDisclosure]"

primrec circuit_type :: "assignment \<Rightarrow> ProofType" where
  "circuit_type (AHash c) = ProofTypeHashPreimage"
| "circuit_type (AOwner c) = ProofTypeContentOwnership"
| "circuit_type (AFinger c) = ProofTypeFingerprintVerify"
| "circuit_type (AMerkle c) = ProofTypeMerkleProof"
| "circuit_type (ADisclose c) = ProofTypeSelectiveDisclosure"

subsection \<open>The backend\<close>

record ('k, 'v, 'w, 'q, 'p) groth16 =
  g_compile :: "ProofType \<Rightarrow> bool"
  g_setup :: "ProofType \<Rightarrow> 'k option"
  g_vk :: "'k \<Rightarrow> 'v"
  g_write_vk :: "'v \<Rightarrow> 8 word list option"
  g_read_vk :: "8 word list \<Rightarrow> 'v option"
  g_newWitness :: "assignment \<Rightarrow> 'w option"
  g_public :: "'w \<Rightarrow> 'q option"
  g_prove :: "'k \<Rightarrow> 'w \<Rightarrow> 'p option"
  g_write_proof :: "'p \<Rightarrow> 8 word list"
  g_read_proof :: "8 word list \<Rightarrow> 'p option"
  g_write_public :: "'q \<Rightarrow> 8 word list"
  g_read_public :: "8 word list \<Rightarrow> 'q option"
  g_verify :: "'p \<Rightarrow> 'v \<Rightarrow> 'q \<Rightarrow> bool"

definition groth16_laws :: "'a frontend_api \<Rightarrow> ('k, 'v, 'w, 'q, 'p) groth16 \<Rightarrow> bool" where
  "groth16_laws api g \<longleftrightarrow>
     (\<forall>t \<in> set known_types. g_compile g t \<and> (\<exists>k. g_setup g t = Some k))
     \<and> (\<forall>a. \<exists>w q. g_newWitness g a = Some w \<and> g_public g w = Some q)
     \<and> (\<forall>a k w. g_setup g (circuit_type a) = Some k \<longrightarrow> g_newWitness g a = Some w \<longrightarrow>
          ((\<exists>p. g_prove g k w = Some p) \<longleftrightarrow> satisfied api a))
     \<and> (\<forall>a k w p q. g_setup g (circuit_type a) = Some k \<longrightarrow> g_newWitness g a = Some w \<longrightarrow> g_prove g k w = Some p \<longrightarrow>
          g_public g w = Some q \<longrightarrow> g_verify g p (g_vk g k) q)
     \<and> (\<forall>p. g_read_proof g (g_write_proof g p) = Some p)
     \<and> (\<forall>q. g_read_public g (g_write_public g q) = Some q)"

subsection \<open>The prover\<close>

record Proof =
  pf_Type :: ProofType
  pf_ProofData :: "8 word list"
  pf_PublicData :: "8 word list"
  pf_ProofHash :: string

datatype zkp_error = UnknownProofType | CompileFailed | SetupFailed | WitnessFailed | ProveFailed | PublicFailed
  | KeysNotFound | ExportFailed | ImportFailed | VerifyingKeyNotFound | ProofNotRead | PublicNotRead
  | ProofNotCached

type_synonym 'k prover = "ProofType \<rightharpoonup> 'k"

definition Setup :: "('k, 'v, 'w, 'q, 'p) groth16 \<Rightarrow> ProofType \<Rightarrow> 'k prover \<Rightarrow> (zkp_error, 'k prover) outcome" where
  "Setup g proofType keys =
     (if keys proofType \<noteq> None then Ok keys
      else if proofType \<notin> set known_types then Err UnknownProofType
      else if \<not> g_compile g proofType then Err CompileFailed
      else case g_setup g proofType of
          None \<Rightarrow> Err SetupFailed
        | Some k \<Rightarrow> Ok (keys(proofType \<mapsto> k)))"

text \<open>\<open>SetBytes\<close>, big-endian, and \<open>Bytes\<close>, the shortest form of the absolute value.\<close>

definition setBytes :: "8 word list \<Rightarrow> int" where
  "setBytes bs = foldl (\<lambda>n b. 256 * n + uint b) 0 bs"

fun nat_bytes :: "nat \<Rightarrow> 8 word list" where
  "nat_bytes n = (if n = 0 then [] else nat_bytes (n div 256) @ [word_of_nat (n mod 256)])"

declare nat_bytes.simps [simp del]

definition bigBytes :: "int \<Rightarrow> 8 word list" where
  "bigBytes i = nat_bytes (nat \<bar>i\<bar>)"

text \<open>The \<open>%x\<close> verb of a big integer that is not negative.\<close>

fun hex_nat :: "nat \<Rightarrow> string" where
  "hex_nat n = (if n < 16 then [hex_digit n] else hex_nat (n div 16) @ [hex_digit (n mod 16)])"

declare hex_nat.simps [simp del]

fun weigh_bytes :: "int \<Rightarrow> 8 word list \<Rightarrow> int" where
  "weigh_bytes i [] = 0"
| "weigh_bytes i (b # bs) = uint b * i + weigh_bytes (i + 1) bs"

definition computeProofHash :: "8 word list \<Rightarrow> string" where
  "computeProofHash proofData = hex_nat (nat (weigh_bytes 1 proofData))"

text \<open>
  What the four proving methods share: the witness, the proof, the public part and their bytes. Only the first
  method checks the error of \<open>Public\<close>; the others use the nil value.
\<close>

definition prove_with :: "bool \<Rightarrow> ('k, 'v, 'w, 'q, 'p) groth16 \<Rightarrow> ProofType \<Rightarrow> 'k \<Rightarrow> assignment \<Rightarrow> (zkp_error, Proof) outcome" where
  "prove_with checked g proofType k a =
     (case g_newWitness g a of
        None \<Rightarrow> Err WitnessFailed
      | Some w \<Rightarrow>
          (case g_prove g k w of
             None \<Rightarrow> Err ProveFailed
           | Some p \<Rightarrow>
               (case g_public g w of
                  None \<Rightarrow> if checked then Err PublicFailed else Panic
                | Some q \<Rightarrow>
                    Ok \<lparr>pf_Type = proofType, pf_ProofData = g_write_proof g p, pf_PublicData = g_write_public g q,
                        pf_ProofHash = computeProofHash (g_write_proof g p)\<rparr>)))"

definition with_setup :: "('k, 'v, 'w, 'q, 'p) groth16 \<Rightarrow> ProofType \<Rightarrow> 'k prover
    \<Rightarrow> ('k \<Rightarrow> (zkp_error, Proof) outcome) \<Rightarrow> (zkp_error, Proof) outcome \<times> 'k prover" where
  "with_setup g proofType keys f =
     (case Setup g proofType keys of
        Err e \<Rightarrow> (Err e, keys)
      | Panic \<Rightarrow> (Panic, keys)
      | Ok keys' \<Rightarrow> (case keys' proofType of Some k \<Rightarrow> (f k, keys') | None \<Rightarrow> (Panic, keys')))"

definition preimage_vars :: "8 word list \<Rightarrow> int list" where
  "preimage_vars preimage =
     map (\<lambda>i. if i * 32 < length preimage then setBytes (take (min ((i + 1) * 32) (length preimage) - i * 32) (drop (i * 32) preimage)) else 0) [0..<8]"

definition ProveHashPreimage :: "('k, 'v, 'w, 'q, 'p) groth16 \<Rightarrow> 'k prover \<Rightarrow> 8 word list \<Rightarrow> int
    \<Rightarrow> (zkp_error, Proof) outcome \<times> 'k prover" where
  "ProveHashPreimage g keys preimage hash =
     with_setup g ProofTypeHashPreimage keys (\<lambda>k. prove_with True g ProofTypeHashPreimage k
       (AHash \<lparr>hp_Preimage = preimage_vars preimage, hp_PreimageLength = int (length preimage), hp_Hash = hash\<rparr>))"

definition chunk_vars :: "8 word list list \<Rightarrow> int list" where
  "chunk_vars contentChunks = map (\<lambda>i. if i < length contentChunks then setBytes (contentChunks ! i) else 0) [0..<16]"

definition ProveContentOwnership :: "('k, 'v, 'w, 'q, 'p) groth16 \<Rightarrow> 'k prover \<Rightarrow> 8 word list list \<Rightarrow> int \<Rightarrow> int \<Rightarrow> int \<Rightarrow> int
    \<Rightarrow> (zkp_error, Proof) outcome \<times> 'k prover" where
  "ProveContentOwnership g keys contentChunks ownerID timestamp publicHash beforeTimestamp =
     with_setup g ProofTypeContentOwnership keys (\<lambda>k. prove_with False g ProofTypeContentOwnership k
       (AOwner \<lparr>co_ContentHash = weighted_sum 1 (chunk_vars contentChunks), co_ContentChunks = chunk_vars contentChunks,
          co_Timestamp = timestamp, co_OwnerID = ownerID, co_PublicHash = publicHash, co_BeforeTimestamp = beforeTimestamp\<rparr>))"

definition feature_vars :: "int option list \<Rightarrow> int list" where
  "feature_vars features = map (\<lambda>i. case features ! i of Some x \<Rightarrow> x | None \<Rightarrow> 0) [0..<8]"

definition ProveFingerprintVerification :: "('k, 'v, 'w, 'q, 'p) groth16 \<Rightarrow> 'k prover \<Rightarrow> int option list \<Rightarrow> int option list \<Rightarrow> int \<Rightarrow> int
    \<Rightarrow> int \<Rightarrow> (zkp_error, Proof) outcome \<times> 'k prover" where
  "ProveFingerprintVerification g keys statisticalFeatures semanticFeatures modelID registeredFingerprint threshold =
     with_setup g ProofTypeFingerprintVerify keys (\<lambda>k. prove_with False g ProofTypeFingerprintVerify k
       (AFinger \<lparr>fv_StatisticalFeatures = feature_vars statisticalFeatures, fv_SemanticFeatures = feature_vars semanticFeatures,
          fv_ModelID = modelID, fv_RegisteredFingerprint = registeredFingerprint, fv_Threshold = threshold\<rparr>))"

text \<open>The two arrays of the Merkle circuit; an index list shorter than the path makes the loop panic.\<close>

definition path_vars :: "int option list \<Rightarrow> int list \<Rightarrow> (int \<times> int) option list" where
  "path_vars path pathIndex =
     map (\<lambda>i. if i < length path \<and> path ! i \<noteq> None
         then (if i < length pathIndex then Some (the (path ! i), pathIndex ! i) else None) else Some (0, 0)) [0..<32]"

definition ProveMerkleProof :: "('k, 'v, 'w, 'q, 'p) groth16 \<Rightarrow> 'k prover \<Rightarrow> int \<Rightarrow> int option list \<Rightarrow> int list \<Rightarrow> int
    \<Rightarrow> (zkp_error, Proof) outcome \<times> 'k prover" where
  "ProveMerkleProof g keys leaf path pathIndex root =
     with_setup g ProofTypeMerkleProof keys (\<lambda>k.
       let vars = path_vars path pathIndex in
       if None \<in> set vars then Panic
       else prove_with False g ProofTypeMerkleProof k
         (AMerkle \<lparr>mp_Leaf = leaf, mp_Path = map (fst \<circ> the) vars, mp_PathIndex = map (snd \<circ> the) vars,
            mp_Depth = int (length path), mp_Root = root\<rparr>))"

definition GetVerifyingKey :: "('k, 'v, 'w, 'q, 'p) groth16 \<Rightarrow> 'k prover \<Rightarrow> ProofType \<Rightarrow> (zkp_error, 'v) outcome" where
  "GetVerifyingKey g keys proofType = (case keys proofType of None \<Rightarrow> Err KeysNotFound | Some k \<Rightarrow> Ok (g_vk g k))"

definition ExportVerifyingKey :: "('k, 'v, 'w, 'q, 'p) groth16 \<Rightarrow> 'k prover \<Rightarrow> ProofType \<Rightarrow> (zkp_error, 8 word list) outcome" where
  "ExportVerifyingKey g keys proofType =
     bind_outcome (GetVerifyingKey g keys proofType)
       (\<lambda>vk. case g_write_vk g vk of None \<Rightarrow> Err ExportFailed | Some bs \<Rightarrow> Ok bs)"

subsection \<open>The verifier\<close>

type_synonym 'v verifier = "ProofType \<rightharpoonup> 'v"

definition ImportVerifyingKey :: "('k, 'v, 'w, 'q, 'p) groth16 \<Rightarrow> ProofType \<Rightarrow> 8 word list \<Rightarrow> 'v verifier \<Rightarrow> (zkp_error, 'v verifier) outcome" where
  "ImportVerifyingKey g proofType vkData v =
     (case g_read_vk g vkData of None \<Rightarrow> Err ImportFailed | Some vk \<Rightarrow> Ok (v(proofType \<mapsto> vk)))"

definition SetVerifyingKey :: "ProofType \<Rightarrow> 'v \<Rightarrow> 'v verifier \<Rightarrow> 'v verifier" where
  "SetVerifyingKey proofType vk v = v(proofType \<mapsto> vk)"

definition zk_Verify :: "('k, 'v, 'w, 'q, 'p) groth16 \<Rightarrow> 'v verifier \<Rightarrow> Proof \<Rightarrow> (zkp_error, bool) outcome" where
  "zk_Verify g v proof =
     (case v (pf_Type proof) of
        None \<Rightarrow> Err VerifyingKeyNotFound
      | Some vk \<Rightarrow>
          (case g_read_proof g (pf_ProofData proof) of
             None \<Rightarrow> Err ProofNotRead
           | Some p \<Rightarrow>
               (case g_read_public g (pf_PublicData proof) of
                  None \<Rightarrow> Err PublicNotRead
                | Some q \<Rightarrow> Ok (g_verify g p vk q))))"

text \<open>The public inputs of the caller are not used.\<close>

definition VerifyWithPublicInputs :: "('k, 'v, 'w, 'q, 'p) groth16 \<Rightarrow> 'v verifier \<Rightarrow> Proof \<Rightarrow> (string \<rightharpoonup> 'i) \<Rightarrow> (zkp_error, bool) outcome" where
  "VerifyWithPublicInputs g v proof publicInputs =
     (case v (pf_Type proof) of
        None \<Rightarrow> Err VerifyingKeyNotFound
      | Some vk \<Rightarrow>
          (case g_read_proof g (pf_ProofData proof) of
             None \<Rightarrow> Err ProofNotRead
           | Some p \<Rightarrow>
               (case g_read_public g (pf_PublicData proof) of
                  None \<Rightarrow> Err PublicNotRead
                | Some q \<Rightarrow> Ok (g_verify g p vk q))))"

text \<open>One goroutine per proof; \<open>order\<close> is the order in which they finish.\<close>

definition batch_step :: "('k, 'v, 'w, 'q, 'p) groth16 \<Rightarrow> 'v verifier \<Rightarrow> Proof list \<Rightarrow> bool list \<times> zkp_error option \<Rightarrow> nat
    \<Rightarrow> bool list \<times> zkp_error option" where
  "batch_step g v proofs st idx =
     (case zk_Verify g v (proofs ! idx) of
        Ok valid \<Rightarrow> ((fst st)[idx := valid], snd st)
      | Err e \<Rightarrow> (fst st, if snd st = None then Some e else snd st)
      | Panic \<Rightarrow> st)"

definition BatchVerify :: "('k, 'v, 'w, 'q, 'p) groth16 \<Rightarrow> 'v verifier \<Rightarrow> Proof list \<Rightarrow> nat list \<Rightarrow> bool list \<times> zkp_error option" where
  "BatchVerify g v proofs order = foldl (batch_step g v proofs) (replicate (length proofs) False, None) order"

record VerificationResult =
  vr_Valid :: bool
  vr_ProofType :: ProofType
  vr_ProofHash :: string
  vr_VerifiedAt :: int
  vr_ErrorMsg :: "zkp_error option"

definition VerifyAndReport :: "('k, 'v, 'w, 'q, 'p) groth16 \<Rightarrow> 'v verifier \<Rightarrow> Proof \<Rightarrow> VerificationResult" where
  "VerifyAndReport g v proof =
     (let result = \<lparr>vr_Valid = False, vr_ProofType = pf_Type proof, vr_ProofHash = pf_ProofHash proof, vr_VerifiedAt = 0,
        vr_ErrorMsg = None\<rparr>
      in case zk_Verify g v proof of
          Err e \<Rightarrow> result\<lparr>vr_Valid := False, vr_ErrorMsg := Some e\<rparr>
        | Ok valid \<Rightarrow> result\<lparr>vr_Valid := valid\<rparr>
        | Panic \<Rightarrow> result)"

definition HasVerifyingKey :: "'v verifier \<Rightarrow> ProofType \<Rightarrow> bool" where
  "HasVerifyingKey v proofType \<longleftrightarrow> v proofType \<noteq> None"

definition ListVerifyingKeys :: "'v verifier \<Rightarrow> ProofType set" where
  "ListVerifyingKeys v = dom v"

end
