(* ===== verification/ZkpService.thy ===== *)
theory ZkpService
  imports Zkp "HOL-Library.Multiset"
begin

text \<open>
  The service over the prover and the verifier: \<open>server/internal/zkp/service.go\<close>. Its state is the prover's
  keys, the verifier's keys and the cache of proofs under their (weak) hash. The server's log is left out.
\<close>

record ('k, 'v) zkp_service =
  zs_prover :: "'k prover"
  zs_verifier :: "'v verifier"
  zs_cache :: "string \<rightharpoonup> Proof"

definition NewService :: "('k, 'v) zkp_service" where
  "NewService = \<lparr>zs_prover = Map.empty, zs_verifier = Map.empty, zs_cache = Map.empty\<rparr>"

fun init_loop :: "('k, 'v, 'w, 'q, 'p) groth16 \<Rightarrow> ProofType list \<Rightarrow> ('k, 'v) zkp_service \<Rightarrow> ('k, 'v) zkp_service" where
  "init_loop g [] s = s"
| "init_loop g (pt # pts) s =
     init_loop g pts (case Setup g pt (zs_prover s) of
         Ok keys \<Rightarrow>
           (case GetVerifyingKey g keys pt of
              Ok vk \<Rightarrow> s\<lparr>zs_prover := keys, zs_verifier := SetVerifyingKey pt vk (zs_verifier s)\<rparr>
            | _ \<Rightarrow> s\<lparr>zs_prover := keys\<rparr>)
       | _ \<Rightarrow> s)"

definition Initialize :: "('k, 'v, 'w, 'q, 'p) groth16 \<Rightarrow> ('k, 'v) zkp_service \<Rightarrow> ('k, 'v) zkp_service" where
  "Initialize g s =
     init_loop g [ProofTypeHashPreimage, ProofTypeContentOwnership, ProofTypeFingerprintVerify, ProofTypeMerkleProof] s"

definition cacheProof :: "Proof \<Rightarrow> ('k, 'v) zkp_service \<Rightarrow> ('k, 'v) zkp_service" where
  "cacheProof proof s = s\<lparr>zs_cache := (zs_cache s)(pf_ProofHash proof \<mapsto> proof)\<rparr>"

text \<open>The end of the four proving methods: a proof is cached and returned, an error wrapped.\<close>

definition finish_proof :: "(zkp_error, Proof) outcome \<times> 'k prover \<Rightarrow> ('k, 'v) zkp_service
    \<Rightarrow> (zkp_error, Proof) outcome \<times> ('k, 'v) zkp_service" where
  "finish_proof r s =
     (let s' = s\<lparr>zs_prover := snd r\<rparr> in
      case fst r of Ok proof \<Rightarrow> (Ok proof, cacheProof proof s') | Err e \<Rightarrow> (Err e, s') | Panic \<Rightarrow> (Panic, s'))"

subsection \<open>Helpers\<close>

definition splitIntoChunks :: "8 word list \<Rightarrow> nat \<Rightarrow> 8 word list list" where
  "splitIntoChunks data chunkSize =
     (let chunks = map (\<lambda>i. let c = take chunkSize (drop (i * chunkSize) data) in c @ replicate (chunkSize - length c) 0)
        [0..<(length data + chunkSize - 1) div chunkSize]
      in take 16 (chunks @ replicate (16 - length chunks) (replicate chunkSize 0)))"

definition stringToBigInt :: "string \<Rightarrow> int" where
  "stringToBigInt s = setBytes (sha256_sum (bytes_of s))"

text \<open>What \<open>hex.DecodeString\<close> returns beside its error: the bytes before the first bad digit.\<close>

fun hex_prefix :: "string \<Rightarrow> 8 word list" where
  "hex_prefix (c # d # s) =
     (case (hex_val c, hex_val d) of
        (Some h, Some l) \<Rightarrow> word_of_nat (16 * h + l) # hex_prefix s
      | _ \<Rightarrow> [])"
| "hex_prefix s = []"

definition hexToBigInt :: "string \<Rightarrow> int" where
  "hexToBigInt hexStr =
     (let hexStr = (if length hexStr \<ge> 2 \<and> take 2 hexStr = ''0x'' then drop 2 hexStr else hexStr)
      in setBytes (hex_prefix hexStr))"

definition computeSimpleHash :: "8 word list \<Rightarrow> int" where
  "computeSimpleHash data = weigh_bytes 1 data"

definition computePublicHash :: "8 word list \<Rightarrow> int \<Rightarrow> int \<Rightarrow> int" where
  "computePublicHash contentHash ownerID timestamp =
     setBytes (sha256_sum (contentHash @ bigBytes ownerID @ bigBytes timestamp))"

subsection \<open>Requests\<close>

record ContentOwnershipRequest =
  oq_Content :: "8 word list"
  oq_OwnerID :: string
  oq_Timestamp :: int
  oq_BeforeTimestamp :: int

record 'f FingerprintMatchRequest =
  fq_StatisticalFeatures :: "'f list"
  fq_SemanticFeatures :: "'f list"
  fq_ModelID :: string
  fq_RegisteredHash :: string

record MerkleInclusionRequest =
  mq_LeafHash :: string
  mq_Path :: "string list"
  mq_PathIndex :: "int list"
  mq_RootHash :: string

definition svc_ProveContentOwnership :: "('k, 'v, 'w, 'q, 'p) groth16 \<Rightarrow> ('k, 'v) zkp_service \<Rightarrow> ContentOwnershipRequest
    \<Rightarrow> (zkp_error, Proof) outcome \<times> ('k, 'v) zkp_service" where
  "svc_ProveContentOwnership g s req =
     (let contentHash = sha256_sum (oq_Content req @ bytes_of (oq_OwnerID req));
          chunks = splitIntoChunks (oq_Content req) 32;
          ownerIDInt = stringToBigInt (oq_OwnerID req);
          publicHash = computePublicHash contentHash ownerIDInt (oq_Timestamp req)
      in finish_proof (ProveContentOwnership g (zs_prover s) chunks ownerIDInt (oq_Timestamp req) publicHash (oq_BeforeTimestamp req)) s)"

definition svc_ProveHashPreimage :: "('k, 'v, 'w, 'q, 'p) groth16 \<Rightarrow> ('k, 'v) zkp_service \<Rightarrow> 8 word list
    \<Rightarrow> (zkp_error, Proof) outcome \<times> ('k, 'v) zkp_service" where
  "svc_ProveHashPreimage g s preimage = finish_proof (ProveHashPreimage g (zs_prover s) preimage (computeSimpleHash preimage)) s"

definition feature_ints :: "('f \<Rightarrow> int) \<Rightarrow> 'f list \<Rightarrow> int option list" where
  "feature_ints floatToBigInt fs = map (\<lambda>i. Some (if i < length fs then floatToBigInt (fs ! i) else 0)) [0..<8]"

definition ProveFingerprintMatch :: "('k, 'v, 'w, 'q, 'p) groth16 \<Rightarrow> ('f \<Rightarrow> int) \<Rightarrow> ('k, 'v) zkp_service \<Rightarrow> 'f FingerprintMatchRequest
    \<Rightarrow> (zkp_error, Proof) outcome \<times> ('k, 'v) zkp_service" where
  "ProveFingerprintMatch g floatToBigInt s req =
     finish_proof (ProveFingerprintVerification g (zs_prover s) (feature_ints floatToBigInt (fq_StatisticalFeatures req))
       (feature_ints floatToBigInt (fq_SemanticFeatures req)) (stringToBigInt (fq_ModelID req)) (hexToBigInt (fq_RegisteredHash req)) 0) s"

definition ProveMerkleInclusion :: "('k, 'v, 'w, 'q, 'p) groth16 \<Rightarrow> ('k, 'v) zkp_service \<Rightarrow> MerkleInclusionRequest
    \<Rightarrow> (zkp_error, Proof) outcome \<times> ('k, 'v) zkp_service" where
  "ProveMerkleInclusion g s req =
     finish_proof (ProveMerkleProof g (zs_prover s) (hexToBigInt (mq_LeafHash req)) (map (\<lambda>p. Some (hexToBigInt p)) (mq_Path req))
       (mq_PathIndex req) (hexToBigInt (mq_RootHash req))) s"

definition svc_VerifyProof :: "('k, 'v, 'w, 'q, 'p) groth16 \<Rightarrow> int \<Rightarrow> ('k, 'v) zkp_service \<Rightarrow> Proof \<Rightarrow> VerificationResult" where
  "svc_VerifyProof g now s proof = (VerifyAndReport g (zs_verifier s) proof)\<lparr>vr_VerifiedAt := now\<rparr>"

definition VerifyProofByHash :: "('k, 'v, 'w, 'q, 'p) groth16 \<Rightarrow> int \<Rightarrow> ('k, 'v) zkp_service \<Rightarrow> string
    \<Rightarrow> (zkp_error, VerificationResult) outcome" where
  "VerifyProofByHash g now s proofHash =
     (case zs_cache s proofHash of None \<Rightarrow> Err ProofNotCached | Some proof \<Rightarrow> Ok (svc_VerifyProof g now s proof))"

definition svc_GetProof :: "('k, 'v) zkp_service \<Rightarrow> string \<Rightarrow> (zkp_error, Proof) outcome" where
  "svc_GetProof s proofHash = (case zs_cache s proofHash of None \<Rightarrow> Err ProofNotCached | Some proof \<Rightarrow> Ok proof)"

definition ExportVerifyingKeys :: "('k, 'v, 'w, 'q, 'p) groth16 \<Rightarrow> ('k, 'v) zkp_service \<Rightarrow> ProofType \<rightharpoonup> 8 word list" where
  "ExportVerifyingKeys g s pt =
     (if pt \<in> ListVerifyingKeys (zs_verifier s)
      then (case ExportVerifyingKey g (zs_prover s) pt of Ok vkData \<Rightarrow> Some vkData | _ \<Rightarrow> None) else None)"

subsection \<open>The keys\<close>

text \<open>The verifier has the verifying key of every key of the prover that the backend made.\<close>

definition keys_sound :: "('k, 'v, 'w, 'q, 'p) groth16 \<Rightarrow> ('k, 'v) zkp_service \<Rightarrow> bool" where
  "keys_sound g s \<longleftrightarrow> (\<forall>t k. zs_prover s t = Some k \<longrightarrow> g_setup g t = Some k)"

definition key_ready :: "('k, 'v, 'w, 'q, 'p) groth16 \<Rightarrow> ('k, 'v) zkp_service \<Rightarrow> ProofType \<Rightarrow> bool" where
  "key_ready g s t \<longleftrightarrow> (\<exists>k. zs_prover s t = Some k \<and> zs_verifier s t = Some (g_vk g k))"

definition provable_types :: "ProofType list" where
  "provable_types = [ProofTypeHashPreimage, ProofTypeContentOwnership, ProofTypeFingerprintVerify, ProofTypeMerkleProof]"

definition service_inv :: "('k, 'v, 'w, 'q, 'p) groth16 \<Rightarrow> ('k, 'v) zkp_service \<Rightarrow> bool" where
  "service_inv g s \<longleftrightarrow> keys_sound g s \<and> (\<forall>t \<in> set provable_types. key_ready g s t)"

lemma provable_known: "set provable_types \<subseteq> set known_types"
  by (simp add: provable_types_def known_types_def)

lemma init_step:
  assumes "groth16_laws api g" and "pt \<in> set known_types" and "keys_sound g s"
  shows "\<exists>s'. (\<forall>pts. init_loop g (pt # pts) s = init_loop g pts s') \<and> keys_sound g s' \<and> key_ready g s' pt
    \<and> (\<forall>t. key_ready g s t \<longrightarrow> key_ready g s' t)"
proof -
  obtain k where k: "g_compile g pt" "g_setup g pt = Some k"
    using assms(1,2) unfolding groth16_laws_def by auto
  let ?keys = "(zs_prover s)(pt \<mapsto> k)"
  have ready: "Setup g pt (zs_prover s) = Ok ?keys"
  proof (cases "zs_prover s pt")
    case (Some k')
    then have "k' = k" using assms(3) k(2) by (fastforce simp: keys_sound_def)
    with Some have "?keys = zs_prover s" by auto
    with Some show ?thesis by (simp add: Setup_def)
  qed (use k assms(2) in \<open>simp add: Setup_def\<close>)
  let ?s = "s\<lparr>zs_prover := ?keys, zs_verifier := (zs_verifier s)(pt \<mapsto> g_vk g k)\<rparr>"
  have "\<forall>pts. init_loop g (pt # pts) s = init_loop g pts ?s"
    using ready by (simp add: GetVerifyingKey_def SetVerifyingKey_def)
  moreover have "keys_sound g ?s" using assms(3) k(2) by (simp add: keys_sound_def)
  moreover have "key_ready g ?s pt" "\<forall>t. key_ready g s t \<longrightarrow> key_ready g ?s t" by (simp_all add: key_ready_def)
  ultimately show ?thesis by blast
qed

lemma init_loop_inv:
  assumes "groth16_laws api g" and "set pts \<subseteq> set known_types" and "keys_sound g s"
  shows "keys_sound g (init_loop g pts s) \<and> (\<forall>t \<in> set pts. key_ready g (init_loop g pts s) t)
    \<and> (\<forall>t. key_ready g s t \<longrightarrow> key_ready g (init_loop g pts s) t)"
  using assms(2,3)
proof (induction pts arbitrary: s)
  case (Cons pt pts)
  then obtain s' where s': "\<forall>pts. init_loop g (pt # pts) s = init_loop g pts s'" "keys_sound g s'" "key_ready g s' pt"
    "\<forall>t. key_ready g s t \<longrightarrow> key_ready g s' t"
    using init_step [OF assms(1), of pt s] by auto
  have "set pts \<subseteq> set known_types" using Cons.prems(1) by simp
  from Cons.IH [OF this s'(2)] s'(3,4) show ?case unfolding s'(1) [rule_format] by auto
qed simp

lemma Initialize_inv: "groth16_laws api g \<Longrightarrow> service_inv g (Initialize g NewService)"
  using init_loop_inv [OF _ provable_known, of api g NewService]
  unfolding service_inv_def Initialize_def provable_types_def [symmetric]
  by (simp add: keys_sound_def NewService_def)

text \<open>Proving, once the keys are there: it succeeds exactly for satisfying assignments, and the proof verifies.\<close>

lemma prove_with_iff:
  assumes "groth16_laws api g" and "g_setup g (circuit_type a) = Some k"
  shows "if satisfied api a then \<exists>proof. prove_with b g (circuit_type a) k a = Ok proof \<and> pf_Type proof = circuit_type a
      \<and> (\<forall>v. v (circuit_type a) = Some (g_vk g k) \<longrightarrow> zk_Verify g v proof = Ok True)
    else prove_with b g (circuit_type a) k a = Err ProveFailed"
proof -
  obtain w q where w: "g_newWitness g a = Some w" "g_public g w = Some q" using assms(1) unfolding groth16_laws_def by meson
  have iff: "(\<exists>p. g_prove g k w = Some p) \<longleftrightarrow> satisfied api a"
    using assms w(1) unfolding groth16_laws_def by meson
  show ?thesis
  proof (cases "g_prove g k w")
    case None
    then show ?thesis using iff w by (simp add: prove_with_def)
  next
    case (Some p)
    have "g_verify g p (g_vk g k) q" "g_read_proof g (g_write_proof g p) = Some p" "g_read_public g (g_write_public g q) = Some q"
      using assms w Some unfolding groth16_laws_def by meson+
    then show ?thesis using iff w Some by (auto simp: prove_with_def zk_Verify_def)
  qed
qed

lemma with_setup_ready:
  assumes "service_inv g s" and "t \<in> set provable_types"
  shows "\<exists>k. with_setup g t (zs_prover s) f = (f k, zs_prover s) \<and> g_setup g t = Some k \<and> zs_verifier s t = Some (g_vk g k)"
  using assms by (auto simp: service_inv_def keys_sound_def key_ready_def with_setup_def Setup_def)

lemma finish_prove:
  assumes "groth16_laws api g" and "service_inv g s" and "circuit_type a \<in> set provable_types"
    and "r = with_setup g (circuit_type a) (zs_prover s) (\<lambda>k. prove_with b g (circuit_type a) k a)"
  shows "if satisfied api a
    then \<exists>proof. finish_proof r s = (Ok proof, cacheProof proof s) \<and> zk_Verify g (zs_verifier s) proof = Ok True
    else finish_proof r s = (Err ProveFailed, s)"
proof -
  obtain k where k: "r = (prove_with b g (circuit_type a) k a, zs_prover s)" "g_setup g (circuit_type a) = Some k"
    "zs_verifier s (circuit_type a) = Some (g_vk g k)"
    using with_setup_ready [OF assms(2,3)] assms(4) by blast
  then show ?thesis using prove_with_iff [OF assms(1) k(2), of b]
    by (auto simp: finish_proof_def cacheProof_def Let_def split: if_splits)
qed

lemma service_inv_cache: "service_inv g s \<Longrightarrow> service_inv g (cacheProof proof s)"
  by (simp add: service_inv_def keys_sound_def key_ready_def cacheProof_def)

text \<open>The assignments of the four methods.\<close>

definition hash_assignment :: "8 word list \<Rightarrow> assignment" where
  "hash_assignment p = AHash \<lparr>hp_Preimage = preimage_vars p, hp_PreimageLength = int (length p), hp_Hash = computeSimpleHash p\<rparr>"

definition owner_assignment :: "ContentOwnershipRequest \<Rightarrow> assignment" where
  "owner_assignment req = (let owner = stringToBigInt (oq_OwnerID req); vars = chunk_vars (splitIntoChunks (oq_Content req) 32) in
     AOwner \<lparr>co_ContentHash = weighted_sum 1 vars, co_ContentChunks = vars, co_Timestamp = oq_Timestamp req, co_OwnerID = owner,
       co_PublicHash = computePublicHash (sha256_sum (oq_Content req @ bytes_of (oq_OwnerID req))) owner (oq_Timestamp req),
       co_BeforeTimestamp = oq_BeforeTimestamp req\<rparr>)"

lemma svc_ProveHashPreimage_cases:
  assumes "groth16_laws api g" and "service_inv g s"
  shows "if satisfied api (hash_assignment p)
    then \<exists>proof. svc_ProveHashPreimage g s p = (Ok proof, cacheProof proof s) \<and> zk_Verify g (zs_verifier s) proof = Ok True
    else svc_ProveHashPreimage g s p = (Err ProveFailed, s)"
  unfolding svc_ProveHashPreimage_def
  by (rule finish_prove [OF assms]) (simp_all add: hash_assignment_def ProveHashPreimage_def provable_types_def)

lemma svc_ProveContentOwnership_cases:
  assumes "groth16_laws api g" and "service_inv g s"
  shows "if satisfied api (owner_assignment req)
    then \<exists>proof. svc_ProveContentOwnership g s req = (Ok proof, cacheProof proof s) \<and> zk_Verify g (zs_verifier s) proof = Ok True
    else svc_ProveContentOwnership g s req = (Err ProveFailed, s)"
  unfolding svc_ProveContentOwnership_def Let_def
  by (rule finish_prove [OF assms]) (simp_all add: owner_assignment_def ProveContentOwnership_def provable_types_def Let_def)

definition finger_assignment :: "('f \<Rightarrow> int) \<Rightarrow> 'f FingerprintMatchRequest \<Rightarrow> assignment" where
  "finger_assignment conv req =
     AFinger \<lparr>fv_StatisticalFeatures = feature_vars (feature_ints conv (fq_StatisticalFeatures req)),
       fv_SemanticFeatures = feature_vars (feature_ints conv (fq_SemanticFeatures req)), fv_ModelID = stringToBigInt (fq_ModelID req),
       fv_RegisteredFingerprint = hexToBigInt (fq_RegisteredHash req), fv_Threshold = 0\<rparr>"

lemma ProveFingerprintMatch_cases:
  assumes "groth16_laws api g" and "service_inv g s"
  shows "if satisfied api (finger_assignment conv req)
    then \<exists>proof. ProveFingerprintMatch g conv s req = (Ok proof, cacheProof proof s) \<and> zk_Verify g (zs_verifier s) proof = Ok True
    else ProveFingerprintMatch g conv s req = (Err ProveFailed, s)"
  unfolding ProveFingerprintMatch_def
  by (rule finish_prove [OF assms]) (simp_all add: finger_assignment_def ProveFingerprintVerification_def provable_types_def)

definition merkle_assignment :: "MerkleInclusionRequest \<Rightarrow> assignment" where
  "merkle_assignment req =
     (let vars = map the (path_vars (map (\<lambda>p. Some (hexToBigInt p)) (mq_Path req)) (mq_PathIndex req)) in
      AMerkle \<lparr>mp_Leaf = hexToBigInt (mq_LeafHash req), mp_Path = map fst vars, mp_PathIndex = map snd vars,
        mp_Depth = int (length (mq_Path req)), mp_Root = hexToBigInt (mq_RootHash req)\<rparr>)"

lemma ProveMerkleInclusion_cases:
  assumes "groth16_laws api g" and "service_inv g s" and "min (length (mq_Path req)) 32 \<le> length (mq_PathIndex req)"
  shows "if satisfied api (merkle_assignment req)
    then \<exists>proof. ProveMerkleInclusion g s req = (Ok proof, cacheProof proof s) \<and> zk_Verify g (zs_verifier s) proof = Ok True
    else ProveMerkleInclusion g s req = (Err ProveFailed, s)"
proof -
  let ?path = "map (\<lambda>p. Some (hexToBigInt p)) (mq_Path req)"
  have "None \<notin> set (path_vars ?path (mq_PathIndex req))" using assms(3) by (auto simp: path_vars_def)
  then have "ProveMerkleProof g (zs_prover s) (hexToBigInt (mq_LeafHash req)) ?path (mq_PathIndex req) (hexToBigInt (mq_RootHash req))
      = with_setup g (circuit_type (merkle_assignment req)) (zs_prover s)
          (\<lambda>k. prove_with False g (circuit_type (merkle_assignment req)) k (merkle_assignment req))"
    by (simp add: ProveMerkleProof_def merkle_assignment_def Let_def)
  then show ?thesis unfolding ProveMerkleInclusion_def
    by (intro finish_prove [OF assms(1,2)]) (simp_all add: merkle_assignment_def Let_def provable_types_def)
qed

lemma ProveMerkleInclusion_panics:
  assumes "service_inv g s" and "length (mq_PathIndex req) < min (length (mq_Path req)) 32"
  shows "fst (ProveMerkleInclusion g s req) = Panic"
proof -
  let ?path = "map (\<lambda>p. Some (hexToBigInt p)) (mq_Path req)" and ?i = "length (mq_PathIndex req)"
  have "path_vars ?path (mq_PathIndex req) ! ?i = None" "?i < length (path_vars ?path (mq_PathIndex req))"
    using assms(2) by (auto simp: path_vars_def)
  then have "None \<in> set (path_vars ?path (mq_PathIndex req))" by (metis nth_mem)
  moreover have "ProofTypeMerkleProof \<in> set provable_types" by (simp add: provable_types_def)
  from with_setup_ready [OF assms(1) this] obtain k where
    "\<And>f. with_setup g ProofTypeMerkleProof (zs_prover s) f = (f k, zs_prover s)"
    using assms(1) by (auto simp: service_inv_def keys_sound_def key_ready_def with_setup_def Setup_def provable_types_def)
  ultimately show ?thesis by (simp add: ProveMerkleInclusion_def ProveMerkleProof_def Let_def finish_proof_def)
qed

subsection \<open>Preimages\<close>

lemma weighted_sum_mod: "weighted_sum k (map (\<lambda>x. x mod r) xs) mod r = weighted_sum k xs mod r"
proof (induction xs arbitrary: k)
  case (Cons x xs)
  have "(k * (x mod r) + weighted_sum (k + 1) (map (\<lambda>x. x mod r) xs)) mod r
      = (k * x mod r + weighted_sum (k + 1) (map (\<lambda>x. x mod r) xs) mod r) mod r"
    by (metis mod_add_eq mod_mod_trivial mod_mult_right_eq)
  also have "\<dots> = (k * x + weighted_sum (k + 1) xs) mod r" by (simp add: Cons mod_add_eq)
  finally show ?case by simp
qed simp

lemma satisfied_hash:
  assumes "gnark_laws r val api"
  shows "satisfied api (hash_assignment p) \<longleftrightarrow> weighted_sum 1 (preimage_vars p) mod r = weigh_bytes 1 p mod r"
  by (simp add: hash_assignment_def HashPreimage_sat [OF assms] gnark_simps(1) [OF assms] comp_def weighted_sum_mod
      computeSimpleHash_def)

lemma setBytes_foldl: "foldl (\<lambda>n b. 256 * n + uint b) a bs = a * 256 ^ length bs + setBytes bs"
proof (induction bs arbitrary: a)
  case (Cons b bs)
  show ?case using Cons [of "256 * a + uint b"] Cons [of "uint b"] by (simp add: setBytes_def algebra_simps)
qed (simp add: setBytes_def)

lemma setBytes_Cons: "setBytes (b # bs) = uint b * 256 ^ length bs + setBytes bs"
  using setBytes_foldl [of "uint b" bs] by (simp add: setBytes_def)

lemma setBytes_bounds: "0 \<le> setBytes bs \<and> setBytes bs < 256 ^ length bs"
proof (induction bs)
  case (Cons b bs)
  have "uint b < 256" using unsigned_less [of b, where ?'a = int] by simp
  then have "uint b * 256 ^ length bs \<le> 255 * 256 ^ length bs" by (intro mult_right_mono) auto
  moreover have "(256 :: int) ^ length (b # bs) = 255 * 256 ^ length bs + 256 ^ length bs" by simp
  moreover have "0 \<le> uint b * 256 ^ length bs" by simp
  ultimately show ?case using Cons unfolding setBytes_Cons by linarith
qed (simp add: setBytes_def)

lemma weigh_bytes_bounds: "0 \<le> i \<Longrightarrow> 0 \<le> weigh_bytes i bs \<and> weigh_bytes i bs \<le> 255 * int (length bs) * (i + int (length bs))"
proof (induction bs arbitrary: i)
  case (Cons b bs)
  have b: "0 \<le> uint b" "uint b \<le> 255" using unsigned_less [of b, where ?'a = int] by auto
  have "uint b * i \<le> 255 * i" "0 \<le> uint b * i" using b Cons.prems by (simp_all add: mult_right_mono)
  moreover have "0 \<le> weigh_bytes (i + 1) bs" "weigh_bytes (i + 1) bs \<le> 255 * int (length bs) * (i + 1 + int (length bs))"
    using Cons.IH [of "i + 1"] Cons.prems by auto
  moreover have "255 * i + 255 * int (length bs) * (i + 1 + int (length bs)) \<le> 255 * (1 + int (length bs)) * (i + (1 + int (length bs)))"
    by (simp add: algebra_simps)
  ultimately show ?case by simp
qed simp

text \<open>A preimage of up to 32 bytes is one chunk.\<close>

lemma preimage_vars_short: "length p \<le> 32 \<Longrightarrow> preimage_vars p = setBytes p # replicate 7 0"
  by (auto simp: preimage_vars_def upt_rec numeral_eq_Suc setBytes_def)

lemma weight_of_short: "length p \<le> 32 \<Longrightarrow> weighted_sum 1 (preimage_vars p) = setBytes p"
  by (simp add: preimage_vars_short)

lemma chunk_beats_bytes:
  assumes "3 \<le> length p" and "length p \<le> 31" and "hd p \<noteq> 0"
  shows "weigh_bytes 1 p < setBytes p"
proof -
  obtain b bs where p: "p = b # bs" using assms(1) by (cases p) auto
  have "0 < uint b" using assms(3) by (simp add: p word_neq_0_conv word_less_def)
  then have "1 * 256 ^ length bs \<le> uint b * 256 ^ length bs" by (intro mult_right_mono) auto
  then have lower: "256 ^ length bs \<le> setBytes p" using setBytes_bounds [of bs] unfolding p setBytes_Cons by linarith
  have upper: "weigh_bytes 1 p \<le> 255 * int (length p) * (1 + int (length p))" using weigh_bytes_bounds [of 1 p] by simp
  have "255 * int (length p) * (1 + int (length p)) < 256 ^ length bs"
  proof (cases "length p = 3")
    case True
    then show ?thesis by (simp add: p)
  next
    case False
    then have three: "3 \<le> length bs" using assms(1) by (simp add: p)
    have "255 * int (length p) * (1 + int (length p)) \<le> 255 * 31 * 32" using assms(2) by (intro mult_mono) auto
    also have "\<dots> < 256 ^ 3" by simp
    also have "\<dots> \<le> 256 ^ length bs" using three by (intro power_increasing) auto
    finally show ?thesis .
  qed
  with lower upper show ?thesis by linarith
qed

subsection \<open>Hashes with a prefix\<close>

lemma hexToBigInt_prefixed: "hexToBigInt (''sha256:'' @ x) = 0"
  by (simp add: hexToBigInt_def hex_val_def setBytes_def Let_def)

lemma skipping_root_zero: "\<forall>l \<in> set ls. fst l = 0 \<Longrightarrow> skipping_root r d i ls 0 = 0"
  by (induction ls arbitrary: i) (auto simp: level_hash_def)

lemma skipping_root_zeros: "skipping_root r d i (zip (replicate n 0) xs) 0 = 0"
  by (rule skipping_root_zero) (auto dest: set_zip_leftD)

lemma satisfied_merkle_zero:
  assumes "gnark_laws r val api" and "mq_LeafHash req = ''sha256:'' @ leaf" and "mq_RootHash req = ''sha256:'' @ root"
    and "\<forall>p \<in> set (mq_Path req). \<exists>x. p = ''sha256:'' @ x" and "\<forall>i \<in> set (mq_PathIndex req). i = 0 \<or> i = 1"
    and "min (length (mq_Path req)) 32 \<le> length (mq_PathIndex req)"
  shows "satisfied api (merkle_assignment req)"
    and "merkle_assignment req = AMerkle \<lparr>mp_Leaf = 0, mp_Path = replicate 32 0,
      mp_PathIndex = map (\<lambda>i. if i < length (mq_Path req) then mq_PathIndex req ! i else 0) [0..<32],
      mp_Depth = int (length (mq_Path req)), mp_Root = 0\<rparr>"
proof -
  have r: "1000 < r" using gnark_range [OF assms(1)] by blast
  have zero: "hexToBigInt (mq_Path req ! i) = 0" if "i < length (mq_Path req)" for i
    using assms(4) that hexToBigInt_prefixed by (metis nth_mem)
  let ?idx = "map (\<lambda>i. if i < length (mq_Path req) then mq_PathIndex req ! i else 0) [0..<32]"
  have "map the (path_vars (map (\<lambda>p. Some (hexToBigInt p)) (mq_Path req)) (mq_PathIndex req)) = zip (replicate 32 0) ?idx"
    using assms(6) by (intro nth_equalityI) (auto simp: path_vars_def zero)
  then show eq: "merkle_assignment req = AMerkle \<lparr>mp_Leaf = 0, mp_Path = replicate 32 0, mp_PathIndex = ?idx,
      mp_Depth = int (length (mq_Path req)), mp_Root = 0\<rparr>"
    unfolding merkle_assignment_def Let_def assms(2,3) hexToBigInt_prefixed by simp
  have "mq_PathIndex req ! i = 0 \<or> mq_PathIndex req ! i = 1" if "i < 32" "i < length (mq_Path req)" for i
  proof -
    have "i < length (mq_PathIndex req)" using that assms(6) by linarith
    then show ?thesis using assms(5) nth_mem by blast
  qed
  then have bits: "\<forall>dir \<in> set ?idx. dir = 0 \<or> dir = 1" by fastforce
  have "val (api_const api i) = 0 \<or> val (api_const api i) = 1" if "i = 0 \<or> i = 1" for i
    using that r by (auto simp: gnark_simps(1) [OF assms(1)])
  then have "\<forall>dir \<in> set (map (api_const api) ?idx). val dir = 0 \<or> val dir = 1"
    using bits unfolding set_map [of "api_const api"] by blast
  then show "satisfied api (merkle_assignment req)"
    unfolding eq satisfied.simps by (subst MerkleProof_sat [OF assms(1)]) (simp_all add: gnark_simps(1) [OF assms(1)] skipping_root_zeros)
qed

subsection \<open>A backend for the witnesses\<close>

text \<open>
  A backend without secrets: a proof is the assignment itself, in bytes; it satisfies the laws. Assignments
  are written as a bit, whether they are satisfied, which is all its verifier asks.
\<close>

definition toy_groth :: "'a frontend_api \<Rightarrow> (ProofType, unit, assignment, unit, bool) groth16" where
  "toy_groth api = \<lparr>g_compile = (\<lambda>t. True), g_setup = Some, g_vk = (\<lambda>k. ()), g_write_vk = (\<lambda>v. Some []), g_read_vk = (\<lambda>b. Some ()),
     g_newWitness = Some, g_public = (\<lambda>w. Some ()), g_prove = (\<lambda>k w. if satisfied api w then Some True else None),
     g_write_proof = (\<lambda>p. [if p then 1 else 0]), g_read_proof = (\<lambda>b. Some (b = [1])), g_write_public = (\<lambda>q. []),
     g_read_public = (\<lambda>b. Some ()), g_verify = (\<lambda>p v q. p)\<rparr>"

lemma toy_groth_laws: "groth16_laws api (toy_groth api)"
  by (auto simp: groth16_laws_def toy_groth_def split: if_splits)

subsection \<open>Properties\<close>

lemma hash_preimage_service_facts:
  assumes "gnark_laws r val api" and "groth16_laws api g" and "service_inv g s" and "256 ^ 31 < r"
  shows "3 \<le> length p \<Longrightarrow> length p \<le> 31 \<Longrightarrow> hd p \<noteq> 0 \<Longrightarrow> svc_ProveHashPreimage g s p = (Err ProveFailed, s)"
    and "\<exists>proof. svc_ProveHashPreimage g s [b] = (Ok proof, cacheProof proof s) \<and> zk_Verify g (zs_verifier s) proof = Ok True"
proof -
  assume p: "3 \<le> length p" "length p \<le> 31" "hd p \<noteq> 0"
  have "(256 :: int) ^ length p \<le> 256 ^ 31" using p(2) by (intro power_increasing) auto
  then have small: "setBytes p < r" using setBytes_bounds [of p] assms(4) by linarith
  have less: "0 \<le> weigh_bytes 1 p" "weigh_bytes 1 p < setBytes p"
    using chunk_beats_bytes [OF p] weigh_bytes_bounds [of 1 p] by auto
  then have "setBytes p mod r \<noteq> weigh_bytes 1 p mod r" using small by simp
  then have "\<not> satisfied api (hash_assignment p)" using p(2) by (simp add: satisfied_hash [OF assms(1)] weight_of_short)
  then show "svc_ProveHashPreimage g s p = (Err ProveFailed, s)" using svc_ProveHashPreimage_cases [OF assms(2,3), of p] by simp
next
  have "weighted_sum 1 (preimage_vars [b]) = weigh_bytes 1 [b]" by (simp add: weight_of_short setBytes_def)
  then have "satisfied api (hash_assignment [b])" by (simp add: satisfied_hash [OF assms(1)])
  then show "\<exists>proof. svc_ProveHashPreimage g s [b] = (Ok proof, cacheProof proof s) \<and> zk_Verify g (zs_verifier s) proof = Ok True"
    using svc_ProveHashPreimage_cases [OF assms(2,3), of "[b]"] by simp
qed

text \<open>C31. The service refuses honest preimages. With a field of more than \<open>256 ^ 31\<close> elements (that of BN254 has), for
  every preimage of 3 to 31 bytes that does not start with a zero byte \<open>ProveHashPreimage\<close> fails, because the
  service weighs the bytes and the circuit weighs 32-byte chunks; a single byte works, and its proof
  verifies.\<close>

theorem hash_preimage_service:
  assumes "gnark_laws r val api" and "groth16_laws api g" and "service_inv g s" and "256 ^ 31 < r"
  shows "(3 \<le> length p \<longrightarrow> length p \<le> 31 \<longrightarrow> hd p \<noteq> 0 \<longrightarrow> (svc_ProveHashPreimage g s p = (Err ProveFailed, s))) \<and>
    (\<exists>proof. svc_ProveHashPreimage g s [b] = (Ok proof, cacheProof proof s) \<and> zk_Verify g (zs_verifier s) proof = Ok True)"
  by (intro conjI impI) (use hash_preimage_service_facts [OF assms] in blast)+

theorem hash_preimage_service_witness:
  "let g = toy_groth (residue_api (256 ^ 31 + 1)) in
    fst (svc_ProveHashPreimage g (Initialize g NewService) (bytes_of ''secret'')) = Err ProveFailed"
proof -
  let ?api = "residue_api (256 ^ 31 + 1)"
  have laws: "gnark_laws (256 ^ 31 + 1) (\<lambda>a. a mod (256 ^ 31 + 1)) ?api" by (rule residue_api_laws) simp_all
  have "3 \<le> length (bytes_of ''secret'')" "length (bytes_of ''secret'') \<le> 31" "hd (bytes_of ''secret'') \<noteq> 0"
    by (simp_all add: bytes_of_def byte_of_def)
  with hash_preimage_service [OF laws toy_groth_laws Initialize_inv [OF toy_groth_laws]]
  show ?thesis by (simp add: Let_def)
qed

text \<open>Inclusion proofs for the program's own hashes say nothing. The hash helpers write \<open>sha256:\<close> in front of
  the digits; \<open>hexToBigInt\<close> ignores the decoding error and reads such a text as zero. So for leaf, root and
  path in that form the service makes one and the same proof, that zero is in the tree of zero, whatever
  the hashes are, and it verifies.\<close>

theorem prefixed_hashes_prove_nothing:
  assumes "gnark_laws r val api" and "groth16_laws api g" and "service_inv g s"
    and "\<forall>i \<in> set idx. i = 0 \<or> i = 1" and "min n 32 \<le> length idx"
  shows "\<exists>proof. zk_Verify g (zs_verifier s) proof = Ok True \<and>
    (\<forall>leaf root path. length path = n \<longrightarrow>
      ProveMerkleInclusion g s \<lparr>mq_LeafHash = ''sha256:'' @ leaf, mq_Path = map (\<lambda>p. ''sha256:'' @ p) path,
        mq_PathIndex = idx, mq_RootHash = ''sha256:'' @ root\<rparr> = (Ok proof, cacheProof proof s))"
proof -
  let ?req = "\<lambda>leaf root path. \<lparr>mq_LeafHash = ''sha256:'' @ leaf, mq_Path = map (\<lambda>p. ''sha256:'' @ p) path,
    mq_PathIndex = idx, mq_RootHash = ''sha256:'' @ root\<rparr>"
  let ?a = "AMerkle \<lparr>mp_Leaf = 0, mp_Path = replicate 32 0, mp_PathIndex = map (\<lambda>i. if i < n then idx ! i else 0) [0..<32],
    mp_Depth = int n, mp_Root = 0\<rparr>"
  have zero: "satisfied api (merkle_assignment (?req leaf root path)) \<and> merkle_assignment (?req leaf root path) = ?a"
    if "length path = n" for leaf root path
    using satisfied_merkle_zero [OF assms(1), of "?req leaf root path" leaf root] assms(4,5) that by auto
  let ?t = ProofTypeMerkleProof
  have same: "ProveMerkleInclusion g s (?req leaf root path) =
      finish_proof (with_setup g ?t (zs_prover s) (\<lambda>k. prove_with False g ?t k ?a)) s" if "length path = n" for leaf root path
  proof -
    let ?path = "map (\<lambda>p. Some (hexToBigInt p)) (mq_Path (?req leaf root path))"
    have "None \<notin> set (path_vars ?path idx)" using assms(5) that by (auto simp: path_vars_def)
    then show ?thesis using zero [OF that, of leaf root]
      by (simp add: ProveMerkleInclusion_def ProveMerkleProof_def merkle_assignment_def Let_def)
  qed
  have "satisfied api ?a" using zero [of "replicate n ''''" "''''" "''''"] by (metis length_replicate)
  then obtain pr where "finish_proof (with_setup g ?t (zs_prover s) (\<lambda>k. prove_with False g ?t k ?a)) s = (Ok pr, cacheProof pr s)"
    "zk_Verify g (zs_verifier s) pr = Ok True"
    using finish_prove [OF assms(2,3), of ?a _ False] by (auto simp: provable_types_def)
  then show ?thesis using same by (intro exI [of _ pr]) simp
qed

theorem prefixed_hashes_prove_nothing_witness:
  "\<exists>proof. let g = toy_groth (residue_api 1009); s = Initialize g NewService in
    ProveMerkleInclusion g s \<lparr>mq_LeafHash = ''sha256:aa'', mq_Path = [''sha256:bb''], mq_PathIndex = [1], mq_RootHash = ''sha256:cc''\<rparr>
      = (Ok proof, cacheProof proof s)
    \<and> ProveMerkleInclusion g s \<lparr>mq_LeafHash = ''sha256:01'', mq_Path = [''sha256:02''], mq_PathIndex = [1], mq_RootHash = ''sha256:03''\<rparr>
      = (Ok proof, cacheProof proof s)"
proof -
  let ?g = "toy_groth (residue_api 1009)"
  let ?s = "Initialize ?g NewService"
  have idx: "\<forall>i \<in> set [1 :: int]. i = 0 \<or> i = 1" "min 1 32 \<le> length [1 :: int]" by simp_all
  have laws: "gnark_laws 1009 (\<lambda>a. a mod 1009) (residue_api 1009)" by (rule residue_api_laws) simp_all
  obtain pr where p: "\<forall>leaf root path. length path = 1 \<longrightarrow>
      ProveMerkleInclusion ?g ?s \<lparr>mq_LeafHash = ''sha256:'' @ leaf, mq_Path = map (\<lambda>p. ''sha256:'' @ p) path,
        mq_PathIndex = [1], mq_RootHash = ''sha256:'' @ root\<rparr> = (Ok pr, cacheProof pr ?s)"
    using prefixed_hashes_prove_nothing [OF laws toy_groth_laws Initialize_inv [OF toy_groth_laws] idx] by blast
  have two: "ProveMerkleInclusion ?g ?s \<lparr>mq_LeafHash = ''sha256:'' @ ''aa'', mq_Path = map (\<lambda>p. ''sha256:'' @ p) [''bb''],
        mq_PathIndex = [1], mq_RootHash = ''sha256:'' @ ''cc''\<rparr> = (Ok pr, cacheProof pr ?s)"
    "ProveMerkleInclusion ?g ?s \<lparr>mq_LeafHash = ''sha256:'' @ ''01'', mq_Path = map (\<lambda>p. ''sha256:'' @ p) [''02''],
        mq_PathIndex = [1], mq_RootHash = ''sha256:'' @ ''03''\<rparr> = (Ok pr, cacheProof pr ?s)"
    using p by (metis One_nat_def length_Cons list.size(3))+
  show ?thesis unfolding Let_def using two by (intro exI [of _ pr]) simp
qed

lemma cached_proof_verifies:
  assumes "service_inv g s" and "zk_Verify g (zs_verifier s) pr = Ok True"
  shows "VerifyProofByHash g now (cacheProof pr s) (pf_ProofHash pr) = Ok (svc_VerifyProof g now (cacheProof pr s) pr)
    \<and> vr_Valid (svc_VerifyProof g now (cacheProof pr s) pr) \<and> service_inv g (cacheProof pr s)"
proof -
  have "zs_verifier (cacheProof pr s) = zs_verifier s" "zs_cache (cacheProof pr s) (pf_ProofHash pr) = Some pr"
    by (simp_all add: cacheProof_def)
  then show ?thesis using assms service_inv_cache [OF assms(1), of pr]
    by (simp add: VerifyProofByHash_def svc_VerifyProof_def VerifyAndReport_def Let_def)
qed

text \<open>C32. Every proof the initialised service returns is valid: its own verifier accepts it, it is found in the
  cache under its hash, and the keys of prover and verifier stay in step. A request that cannot be proved
  leaves the service as it was.\<close>

theorem returned_proofs_verify:
  assumes "gnark_laws r val api" and "groth16_laws api g" and "service_inv g s"
    and "(res, s') \<in> {svc_ProveHashPreimage g s preimage, svc_ProveContentOwnership g s owner,
      ProveFingerprintMatch g conv s finger, ProveMerkleInclusion g s merkle}"
  shows "case res of
      Ok pr \<Rightarrow> VerifyProofByHash g now s' (pf_ProofHash pr) = Ok (svc_VerifyProof g now s' pr)
        \<and> vr_Valid (svc_VerifyProof g now s' pr) \<and> service_inv g s'
    | Err e \<Rightarrow> e = ProveFailed \<and> s' = s
    | Panic \<Rightarrow> length (mq_PathIndex merkle) < min (length (mq_Path merkle)) 32"
proof -
  have good: "case res of Ok pr \<Rightarrow> VerifyProofByHash g now s' (pf_ProofHash pr) = Ok (svc_VerifyProof g now s' pr)
        \<and> vr_Valid (svc_VerifyProof g now s' pr) \<and> service_inv g s'
      | Err e \<Rightarrow> e = ProveFailed \<and> s' = s | Panic \<Rightarrow> False"
    if "if satisfied api a then \<exists>pr. (res, s') = (Ok pr, cacheProof pr s) \<and> zk_Verify g (zs_verifier s) pr = Ok True
      else (res, s') = (Err ProveFailed, s)" for a
    using that cached_proof_verifies [OF assms(3)] by (auto split: if_splits)
  note cases = svc_ProveHashPreimage_cases [OF assms(2,3), of preimage] svc_ProveContentOwnership_cases [OF assms(2,3), of owner]
    ProveFingerprintMatch_cases [OF assms(2,3), of conv finger] ProveMerkleInclusion_cases [OF assms(2,3), of merkle]
  consider "(res, s') = svc_ProveHashPreimage g s preimage" | "(res, s') = svc_ProveContentOwnership g s owner"
    | "(res, s') = ProveFingerprintMatch g conv s finger" | "(res, s') = ProveMerkleInclusion g s merkle"
    using assms(4) by blast
  then show ?thesis
  proof cases
    case 1
    show ?thesis using good [OF cases(1) [folded 1]] by (cases res) auto
  next
    case 2
    show ?thesis using good [OF cases(2) [folded 2]] by (cases res) auto
  next
    case 3
    show ?thesis using good [OF cases(3) [folded 3]] by (cases res) auto
  next
    case 4
    show ?thesis
    proof (cases "min (length (mq_Path merkle)) 32 \<le> length (mq_PathIndex merkle)")
      case True
      show ?thesis using good [OF cases(4) [OF True, folded 4]] by (cases res) auto
    next
      case False
      then have less: "length (mq_PathIndex merkle) < min (length (mq_Path merkle)) 32" by linarith
      have "res = Panic" using 4 ProveMerkleInclusion_panics [OF assms(3) less] by (metis fst_conv)
      with less show ?thesis by (simp only: outcome.case)
    qed
  qed
qed

theorem returned_proofs_verify_witness:
  "let g = toy_groth (residue_api 1009); (res, s') = svc_ProveHashPreimage g (Initialize g NewService) [] in
    case res of Ok pr \<Rightarrow> vr_Valid (svc_VerifyProof g 7 s' pr) | Err e \<Rightarrow> e = ProveFailed | Panic \<Rightarrow> False"
proof -
  let ?g = "toy_groth (residue_api 1009)"
  obtain res s' where r: "svc_ProveHashPreimage ?g (Initialize ?g NewService) [] = (res, s')" by fastforce
  have laws: "gnark_laws 1009 (\<lambda>a. a mod 1009) (residue_api 1009)" by (rule residue_api_laws) simp_all
  have "case res of Ok pr \<Rightarrow> VerifyProofByHash ?g 7 s' (pf_ProofHash pr) = Ok (svc_VerifyProof ?g 7 s' pr)
        \<and> vr_Valid (svc_VerifyProof ?g 7 s' pr) \<and> service_inv ?g s'
      | Err e \<Rightarrow> e = ProveFailed \<and> s' = Initialize ?g NewService
      | Panic \<Rightarrow> length (mq_PathIndex \<lparr>mq_LeafHash = '''', mq_Path = [], mq_PathIndex = [], mq_RootHash = ''''\<rparr>)
          < min (length (mq_Path \<lparr>mq_LeafHash = '''', mq_Path = [], mq_PathIndex = [], mq_RootHash = ''''\<rparr>)) 32"
    by (rule returned_proofs_verify [OF laws toy_groth_laws Initialize_inv [OF toy_groth_laws], where preimage = "[]"]) (simp add: r)
  then show ?thesis by (simp add: r Let_def split: outcome.splits)
qed

text \<open>Batch verification does not depend on the schedule. Whatever order the goroutines finish in, the answer
  for each proof is whether it verifies on its own, and an error is reported exactly when some proof had
  one; which error it is is that of the first of them to finish.\<close>

theorem BatchVerify_schedule:
  assumes "mset order = mset [0..<length proofs]"
  shows "fst (BatchVerify g v proofs order) = map (\<lambda>p. zk_Verify g v p = Ok True) proofs"
    and "snd (BatchVerify g v proofs order) =
      (case List.find (\<lambda>i. \<exists>e. zk_Verify g v (proofs ! i) = Err e) order of
         None \<Rightarrow> None | Some i \<Rightarrow> (case zk_Verify g v (proofs ! i) of Err e \<Rightarrow> Some e | _ \<Rightarrow> None))"
proof -
  have noPanic: "zk_Verify g v p \<noteq> Panic" for p by (auto simp: zk_Verify_def split: option.splits)
  have run: "i < length rs \<Longrightarrow> distinct xs \<Longrightarrow> fst (foldl (batch_step g v proofs) (rs, e) xs) ! i =
      (if i \<in> set xs \<and> is_Ok (zk_Verify g v (proofs ! i)) then zk_Verify g v (proofs ! i) = Ok True else rs ! i)" for i rs e xs
  proof (induction xs arbitrary: rs e)
    case (Cons x xs)
    show ?case
    proof (cases "zk_Verify g v (proofs ! x)")
      case (Ok b)
      then have step: "batch_step g v proofs (rs, e) x = (rs[x := b], e)" by (simp add: batch_step_def)
      have "i < length (rs[x := b])" "distinct xs" using Cons.prems by auto
      note IH = Cons.IH [OF this, of e]
      show ?thesis unfolding foldl_Cons step IH using Cons.prems Ok by (cases "i = x") auto
    next
      case (Err er)
      then have step: "batch_step g v proofs (rs, e) x = (rs, if e = None then Some er else e)" by (simp add: batch_step_def)
      have "distinct xs" using Cons.prems by auto
      note IH = Cons.IH [OF Cons.prems(1) this, of "if e = None then Some er else e"]
      show ?thesis unfolding foldl_Cons step IH using Err by (cases "i = x") auto
    qed (use noPanic in blast)
  qed simp
  have len: "length (fst (foldl (batch_step g v proofs) st xs)) = length (fst st)" for st xs
    by (induction xs arbitrary: st) (auto simp: batch_step_def split: outcome.split)
  have "distinct order" using mset_eq_imp_distinct_iff [OF assms] by (simp only: distinct_upt)
  moreover have "set order = {..<length proofs}" using mset_eq_setD [OF assms] by (simp only: set_upt lessThan_atLeast0)
  ultimately have order: "distinct order" "set order = {..<length proofs}" by blast+
  show "fst (BatchVerify g v proofs order) = map (\<lambda>p. zk_Verify g v p = Ok True) proofs"
  proof (intro nth_equalityI)
    show l: "length (fst (BatchVerify g v proofs order)) = length (map (\<lambda>p. zk_Verify g v p = Ok True) proofs)"
      by (simp add: BatchVerify_def len)
    fix i
    assume "i < length (fst (BatchVerify g v proofs order))"
    then have i: "i < length proofs" by (simp add: BatchVerify_def len)
    then have "fst (BatchVerify g v proofs order) ! i =
        (if is_Ok (zk_Verify g v (proofs ! i)) then zk_Verify g v (proofs ! i) = Ok True else False)"
      unfolding BatchVerify_def using run [of i "replicate (length proofs) False" order None] order by simp
    then show "fst (BatchVerify g v proofs order) ! i = map (\<lambda>p. zk_Verify g v p = Ok True) proofs ! i"
      using i by (cases "zk_Verify g v (proofs ! i)") simp_all
  qed
  have err: "snd (foldl (batch_step g v proofs) (rs, e) xs) = (if e \<noteq> None then e else
      case List.find (\<lambda>i. \<exists>e. zk_Verify g v (proofs ! i) = Err e) xs of
        None \<Rightarrow> None | Some i \<Rightarrow> (case zk_Verify g v (proofs ! i) of Err e \<Rightarrow> Some e | _ \<Rightarrow> None))" for rs e xs
  proof (induction xs arbitrary: rs e)
    case (Cons x xs)
    have "batch_step g v proofs (rs, e) x = (fst (batch_step g v proofs (rs, e) x),
        if e \<noteq> None then e else (case zk_Verify g v (proofs ! x) of Err e \<Rightarrow> Some e | _ \<Rightarrow> None))"
      by (cases "zk_Verify g v (proofs ! x)") (auto simp: batch_step_def)
    then obtain rs' where "batch_step g v proofs (rs, e) x =
        (rs', if e \<noteq> None then e else (case zk_Verify g v (proofs ! x) of Err e \<Rightarrow> Some e | _ \<Rightarrow> None))" by blast
    then show ?case unfolding foldl_Cons using Cons
      by (cases "zk_Verify g v (proofs ! x)") simp_all
  qed simp
  show "snd (BatchVerify g v proofs order) =
      (case List.find (\<lambda>i. \<exists>e. zk_Verify g v (proofs ! i) = Err e) order of
         None \<Rightarrow> None | Some i \<Rightarrow> (case zk_Verify g v (proofs ! i) of Err e \<Rightarrow> Some e | _ \<Rightarrow> None))"
    unfolding BatchVerify_def err by simp
qed

theorem BatchVerify_schedule_witness:
  "fst (BatchVerify (toy_groth (residue_api 1009)) [''t'' \<mapsto> ()]
      [\<lparr>pf_Type = ''t'', pf_ProofData = [1], pf_PublicData = [], pf_ProofHash = ''''\<rparr>,
       \<lparr>pf_Type = ''u'', pf_ProofData = [1], pf_PublicData = [], pf_ProofHash = ''''\<rparr>] [1, 0]) = [True, False]"
  using BatchVerify_schedule(1) [of "[1, 0]" "[\<lparr>pf_Type = ''t'', pf_ProofData = [1], pf_PublicData = [], pf_ProofHash = ''''\<rparr>,
       \<lparr>pf_Type = ''u'', pf_ProofData = [1], pf_PublicData = [], pf_ProofHash = ''''\<rparr>]" "toy_groth (residue_api 1009)" "[''t'' \<mapsto> ()]"]
  by (simp add: zk_Verify_def toy_groth_def upt_rec)

text \<open>The caller's public inputs make no difference.\<close>

lemma VerifyWithPublicInputs_ignores: "VerifyWithPublicInputs g v pr inputs = zk_Verify g v pr"
  by (simp add: VerifyWithPublicInputs_def zk_Verify_def)

text \<open>Different proofs can have the same hash, and then only the later one stays in the cache.\<close>

lemma computeProofHash_collides: "computeProofHash [2, 0] = computeProofHash [0, 1]"
  by (simp add: computeProofHash_def)

end
