(* ===== verification/Provider.thy ===== *)
theory Provider
  imports Gateway "HOL-Library.Multiset"
begin

text \<open>
  The registry of model providers: \<open>server/internal/gateway/provider.go\<close>.

  A value of the Go interface \<open>LLMProvider\<close> is a record of its methods; the four built-in providers are
  four such records. \<open>wire\<close> holds what they take from outside: \<open>json.Marshal\<close> (\<open>None\<close>: an error, as for a
  NaN), the URL check of \<open>http.NewRequest\<close>, and \<open>json.Unmarshal\<close> into the three response types. A
  \<open>map[string]interface{}\<close> is a map of \<open>json\<close> values. Header names are as the code writes them.
\<close>

subsection \<open>Values from outside\<close>

datatype json =
    JStr string
  | JInt int
  | JFloat float64
  | JBool bool
  | JArr "json list"
  | JObj "string \<Rightarrow> json option"

record claude_block =
  cb_Type :: string
  cb_Text :: string

record claude_response =
  cl_ID :: string
  cl_Model :: string
  cl_StopReason :: string
  cl_Content :: "claude_block list"
  cl_InputTokens :: int
  cl_OutputTokens :: int

record ollama_response =
  ol_Model :: string
  ol_Role :: string
  ol_Content :: string
  ol_Done :: bool
  ol_TotalDuration :: int
  ol_PromptEvalCount :: int
  ol_EvalCount :: int

record wire =
  wi_marshal :: "json \<Rightarrow> string option"
  wi_marshal_req :: "ChatCompletionRequest \<Rightarrow> string option"
  wi_valid_url :: "string \<Rightarrow> bool"
  wi_chat :: "string \<Rightarrow> ChatCompletionResponse option"
  wi_claude :: "string \<Rightarrow> claude_response option"
  wi_ollama :: "string \<Rightarrow> ollama_response option"

record http_request =
  hr_Method :: string
  hr_URL :: string
  hr_Header :: "string \<rightharpoonup> string"
  hr_Body :: string

text \<open>A response body is \<open>None\<close> when reading it fails.\<close>

type_synonym http_body = "string option"

subsection \<open>The interface and the registry\<close>

record LLMProvider =
  lp_Name :: string
  lp_Match :: "string \<Rightarrow> bool"
  lp_Priority :: int
  lp_BuildRequest :: "wire \<Rightarrow> ChatCompletionRequest \<Rightarrow> TraceContext \<Rightarrow> (gateway_error, http_request) outcome"
  lp_ParseResponse :: "wire \<Rightarrow> http_body \<Rightarrow> (gateway_error, ChatCompletionResponse) outcome"
  lp_SupportsStreaming :: bool

type_synonym ProviderRegistry = "LLMProvider list"

definition NewProviderRegistry :: ProviderRegistry where
  "NewProviderRegistry = []"

text \<open>The loop of \<open>Register\<close>, from index \<open>i\<close> down to \<open>1\<close>; it swaps and does not stop early.\<close>

primrec bubble :: "nat \<Rightarrow> ProviderRegistry \<Rightarrow> ProviderRegistry" where
  "bubble 0 r = r"
| "bubble (Suc i) r =
     bubble i (if lp_Priority (r ! Suc i) < lp_Priority (r ! i) then r[Suc i := r ! i, i := r ! Suc i] else r)"

definition Register :: "LLMProvider \<Rightarrow> ProviderRegistry \<Rightarrow> ProviderRegistry" where
  "Register provider r = (let r = r @ [provider] in bubble (length r - 1) r)"

fun GetProvider :: "ProviderRegistry \<Rightarrow> string \<Rightarrow> LLMProvider option" where
  "GetProvider [] model = None"
| "GetProvider (p # ps) model = (if lp_Match p model then Some p else GetProvider ps model)"

definition ListProviders :: "ProviderRegistry \<Rightarrow> string list" where
  "ListProviders r = map lp_Name r"

subsection \<open>Helpers\<close>

definition trimSuffix :: "string \<Rightarrow> string \<Rightarrow> string" where
  "trimSuffix s suffix =
     (if suffix \<noteq> [] \<and> length suffix \<le> length s \<and> drop (length s - length suffix) s = suffix
      then take (length s - length suffix) s else s)"

text \<open>\<open>x > 0\<close> for a \<open>float64\<close> given by its bits: no sign, not zero, not a NaN.\<close>

definition float_positive :: "float64 \<Rightarrow> bool" where
  "float_positive x \<longleftrightarrow> 0 < x \<and> x \<le> 0x7FF0000000000000"

definition message_json :: "ChatMessage \<Rightarrow> json" where
  "message_json msg = JObj [''role'' \<mapsto> JStr (Role msg), ''content'' \<mapsto> JStr (Content msg)]"

fun claude_loop :: "ChatMessage list \<Rightarrow> json list \<Rightarrow> string \<Rightarrow> json list \<times> string" where
  "claude_loop [] messages systemPrompt = (messages, systemPrompt)"
| "claude_loop (msg # msgs) messages systemPrompt =
     (if Role msg = ''system'' then claude_loop msgs messages (Content msg)
      else claude_loop msgs (messages @ [message_json msg]) systemPrompt)"

definition convertToClaudeRequest :: "ChatCompletionRequest \<Rightarrow> string \<Rightarrow> json option" where
  "convertToClaudeRequest req =
     (let (messages, systemPrompt) = claude_loop (Messages req) [] '''';
          claudeReq = [''model'' \<mapsto> JStr (Model req), ''messages'' \<mapsto> JArr messages, ''max_tokens'' \<mapsto> JInt (MaxTokens req)];
          claudeReq = (if systemPrompt \<noteq> '''' then claudeReq(''system'' \<mapsto> JStr systemPrompt) else claudeReq)
      in if float_positive (Temperature req) then claudeReq(''temperature'' \<mapsto> JFloat (Temperature req)) else claudeReq)"

definition claude_text :: "claude_block list \<Rightarrow> string" where
  "claude_text blocks = foldl (\<lambda>content c. if cb_Type c = ''text'' then content @ cb_Text c else content) '''' blocks"

definition convertFromClaudeResponse :: "wire \<Rightarrow> string \<Rightarrow> (gateway_error, ChatCompletionResponse) outcome" where
  "convertFromClaudeResponse w body =
     (case wi_claude w body of
        None \<Rightarrow> Err BadResponse
      | Some c \<Rightarrow>
          Ok \<lparr>cr_ID = cl_ID c, cr_Object = ''chat.completion'', cr_Created = 0, cr_Model = cl_Model c,
              cr_Choices = [\<lparr>ch_Index = 0, ch_Message = \<lparr>Role = ''assistant'', Content = claude_text (cl_Content c)\<rparr>,
                ch_FinishReason = cl_StopReason c\<rparr>],
              cr_Usage = \<lparr>PromptTokens = cl_InputTokens c, CompletionTokens = cl_OutputTokens c,
                TotalTokens = wrap64 (cl_InputTokens c + cl_OutputTokens c)\<rparr>\<rparr>)"

definition convertToOllamaRequest :: "ChatCompletionRequest \<Rightarrow> string \<Rightarrow> json option" where
  "convertToOllamaRequest req =
     [''model'' \<mapsto> JStr (Model req), ''messages'' \<mapsto> JArr (map message_json (Messages req)), ''stream'' \<mapsto> JBool False,
      ''options'' \<mapsto> JObj [''temperature'' \<mapsto> JFloat (Temperature req), ''top_p'' \<mapsto> JFloat (TopP req)]]"

definition convertFromOllamaResponse :: "wire \<Rightarrow> string \<Rightarrow> (gateway_error, ChatCompletionResponse) outcome" where
  "convertFromOllamaResponse w body =
     (case wi_ollama w body of
        None \<Rightarrow> Err BadResponse
      | Some r \<Rightarrow>
          let finishReason = (if \<not> ol_Done r then ''length'' else ''stop'')
          in Ok \<lparr>cr_ID = ''ollama-'' @ itoa (ol_TotalDuration r), cr_Object = ''chat.completion'', cr_Created = 0, cr_Model = ol_Model r,
              cr_Choices = [\<lparr>ch_Index = 0, ch_Message = \<lparr>Role = ''assistant'', Content = ol_Content r\<rparr>,
                ch_FinishReason = finishReason\<rparr>],
              cr_Usage = \<lparr>PromptTokens = ol_PromptEvalCount r, CompletionTokens = ol_EvalCount r,
                TotalTokens = wrap64 (ol_PromptEvalCount r + ol_EvalCount r)\<rparr>\<rparr>)"

text \<open>What the four \<open>BuildRequest\<close> methods share: the body, the request and its headers.\<close>

definition new_request :: "wire \<Rightarrow> string \<Rightarrow> string option \<Rightarrow> (string \<rightharpoonup> string) \<Rightarrow> (gateway_error, http_request) outcome" where
  "new_request w url body headers =
     (case body of
        None \<Rightarrow> Err MarshalFailed
      | Some bytes \<Rightarrow>
          if \<not> wi_valid_url w url then Err BadRequest
          else Ok \<lparr>hr_Method = ''POST'', hr_URL = url, hr_Header = headers, hr_Body = bytes\<rparr>)"

definition openai_ParseResponse :: "wire \<Rightarrow> http_body \<Rightarrow> (gateway_error, ChatCompletionResponse) outcome" where
  "openai_ParseResponse w resp =
     (case resp of
        None \<Rightarrow> Err ReadFailed
      | Some body \<Rightarrow> (case wi_chat w body of None \<Rightarrow> Err BadResponse | Some chatResp \<Rightarrow> Ok chatResp))"

definition or_default :: "string \<Rightarrow> string \<Rightarrow> string" where
  "or_default s d = (if s = '''' then d else s)"

subsection \<open>The built-in providers\<close>

definition openai_Match :: "string \<Rightarrow> bool" where
  "openai_Match model = list_ex (hasPrefix (toLower model)) [''gpt-'', ''o1-'', ''text-'', ''davinci'', ''curie'', ''babbage'', ''ada'']"

definition openai_BuildRequest :: "string \<Rightarrow> string \<Rightarrow> wire \<Rightarrow> ChatCompletionRequest \<Rightarrow> TraceContext \<Rightarrow> (gateway_error, http_request) outcome" where
  "openai_BuildRequest baseURL apiKey w req ctx =
     new_request w (trimSuffix (base_url ctx baseURL) ''/'' @ ''/chat/completions'') (wi_marshal_req w req)
       (json_header(''Authorization'' \<mapsto> ''Bearer '' @ or_default (tx_UpstreamAPIKey ctx) apiKey))"

definition NewOpenAIProvider :: "string \<Rightarrow> string \<Rightarrow> LLMProvider" where
  "NewOpenAIProvider baseURL apiKey =
     \<lparr>lp_Name = ''openai'', lp_Match = openai_Match, lp_Priority = 100,
      lp_BuildRequest = openai_BuildRequest (or_default baseURL ''https://api.openai.com/v1'') apiKey,
      lp_ParseResponse = openai_ParseResponse, lp_SupportsStreaming = True\<rparr>"

definition claude_Match :: "string \<Rightarrow> bool" where
  "claude_Match model = containsStr (toLower model) ''claude''"

definition claude_BuildRequest :: "string \<Rightarrow> wire \<Rightarrow> ChatCompletionRequest \<Rightarrow> TraceContext \<Rightarrow> (gateway_error, http_request) outcome" where
  "claude_BuildRequest baseURL w req ctx =
     new_request w (trimSuffix (base_url ctx baseURL) ''/'' @ ''/messages'') (wi_marshal w (JObj (convertToClaudeRequest req)))
       (json_header(''x-api-key'' \<mapsto> tx_UpstreamAPIKey ctx, ''anthropic-version'' \<mapsto> ''2023-06-01''))"

definition claude_ParseResponse :: "wire \<Rightarrow> http_body \<Rightarrow> (gateway_error, ChatCompletionResponse) outcome" where
  "claude_ParseResponse w resp = (case resp of None \<Rightarrow> Err ReadFailed | Some body \<Rightarrow> convertFromClaudeResponse w body)"

definition NewClaudeProvider :: "string \<Rightarrow> LLMProvider" where
  "NewClaudeProvider baseURL =
     \<lparr>lp_Name = ''anthropic'', lp_Match = claude_Match, lp_Priority = 10,
      lp_BuildRequest = claude_BuildRequest (or_default baseURL ''https://api.anthropic.com/v1''),
      lp_ParseResponse = claude_ParseResponse, lp_SupportsStreaming = True\<rparr>"

definition deepseek_Match :: "string \<Rightarrow> bool" where
  "deepseek_Match model = containsStr (toLower model) ''deepseek''"

definition deepseek_BuildRequest :: "string \<Rightarrow> wire \<Rightarrow> ChatCompletionRequest \<Rightarrow> TraceContext \<Rightarrow> (gateway_error, http_request) outcome" where
  "deepseek_BuildRequest baseURL w req ctx =
     new_request w (trimSuffix (base_url ctx baseURL) ''/'' @ ''/chat/completions'') (wi_marshal_req w req)
       (json_header(''Authorization'' \<mapsto> ''Bearer '' @ tx_UpstreamAPIKey ctx))"

definition deepseek_ParseResponse :: "wire \<Rightarrow> http_body \<Rightarrow> (gateway_error, ChatCompletionResponse) outcome" where
  "deepseek_ParseResponse w resp =
     (case resp of
        None \<Rightarrow> Err ReadFailed
      | Some body \<Rightarrow> (case wi_chat w body of None \<Rightarrow> Err BadResponse | Some chatResp \<Rightarrow> Ok chatResp))"

definition NewDeepSeekProvider :: "string \<Rightarrow> LLMProvider" where
  "NewDeepSeekProvider baseURL =
     \<lparr>lp_Name = ''deepseek'', lp_Match = deepseek_Match, lp_Priority = 20,
      lp_BuildRequest = deepseek_BuildRequest (or_default baseURL ''https://api.deepseek.com/v1''),
      lp_ParseResponse = deepseek_ParseResponse, lp_SupportsStreaming = True\<rparr>"

definition ollama_Match :: "string \<Rightarrow> bool" where
  "ollama_Match = contains_any [''llama'', ''mistral'', ''qwen'', ''codellama'', ''phi'', ''gemma'', ''mixtral'']"

definition ollama_BuildRequest :: "string \<Rightarrow> wire \<Rightarrow> ChatCompletionRequest \<Rightarrow> TraceContext \<Rightarrow> (gateway_error, http_request) outcome" where
  "ollama_BuildRequest baseURL w req ctx =
     new_request w (trimSuffix baseURL ''/'' @ ''/api/chat'') (wi_marshal w (JObj (convertToOllamaRequest req))) json_header"

definition ollama_ParseResponse :: "wire \<Rightarrow> http_body \<Rightarrow> (gateway_error, ChatCompletionResponse) outcome" where
  "ollama_ParseResponse w resp = (case resp of None \<Rightarrow> Err ReadFailed | Some body \<Rightarrow> convertFromOllamaResponse w body)"

definition NewOllamaProvider :: "string \<Rightarrow> LLMProvider" where
  "NewOllamaProvider baseURL =
     \<lparr>lp_Name = ''ollama'', lp_Match = ollama_Match, lp_Priority = 15,
      lp_BuildRequest = ollama_BuildRequest (or_default baseURL ''http://localhost:11434''),
      lp_ParseResponse = ollama_ParseResponse, lp_SupportsStreaming = True\<rparr>"

definition DefaultRegistry :: "GatewayConfig \<Rightarrow> ProviderRegistry" where
  "DefaultRegistry cfg =
     Register (NewOpenAIProvider (OpenAI_BaseURL cfg) (OpenAI_APIKey cfg))
       (Register (NewDeepSeekProvider '''')
         (Register (NewOllamaProvider (Ollama_BaseURL cfg))
           (Register (NewClaudeProvider '''') NewProviderRegistry)))"

subsection \<open>The registry is a stable sort\<close>

lemma bubble_insert:
  "sorted (map lp_Priority us) \<Longrightarrow> bubble (length us) (us @ p # vs) =
     filter (\<lambda>q. lp_Priority q \<le> lp_Priority p) us @ p # filter (\<lambda>q. lp_Priority p < lp_Priority q) us @ vs"
proof (induction us arbitrary: p vs rule: rev_induct)
  case Nil
  then show ?case by simp
next
  case (snoc q us)
  have sorted: "sorted (map lp_Priority us)" and le: "\<forall>x \<in> set us. lp_Priority x \<le> lp_Priority q"
    using snoc.prems by (auto simp: sorted_append)
  have nth: "(us @ q # p # vs) ! length us = q" "(us @ q # p # vs) ! Suc (length us) = p"
    by (simp_all add: nth_append)
  have swap: "(us @ q # p # vs)[Suc (length us) := q, length us := p] = us @ p # q # vs"
    by (simp add: list_update_append)
  show ?case
  proof (cases "lp_Priority p < lp_Priority q")
    case True
    then have "bubble (length (us @ [q])) ((us @ [q]) @ p # vs) = bubble (length us) (us @ p # q # vs)"
      using nth swap by simp
    then show ?thesis using True snoc.IH [OF sorted, of p "q # vs"] by simp
  next
    case False
    then have "\<forall>x \<in> set us. lp_Priority x \<le> lp_Priority p" using le by fastforce
    then have keep: "filter (\<lambda>x. lp_Priority x \<le> lp_Priority p) us = us" "filter (\<lambda>x. lp_Priority p < lp_Priority x) us = []"
      by (auto simp: filter_empty_conv)
    have "filter (\<lambda>x. lp_Priority x \<le> lp_Priority q) us = us" "filter (\<lambda>x. lp_Priority q < lp_Priority x) us = []"
      using le by (auto simp: filter_empty_conv)
    then show ?thesis using False keep nth snoc.IH [OF sorted, of q "p # vs"] by simp
  qed
qed

lemma Register_insert:
  "sorted (map lp_Priority r) \<Longrightarrow> Register p r =
     filter (\<lambda>q. lp_Priority q \<le> lp_Priority p) r @ p # filter (\<lambda>q. lp_Priority p < lp_Priority q) r"
  using bubble_insert [of r p "[]"] by (simp add: Register_def)

lemma split_at_priority:
  "sorted (map lp_Priority r) \<Longrightarrow> filter (\<lambda>q. lp_Priority q \<le> k) r @ filter (\<lambda>q. k < lp_Priority q) r = r"
proof (induction r)
  case (Cons q r)
  then have "k < lp_Priority q \<Longrightarrow> filter (\<lambda>q. lp_Priority q \<le> k) r = []" by (auto simp: filter_empty_conv)
  with Cons show ?case by auto
qed simp

lemma Register_sort_key: "Register p (sort_key lp_Priority ps) = sort_key lp_Priority (ps @ [p])"
proof (rule sym, rule properties_for_sort_key)
  let ?s = "sort_key lp_Priority ps"
  have r: "Register p ?s = filter (\<lambda>q. lp_Priority q \<le> lp_Priority p) ?s @ p # filter (\<lambda>q. lp_Priority p < lp_Priority q) ?s"
    by (rule Register_insert) simp
  have split: "mset (filter (\<lambda>q. lp_Priority q \<le> k) xs) + mset (filter (\<lambda>q. k < lp_Priority q) xs) = mset xs" for k and xs :: "LLMProvider list"
    by (induction xs) auto
  then show "mset (Register p ?s) = mset (ps @ [p])" by (simp add: r)
  show "sorted (map lp_Priority (Register p ?s))"
    by (auto simp: r sorted_append filter_sort)
  show "filter (\<lambda>q. lp_Priority k = lp_Priority q) (Register p ?s) = filter (\<lambda>q. lp_Priority k = lp_Priority q) (ps @ [p])" for k
  proof -
    have st: "filter (\<lambda>q. lp_Priority k = lp_Priority q) ?s = filter (\<lambda>q. lp_Priority k = lp_Priority q) ps"
      using sort_key_stable [of lp_Priority "lp_Priority k" ps] by (simp add: eq_commute)
    let ?P = "\<lambda>q. lp_Priority k = lp_Priority q"
    let ?A = "filter (\<lambda>q. lp_Priority q \<le> lp_Priority p) ?s" and ?B = "filter (\<lambda>q. lp_Priority p < lp_Priority q) ?s"
    have "?A @ ?B = ?s" by (rule split_at_priority) simp
    then have AB: "filter ?P ?A @ filter ?P ?B = filter ?P ps" using st by (metis filter_append)
    show ?thesis
    proof (cases "?P p")
      case True
      then have "filter ?P ?B = []" by (auto simp: filter_empty_conv)
      then have "filter ?P ?A = filter ?P ps" using AB by simp
      then show ?thesis unfolding r using True \<open>filter ?P ?B = []\<close> by (simp del: filter_filter)
    next
      case False
      then show ?thesis unfolding r using AB by (simp del: filter_filter)
    qed
  qed
qed

definition registered :: "LLMProvider list \<Rightarrow> ProviderRegistry" where
  "registered ps = foldl (\<lambda>r p. Register p r) NewProviderRegistry ps"

lemma registered_sort_key: "registered ps = sort_key lp_Priority ps"
  by (induction ps rule: rev_induct) (simp_all add: registered_def NewProviderRegistry_def Register_sort_key [symmetric])

lemma GetProvider_append: "GetProvider (r @ s) m = (case GetProvider r m of None \<Rightarrow> GetProvider s m | Some p \<Rightarrow> Some p)"
  by (induction r) auto

lemma GetProvider_None: "GetProvider r m = None \<longleftrightarrow> (\<forall>p \<in> set r. \<not> lp_Match p m)"
  by (induction r) auto

lemma GetProvider_Some: "GetProvider r m = Some p \<Longrightarrow> p \<in> set r \<and> lp_Match p m"
  by (induction r) (auto split: if_splits)

lemma GetProvider_registered_snoc:
  "GetProvider (registered (ps @ [p])) m =
     (case GetProvider (registered ps) m of
        None \<Rightarrow> if lp_Match p m then Some p else None
      | Some q \<Rightarrow> if lp_Match p m \<and> lp_Priority p < lp_Priority q then Some p else Some q)"
proof -
  let ?r = "registered ps"
  let ?A = "filter (\<lambda>q. lp_Priority q \<le> lp_Priority p) ?r" and ?B = "filter (\<lambda>q. lp_Priority p < lp_Priority q) ?r"
  have sorted: "sorted (map lp_Priority ?r)" by (simp add: registered_sort_key)
  have "registered (ps @ [p]) = Register p ?r" by (simp add: registered_def)
  then have new: "registered (ps @ [p]) = ?A @ p # ?B" using Register_insert [OF sorted] by simp
  have old: "GetProvider ?r m = GetProvider (?A @ ?B) m" by (simp only: split_at_priority [OF sorted])
  show ?thesis
  proof (cases "GetProvider ?A m")
    case None
    then have "GetProvider ?r m = GetProvider ?B m" using old by (simp add: GetProvider_append)
    then show ?thesis using None new by (auto simp: GetProvider_append dest: GetProvider_Some split: option.splits)
  next
    case (Some q)
    then have "GetProvider ?r m = Some q" "\<not> lp_Priority p < lp_Priority q"
      using old GetProvider_Some [OF Some] by (auto simp: GetProvider_append)
    then show ?thesis using Some new by (simp add: GetProvider_append)
  qed
qed

subsection \<open>Contracts\<close>

text \<open>
  What the gateway relies on when it uses a registry: a request is a JSON POST whose body was marshalled for it,
  and the choice does not depend on the case of the model name.
\<close>

locale json_providers =
  fixes ps :: "LLMProvider list"
  assumes posts: "p \<in> set ps \<Longrightarrow> lp_BuildRequest p w req ctx = Ok r \<Longrightarrow>
      hr_Method r = ''POST'' \<and> hr_Header r ''Content-Type'' = Some ''application/json'' \<and> wi_valid_url w (hr_URL r)"
    and total_build: "p \<in> set ps \<Longrightarrow> lp_BuildRequest p w req ctx \<noteq> Panic"
    and case_blind: "p \<in> set ps \<Longrightarrow> lp_Match p (toLower m) = lp_Match p m"
begin

lemma in_registered: "GetProvider (registered ps) m = Some p \<Longrightarrow> p \<in> set ps"
  using GetProvider_Some [of "registered ps"] by (simp add: registered_sort_key)

lemma chosen_posts:
  "GetProvider (registered ps) m = Some p \<Longrightarrow> lp_BuildRequest p w req ctx = Ok r \<Longrightarrow>
     hr_Method r = ''POST'' \<and> hr_Header r ''Content-Type'' = Some ''application/json''"
  using posts in_registered by blast

lemma chosen_total: "GetProvider (registered ps) m = Some p \<Longrightarrow> lp_BuildRequest p w req ctx \<noteq> Panic"
  using total_build in_registered by blast

lemma chosen_case_blind: "GetProvider (registered ps) (toLower m) = GetProvider (registered ps) m"
proof -
  have "\<forall>p \<in> set r. lp_Match p (toLower m) = lp_Match p m \<Longrightarrow> GetProvider r (toLower m) = GetProvider r m" for r
    by (induction r) auto
  then show ?thesis using case_blind by (simp add: registered_sort_key)
qed

end

definition builtin_providers :: "GatewayConfig \<Rightarrow> LLMProvider list" where
  "builtin_providers cfg = [NewClaudeProvider '''', NewOllamaProvider (Ollama_BaseURL cfg), NewDeepSeekProvider '''',
     NewOpenAIProvider (OpenAI_BaseURL cfg) (OpenAI_APIKey cfg)]"

lemma DefaultRegistry_registered: "DefaultRegistry cfg = registered (builtin_providers cfg)"
  by (simp add: DefaultRegistry_def registered_def builtin_providers_def)

lemmas builtin_defs = NewClaudeProvider_def NewOllamaProvider_def NewDeepSeekProvider_def NewOpenAIProvider_def

lemma DefaultRegistry_order: "DefaultRegistry cfg = builtin_providers cfg"
  by (simp add: DefaultRegistry_def NewProviderRegistry_def builtin_providers_def Register_insert,
      simp add: builtin_defs)

lemma new_request_Ok:
  "new_request w url body headers = Ok r \<longleftrightarrow> (\<exists>bytes. body = Some bytes \<and> wi_valid_url w url
     \<and> r = \<lparr>hr_Method = ''POST'', hr_URL = url, hr_Header = headers, hr_Body = bytes\<rparr>)"
  by (auto simp: new_request_def split: option.splits)

lemma new_request_total [simp]: "new_request w url body headers \<noteq> Panic"
  by (simp add: new_request_def split: option.splits)

lemmas build_defs = openai_BuildRequest_def claude_BuildRequest_def deepseek_BuildRequest_def ollama_BuildRequest_def

lemmas match_defs = openai_Match_def claude_Match_def deepseek_Match_def ollama_Match_def contains_any_def

interpretation builtin: json_providers "builtin_providers cfg" for cfg
  by unfold_locales
     (auto simp: builtin_providers_def builtin_defs build_defs new_request_Ok json_header_def match_defs)

subsection \<open>Conversions\<close>

lemma claude_loop_eq:
  "claude_loop msgs messages sys =
     (messages @ map message_json (filter (\<lambda>m. Role m \<noteq> ''system'') msgs),
      last (sys # map Content (filter (\<lambda>m. Role m = ''system'') msgs)))"
  by (induction msgs messages sys rule: claude_loop.induct) auto

lemma claude_text_eq: "claude_text blocks = concat (map cb_Text (filter (\<lambda>c. cb_Type c = ''text'') blocks))"
proof -
  have "foldl (\<lambda>content c. if cb_Type c = ''text'' then content @ cb_Text c else content) acc blocks
      = acc @ concat (map cb_Text (filter (\<lambda>c. cb_Type c = ''text'') blocks))" for acc
    by (induction blocks arbitrary: acc) auto
  then show ?thesis by (simp add: claude_text_def)
qed

lemma trimSuffix_id: "s = '''' \<or> last s \<noteq> CHR ''/'' \<Longrightarrow> trimSuffix s ''/'' = s"
  by (cases s rule: rev_cases) (auto simp: trimSuffix_def)

lemma DefaultRegistry_GetProvider:
  "GetProvider (DefaultRegistry cfg) m =
     (if isClaudeModel m then Some (NewClaudeProvider '''')
      else if ollama_Match m then Some (NewOllamaProvider (Ollama_BaseURL cfg))
      else if isDeepSeekModel m then Some (NewDeepSeekProvider '''')
      else if openai_Match m then Some (NewOpenAIProvider (OpenAI_BaseURL cfg) (OpenAI_APIKey cfg))
      else None)"
  by (simp add: DefaultRegistry_order builtin_providers_def builtin_defs isClaudeModel_def isDeepSeekModel_def
      claude_Match_def deepseek_Match_def contains_any_def)

lemma ollama_Match_eq: "ollama_Match m \<longleftrightarrow> isOllamaModel m \<or> contains_any [''gemma'', ''mixtral''] m"
  by (auto simp: ollama_Match_def isOllamaModel_def contains_any_def)

subsection \<open>Properties\<close>

lemma registry_lookup_facts:
  shows "registered ps = sort_key lp_Priority ps"
    and "GetProvider (registered ps) m = None \<longleftrightarrow> (\<forall>p \<in> set ps. \<not> lp_Match p m)"
    and "GetProvider (registered ps) m = Some p \<Longrightarrow> \<exists>us vs. ps = us @ p # vs \<and> lp_Match p m
      \<and> (\<forall>q \<in> set us. lp_Match q m \<longrightarrow> lp_Priority p < lp_Priority q)
      \<and> (\<forall>q \<in> set vs. lp_Match q m \<longrightarrow> lp_Priority p \<le> lp_Priority q)"
proof -
  show "registered ps = sort_key lp_Priority ps" by (rule registered_sort_key)
  show none: "GetProvider (registered ps) m = None \<longleftrightarrow> (\<forall>p \<in> set ps. \<not> lp_Match p m)" for ps
    by (simp add: GetProvider_None registered_sort_key)
  show "GetProvider (registered ps) m = Some p \<Longrightarrow> \<exists>us vs. ps = us @ p # vs \<and> lp_Match p m
      \<and> (\<forall>q \<in> set us. lp_Match q m \<longrightarrow> lp_Priority p < lp_Priority q)
      \<and> (\<forall>q \<in> set vs. lp_Match q m \<longrightarrow> lp_Priority p \<le> lp_Priority q)"
  proof (induction ps arbitrary: p rule: rev_induct)
    case Nil
    then show ?case by (simp add: registered_def NewProviderRegistry_def)
  next
    case (snoc x ps)
    show ?case
    proof (cases "GetProvider (registered ps) m")
      case None
      then have "p = x" "lp_Match x m" using snoc.prems by (auto simp: GetProvider_registered_snoc split: if_splits)
      moreover have "\<forall>q \<in> set ps. \<not> lp_Match q m" using None none [of ps] by simp
      ultimately show ?thesis by (intro exI [of _ ps] exI [of _ "[]"]) simp
    next
      case (Some q)
      obtain us vs where q: "ps = us @ q # vs" "lp_Match q m" "\<forall>y \<in> set us. lp_Match y m \<longrightarrow> lp_Priority q < lp_Priority y"
        "\<forall>y \<in> set vs. lp_Match y m \<longrightarrow> lp_Priority q \<le> lp_Priority y" using snoc.IH [OF Some] by blast
      show ?thesis
      proof (cases "lp_Match x m \<and> lp_Priority x < lp_Priority q")
        case True
        then have "p = x" using Some snoc.prems by (simp add: GetProvider_registered_snoc)
        moreover have "\<forall>y \<in> set ps. lp_Match y m \<longrightarrow> lp_Priority x < lp_Priority y" using True q by fastforce
        ultimately show ?thesis using True by (intro exI [of _ ps] exI [of _ "[]"]) simp
      next
        case False
        then have "p = q" using Some snoc.prems by (auto simp: GetProvider_registered_snoc split: if_splits)
        then show ?thesis using False q by (intro exI [of _ us] exI [of _ "vs @ [x]"]) auto
      qed
    qed
  qed
qed

text \<open>C33. The registry chooses by priority. After any sequence of registrations the list is sorted by priority, with
  providers of one priority in the order of registration, although each \<open>Register\<close> makes a single pass; and
  \<open>GetProvider\<close> answers nothing exactly if no provider matches, otherwise the earliest registered among the
  matching providers of least priority.\<close>

theorem registry_lookup:
  shows "(registered ps = sort_key lp_Priority ps) \<and>
    (GetProvider (registered ps) m = None \<longleftrightarrow> (\<forall>p \<in> set ps. \<not> lp_Match p m)) \<and>
    ((GetProvider (registered ps) m = Some p) \<longrightarrow> (\<exists>us vs. ps = us @ p # vs \<and> lp_Match p m
      \<and> (\<forall>q \<in> set us. lp_Match q m \<longrightarrow> lp_Priority p < lp_Priority q)
      \<and> (\<forall>q \<in> set vs. lp_Match q m \<longrightarrow> lp_Priority p \<le> lp_Priority q)))"
  by (intro conjI impI) (use registry_lookup_facts in blast)+

theorem registry_lookup_witness:
  "\<exists>us vs. [NewOpenAIProvider '''' '''', NewClaudeProvider ''''] = us @ NewClaudeProvider '''' # vs"
proof -
  let ?ps = "[NewOpenAIProvider '''' '''', NewClaudeProvider '''']"
  have "registered ?ps = [NewClaudeProvider '''', NewOpenAIProvider '''' '''']"
    by (simp add: registered_sort_key builtin_defs)
  moreover have "claude_Match ''Claude-3''" by code_simp
  ultimately have "GetProvider (registered ?ps) ''Claude-3'' = Some (NewClaudeProvider '''')"
    by (simp add: builtin_defs)
  with registry_lookup show ?thesis by blast
qed

text \<open>The default registry and the gateway route differently. The registry lists Anthropic, Ollama, DeepSeek and
  OpenAI in this order and asks them in turn; unlike the gateway it prefers Anthropic when a name also looks like
  a local model, counts \<open>gemma\<close> and \<open>mixtral\<close> as local, and has no default: a name with none of the OpenAI prefixes
  has no provider, although the comment on \<open>Match\<close> calls OpenAI the default for all others.\<close>

theorem DefaultRegistry_routing:
  "ListProviders (DefaultRegistry cfg) = [''anthropic'', ''ollama'', ''deepseek'', ''openai'']
   \<and> map_option lp_Name (GetProvider (DefaultRegistry cfg) m) =
      (if isClaudeModel m then Some ''anthropic''
       else if isOllamaModel m \<or> contains_any [''gemma'', ''mixtral''] m then Some ''ollama''
       else if isDeepSeekModel m then Some ''deepseek''
       else if openai_Match m then Some ''openai'' else None)
   \<and> (map_option lp_Name (GetProvider (DefaultRegistry cfg) m) = Some (provider_of m) \<longleftrightarrow>
       (if isClaudeModel m then \<not> isOllamaModel m
        else isOllamaModel m \<or> \<not> contains_any [''gemma'', ''mixtral''] m \<and> (isDeepSeekModel m \<or> openai_Match m)))
   \<and> GetProvider (DefaultRegistry cfg) (toLower m) = GetProvider (DefaultRegistry cfg) m"
proof (intro conjI)
  show "ListProviders (DefaultRegistry cfg) = [''anthropic'', ''ollama'', ''deepseek'', ''openai'']"
    by (simp add: DefaultRegistry_order builtin_providers_def builtin_defs ListProviders_def)
  have name: "map_option lp_Name (GetProvider (DefaultRegistry cfg) m) =
      (if isClaudeModel m then Some ''anthropic'' else if ollama_Match m then Some ''ollama''
       else if isDeepSeekModel m then Some ''deepseek'' else if openai_Match m then Some ''openai'' else None)"
    by (simp add: DefaultRegistry_GetProvider builtin_defs)
  then show "map_option lp_Name (GetProvider (DefaultRegistry cfg) m) =
      (if isClaudeModel m then Some ''anthropic''
       else if isOllamaModel m \<or> contains_any [''gemma'', ''mixtral''] m then Some ''ollama''
       else if isDeepSeekModel m then Some ''deepseek''
       else if openai_Match m then Some ''openai'' else None)" by (simp add: ollama_Match_eq)
  show "map_option lp_Name (GetProvider (DefaultRegistry cfg) m) = Some (provider_of m) \<longleftrightarrow>
       (if isClaudeModel m then \<not> isOllamaModel m
        else isOllamaModel m \<or> \<not> contains_any [''gemma'', ''mixtral''] m \<and> (isDeepSeekModel m \<or> openai_Match m))"
    unfolding name ollama_Match_eq provider_of_def by simp
  show "GetProvider (DefaultRegistry cfg) (toLower m) = GetProvider (DefaultRegistry cfg) m"
    unfolding DefaultRegistry_registered by (rule builtin.chosen_case_blind)
qed

lemma providers_agree_with_gateway_facts:
  assumes "GetProvider (DefaultRegistry cfg) (Model req) = Some p" and "lp_Name p = provider_of (Model req)"
    and "lp_BuildRequest p w req ctx = Ok r"
    and "OpenAI_BaseURL cfg \<noteq> ''''" and "Ollama_BaseURL cfg \<noteq> ''''"
    and "\<forall>u \<in> {OpenAI_BaseURL cfg, Ollama_BaseURL cfg, tx_UpstreamBaseURL ctx}. u = '''' \<or> last u \<noteq> CHR ''/''"
  shows "(hr_URL r, hr_Header r) = buildUpstreamRequest cfg (Model req) ctx"
    and "Some (hr_Body r) =
      (if isClaudeModel (Model req) then wi_marshal w (JObj (convertToClaudeRequest req))
       else if isOllamaModel (Model req) then wi_marshal w (JObj (convertToOllamaRequest req))
       else wi_marshal_req w req)"
proof -
  let ?m = "Model req"
  have trim: "trimSuffix (base_url ctx u) ''/'' = base_url ctx u" if "u = '''' \<or> last u \<noteq> CHR ''/''" for u
    using assms(6) that by (auto simp: base_url_def intro!: trimSuffix_id)
  have ollama: "trimSuffix (Ollama_BaseURL cfg) ''/'' = Ollama_BaseURL cfg" using assms(6) by (intro trimSuffix_id) auto
  consider (claude) "isClaudeModel ?m" "\<not> isOllamaModel ?m" | (ollama) "\<not> isClaudeModel ?m" "isOllamaModel ?m"
    | (deepseek) "\<not> isClaudeModel ?m" "\<not> isOllamaModel ?m" "\<not> ollama_Match ?m" "isDeepSeekModel ?m"
    | (openai) "\<not> isClaudeModel ?m" "\<not> isOllamaModel ?m" "\<not> ollama_Match ?m" "\<not> isDeepSeekModel ?m" "openai_Match ?m"
    using assms(1,2) by (auto simp: DefaultRegistry_GetProvider builtin_defs provider_of_def split: if_splits)
  then have "(hr_URL r, hr_Header r) = buildUpstreamRequest cfg ?m ctx \<and> Some (hr_Body r) =
      (if isClaudeModel ?m then wi_marshal w (JObj (convertToClaudeRequest req))
       else if isOllamaModel ?m then wi_marshal w (JObj (convertToOllamaRequest req)) else wi_marshal_req w req)"
  proof cases
    case claude
    then have "p = NewClaudeProvider ''''" using assms(1) by (simp add: DefaultRegistry_GetProvider)
    then show ?thesis using claude assms(3)
      by (auto simp: builtin_defs build_defs new_request_Ok or_default_def trim buildUpstreamRequest_def)
  next
    case ollama
    then have "p = NewOllamaProvider (Ollama_BaseURL cfg)" using assms(1) by (simp add: DefaultRegistry_GetProvider ollama_Match_eq)
    then show ?thesis using ollama assms(3,5) \<open>trimSuffix (Ollama_BaseURL cfg) ''/'' = _\<close>
      by (auto simp: builtin_defs build_defs new_request_Ok or_default_def buildUpstreamRequest_def)
  next
    case deepseek
    then have "p = NewDeepSeekProvider ''''" using assms(1) by (simp add: DefaultRegistry_GetProvider)
    then show ?thesis using deepseek assms(3)
      by (auto simp: builtin_defs build_defs new_request_Ok or_default_def trim buildUpstreamRequest_def)
  next
    case openai
    then have p: "p = NewOpenAIProvider (OpenAI_BaseURL cfg) (OpenAI_APIKey cfg)" using assms(1) by (simp add: DefaultRegistry_GetProvider)
    have "trimSuffix (base_url ctx (OpenAI_BaseURL cfg)) ''/'' = base_url ctx (OpenAI_BaseURL cfg)"
      using assms(6) by (intro trim) simp
    then show ?thesis using p openai assms(3,4)
      by (auto simp: builtin_defs build_defs new_request_Ok or_default_def buildUpstreamRequest_def)
  qed
  then show "(hr_URL r, hr_Header r) = buildUpstreamRequest cfg ?m ctx" and "Some (hr_Body r) =
      (if isClaudeModel ?m then wi_marshal w (JObj (convertToClaudeRequest req))
       else if isOllamaModel ?m then wi_marshal w (JObj (convertToOllamaRequest req)) else wi_marshal_req w req)" by blast+
qed

text \<open>Where both choose the same provider, the registry's provider sends its request to the URL and with the headers
  the gateway uses, if no base URL ends in a slash and both local base URLs are configured. The bodies agree for
  OpenAI and DeepSeek only: for the other two the registry sends the converted request, the gateway the OpenAI one.\<close>

theorem providers_agree_with_gateway:
  assumes "GetProvider (DefaultRegistry cfg) (Model req) = Some p" and "lp_Name p = provider_of (Model req)"
    and "lp_BuildRequest p w req ctx = Ok r"
    and "OpenAI_BaseURL cfg \<noteq> ''''" and "Ollama_BaseURL cfg \<noteq> ''''"
    and "\<forall>u \<in> {OpenAI_BaseURL cfg, Ollama_BaseURL cfg, tx_UpstreamBaseURL ctx}. u = '''' \<or> last u \<noteq> CHR ''/''"
  shows "((hr_URL r, hr_Header r) = buildUpstreamRequest cfg (Model req) ctx) \<and>
    (Some (hr_Body r) =
      (if isClaudeModel (Model req) then wi_marshal w (JObj (convertToClaudeRequest req))
       else if isOllamaModel (Model req) then wi_marshal w (JObj (convertToOllamaRequest req))
       else wi_marshal_req w req))"
  by (intro conjI impI) (use providers_agree_with_gateway_facts [OF assms] in blast)+

definition sample_wire :: wire where
  "sample_wire = \<lparr>wi_marshal = (\<lambda>j. Some ''{}''), wi_marshal_req = (\<lambda>r. Some (Model r)), wi_valid_url = (\<lambda>u. True),
     wi_chat = (\<lambda>b. Some sample_response), wi_claude = (\<lambda>b. None), wi_ollama = (\<lambda>b. None)\<rparr>"

theorem providers_agree_with_gateway_witness:
  "\<exists>r. lp_BuildRequest (NewOpenAIProvider ''http://a'' ''k'') sample_wire sample_request sample_context = Ok r
     \<and> (hr_URL r, hr_Header r) = buildUpstreamRequest sample_config ''gpt-4'' sample_context"
proof -
  let ?p = "NewOpenAIProvider ''http://a'' ''k''"
  have m: "Model sample_request = ''gpt-4''" by (simp add: sample_request_def)
  have "\<not> isClaudeModel ''gpt-4''" "\<not> ollama_Match ''gpt-4''" "\<not> isDeepSeekModel ''gpt-4''" "openai_Match ''gpt-4''"
    "provider_of ''gpt-4'' = ''openai''" by code_simp+
  then have get: "GetProvider (DefaultRegistry sample_config) (Model sample_request) = Some ?p"
    and name: "lp_Name ?p = provider_of (Model sample_request)"
    by (simp_all add: DefaultRegistry_GetProvider m sample_config_def builtin_defs)
  obtain r where r: "lp_BuildRequest ?p sample_wire sample_request sample_context = Ok r"
    by (simp add: builtin_defs build_defs new_request_def sample_wire_def)
  have "(hr_URL r, hr_Header r) = buildUpstreamRequest sample_config (Model sample_request) sample_context"
    using providers_agree_with_gateway [OF get name r] by (simp add: sample_config_def sample_context_def)
  then show ?thesis using r m by auto
qed

text \<open>What the conversions keep. The request for Anthropic has every message that is not of the system in order,
  only the last system prompt, and \<open>max_tokens\<close> as given (zero when it was not); that for Ollama has every message,
  no limit on the tokens, and never streams. Sampling seeds are dropped by both, and \<open>top_p\<close> by the first. A response
  becomes one assistant message: the text blocks joined, with the token counts added in 64 bits.\<close>

theorem conversions_keep:
  "convertToClaudeRequest req ''messages'' = Some (JArr (map message_json (filter (\<lambda>m. Role m \<noteq> ''system'') (Messages req))))
   \<and> convertToClaudeRequest req ''system'' =
      (let sys = map Content (filter (\<lambda>m. Role m = ''system'') (Messages req)) in
       if sys = [] \<or> last sys = '''' then None else Some (JStr (last sys)))
   \<and> convertToClaudeRequest req ''max_tokens'' = Some (JInt (MaxTokens req))
   \<and> dom (convertToClaudeRequest req) \<subseteq> {''model'', ''messages'', ''max_tokens'', ''system'', ''temperature''}
   \<and> convertToOllamaRequest req ''messages'' = Some (JArr (map message_json (Messages req)))
   \<and> convertToOllamaRequest req ''stream'' = Some (JBool False)
   \<and> dom (convertToOllamaRequest req) = {''model'', ''messages'', ''stream'', ''options''}
   \<and> (case convertFromClaudeResponse w body of Ok resp \<Rightarrow> \<exists>c. wi_claude w body = Some c
        \<and> map (\<lambda>x. (Role (ch_Message x), Content (ch_Message x))) (cr_Choices resp)
            = [(''assistant'', concat (map cb_Text (filter (\<lambda>b. cb_Type b = ''text'') (cl_Content c))))]
        \<and> TotalTokens (cr_Usage resp) = wrap64 (PromptTokens (cr_Usage resp) + CompletionTokens (cr_Usage resp))
      | Err e \<Rightarrow> e = BadResponse \<and> wi_claude w body = None | Panic \<Rightarrow> False)
   \<and> (case convertFromOllamaResponse w body of Ok resp \<Rightarrow> \<exists>c. wi_ollama w body = Some c
        \<and> map (\<lambda>x. (Role (ch_Message x), Content (ch_Message x), ch_FinishReason x)) (cr_Choices resp)
            = [(''assistant'', ol_Content c, if ol_Done c then ''stop'' else ''length'')]
        \<and> TotalTokens (cr_Usage resp) = wrap64 (PromptTokens (cr_Usage resp) + CompletionTokens (cr_Usage resp))
      | Err e \<Rightarrow> e = BadResponse \<and> wi_ollama w body = None | Panic \<Rightarrow> False)"
proof (intro conjI)
  define msgs where "msgs = map message_json (filter (\<lambda>m. Role m \<noteq> ''system'') (Messages req))"
  define sys where "sys = map Content (filter (\<lambda>m. Role m = ''system'') (Messages req))"
  have loop: "claude_loop (Messages req) [] '''' = (msgs, last ('''' # sys))" by (simp add: claude_loop_eq msgs_def sys_def)
  show "convertToClaudeRequest req ''messages'' = Some (JArr (map message_json (filter (\<lambda>m. Role m \<noteq> ''system'') (Messages req))))"
    by (simp add: convertToClaudeRequest_def loop msgs_def Let_def)
  show "convertToClaudeRequest req ''system'' =
      (let sys = map Content (filter (\<lambda>m. Role m = ''system'') (Messages req)) in
       if sys = [] \<or> last sys = '''' then None else Some (JStr (last sys)))"
    unfolding sys_def [symmetric] by (simp add: convertToClaudeRequest_def loop Let_def)
  show "convertToClaudeRequest req ''max_tokens'' = Some (JInt (MaxTokens req))"
    by (simp add: convertToClaudeRequest_def loop Let_def)
  show "dom (convertToClaudeRequest req) \<subseteq> {''model'', ''messages'', ''max_tokens'', ''system'', ''temperature''}"
    by (auto simp: convertToClaudeRequest_def loop Let_def split: if_splits)
  show "convertToOllamaRequest req ''messages'' = Some (JArr (map message_json (Messages req)))"
    and "convertToOllamaRequest req ''stream'' = Some (JBool False)"
    by (simp_all add: convertToOllamaRequest_def)
  show "dom (convertToOllamaRequest req) = {''model'', ''messages'', ''stream'', ''options''}"
    by (auto simp: convertToOllamaRequest_def split: if_splits)
  show "(case convertFromClaudeResponse w body of Ok resp \<Rightarrow> \<exists>c. wi_claude w body = Some c
        \<and> map (\<lambda>x. (Role (ch_Message x), Content (ch_Message x))) (cr_Choices resp)
            = [(''assistant'', concat (map cb_Text (filter (\<lambda>b. cb_Type b = ''text'') (cl_Content c))))]
        \<and> TotalTokens (cr_Usage resp) = wrap64 (PromptTokens (cr_Usage resp) + CompletionTokens (cr_Usage resp))
      | Err e \<Rightarrow> e = BadResponse \<and> wi_claude w body = None | Panic \<Rightarrow> False)"
    by (cases "wi_claude w body") (simp_all add: convertFromClaudeResponse_def claude_text_eq)
  show "(case convertFromOllamaResponse w body of Ok resp \<Rightarrow> \<exists>c. wi_ollama w body = Some c
        \<and> map (\<lambda>x. (Role (ch_Message x), Content (ch_Message x), ch_FinishReason x)) (cr_Choices resp)
            = [(''assistant'', ol_Content c, if ol_Done c then ''stop'' else ''length'')]
        \<and> TotalTokens (cr_Usage resp) = wrap64 (PromptTokens (cr_Usage resp) + CompletionTokens (cr_Usage resp))
      | Err e \<Rightarrow> e = BadResponse \<and> wi_ollama w body = None | Panic \<Rightarrow> False)"
    by (cases "wi_ollama w body") (simp_all add: convertFromOllamaResponse_def Let_def)
qed

end
