(* ===== verification/Middleware.thy ===== *)
theory Middleware
  imports Prelude Complex_Main
begin

text \<open>
  The HTTP middleware: \<open>server/internal/middleware/middleware.go\<close>.

  A request is the record \<open>gin_ctx\<close> of what the handlers read and write of a \<open>gin.Context\<close>; \<open>c_Header\<close> and
  \<open>GetHeader\<close> are gin's, for which an empty value deletes, or is that of a missing header. Names of headers are as
  the code writes them. A middleware acts before the rest of the chain, which runs unless it aborts. A
  \<open>float64\<close> is a rational and \<open>rnd\<close> the rounding of a result to it, with the two laws of \<open>rounding_ok\<close>: it is
  monotone and exact on the integers a \<open>float64\<close> has. Times are monotonic nanoseconds. Not modelled: \<open>Timeout\<close>,
  whose goroutine goes on using the request after the answer (no route uses it).
\<close>

subsection \<open>Requests\<close>

record gin_ctx =
  gc_Method :: string
  gc_header :: "string \<rightharpoonup> string"
  gc_ClientIP :: string
  gc_keys :: "string \<rightharpoonup> string"
  gc_resp :: "string \<rightharpoonup> string"
  gc_status :: "int option"
  gc_aborted :: bool

definition GetHeader :: "gin_ctx \<Rightarrow> string \<Rightarrow> string" where
  "GetHeader c k = (case gc_header c k of None \<Rightarrow> '''' | Some v \<Rightarrow> v)"

definition GetString :: "gin_ctx \<Rightarrow> string \<Rightarrow> string" where
  "GetString c k = (case gc_keys c k of None \<Rightarrow> '''' | Some v \<Rightarrow> v)"

definition c_Header :: "string \<Rightarrow> string \<Rightarrow> gin_ctx \<Rightarrow> gin_ctx" where
  "c_Header k v c = (if v = '''' then c\<lparr>gc_resp := (gc_resp c)(k := None)\<rparr> else c\<lparr>gc_resp := (gc_resp c)(k \<mapsto> v)\<rparr>)"

definition c_Set :: "string \<Rightarrow> string \<Rightarrow> gin_ctx \<Rightarrow> gin_ctx" where
  "c_Set k v c = c\<lparr>gc_keys := (gc_keys c)(k \<mapsto> v)\<rparr>"

definition abort_with :: "int \<Rightarrow> gin_ctx \<Rightarrow> gin_ctx" where
  "abort_with status c = c\<lparr>gc_status := Some status, gc_aborted := True\<rparr>"

type_synonym middleware = "gin_ctx \<Rightarrow> gin_ctx"

fun run_chain :: "middleware list \<Rightarrow> gin_ctx \<Rightarrow> gin_ctx" where
  "run_chain [] c = c"
| "run_chain (m # ms) c = (let c = m c in if gc_aborted c then c else run_chain ms c)"

subsection \<open>Cross-origin requests\<close>

record CORSConfig =
  cc_AllowOrigins :: "string list"
  cc_AllowMethods :: "string list"
  cc_AllowHeaders :: "string list"
  cc_ExposeHeaders :: "string list"
  cc_AllowCredentials :: bool
  cc_MaxAge :: int

definition DefaultCORSConfig :: CORSConfig where
  "DefaultCORSConfig =
     \<lparr>cc_AllowOrigins = [''*''],
      cc_AllowMethods = [''GET'', ''POST'', ''PUT'', ''PATCH'', ''DELETE'', ''OPTIONS''],
      cc_AllowHeaders = [''Origin'', ''Content-Type'', ''Accept'', ''Authorization'', ''X-API-Key'', ''X-Tenant-ID'', ''X-User-ID'',
        ''X-Request-ID'', ''X-Upstream-API-Key''],
      cc_ExposeHeaders = [''Content-Length'', ''X-Request-ID''],
      cc_AllowCredentials = False, cc_MaxAge = 86400\<rparr>"

fun join_loop :: "nat \<Rightarrow> string list \<Rightarrow> string \<Rightarrow> string" where
  "join_loop i [] result = result"
| "join_loop i (v # vs) result = join_loop (i + 1) vs ((if i > 0 then result @ '', '' else result) @ v)"

definition joinStrings :: "string list \<Rightarrow> string" where
  "joinStrings s = join_loop 0 s ''''"

text \<open>\<open>string(rune(n))\<close>: the conversion to 32 bits, and the UTF-8 form of the code point or of the replacement character.\<close>

definition to_rune :: "int \<Rightarrow> int" where
  "to_rune n = (n + 2 ^ 31) mod 2 ^ 32 - 2 ^ 31"

definition utf8 :: "nat \<Rightarrow> nat list" where
  "utf8 n =
     (if n < 0x80 then [n]
      else if n < 0x800 then [0xC0 + n div 64, 0x80 + n mod 64]
      else if n < 0x10000 then [0xE0 + n div 4096, 0x80 + n div 64 mod 64, 0x80 + n mod 64]
      else [0xF0 + n div 262144, 0x80 + n div 4096 mod 64, 0x80 + n div 64 mod 64, 0x80 + n mod 64])"

definition rune_string :: "int \<Rightarrow> string" where
  "rune_string n =
     (let r = to_rune n;
          r = (if r < 0 \<or> r > 0x10FFFF \<or> (0xD800 \<le> r \<and> r \<le> 0xDFFF) then 0xFFFD else r)
      in map char_of (utf8 (nat r)))"

definition CORS :: "CORSConfig list \<Rightarrow> middleware" where
  "CORS config c =
     (let cfg = (case config of [] \<Rightarrow> DefaultCORSConfig | x # xs \<Rightarrow> x);
          origin = GetHeader c ''Origin'';
          allowed = list_ex (\<lambda>x. x = ''*'' \<or> x = origin) (cc_AllowOrigins cfg);
          c = (if allowed then c_Header ''Access-Control-Allow-Origin'' origin c else c);
          c = c_Header ''Access-Control-Allow-Methods'' (joinStrings (cc_AllowMethods cfg)) c;
          c = c_Header ''Access-Control-Allow-Headers'' (joinStrings (cc_AllowHeaders cfg)) c;
          c = c_Header ''Access-Control-Expose-Headers'' (joinStrings (cc_ExposeHeaders cfg)) c;
          c = (if cc_AllowCredentials cfg then c_Header ''Access-Control-Allow-Credentials'' ''true'' c else c);
          c = (if cc_MaxAge cfg > 0 then c_Header ''Access-Control-Max-Age'' (rune_string (cc_MaxAge cfg)) c else c)
      in if gc_Method c = ''OPTIONS'' then abort_with 204 c else c)"

subsection \<open>Rate limits\<close>

definition rounding_ok :: "(rat \<Rightarrow> rat) \<Rightarrow> bool" where
  "rounding_ok rnd \<longleftrightarrow> (\<forall>x y. x \<le> y \<longrightarrow> rnd x \<le> rnd y) \<and> (\<forall>k :: int. \<bar>k\<bar> \<le> 2 ^ 53 \<longrightarrow> rnd (of_int k) = of_int k)"

definition second :: int where "second = 1000000000"

text \<open>\<open>Duration.Seconds\<close> of a duration that is not negative.\<close>

definition seconds :: "(rat \<Rightarrow> rat) \<Rightarrow> int \<Rightarrow> rat" where
  "seconds rnd d = rnd (rnd (of_int (d div second)) + rnd (of_int (d mod second) / 1000000000))"

record RateLimiterConfig =
  rc_RequestsPerMinute :: int
  rc_BurstSize :: int
  rc_CleanupInterval :: int

definition DefaultRateLimiterConfig :: RateLimiterConfig where
  "DefaultRateLimiterConfig = \<lparr>rc_RequestsPerMinute = 60, rc_BurstSize = 10, rc_CleanupInterval = 5 * 60 * second\<rparr>"

record clientInfo =
  ci_tokens :: rat
  ci_lastUpdate :: int

record RateLimiter =
  rl_clients :: "string \<rightharpoonup> clientInfo"
  rl_config :: RateLimiterConfig
  rl_rate :: rat

definition NewRateLimiter :: "(rat \<Rightarrow> rat) \<Rightarrow> RateLimiterConfig list \<Rightarrow> RateLimiter" where
  "NewRateLimiter rnd config =
     (let cfg = (case config of
            [] \<Rightarrow> DefaultRateLimiterConfig
          | x # xs \<Rightarrow> (if rc_CleanupInterval x \<le> 0
              then x\<lparr>rc_CleanupInterval := rc_CleanupInterval DefaultRateLimiterConfig\<rparr> else x))
      in \<lparr>rl_clients = Map.empty, rl_config = cfg, rl_rate = rnd (rnd (of_int (rc_RequestsPerMinute cfg)) / 60)\<rparr>)"

definition rl_Allow :: "(rat \<Rightarrow> rat) \<Rightarrow> int \<Rightarrow> string \<Rightarrow> RateLimiter \<Rightarrow> bool \<times> RateLimiter" where
  "rl_Allow rnd now key rl =
     (let burst = rnd (of_int (rc_BurstSize (rl_config rl))) in
      case rl_clients rl key of
        None \<Rightarrow> (True, rl\<lparr>rl_clients := (rl_clients rl)(key \<mapsto> \<lparr>ci_tokens = rnd (burst - 1), ci_lastUpdate = now\<rparr>)\<rparr>)
      | Some client \<Rightarrow>
          let elapsed = seconds rnd (now - ci_lastUpdate client);
              tokens = rnd (ci_tokens client + rnd (elapsed * rl_rate rl));
              tokens = (if tokens > burst then burst else tokens)
          in if tokens \<ge> 1
             then (True, rl\<lparr>rl_clients := (rl_clients rl)(key \<mapsto> \<lparr>ci_tokens = rnd (tokens - 1), ci_lastUpdate = now\<rparr>)\<rparr>)
             else (False, rl\<lparr>rl_clients := (rl_clients rl)(key \<mapsto> \<lparr>ci_tokens = tokens, ci_lastUpdate = now\<rparr>)\<rparr>))"

text \<open>One tick of the cleaning goroutine.\<close>

definition rl_cleanup :: "int \<Rightarrow> RateLimiter \<Rightarrow> RateLimiter" where
  "rl_cleanup now rl =
     (let cutoff = now - rc_CleanupInterval (rl_config rl) in
      rl\<lparr>rl_clients := (\<lambda>key. case rl_clients rl key of
           None \<Rightarrow> None
         | Some client \<Rightarrow> if ci_lastUpdate client < cutoff then None else Some client)\<rparr>)"

definition limit_key :: "gin_ctx \<Rightarrow> string" where
  "limit_key c = (let apiKey = GetHeader c ''X-API-Key'' in if apiKey \<noteq> '''' then ''apikey:'' @ apiKey else gc_ClientIP c)"

definition RateLimit :: "(rat \<Rightarrow> rat) \<Rightarrow> int \<Rightarrow> RateLimiter \<Rightarrow> gin_ctx \<Rightarrow> gin_ctx \<times> RateLimiter" where
  "RateLimit rnd now limiter c =
     (let (allowed, limiter) = rl_Allow rnd now (limit_key c) limiter
      in (if \<not> allowed then abort_with 429 c else c, limiter))"

subsection \<open>Request identifiers and security headers\<close>

definition letters :: string where
  "letters = ''abcdefghijklmnopqrstuvwxyz0123456789''"

text \<open>\<open>clock i\<close> is the \<open>i\<close>-th reading of the clock in nanoseconds, \<open>stamp\<close> the formatted time.\<close>

definition randomString :: "(nat \<Rightarrow> nat) \<Rightarrow> nat \<Rightarrow> string" where
  "randomString clock n = map (\<lambda>i. letters ! (clock i mod length letters)) [0..<n]"

definition generateRequestID :: "string \<Rightarrow> (nat \<Rightarrow> nat) \<Rightarrow> string" where
  "generateRequestID stamp clock = stamp @ ''-'' @ randomString clock 8"

definition RequestID :: "string \<Rightarrow> (nat \<Rightarrow> nat) \<Rightarrow> middleware" where
  "RequestID stamp clock c =
     (let requestID = GetHeader c ''X-Request-ID'';
          requestID = (if requestID = '''' then generateRequestID stamp clock else requestID)
      in c_Header ''X-Request-ID'' requestID (c_Set ''request_id'' requestID c))"

definition SecurityHeaders :: middleware where
  "SecurityHeaders c =
     c_Header ''Content-Security-Policy'' (''default-src 'self'' @ [CHR 0x27])
       (c_Header ''Referrer-Policy'' ''strict-origin-when-cross-origin''
         (c_Header ''X-XSS-Protection'' ''1; mode=block''
           (c_Header ''X-Frame-Options'' ''DENY'' (c_Header ''X-Content-Type-Options'' ''nosniff'' c))))"

subsection \<open>Lemmas\<close>

lemma rounding_mono: "rounding_ok rnd \<Longrightarrow> x \<le> y \<Longrightarrow> rnd x \<le> rnd y"
  by (simp add: rounding_ok_def)

lemma rounding_int: "rounding_ok rnd \<Longrightarrow> \<bar>k\<bar> \<le> 2 ^ 53 \<Longrightarrow> rnd (of_int k) = of_int k"
  by (simp add: rounding_ok_def)

lemma rounding_0 [simp]: "rounding_ok rnd \<Longrightarrow> rnd 0 = 0"
  using rounding_int [of rnd 0] by simp

lemma rounding_nonneg: "rounding_ok rnd \<Longrightarrow> 0 \<le> x \<Longrightarrow> 0 \<le> rnd x"
  using rounding_mono [of rnd 0 x] by simp

lemma rounding_exact: "rounding_ok (\<lambda>x. x)"
  by (simp add: rounding_ok_def)

lemma seconds_0 [simp]: "rounding_ok rnd \<Longrightarrow> seconds rnd 0 = 0"
  by (simp add: seconds_def)

lemma second_pos: "0 < second"
  by (simp add: second_def)

lemma seconds_whole:
  assumes "rounding_ok rnd" and "k * second \<le> d" and "0 \<le> k" and "k \<le> 2 ^ 53"
  shows "of_int k \<le> seconds rnd d"
proof -
  have "k * second div second \<le> d div second" using assms(2) second_pos by (rule zdiv_mono1)
  then have k: "k \<le> d div second" using second_pos by (metis nonzero_mult_div_cancel_right less_irrefl)
  have "rnd (of_int k) \<le> rnd (of_int (d div second))" using k by (intro rounding_mono [OF assms(1)]) (rule iffD2 [OF of_int_le_iff])
  moreover have "0 \<le> rnd (of_int (d mod second) / 1000000000)" using second_pos by (intro rounding_nonneg [OF assms(1)] divide_nonneg_nonneg) (simp_all only: of_int_0_le_iff pos_mod_sign zero_le_numeral)
  ultimately have "of_int k \<le> rnd (of_int (d div second)) + rnd (of_int (d mod second) / 1000000000)"
    using rounding_int [OF assms(1), of k] assms(3,4) by simp
  then have "rnd (of_int k) \<le> seconds rnd d" unfolding seconds_def by (rule rounding_mono [OF assms(1)])
  then show ?thesis using rounding_int [OF assms(1), of k] assms(3,4) by simp
qed

text \<open>A sequence of requests, each with its time and key.\<close>

fun allow_run :: "(rat \<Rightarrow> rat) \<Rightarrow> (int \<times> string) list \<Rightarrow> RateLimiter \<Rightarrow> bool list \<times> RateLimiter" where
  "allow_run rnd [] rl = ([], rl)"
| "allow_run rnd ((now, key) # reqs) rl =
     (let (ok, rl) = rl_Allow rnd now key rl; (oks, rl) = allow_run rnd reqs rl in (ok # oks, rl))"

lemma rl_Allow_config [simp]:
  "rl_config (snd (rl_Allow rnd now key rl)) = rl_config rl" "rl_rate (snd (rl_Allow rnd now key rl)) = rl_rate rl"
  by (simp_all add: rl_Allow_def Let_def split: option.splits)

lemma rl_Allow_other: "k \<noteq> key \<Longrightarrow> rl_clients (snd (rl_Allow rnd now key rl)) k = rl_clients rl k"
  by (simp add: rl_Allow_def Let_def split: option.splits)

lemma rl_Allow_fresh: "rl_clients rl key = None \<Longrightarrow> fst (rl_Allow rnd now key rl)"
  by (simp add: rl_Allow_def Let_def)

definition int_tokens :: "int \<Rightarrow> int \<Rightarrow> clientInfo" where
  "int_tokens now t = \<lparr>ci_tokens = of_int t, ci_lastUpdate = now\<rparr>"

lemma rl_Allow_first:
  assumes "rounding_ok rnd" and "rl_clients rl key = None" and "rc_BurstSize (rl_config rl) = B" and "1 \<le> B" and "B \<le> 2 ^ 53"
  shows "rl_Allow rnd now key rl = (True, rl\<lparr>rl_clients := (rl_clients rl)(key \<mapsto> int_tokens now (B - 1))\<rparr>)"
proof -
  have "rnd (of_int (B - 1)) = of_int (B - 1)" "rnd (of_int B) = of_int B"
    using assms by (intro rounding_int; simp)+
  then show ?thesis using assms(2,3) by (simp add: rl_Allow_def Let_def int_tokens_def)
qed

lemma rl_Allow_same_time:
  assumes "rounding_ok rnd" and "rl_clients rl key = Some (int_tokens now t)" and "rc_BurstSize (rl_config rl) = B"
    and "0 \<le> t" and "t \<le> B" and "B \<le> 2 ^ 53"
  shows "rl_Allow rnd now key rl = (1 \<le> t, rl\<lparr>rl_clients := (rl_clients rl)(key \<mapsto> int_tokens now (if 1 \<le> t then t - 1 else t))\<rparr>)"
proof -
  have r: "rnd (of_int (t - 1)) = of_int (t - 1)" "rnd (of_int B) = of_int B" "rnd (of_int t) = of_int t"
    using assms by (intro rounding_int; simp)+
  have one: "(1 :: rat) \<le> of_int t \<longleftrightarrow> 1 \<le> t" by linarith
  show ?thesis using assms(1,2,3,5) r by (simp add: rl_Allow_def Let_def int_tokens_def one)
qed

lemma allow_run_same_time:
  assumes "rounding_ok rnd" and "rc_BurstSize (rl_config rl) = int B" and "int B \<le> 2 ^ 53"
    and "rl_clients rl key = Some (int_tokens now (int t))" and "t \<le> B"
  shows "fst (allow_run rnd (replicate n (now, key)) rl) = replicate (min n t) True @ replicate (n - t) False"
  using assms(2,4,5)
proof (induction n arbitrary: rl t)
  case 0
  then show ?case by simp
next
  case (Suc n)
  let ?t = "if 1 \<le> t then t - 1 else t"
  let ?rl = "rl\<lparr>rl_clients := (rl_clients rl)(key \<mapsto> int_tokens now (int ?t))\<rparr>"
  have int: "(if 1 \<le> int t then int t - 1 else int t) = int ?t" by (cases t) auto
  have step: "rl_Allow rnd now key rl = (1 \<le> t, ?rl)"
    using rl_Allow_same_time [OF assms(1) Suc.prems(2,1)] Suc.prems(3) assms(3) by (simp only: int) simp
  have "fst (allow_run rnd (replicate n (now, key)) ?rl) = replicate (min n ?t) True @ replicate (n - ?t) False"
    using Suc.prems by (intro Suc.IH) auto
  then have "fst (allow_run rnd (replicate (Suc n) (now, key)) rl) = (1 \<le> t) # replicate (min n ?t) True @ replicate (n - ?t) False"
    by (simp add: step split_beta Let_def)
  then show ?case by (cases t) (simp_all)
qed

lemma fst_allow_run_Cons:
  "fst (allow_run rnd ((now, key) # reqs) rl) = fst (rl_Allow rnd now key rl) # fst (allow_run rnd reqs (snd (rl_Allow rnd now key rl)))"
  by (simp add: split_beta Let_def)

lemma joinStrings_Cons: "join_loop (Suc i) vs r = r @ concat (map (\<lambda>v. '', '' @ v) vs)"
  by (induction vs arbitrary: i r) auto

lemma digit_char: "char_of n \<in> set ''0123456789'' \<longleftrightarrow> 48 \<le> n \<and> n \<le> 57" if "n < 256" for n :: nat
proof -
  have "char_of n = c \<longleftrightarrow> n = of_char c" for c :: char
    using that by (simp add: char_of_eq_iff take_bit_nat_eq_self)
  then have "char_of n \<in> set ''0123456789'' \<longleftrightarrow> n \<in> of_char ` set ''0123456789''" by auto
  also have "of_char ` set ''0123456789'' = {48..57 :: nat}" by code_simp
  finally show ?thesis by simp
qed

lemma utf8_bytes: "n \<le> 0x10FFFF \<Longrightarrow> \<forall>b \<in> set (utf8 n). b < 256 \<and> (0x80 \<le> n \<longrightarrow> 0x80 \<le> b)"
  by (auto simp: utf8_def)

lemma utf8_nonempty [simp]: "utf8 n \<noteq> []"
  by (simp add: utf8_def)

lemma c_Header_simps [simp]:
  "gc_resp (c_Header k v c) = (gc_resp c)(k := if v = '''' then None else Some v)"
  "gc_aborted (c_Header k v c) = gc_aborted c" "gc_Method (c_Header k v c) = gc_Method c" "gc_header (c_Header k v c) = gc_header c"
  "gc_keys (c_Header k v c) = gc_keys c" "gc_ClientIP (c_Header k v c) = gc_ClientIP c" "gc_status (c_Header k v c) = gc_status c"
  by (simp_all add: c_Header_def)

lemma abort_with_simps [simp]:
  "gc_resp (abort_with s c) = gc_resp c" "gc_aborted (abort_with s c)" "gc_status (abort_with s c) = Some s"
  by (simp_all add: abort_with_def)

subsection \<open>Properties\<close>

text \<open>The answer to a cross-origin request. The origin of the request is echoed whenever the list allows it or holds a
  star, also together with the permission of credentials; a request with no origin gets no such header. The maximal
  age is converted to the character with that code, so it is a decimal number only for the ages 48 to 57: the
  default of a day is sent as four bytes no browser can read. A preflight request ends the chain with status 204.\<close>

theorem CORS_answer:
  shows "gc_resp (CORS [cfg] c) ''Access-Control-Allow-Origin'' =
      (if \<exists>x \<in> set (cc_AllowOrigins cfg). x = ''*'' \<or> x = GetHeader c ''Origin''
       then (if GetHeader c ''Origin'' = '''' then None else Some (GetHeader c ''Origin''))
       else gc_resp c ''Access-Control-Allow-Origin'')"
    and "cc_AllowCredentials cfg \<Longrightarrow> gc_resp (CORS [cfg] c) ''Access-Control-Allow-Credentials'' = Some ''true''"
    and "0 < cc_MaxAge cfg \<Longrightarrow> cc_MaxAge cfg \<le> 0x10FFFF \<Longrightarrow> \<exists>age. gc_resp (CORS [cfg] c) ''Access-Control-Max-Age'' = Some age
      \<and> (set age \<subseteq> set ''0123456789'' \<longleftrightarrow> cc_MaxAge cfg \<in> {48..57})"
    and "gc_resp (CORS [] c) ''Access-Control-Max-Age'' = Some (map char_of [0xF0, 0x95, 0x86, 0x80 :: nat])"
    and "gc_aborted (CORS [cfg] c) \<longleftrightarrow> gc_aborted c \<or> gc_Method c = ''OPTIONS''"
proof -
  note defs = CORS_def Let_def list_ex_iff if_distrib [of gc_resp] if_distrib [of gc_aborted] if_distrib [of gc_Method]
  show "gc_resp (CORS [cfg] c) ''Access-Control-Allow-Origin'' =
      (if \<exists>x \<in> set (cc_AllowOrigins cfg). x = ''*'' \<or> x = GetHeader c ''Origin''
       then (if GetHeader c ''Origin'' = '''' then None else Some (GetHeader c ''Origin''))
       else gc_resp c ''Access-Control-Allow-Origin'')" by (simp add: defs)
  show "cc_AllowCredentials cfg \<Longrightarrow> gc_resp (CORS [cfg] c) ''Access-Control-Allow-Credentials'' = Some ''true''"
    by (simp add: defs)
  show "gc_aborted (CORS [cfg] c) \<longleftrightarrow> gc_aborted c \<or> gc_Method c = ''OPTIONS''" by (simp add: defs)
  have ne: "rune_string n \<noteq> []" for n by (simp add: rune_string_def Let_def)
  have age: "0 < n \<Longrightarrow> cc_MaxAge d = n \<Longrightarrow> gc_resp (CORS [d] c) ''Access-Control-Max-Age'' = Some (rune_string n)" for d n
    using ne [of n] by (simp add: defs)
  have "rune_string 86400 = map char_of [0xF0, 0x95, 0x86, 0x80 :: nat]"
    by (simp add: rune_string_def to_rune_def utf8_def)
  moreover have "CORS [] c = CORS [DefaultCORSConfig] c" by (simp add: CORS_def)
  ultimately show "gc_resp (CORS [] c) ''Access-Control-Max-Age'' = Some (map char_of [0xF0, 0x95, 0x86, 0x80 :: nat])"
    using age [of 86400 DefaultCORSConfig] by (simp add: DefaultCORSConfig_def)
  show "\<exists>age. gc_resp (CORS [cfg] c) ''Access-Control-Max-Age'' = Some age
      \<and> (set age \<subseteq> set ''0123456789'' \<longleftrightarrow> cc_MaxAge cfg \<in> {48..57})" if n: "0 < cc_MaxAge cfg" "cc_MaxAge cfg \<le> 0x10FFFF"
  proof -
    define r where "r = nat (if 0xD800 \<le> cc_MaxAge cfg \<and> cc_MaxAge cfg \<le> 0xDFFF then 0xFFFD else cc_MaxAge cfg)"
    have rune: "rune_string (cc_MaxAge cfg) = map char_of (utf8 r)"
      using n by (simp add: rune_string_def to_rune_def r_def Let_def)
    have r: "r \<le> 0x10FFFF" "r \<in> {48..57} \<longleftrightarrow> cc_MaxAge cfg \<in> {48..57}" using n by (auto simp: r_def)
    have "set (map char_of (utf8 r)) \<subseteq> set ''0123456789'' \<longleftrightarrow> r \<in> {48..57}"
    proof (cases "r < 0x80")
      case True
      then show ?thesis using digit_char [of r] by (simp add: utf8_def)
    next
      case False
      obtain b where b: "b \<in> set (utf8 r)" using utf8_nonempty [of r] by (metis list.set_intros(1) neq_Nil_conv)
      then have "b < 256" "0x80 \<le> b" using utf8_bytes [OF r(1)] False by auto
      then have "char_of b \<notin> set ''0123456789''" using digit_char [of b] by simp
      then show ?thesis using b False by fastforce
    qed
    then show ?thesis using age [OF n(1) refl] rune r(2) by simp
  qed
qed

theorem CORS_answer_witness:
  "\<exists>age. gc_resp (CORS [DefaultCORSConfig] \<lparr>gc_Method = ''GET'', gc_header = [''Origin'' \<mapsto> ''http://x''], gc_ClientIP = '''',
      gc_keys = Map.empty, gc_resp = Map.empty, gc_status = None, gc_aborted = False\<rparr>) ''Access-Control-Max-Age'' = Some age
    \<and> \<not> set age \<subseteq> set ''0123456789''"
  using CORS_answer(3) [of DefaultCORSConfig] by (fastforce simp: DefaultCORSConfig_def)

lemma rate_limit_burst_facts:
  assumes "rounding_ok rnd" and "rl_clients rl key = None" and "rc_BurstSize (rl_config rl) = int B" and "1 \<le> B" and "int B \<le> 2 ^ 53"
  shows "fst (allow_run rnd (replicate n (now, key)) rl) = replicate (min n B) True @ replicate (n - B) False"
    and "\<forall>r \<in> set others. snd r \<noteq> key \<Longrightarrow> rl_clients (snd (allow_run rnd others rl)) key = None
      \<and> fst (allow_run rnd (replicate n (now, key)) (snd (allow_run rnd others rl))) = replicate (min n B) True @ replicate (n - B) False"
proof -
  have burst: "fst (allow_run rnd (replicate n (now, key)) rl) = replicate (min n B) True @ replicate (n - B) False"
    if "rl_clients rl key = None" "rc_BurstSize (rl_config rl) = int B" for rl
  proof (cases n)
    case 0
    then show ?thesis by simp
  next
    case (Suc m)
    have int: "int B - 1 = int (B - 1)" using assms(4) by simp
    have first: "rl_Allow rnd now key rl = (True, rl\<lparr>rl_clients := (rl_clients rl)(key \<mapsto> int_tokens now (int (B - 1)))\<rparr>)"
      using rl_Allow_first [OF assms(1) that] assms(4,5) by (simp only: int)
    have "fst (allow_run rnd (replicate m (now, key)) (rl\<lparr>rl_clients := (rl_clients rl)(key \<mapsto> int_tokens now (int (B - 1)))\<rparr>))
        = replicate (min m (B - 1)) True @ replicate (m - (B - 1)) False"
      using that assms(5) by (intro allow_run_same_time [OF assms(1), of _ B]) simp_all
    then have "fst (allow_run rnd (replicate n (now, key)) rl) = True # replicate (min m (B - 1)) True @ replicate (m - (B - 1)) False"
      by (simp add: Suc first split_beta Let_def)
    then show ?thesis using assms(4) by (cases B) (simp_all add: Suc)
  qed
  show "fst (allow_run rnd (replicate n (now, key)) rl) = replicate (min n B) True @ replicate (n - B) False"
    using burst assms(2,3) by blast
  assume others: "\<forall>r \<in> set others. snd r \<noteq> key"
  have "rl_clients (snd (allow_run rnd others rl)) key = rl_clients rl key \<and> rl_config (snd (allow_run rnd others rl)) = rl_config rl"
    using others
  proof (induction others arbitrary: rl)
    case (Cons r others)
    then show ?case by (cases r) (auto simp: split_beta Let_def intro!: rl_Allow_other)
  qed simp
  then show "rl_clients (snd (allow_run rnd others rl)) key = None
      \<and> fst (allow_run rnd (replicate n (now, key)) (snd (allow_run rnd others rl))) = replicate (min n B) True @ replicate (n - B) False"
    using burst assms(2,3) by simp
qed

text \<open>C36. The limit on bursts. Of any number of requests at one time under a key the limiter does not know, exactly the
  first \<open>BurstSize\<close> are let through, whatever the rounding; requests under other keys change nothing for it.\<close>

theorem rate_limit_burst:
  assumes "rounding_ok rnd" and "rl_clients rl key = None" and "rc_BurstSize (rl_config rl) = int B" and "1 \<le> B" and "int B \<le> 2 ^ 53"
  shows "(fst (allow_run rnd (replicate n (now, key)) rl) = replicate (min n B) True @ replicate (n - B) False) \<and>
    ((\<forall>r \<in> set others. snd r \<noteq> key) \<longrightarrow> (rl_clients (snd (allow_run rnd others rl)) key = None
      \<and> fst (allow_run rnd (replicate n (now, key)) (snd (allow_run rnd others rl))) = replicate (min n B) True @ replicate (n - B) False))"
  by (intro conjI impI) (use rate_limit_burst_facts [OF assms] in blast)+

definition router_limits :: RateLimiterConfig where
  "router_limits = \<lparr>rc_RequestsPerMinute = 120, rc_BurstSize = 20, rc_CleanupInterval = 0\<rparr>"

theorem rate_limit_burst_witness:
  "fst (allow_run (\<lambda>x. x) (replicate 25 (0, ''1.2.3.4'')) (NewRateLimiter (\<lambda>x. x) [router_limits]))
    = replicate 20 True @ replicate 5 False"
proof -
  have "min 25 20 = (20 :: nat)" "25 - 20 = (5 :: nat)" by simp_all
  then show ?thesis
    using rate_limit_burst [OF rounding_exact, of "NewRateLimiter (\<lambda>x. x) [router_limits]" "''1.2.3.4''" 20 25 0]
    by (simp only: NewRateLimiter_def router_limits_def Let_def list.case RateLimiter.simps RateLimiterConfig.simps) simp
qed

text \<open>Cleaning is invisible. A client forgotten by the cleaning goroutine would by then have a full bucket, so its next
  request is answered, and its bucket left, as if it had been kept: if the cleaning interval is of whole seconds
  and long enough to refill the bucket, as with the limits of the router.\<close>

theorem cleanup_invisible:
  assumes "rounding_ok rnd" and "rc_BurstSize (rl_config rl) = B" and "1 \<le> B" and "B \<le> 2 ^ 53"
    and "rc_CleanupInterval (rl_config rl) = k * second" and "0 \<le> k" and "k \<le> 2 ^ 53" and "of_int B \<le> of_int k * rl_rate rl"
    and "\<forall>c. rl_clients rl key = Some c \<longrightarrow> 0 \<le> ci_tokens c \<and> ci_lastUpdate c \<le> now" and "tick \<le> now"
  shows "fst (rl_Allow rnd now key (rl_cleanup tick rl)) = fst (rl_Allow rnd now key rl)
    \<and> rl_clients (snd (rl_Allow rnd now key (rl_cleanup tick rl))) key = rl_clients (snd (rl_Allow rnd now key rl)) key"
proof -
  let ?rl = "rl_cleanup tick rl"
  have conf: "rl_config ?rl = rl_config rl" "rl_rate ?rl = rl_rate rl" by (simp_all add: rl_cleanup_def Let_def)
  have B: "rnd (of_int B) = of_int B" using assms(1,3,4) by (intro rounding_int) auto
  consider (same) "rl_clients ?rl key = rl_clients rl key"
    | (forgot) c where "rl_clients rl key = Some c" "rl_clients ?rl key = None" "ci_lastUpdate c < tick - k * second"
  proof -
    have "rl_clients ?rl key = (case rl_clients rl key of None \<Rightarrow> None
        | Some c \<Rightarrow> if ci_lastUpdate c < tick - k * second then None else Some c)"
      by (simp add: rl_cleanup_def Let_def assms(5))
    then show thesis using same forgot by (cases "rl_clients rl key") (auto split: if_splits)
  qed
  then show ?thesis
  proof cases
    case same
    then show ?thesis using conf by (simp add: rl_Allow_def Let_def split: option.splits)
  next
    case forgot
    let ?e = "seconds rnd (now - ci_lastUpdate c)"
    have e: "of_int k \<le> ?e" using forgot(3) assms(1,6,7,10) by (intro seconds_whole) auto
    have rate: "0 < rl_rate rl"
    proof (rule ccontr)
      assume "\<not> 0 < rl_rate rl"
      then have "of_int k * rl_rate rl \<le> 0" using assms(6) by (intro mult_nonneg_nonpos) auto
      moreover have "(1 :: rat) \<le> of_int B" using assms(3) by simp
      ultimately show False using assms(8) by linarith
    qed
    have "of_int k * rl_rate rl \<le> ?e * rl_rate rl" using e rate by (intro mult_right_mono) auto
    then have "of_int B \<le> ?e * rl_rate rl" using assms(8) by linarith
    then have "of_int B \<le> rnd (?e * rl_rate rl)" using rounding_mono [OF assms(1)] B by metis
    then have "of_int B \<le> ci_tokens c + rnd (?e * rl_rate rl)" using assms(9) forgot(1) by fastforce
    then have full: "of_int B \<le> rnd (ci_tokens c + rnd (?e * rl_rate rl))" using rounding_mono [OF assms(1)] B by metis
    have one: "(1 :: rat) \<le> of_int B" using assms(3) by simp
    define tokens where "tokens = rnd (ci_tokens c + rnd (?e * rl_rate rl))"
    have "(if tokens > of_int B then of_int B else tokens) = of_int B" using full by (simp add: tokens_def)
    then have "rl_Allow rnd now key rl = (True, rl\<lparr>rl_clients := (rl_clients rl)(key \<mapsto> \<lparr>ci_tokens = rnd (of_int B - 1), ci_lastUpdate = now\<rparr>)\<rparr>)"
      unfolding rl_Allow_def Let_def forgot(1) option.case assms(2) B tokens_def [symmetric] using one by simp
    moreover have "rl_Allow rnd now key ?rl = (True, ?rl\<lparr>rl_clients := (rl_clients ?rl)(key \<mapsto> \<lparr>ci_tokens = rnd (of_int B - 1), ci_lastUpdate = now\<rparr>)\<rparr>)"
      by (simp add: rl_Allow_def Let_def forgot(2) conf assms(2) B)
    ultimately show ?thesis by simp
  qed
qed

theorem cleanup_invisible_witness:
  "let rl = (NewRateLimiter (\<lambda>x. x) [router_limits])\<lparr>rl_clients := [''k'' \<mapsto> int_tokens 0 3]\<rparr>; now = 600 * second in
    rl_clients (rl_cleanup now rl) ''k'' = None
    \<and> fst (rl_Allow (\<lambda>x. x) now ''k'' (rl_cleanup now rl)) = fst (rl_Allow (\<lambda>x. x) now ''k'' rl)"
proof -
  define rl where "rl = (NewRateLimiter (\<lambda>x. x) [router_limits])\<lparr>rl_clients := [''k'' \<mapsto> int_tokens 0 3]\<rparr>"
  have conf: "rc_BurstSize (rl_config rl) = 20" "rc_CleanupInterval (rl_config rl) = 300 * second" "rl_rate rl = 2"
    "rl_clients rl ''k'' = Some (int_tokens 0 3)"
    by (simp_all add: rl_def NewRateLimiter_def router_limits_def DefaultRateLimiterConfig_def)
  have "rl_clients (rl_cleanup (600 * second) rl) ''k'' = None"
    using second_pos by (simp add: rl_cleanup_def conf int_tokens_def)
  moreover have "fst (rl_Allow (\<lambda>x. x) (600 * second) ''k'' (rl_cleanup (600 * second) rl)) = fst (rl_Allow (\<lambda>x. x) (600 * second) ''k'' rl)"
    using cleanup_invisible [OF rounding_exact conf(1) _ _ conf(2), of "''k''" "600 * second" "600 * second"] second_pos
    by (simp add: conf int_tokens_def)
  ultimately show ?thesis by (simp add: rl_def Let_def)
qed

end
