(* ===== verification/TraceHeaders.thy ===== *)
theory TraceHeaders
  imports Middleware HashPkg
begin

text \<open>
  The headers that tell a user what was recorded: \<open>server/internal/middleware/trace_headers.go\<close>.
\<close>

record TraceResponseHeaders =
  th_TraceID :: string
  th_EventCount :: int
  th_PayloadHash :: string
  th_EvidenceHint :: string

definition truncateHash :: "string \<Rightarrow> string" where
  "truncateHash hash = (if length hash > 8 then take 8 hash else hash)"

definition truncateID :: "string \<Rightarrow> string" where
  "truncateID traceID =
     (let traceID = (if hasPrefix traceID ''trc_'' then drop 4 traceID else traceID)
      in if length traceID > 6 then take 6 traceID else traceID)"

fun join_parts :: "string list \<Rightarrow> string" where
  "join_parts [] = ''''"
| "join_parts [p] = p"
| "join_parts (p # q # ps) = p @ '' | '' @ join_parts (q # ps)"

definition summary_parts :: "TraceResponseHeaders \<Rightarrow> string list" where
  "summary_parts h =
     (let parts = [];
          parts = (if th_TraceID h \<noteq> '''' then parts @ [''Traced['' @ truncateID (th_TraceID h) @ '']''] else parts);
          parts = (if th_EventCount h > 0 then parts @ [itoa (th_EventCount h) @ '' events''] else parts)
      in if th_PayloadHash h \<noteq> '''' then parts @ [''hash:'' @ truncateHash (th_PayloadHash h)] else parts)"

definition buildSummary :: "TraceResponseHeaders \<Rightarrow> string" where
  "buildSummary h = (if summary_parts h = [] then '''' else join_parts (summary_parts h))"

definition SetTraceHeaders :: "TraceResponseHeaders \<Rightarrow> gin_ctx \<Rightarrow> gin_ctx" where
  "SetTraceHeaders h c =
     (let c = (if th_TraceID h \<noteq> '''' then c_Header ''X-Trace-Id'' (th_TraceID h) c else c);
          summary = buildSummary h;
          c = (if summary \<noteq> '''' then c_Header ''X-AI-Trace-Summary'' summary c else c);
          c = (if th_EventCount h > 0 then c_Header ''X-AI-Trace-Events'' (itoa (th_EventCount h)) c else c);
          c = (if th_PayloadHash h \<noteq> ''''
               then (let shortHash = (if length (th_PayloadHash h) > 8 then take 8 (th_PayloadHash h) else th_PayloadHash h)
                     in c_Header ''X-AI-Trace-Hash'' shortHash c)
               else c)
      in if th_EvidenceHint h \<noteq> '''' then c_Header ''X-AI-Trace-Hint'' (th_EvidenceHint h) c else c)"

definition TraceHeadersMiddleware :: middleware where
  "TraceHeadersMiddleware c = c_Header ''X-AI-Trace-Version'' ''0.2.0'' (c_Header ''X-Powered-By'' ''AI-Trace'' c)"

definition dquote :: string where "dquote = [CHR 0x22]"

definition squote :: string where "squote = [CHR 0x27]"

definition hint_body :: "string \<Rightarrow> string \<Rightarrow> string" where
  "hint_body traceID evidenceLevel =
     squote @ ''{'' @ dquote @ ''trace_id'' @ dquote @ '':'' @ dquote @ traceID @ dquote @ '','' @ dquote @ ''evidence_level'' @ dquote @ '':''
       @ dquote @ evidenceLevel @ dquote @ ''}'' @ squote"

definition curl_command :: "string \<Rightarrow> string \<Rightarrow> string \<Rightarrow> string \<Rightarrow> string" where
  "curl_command baseURL apiKey traceID evidenceLevel =
     ''curl -X POST '' @ dquote @ baseURL @ ''/api/v1/certs/commit'' @ dquote @ '' -H '' @ dquote @ ''Content-Type: application/json'' @ dquote
       @ '' -H '' @ dquote @ ''X-API-Key: '' @ apiKey @ dquote @ '' -d '' @ hint_body traceID evidenceLevel"

definition BuildCertHint :: "string \<Rightarrow> string \<Rightarrow> string" where
  "BuildCertHint traceID evidenceLevel =
     (let evidenceLevel = (if evidenceLevel = '''' then ''internal'' else evidenceLevel)
      in curl_command ''$AI_TRACE_URL'' ''$AI_TRACE_KEY'' traceID evidenceLevel)"

definition BuildCertHintWithURL :: "string \<Rightarrow> string \<Rightarrow> string \<Rightarrow> string" where
  "BuildCertHintWithURL baseURL traceID evidenceLevel =
     (let evidenceLevel = (if evidenceLevel = '''' then ''internal'' else evidenceLevel);
          baseURL = (if baseURL = '''' then ''http://localhost:8006'' else baseURL)
      in curl_command baseURL ''YOUR_KEY'' traceID evidenceLevel)"

definition CertificateSuggestionHeader :: "string \<Rightarrow> gin_ctx \<Rightarrow> gin_ctx" where
  "CertificateSuggestionHeader traceID c =
     (if traceID = '''' then c else c_Header ''X-AI-Trace-Hint'' (BuildCertHint traceID ''internal'') c)"

definition EvidenceLevelDescriptions :: "string \<rightharpoonup> string" where
  "EvidenceLevelDescriptions =
     [''internal'' \<mapsto> ''Fast, Ed25519 signed, ideal for development and internal audit'',
      ''compliance'' \<mapsto> ''WORM storage + TSA timestamp, for SOC2/GDPR/HIPAA compliance'',
      ''legal'' \<mapsto> ''Blockchain anchored, for legal disputes and court evidence'']"

record QuickStats =
  qs_RequestsToday :: int
  qs_CertsGenerated :: int
  qs_LastCertTime :: string

definition SetStatsHeaders :: "QuickStats option \<Rightarrow> gin_ctx \<Rightarrow> gin_ctx" where
  "SetStatsHeaders stats c =
     (case stats of
        None \<Rightarrow> c
      | Some s \<Rightarrow>
          let c = (if qs_RequestsToday s > 0 then c_Header ''X-AI-Trace-Requests-Today'' (itoa (qs_RequestsToday s)) c else c)
          in if qs_CertsGenerated s > 0 then c_Header ''X-AI-Trace-Certs-Total'' (itoa (qs_CertsGenerated s)) c else c)"

subsection \<open>Lemmas\<close>

lemma SetTraceHeaders_hash:
  "th_PayloadHash h \<noteq> '''' \<Longrightarrow> gc_resp (SetTraceHeaders h c) ''X-AI-Trace-Hash'' = Some (truncateHash (th_PayloadHash h))"
  by (simp add: SetTraceHeaders_def truncateHash_def Let_def if_distrib [of gc_resp])

lemma SetTraceHeaders_simps [simp]:
  "gc_aborted (SetTraceHeaders h c) = gc_aborted c" "gc_status (SetTraceHeaders h c) = gc_status c"
  "gc_keys (SetTraceHeaders h c) = gc_keys c"
  by (simp_all add: SetTraceHeaders_def Let_def)

lemma SetTraceHeaders_trace:
  "th_TraceID h \<noteq> '''' \<Longrightarrow> gc_resp (SetTraceHeaders h c) ''X-Trace-Id'' = Some (th_TraceID h)"
  by (simp add: SetTraceHeaders_def Let_def if_distrib [of gc_resp])

text \<open>
  The hashes of the program start with \<open>sha256:\<close>, so of a hash cut to eight characters one digit is left: two
  payloads show the same short hash as soon as their first digits agree.
\<close>

lemma truncateHash_SHA256: "truncateHash (SHA256 s) = ''sha256:'' @ take 1 (sha256_hex s)"
proof -
  have "length (SHA256 s) > 8" by simp
  moreover have "take 8 (''sha256:'' @ u) = ''sha256:'' @ take 1 u" for u :: string by simp
  ultimately show ?thesis by (simp add: truncateHash_def SHA256_def)
qed

end
