(* ===== verification/Config.thy ===== *)
theory Config
  imports Prelude
begin

text \<open>
  The configuration: \<open>server/internal/config/config.go\<close>. The library viper, which merges defaults, the file and
  environment variables, is an argument of \<open>Load\<close>: what reading the file gives, and the settings it unmarshals
  from the defaults and the bound variables. A default is the pair of a key and a typed value.
\<close>

record SQLiteConfig =
  sq_Path :: string

record AutoCertConfig =
  ac_Enabled :: bool
  ac_DefaultLevel :: string
  ac_Models :: "string list"
  ac_MinTokens :: int
  ac_Schedule :: string

record FeatureConfig =
  ft_BlockchainAnchor :: bool
  ft_FederatedNodes :: bool
  ft_Metrics :: bool
  ft_Reports :: bool

record EthereumConfig =
  et_Enabled :: bool
  et_RPCURL :: string
  et_PrivateKey :: string
  et_ChainID :: int
  et_ContractAddress :: string
  et_GasLimit :: int
  et_MaxGasPrice :: int

record PolygonConfig =
  pg_Enabled :: bool
  pg_RPCURL :: string
  pg_PrivateKey :: string
  pg_ChainID :: int
  pg_ContractAddress :: string

record FederatedConfig =
  fd_Enabled :: bool
  fd_Nodes :: "string list"
  fd_MinConfirmations :: int

record AnchorConfig =
  an_Ethereum :: EthereumConfig
  an_Polygon :: PolygonConfig
  an_Federated :: FederatedConfig

record ServerConfig =
  sv_Port :: int
  sv_Mode :: string

record DatabaseConfig =
  db_Host :: string
  db_Port :: int
  db_User :: string
  db_Password :: string
  db_DBName :: string
  db_SSLMode :: string

record RedisConfig =
  rd_Host :: string
  rd_Port :: int
  rd_Password :: string
  rd_DB :: int

record MinioConfig =
  mn_Endpoint :: string
  mn_AccessKey :: string
  mn_SecretKey :: string
  mn_Bucket :: string
  mn_UseSSL :: bool

record GatewayConfig =
  gw_OpenAI_BaseURL :: string
  gw_OpenAI_APIKey :: string
  gw_Ollama_BaseURL :: string
  gw_Timeout :: int
  gw_MaxRetries :: int

record Config =
  cf_DeployMode :: string
  cf_Server :: ServerConfig
  cf_Database :: DatabaseConfig
  cf_Redis :: RedisConfig
  cf_Minio :: MinioConfig
  cf_SQLite :: SQLiteConfig
  cf_Gateway :: GatewayConfig
  cf_APIKeys :: "string list"
  cf_Anchor :: AnchorConfig
  cf_Features :: FeatureConfig
  cf_AutoCert :: AutoCertConfig

subsection \<open>Validation\<close>

record ValidationError =
  ve_Field :: string
  ve_Message :: string

definition ValidationError_Error :: "ValidationError \<Rightarrow> string" where
  "ValidationError_Error e = ve_Field e @ '': '' @ ve_Message e"

definition newline :: char where "newline = char_of (10 :: nat)"

definition ValidationErrors_Error :: "ValidationError list \<Rightarrow> string" where
  "ValidationErrors_Error errs =
     (if errs = [] then ''''
      else foldl (\<lambda>msg err. msg @ ''  - '' @ ValidationError_Error err @ [newline]) (''config validation failed:'' @ [newline]) errs)"

definition IsSimpleMode :: "Config \<Rightarrow> bool" where
  "IsSimpleMode c \<longleftrightarrow> cf_DeployMode c = ''simple''"

text \<open>\<open>errs = append(errs, ValidationError{field, msg})\<close> under a condition.\<close>

definition check :: "bool \<Rightarrow> string \<Rightarrow> string \<Rightarrow> ValidationError list \<Rightarrow> ValidationError list" where
  "check bad field msg errs = (if bad then errs @ [\<lparr>ve_Field = field, ve_Message = msg\<rparr>] else errs)"

definition bad_port :: "int \<Rightarrow> bool" where
  "bad_port p \<longleftrightarrow> p < 1 \<or> p > 65535"

definition check_server :: "Config \<Rightarrow> ValidationError list" where
  "check_server c =
     (let errs = [];
          errs = check (cf_DeployMode c \<noteq> '''' \<and> cf_DeployMode c \<noteq> ''standard'' \<and> cf_DeployMode c \<noteq> ''simple'')
            ''deploy_mode'' (''must be 'standard' or 'simple'' @ [CHR 0x27]) errs;
          errs = check (bad_port (sv_Port (cf_Server c))) ''server.port'' ''must be between 1 and 65535'' errs
      in check (sv_Mode (cf_Server c) \<noteq> ''debug'' \<and> sv_Mode (cf_Server c) \<noteq> ''release'' \<and> sv_Mode (cf_Server c) \<noteq> ''test'')
            ''server.mode'' (''must be 'debug', 'release', or 'test'' @ [CHR 0x27]) errs)"

definition check_services :: "Config \<Rightarrow> ValidationError list \<Rightarrow> ValidationError list" where
  "check_services c errs =
     (let errs = check (db_Host (cf_Database c) = '''') ''database.host'' ''is required'' errs;
          errs = check (bad_port (db_Port (cf_Database c))) ''database.port'' ''must be between 1 and 65535'' errs;
          errs = check (db_DBName (cf_Database c) = '''') ''database.dbname'' ''is required'' errs;
          errs = check (rd_Host (cf_Redis c) = '''') ''redis.host'' ''is required'' errs;
          errs = check (bad_port (rd_Port (cf_Redis c))) ''redis.port'' ''must be between 1 and 65535'' errs;
          errs = check (mn_Endpoint (cf_Minio c) = '''') ''minio.endpoint'' ''is required'' errs;
          errs = check (mn_Bucket (cf_Minio c) = '''') ''minio.bucket'' ''is required'' errs;
          errs = check (gw_Timeout (cf_Gateway c) < 1) ''gateway.timeout'' ''must be at least 1 second'' errs
      in check (gw_MaxRetries (cf_Gateway c) < 0) ''gateway.max_retries'' ''cannot be negative'' errs)"

definition check_anchors :: "Config \<Rightarrow> ValidationError list \<Rightarrow> ValidationError list" where
  "check_anchors c errs =
     (let errs = (if ft_BlockchainAnchor (cf_Features c) then
              let errs = check (et_Enabled (an_Ethereum (cf_Anchor c)) \<and> et_RPCURL (an_Ethereum (cf_Anchor c)) = '''')
                    ''anchor.ethereum.rpc_url'' ''is required when ethereum anchor is enabled'' errs
              in check (pg_Enabled (an_Polygon (cf_Anchor c)) \<and> pg_RPCURL (an_Polygon (cf_Anchor c)) = '''')
                    ''anchor.polygon.rpc_url'' ''is required when polygon anchor is enabled'' errs
            else errs)
      in if ft_FederatedNodes (cf_Features c) then
           check (fd_MinConfirmations (an_Federated (cf_Anchor c)) < 1) ''anchor.federated.min_confirmations'' ''must be at least 1'' errs
         else errs)"

definition Validate :: "Config \<Rightarrow> ValidationError list" where
  "Validate c =
     (if IsSimpleMode c
      then check (sq_Path (cf_SQLite c) = '''') ''sqlite.path'' ''is required in simple mode'' (check_server c)
      else check_anchors c (check_services c (check_server c)))"

subsection \<open>Loading\<close>

datatype setting = SStr string | SInt int | SBool bool | SList "string list"

definition setDefaults :: "(string \<times> setting) list" where
  "setDefaults =
     [(''deploy_mode'', SStr ''standard''),
      (''server.port'', SInt 8080), (''server.mode'', SStr ''debug''),
      (''sqlite.path'', SStr ''./data/ai-trace.db''),
      (''database.host'', SStr ''localhost''), (''database.port'', SInt 5432), (''database.user'', SStr ''postgres''),
      (''database.password'', SStr ''postgres''), (''database.dbname'', SStr ''ai_trace''), (''database.sslmode'', SStr ''disable''),
      (''redis.host'', SStr ''localhost''), (''redis.port'', SInt 6379), (''redis.password'', SStr ''''), (''redis.db'', SInt 0),
      (''minio.endpoint'', SStr ''localhost:9000''), (''minio.access_key'', SStr ''minioadmin''),
      (''minio.secret_key'', SStr ''minioadmin''), (''minio.bucket'', SStr ''ai-trace''), (''minio.use_ssl'', SBool False),
      (''gateway.openai.base_url'', SStr ''https://api.openai.com/v1''), (''gateway.ollama.base_url'', SStr ''http://localhost:11434''),
      (''gateway.timeout'', SInt 120), (''gateway.max_retries'', SInt 3),
      (''features.blockchain_anchor'', SBool False), (''features.federated_nodes'', SBool False), (''features.metrics'', SBool False),
      (''features.reports'', SBool True),
      (''anchor.ethereum.enabled'', SBool False), (''anchor.ethereum.chain_id'', SInt 1), (''anchor.ethereum.gas_limit'', SInt 100000),
      (''anchor.ethereum.max_gas_price'', SInt 100000000000),
      (''anchor.polygon.enabled'', SBool False), (''anchor.polygon.chain_id'', SInt 137),
      (''anchor.federated.enabled'', SBool False), (''anchor.federated.min_confirmations'', SInt 2),
      (''auto_cert.enabled'', SBool False), (''auto_cert.default_level'', SStr ''internal''),
      (''auto_cert.models'', SList [''gpt-4'', ''claude-3-opus'']), (''auto_cert.min_tokens'', SInt 2000),
      (''auto_cert.schedule'', SStr ''daily'')]"

definition bound_env :: "(string \<times> string) list" where
  "bound_env = [(''deploy_mode'', ''AI_TRACE_MODE''), (''sqlite.path'', ''AI_TRACE_DB_PATH''), (''server.port'', ''AI_TRACE_PORT''),
     (''auth.api_keys'', ''AI_TRACE_DEFAULT_API_KEY'')]"

datatype read_result = FileRead | FileNotFound | FileBroken

datatype config_error = ReadFailed | UnmarshalFailed | Invalid "ValidationError list"

definition Load :: "read_result \<Rightarrow> ((string \<times> setting) list \<Rightarrow> (string \<times> string) list \<Rightarrow> Config option) \<Rightarrow> (config_error, Config) outcome" where
  "Load read unmarshal =
     (if read = FileBroken then Err ReadFailed
      else case unmarshal setDefaults bound_env of
          None \<Rightarrow> Err UnmarshalFailed
        | Some cfg \<Rightarrow> if Validate cfg \<noteq> [] then Err (Invalid (Validate cfg)) else Ok cfg)"

text \<open>
  The record that a list of settings unmarshals to when nothing else is set: a key that is absent, or has another
  type, leaves the zero value. \<open>uint64\<close> settings are not negative here.
\<close>

definition str_of :: "(string \<times> setting) list \<Rightarrow> string \<Rightarrow> string" where
  "str_of kvs k = (case map_of kvs k of Some (SStr s) \<Rightarrow> s | _ \<Rightarrow> '''')"

definition int_of :: "(string \<times> setting) list \<Rightarrow> string \<Rightarrow> int" where
  "int_of kvs k = (case map_of kvs k of Some (SInt i) \<Rightarrow> i | _ \<Rightarrow> 0)"

definition bool_of :: "(string \<times> setting) list \<Rightarrow> string \<Rightarrow> bool" where
  "bool_of kvs k = (case map_of kvs k of Some (SBool b) \<Rightarrow> b | _ \<Rightarrow> False)"

definition list_of :: "(string \<times> setting) list \<Rightarrow> string \<Rightarrow> string list" where
  "list_of kvs k = (case map_of kvs k of Some (SList l) \<Rightarrow> l | _ \<Rightarrow> [])"

definition unmarshal_settings :: "(string \<times> setting) list \<Rightarrow> Config" where
  "unmarshal_settings kvs =
     \<lparr>cf_DeployMode = str_of kvs ''deploy_mode'',
      cf_Server = \<lparr>sv_Port = int_of kvs ''server.port'', sv_Mode = str_of kvs ''server.mode''\<rparr>,
      cf_Database = \<lparr>db_Host = str_of kvs ''database.host'', db_Port = int_of kvs ''database.port'', db_User = str_of kvs ''database.user'',
        db_Password = str_of kvs ''database.password'', db_DBName = str_of kvs ''database.dbname'', db_SSLMode = str_of kvs ''database.sslmode''\<rparr>,
      cf_Redis = \<lparr>rd_Host = str_of kvs ''redis.host'', rd_Port = int_of kvs ''redis.port'', rd_Password = str_of kvs ''redis.password'',
        rd_DB = int_of kvs ''redis.db''\<rparr>,
      cf_Minio = \<lparr>mn_Endpoint = str_of kvs ''minio.endpoint'', mn_AccessKey = str_of kvs ''minio.access_key'',
        mn_SecretKey = str_of kvs ''minio.secret_key'', mn_Bucket = str_of kvs ''minio.bucket'', mn_UseSSL = bool_of kvs ''minio.use_ssl''\<rparr>,
      cf_SQLite = \<lparr>sq_Path = str_of kvs ''sqlite.path''\<rparr>,
      cf_Gateway = \<lparr>gw_OpenAI_BaseURL = str_of kvs ''gateway.openai.base_url'', gw_OpenAI_APIKey = str_of kvs ''gateway.openai.api_key'',
        gw_Ollama_BaseURL = str_of kvs ''gateway.ollama.base_url'', gw_Timeout = int_of kvs ''gateway.timeout'',
        gw_MaxRetries = int_of kvs ''gateway.max_retries''\<rparr>,
      cf_APIKeys = list_of kvs ''auth.api_keys'',
      cf_Anchor =
        \<lparr>an_Ethereum = \<lparr>et_Enabled = bool_of kvs ''anchor.ethereum.enabled'', et_RPCURL = str_of kvs ''anchor.ethereum.rpc_url'',
           et_PrivateKey = str_of kvs ''anchor.ethereum.private_key'', et_ChainID = int_of kvs ''anchor.ethereum.chain_id'',
           et_ContractAddress = str_of kvs ''anchor.ethereum.contract_address'',
           et_GasLimit = int_of kvs ''anchor.ethereum.gas_limit'', et_MaxGasPrice = int_of kvs ''anchor.ethereum.max_gas_price''\<rparr>,
         an_Polygon = \<lparr>pg_Enabled = bool_of kvs ''anchor.polygon.enabled'', pg_RPCURL = str_of kvs ''anchor.polygon.rpc_url'',
           pg_PrivateKey = str_of kvs ''anchor.polygon.private_key'', pg_ChainID = int_of kvs ''anchor.polygon.chain_id'',
           pg_ContractAddress = str_of kvs ''anchor.polygon.contract_address''\<rparr>,
         an_Federated = \<lparr>fd_Enabled = bool_of kvs ''anchor.federated.enabled'', fd_Nodes = list_of kvs ''anchor.federated.nodes'',
           fd_MinConfirmations = int_of kvs ''anchor.federated.min_confirmations''\<rparr>\<rparr>,
      cf_Features = \<lparr>ft_BlockchainAnchor = bool_of kvs ''features.blockchain_anchor'', ft_FederatedNodes = bool_of kvs ''features.federated_nodes'',
        ft_Metrics = bool_of kvs ''features.metrics'', ft_Reports = bool_of kvs ''features.reports''\<rparr>,
      cf_AutoCert = \<lparr>ac_Enabled = bool_of kvs ''auto_cert.enabled'', ac_DefaultLevel = str_of kvs ''auto_cert.default_level'',
        ac_Models = list_of kvs ''auto_cert.models'', ac_MinTokens = int_of kvs ''auto_cert.min_tokens'',
        ac_Schedule = str_of kvs ''auto_cert.schedule''\<rparr>\<rparr>"

subsection \<open>What a valid configuration is\<close>

definition valid_port :: "int \<Rightarrow> bool" where
  "valid_port p \<longleftrightarrow> 1 \<le> p \<and> p \<le> 65535"

definition valid_services :: "Config \<Rightarrow> bool" where
  "valid_services c \<longleftrightarrow>
     valid_port (db_Port (cf_Database c)) \<and> valid_port (rd_Port (cf_Redis c))
     \<and> '''' \<notin> {db_Host (cf_Database c), db_DBName (cf_Database c), rd_Host (cf_Redis c), mn_Endpoint (cf_Minio c), mn_Bucket (cf_Minio c)}
     \<and> 1 \<le> gw_Timeout (cf_Gateway c) \<and> 0 \<le> gw_MaxRetries (cf_Gateway c)"

definition valid_anchors :: "Config \<Rightarrow> bool" where
  "valid_anchors c \<longleftrightarrow>
     (ft_BlockchainAnchor (cf_Features c) \<longrightarrow>
        (et_Enabled (an_Ethereum (cf_Anchor c)) \<longrightarrow> et_RPCURL (an_Ethereum (cf_Anchor c)) \<noteq> '''')
        \<and> (pg_Enabled (an_Polygon (cf_Anchor c)) \<longrightarrow> pg_RPCURL (an_Polygon (cf_Anchor c)) \<noteq> ''''))
     \<and> (ft_FederatedNodes (cf_Features c) \<longrightarrow> 1 \<le> fd_MinConfirmations (an_Federated (cf_Anchor c)))"

definition valid_config :: "Config \<Rightarrow> bool" where
  "valid_config c \<longleftrightarrow>
     valid_port (sv_Port (cf_Server c)) \<and> sv_Mode (cf_Server c) \<in> {''debug'', ''release'', ''test''}
     \<and> (if cf_DeployMode c = ''simple'' then sq_Path (cf_SQLite c) \<noteq> ''''
        else cf_DeployMode c \<in> {'''', ''standard''} \<and> valid_services c \<and> valid_anchors c)"

lemma bad_port_iff: "bad_port p \<longleftrightarrow> \<not> valid_port p"
  by (auto simp: bad_port_def valid_port_def)

lemma check_Nil [simp]: "check bad field msg errs = [] \<longleftrightarrow> \<not> bad \<and> errs = []"
  by (simp add: check_def)

lemma check_server_Nil:
  "check_server c = [] \<longleftrightarrow> valid_port (sv_Port (cf_Server c)) \<and> sv_Mode (cf_Server c) \<in> {''debug'', ''release'', ''test''}
     \<and> cf_DeployMode c \<in> {'''', ''standard'', ''simple''}"
  by (auto simp: check_server_def bad_port_iff Let_def)

lemma check_services_Nil: "check_services c errs = [] \<longleftrightarrow> errs = [] \<and> valid_services c"
  unfolding check_services_def Let_def check_Nil bad_port_iff valid_services_def not_less by auto

lemma check_anchors_Nil: "check_anchors c errs = [] \<longleftrightarrow> errs = [] \<and> valid_anchors c"
  by (auto simp: check_anchors_def valid_anchors_def Let_def)

lemma Validate_Nil: "Validate c = [] \<longleftrightarrow> valid_config c"
  by (auto simp: Validate_def check_server_Nil check_services_Nil check_anchors_Nil valid_config_def IsSimpleMode_def)

lemma check_append: "check bad f msg errs = errs @ check bad f msg []"
  by (simp add: check_def)

text \<open>Each check names a field of its own, so no field is reported twice.\<close>

definition reports_within :: "string list \<Rightarrow> ValidationError list \<Rightarrow> bool" where
  "reports_within fs errs \<longleftrightarrow> distinct fs \<and> distinct (map ve_Field errs) \<and> set (map ve_Field errs) \<subseteq> set fs"

lemma reports_check:
  "reports_within fs errs \<Longrightarrow> f \<notin> set fs \<Longrightarrow> reports_within (fs @ [f]) (check bad f msg errs)"
  by (auto simp: reports_within_def check_def)

lemma reports_mono: "reports_within fs errs \<Longrightarrow> distinct (fs @ gs) \<Longrightarrow> reports_within (fs @ gs) errs"
  by (auto simp: reports_within_def)

definition server_fields :: "string list" where
  "server_fields = [''deploy_mode'', ''server.port'', ''server.mode'']"

definition service_fields :: "string list" where
  "service_fields = server_fields @ [''database.host'', ''database.port'', ''database.dbname'', ''redis.host'', ''redis.port'',
     ''minio.endpoint'', ''minio.bucket'', ''gateway.timeout'', ''gateway.max_retries'']"

lemma reports_server: "reports_within server_fields (check_server c)"
proof -
  have "reports_within [] []" by (simp add: reports_within_def)
  from reports_check [OF reports_check [OF reports_check [OF this]]] show ?thesis
    unfolding check_server_def server_fields_def Let_def by simp
qed

lemma reports_services:
  assumes "reports_within server_fields errs"
  shows "reports_within service_fields (check_services c errs)"
  unfolding check_services_def service_fields_def server_fields_def Let_def
  using reports_check [OF reports_check [OF reports_check [OF reports_check [OF reports_check [OF reports_check [OF
    reports_check [OF reports_check [OF reports_check [OF assms]]]]]]]]]
  by (simp add: server_fields_def)

lemma reports_anchors:
  assumes "reports_within service_fields errs"
  shows "distinct (map ve_Field (check_anchors c errs)) \<and> set (map ve_Field (check_anchors c errs))
    \<subseteq> set service_fields \<union> {''anchor.ethereum.rpc_url'', ''anchor.polygon.rpc_url'', ''anchor.federated.min_confirmations''}"
proof -
  have "f \<notin> set (map ve_Field errs)"
    if "f \<in> {''anchor.ethereum.rpc_url'', ''anchor.polygon.rpc_url'', ''anchor.federated.min_confirmations''}" for f
  proof -
    have "f \<notin> set service_fields" using that by (auto simp: service_fields_def server_fields_def)
    then show ?thesis using assms by (auto simp: reports_within_def)
  qed
  then show ?thesis using assms unfolding reports_within_def check_anchors_def check_def Let_def by auto
qed

lemma ValidationErrors_Error_eq:
  "errs \<noteq> [] \<Longrightarrow> ValidationErrors_Error errs =
     ''config validation failed:'' @ newline # concat (map (\<lambda>e. ''  - '' @ ve_Field e @ '': '' @ ve_Message e @ [newline]) errs)"
proof -
  have "foldl (\<lambda>msg err. msg @ ''  - '' @ ValidationError_Error err @ [newline]) acc errs
      = acc @ concat (map (\<lambda>e. ''  - '' @ ve_Field e @ '': '' @ ve_Message e @ [newline]) errs)" for acc
    by (induction errs arbitrary: acc) (simp_all add: ValidationError_Error_def)
  then show "errs \<noteq> [] \<Longrightarrow> ?thesis" by (simp add: ValidationErrors_Error_def)
qed

lemma default_config_valid: "valid_config (unmarshal_settings setDefaults)"
  by code_simp

subsection \<open>Properties\<close>

text \<open>A configuration is loaded exactly if the file is absent or readable, it unmarshals, and it is valid; otherwise the
  answer is an error, and a report on an invalid one names every field at most once. In simple mode only the mode,
  the server and the path of the database count: the gateway's timeout and retries are not checked. The defaults
  alone load, in standard mode.\<close>

theorem Load_correct:
  "(Load read unmarshal = Ok cfg \<longleftrightarrow> read \<noteq> FileBroken \<and> unmarshal setDefaults bound_env = Some cfg \<and> valid_config cfg)
   \<and> Load read unmarshal \<noteq> Panic
   \<and> (Load read unmarshal = Err (Invalid errs) \<longrightarrow> errs \<noteq> [] \<and> distinct (map ve_Field errs))
   \<and> Load FileNotFound (\<lambda>kvs env. Some (unmarshal_settings kvs)) = Ok (unmarshal_settings setDefaults)
   \<and> \<not> IsSimpleMode (unmarshal_settings setDefaults)
   \<and> (IsSimpleMode cfg \<longrightarrow> Validate (cfg\<lparr>cf_Gateway := g, cf_Database := d, cf_Redis := r, cf_Minio := m, cf_Anchor := a\<rparr>) = Validate cfg)"
proof (intro conjI impI)
  show "Load read unmarshal = Ok cfg \<longleftrightarrow> read \<noteq> FileBroken \<and> unmarshal setDefaults bound_env = Some cfg \<and> valid_config cfg"
    by (auto simp: Load_def Validate_Nil split: option.splits if_splits)
  show "Load read unmarshal \<noteq> Panic" by (simp add: Load_def split: option.splits)
  have distinct: "distinct (map ve_Field (Validate c))" for c
  proof (cases "IsSimpleMode c")
    case True
    have "reports_within (server_fields @ [''sqlite.path'']) (Validate c)"
      using True reports_check [OF reports_server, of "''sqlite.path''"] by (simp add: Validate_def server_fields_def)
    then show ?thesis by (simp add: reports_within_def)
  next
    case False
    then show ?thesis using reports_anchors [OF reports_services [OF reports_server [of c]], of c c] by (simp add: Validate_def)
  qed
  then show "distinct (map ve_Field errs)" if "Load read unmarshal = Err (Invalid errs)"
    using that by (auto simp: Load_def split: option.splits if_splits)
  show "errs \<noteq> []" if "Load read unmarshal = Err (Invalid errs)"
    using that by (auto simp: Load_def split: option.splits if_splits)
  show "Load FileNotFound (\<lambda>kvs env. Some (unmarshal_settings kvs)) = Ok (unmarshal_settings setDefaults)"
    by (simp add: Load_def Validate_Nil default_config_valid)
  show "\<not> IsSimpleMode (unmarshal_settings setDefaults)"
    by (simp add: IsSimpleMode_def unmarshal_settings_def setDefaults_def str_of_def)
  show "Validate (cfg\<lparr>cf_Gateway := g, cf_Database := d, cf_Redis := r, cf_Minio := m, cf_Anchor := a\<rparr>) = Validate cfg" if "IsSimpleMode cfg"
    using that by (simp add: Validate_def IsSimpleMode_def check_server_def)
qed

theorem Load_correct_witness:
  "\<exists>errs. Load FileRead (\<lambda>kvs env. Some (unmarshal_settings [])) = Err (Invalid errs) \<and> distinct (map ve_Field errs)"
proof -
  have "\<not> valid_config (unmarshal_settings [])" by (simp add: valid_config_def valid_port_def unmarshal_settings_def int_of_def)
  then obtain errs where "Load FileRead (\<lambda>kvs env. Some (unmarshal_settings [])) = Err (Invalid errs)"
    by (simp add: Load_def Validate_Nil)
  then show ?thesis using Load_correct [of FileRead "\<lambda>kvs env. Some (unmarshal_settings [])" _ errs] by blast
qed

end
