(* ===== verification/Router.thy ===== *)
theory Router
  imports TraceHeaders Config Evidence KeyStore Federated
begin

text \<open>
  The router: \<open>server/internal/api/router.go\<close>. It builds the handler from the configuration and the environment
  and puts the middleware, the authentication and the routes together. From outside come the two environment
  variables, whether the report templates parse, and the key pair of the federated node; gin's own \<open>Recovery\<close>
  and \<open>Logger\<close>, the metrics middleware and the Swagger pages do not change the fields of a request.
\<close>

subsection \<open>The handler\<close>

record handler =
  hd_config :: Config.Config
  hd_limiter :: RateLimiter
  hd_autoCertEval :: AutoCertStrategy
  hd_keystore :: "MemoryKeyStore option"
  hd_reports :: bool
  hd_federated :: "FederatedAnchor option"

definition auto_cert_strategy :: "AutoCertConfig \<Rightarrow> AutoCertStrategy option" where
  "auto_cert_strategy ac =
     (if ac_Enabled ac then
        Some \<lparr>Enabled = True, DefaultLevel = ParseEvidenceLevel (ac_DefaultLevel ac),
          Triggers =
            [\<lparr>tg_Type = ''model'', tg_Condition = no_condition\<lparr>Models := ac_Models ac\<rparr>,
              tg_Level = ParseEvidenceLevel (ac_DefaultLevel ac), tg_Description = ''Auto-cert for configured models''\<rparr>,
             \<lparr>tg_Type = ''token_count'', tg_Condition = no_condition\<lparr>MinTokens := ac_MinTokens ac\<rparr>,
              tg_Level = EvidenceLevelInternal, tg_Description = ''Auto-cert for large responses''\<rparr>],
          Schedule = None\<rparr>
      else None)"

definition default_kek :: string where
  "default_kek = ''0123456789abcdef0123456789abcdef0123456789abcdef0123456789abcdef''"

definition kek_string :: "string \<Rightarrow> string \<Rightarrow> string" where
  "kek_string env_kek gin_mode = (if env_kek = '''' then (if gin_mode = ''release'' then '''' else default_kek) else env_kek)"

definition anchor_config :: "Config.FederatedConfig \<Rightarrow> Federated.Config" where
  "anchor_config fd =
     \<lparr>EthereumRPCURL = '''', EthereumPrivateKey = '''', EthereumChainID = 0, PolygonRPCURL = '''', PolygonPrivateKey = '''',
      PolygonChainID = 0, ContractAddress = '''', FederatedNodes = fd_Nodes fd, MinConfirmations = fd_MinConfirmations fd,
      GasLimit = 0, MaxGasPrice = 0, RetryAttempts = 0, RetryDelay = 0\<rparr>"

definition NewRouter :: "(rat \<Rightarrow> rat) \<Rightarrow> string \<Rightarrow> string \<Rightarrow> bool \<Rightarrow> (bytes \<times> bytes) option \<Rightarrow> Config.Config \<Rightarrow> handler" where
  "NewRouter rnd env_kek gin_mode templates_ok key_pair cfg =
     \<lparr>hd_config = cfg,
      hd_limiter = NewRateLimiter rnd [\<lparr>rc_RequestsPerMinute = 120, rc_BurstSize = 20, rc_CleanupInterval = 0\<rparr>],
      hd_autoCertEval = NewAutoCertEvaluator (auto_cert_strategy (cf_AutoCert cfg)),
      hd_keystore = (case NewMemoryKeyStoreFromString (kek_string env_kek gin_mode) of Ok ks \<Rightarrow> Some ks | _ \<Rightarrow> None),
      hd_reports = (ft_Reports (cf_Features cfg) \<and> templates_ok),
      hd_federated =
        (if ft_FederatedNodes (cf_Features cfg) \<and> length (fd_Nodes (an_Federated (cf_Anchor cfg))) > 0
         then (case NewFederatedAnchor (anchor_config (an_Federated (cf_Anchor cfg))) key_pair of Ok f \<Rightarrow> Some f | _ \<Rightarrow> None)
         else None)\<rparr>"

subsection \<open>Authentication\<close>

definition presented_key :: "gin_ctx \<Rightarrow> string" where
  "presented_key c =
     (let apiKey = GetHeader c ''X-API-Key'' in
      if apiKey = '''' then
        (let apiKey = GetHeader c ''Authorization'' in
         if length apiKey > 7 \<and> take 7 apiKey = ''Bearer '' then drop 7 apiKey else apiKey)
      else apiKey)"

definition AuthMiddleware :: "string list \<Rightarrow> middleware" where
  "AuthMiddleware api_keys c =
     (let valid = list_ex (\<lambda>key. key = presented_key c) api_keys in
      if \<not> valid \<and> length api_keys > 0 then abort_with 401 c
      else let tenantID = GetHeader c ''X-Tenant-ID'';
               tenantID = (if tenantID = '''' then ''default'' else tenantID)
           in c_Set ''user_id'' (GetHeader c ''X-User-ID'') (c_Set ''tenant_id'' tenantID c))"

subsection \<open>The chain of a request\<close>

text \<open>What a request meets before the limiter, on every route; \<open>stamp\<close> and \<open>clock\<close> are for the request id.\<close>

definition front_chain :: "string \<Rightarrow> (nat \<Rightarrow> nat) \<Rightarrow> middleware list" where
  "front_chain stamp clock = [SecurityHeaders, CORS [], RequestID stamp clock, TraceHeadersMiddleware]"

definition api_request :: "(rat \<Rightarrow> rat) \<Rightarrow> int \<Rightarrow> string \<Rightarrow> (nat \<Rightarrow> nat) \<Rightarrow> handler \<Rightarrow> gin_ctx \<Rightarrow> gin_ctx \<times> handler" where
  "api_request rnd now stamp clock h c =
     (let c = run_chain (front_chain stamp clock) c in
      if gc_aborted c then (c, h)
      else let (c, limiter) = RateLimit rnd now (hd_limiter h) c; h = h\<lparr>hd_limiter := limiter\<rparr>
           in if gc_aborted c then (c, h) else (AuthMiddleware (cf_APIKeys (hd_config h)) c, h))"

subsection \<open>Routes\<close>

datatype operation =
    h_Health | h_HealthDetailed | h_Ready | h_Live | h_Swagger | h_GettingStarted | h_ChatCompletions | h_ChatCompletionsStream
  | h_IngestEvents | h_SearchEvents | h_GetEvent | h_CommitCert | h_VerifyCert | h_SearchCerts | h_GetCert | h_GenerateProof
  | h_GenerateReport | h_GetFingerprint | h_CompareFingerprints | h_VerifyFingerprint | h_DecryptContent | h_GetDecryptAuditLogs
  | h_FederatedConfirm | h_FederatedVerify | h_NodeInfo | h_ListNodes | h_RegisterNode | h_ListTrustedNodes | h_TrustNode | h_UntrustNode

definition public_routes :: "(string \<times> string \<times> operation) list" where
  "public_routes =
     [(''GET'', ''/health'', h_Health), (''GET'', ''/health/detailed'', h_HealthDetailed), (''GET'', ''/ready'', h_Ready),
      (''GET'', ''/live'', h_Live), (''GET'', ''/swagger/*any'', h_Swagger)]"

definition v1_routes :: "(string \<times> string \<times> operation) list" where
  "v1_routes =
     [(''GET'', ''/getting-started'', h_GettingStarted),
      (''POST'', ''/chat/completions'', h_ChatCompletions), (''POST'', ''/chat/completions/stream'', h_ChatCompletionsStream),
      (''POST'', ''/events/ingest'', h_IngestEvents), (''GET'', ''/events/search'', h_SearchEvents), (''GET'', ''/events/:event_id'', h_GetEvent),
      (''POST'', ''/certs/commit'', h_CommitCert), (''POST'', ''/certs/verify'', h_VerifyCert), (''GET'', ''/certs/search'', h_SearchCerts),
      (''GET'', ''/certs/:cert_id'', h_GetCert), (''POST'', ''/certs/:cert_id/prove'', h_GenerateProof),
      (''POST'', ''/reports/generate'', h_GenerateReport),
      (''GET'', ''/fingerprints/:trace_id'', h_GetFingerprint), (''POST'', ''/fingerprints/compare'', h_CompareFingerprints),
      (''POST'', ''/fingerprints/verify'', h_VerifyFingerprint),
      (''POST'', ''/decrypt'', h_DecryptContent), (''GET'', ''/decrypt/audit'', h_GetDecryptAuditLogs)]"

definition federated_routes :: "(string \<times> string \<times> operation) list" where
  "federated_routes =
     [(''POST'', ''/federated/confirm'', h_FederatedConfirm), (''GET'', ''/federated/verify/:anchor_id'', h_FederatedVerify),
      (''GET'', ''/federated/node/info'', h_NodeInfo), (''GET'', ''/federated/nodes'', h_ListNodes),
      (''POST'', ''/federated/nodes/register'', h_RegisterNode), (''GET'', ''/federated/nodes/trusted'', h_ListTrustedNodes),
      (''POST'', ''/federated/nodes/trust'', h_TrustNode), (''DELETE'', ''/federated/nodes/trust/:node_id'', h_UntrustNode)]"

definition routes :: "handler \<Rightarrow> (string \<times> string \<times> operation) list" where
  "routes h = public_routes @ map (\<lambda>(m, p, h). (m, ''/api/v1'' @ p, h))
     (v1_routes @ (if hd_federated h \<noteq> None then federated_routes else []))"

subsection \<open>Lemmas\<close>

lemma GetHeader_cong: "gc_header c = gc_header d \<Longrightarrow> GetHeader c k = GetHeader d k"
  by (simp add: GetHeader_def)

lemma c_Set_simps [simp]:
  "gc_resp (c_Set k v c) = gc_resp c" "gc_aborted (c_Set k v c) = gc_aborted c" "gc_header (c_Set k v c) = gc_header c"
  "gc_Method (c_Set k v c) = gc_Method c" "gc_status (c_Set k v c) = gc_status c" "gc_ClientIP (c_Set k v c) = gc_ClientIP c"
  "GetString (c_Set k v c) j = (if j = k then v else GetString c j)"
  by (simp_all add: c_Set_def GetString_def)

lemma abort_with_header [simp]: "gc_header (abort_with s c) = gc_header c" "gc_Method (abort_with s c) = gc_Method c"
  by (simp_all add: abort_with_def)

lemma CORS_header [simp]: "gc_header (CORS cfgs c) = gc_header c"
  by (simp add: CORS_def Let_def if_distrib [of gc_header])

lemma CORS_ClientIP [simp]: "gc_ClientIP (CORS cfgs c) = gc_ClientIP c"
  by (simp add: CORS_def Let_def abort_with_def if_distrib [of gc_ClientIP])

lemma CORS_Method [simp]: "gc_Method (CORS cfgs c) = gc_Method c"
  by (simp add: CORS_def Let_def if_distrib [of gc_Method])

lemma CORS_aborted [simp]: "gc_aborted (CORS cfgs c) \<longleftrightarrow> gc_aborted c \<or> gc_Method c = ''OPTIONS''"
  by (simp add: CORS_def Let_def if_distrib [of gc_Method] if_distrib [of gc_aborted])

lemma CORS_status [simp]: "gc_status (CORS cfgs c) = (if gc_Method c = ''OPTIONS'' then Some 204 else gc_status c)"
  by (simp add: CORS_def Let_def if_distrib [of gc_Method] if_distrib [of gc_status])

lemma CORS_frame [simp]: "gc_resp (CORS cfgs c) ''X-Frame-Options'' = gc_resp c ''X-Frame-Options''"
  by (simp add: CORS_def Let_def if_distrib [of gc_resp])

text \<open>What the front of the chain keeps, and which headers it sets.\<close>

definition front_keeps :: "gin_ctx \<Rightarrow> gin_ctx \<Rightarrow> bool" where
  "front_keeps c d \<longleftrightarrow> gc_header d = gc_header c \<and> gc_Method d = gc_Method c \<and> gc_ClientIP d = gc_ClientIP c
     \<and> gc_resp d ''X-Frame-Options'' = Some ''DENY''"

lemma front_chain_run:
  assumes "\<not> gc_aborted c"
  shows "front_keeps c (run_chain (front_chain stamp clock) c)"
    and "gc_aborted (run_chain (front_chain stamp clock) c) \<longleftrightarrow> gc_Method c = ''OPTIONS''"
    and "gc_status (run_chain (front_chain stamp clock) c) = (if gc_Method c = ''OPTIONS'' then Some 204 else gc_status c)"
proof -
  have sec: "front_keeps c (SecurityHeaders c)" "gc_aborted (SecurityHeaders c) = gc_aborted c" "gc_status (SecurityHeaders c) = gc_status c"
    "gc_Method (SecurityHeaders c) = gc_Method c"
    by (simp_all add: SecurityHeaders_def front_keeps_def)
  have cors: "front_keeps c (CORS [] d)" if "front_keeps c d" for d
    using that by (simp add: front_keeps_def)
  have reqid: "front_keeps c (RequestID stamp clock d)" "gc_aborted (RequestID stamp clock d) = gc_aborted d"
    "gc_status (RequestID stamp clock d) = gc_status d" if "front_keeps c d" for d
    using that by (simp_all add: RequestID_def Let_def front_keeps_def)
  have th: "front_keeps c (TraceHeadersMiddleware d)" "gc_aborted (TraceHeadersMiddleware d) = gc_aborted d"
    "gc_status (TraceHeadersMiddleware d) = gc_status d" if "front_keeps c d" for d
    using that by (simp_all add: TraceHeadersMiddleware_def front_keeps_def)
  show "front_keeps c (run_chain (front_chain stamp clock) c)"
    and "gc_aborted (run_chain (front_chain stamp clock) c) \<longleftrightarrow> gc_Method c = ''OPTIONS''"
    and "gc_status (run_chain (front_chain stamp clock) c) = (if gc_Method c = ''OPTIONS'' then Some 204 else gc_status c)"
    using assms sec cors reqid th by (simp_all add: front_chain_def Let_def)
qed

lemma front_keeps_keys:
  assumes "front_keeps c d"
  shows "limit_key d = limit_key c" and "presented_key d = presented_key c" and "GetHeader d k = GetHeader c k"
  using assms by (simp_all add: front_keeps_def limit_key_def presented_key_def GetHeader_def Let_def)

lemma AuthMiddleware_cases:
  "AuthMiddleware ks c = (if ks \<noteq> [] \<and> presented_key c \<notin> set ks then abort_with 401 c
     else c_Set ''user_id'' (GetHeader c ''X-User-ID'')
       (c_Set ''tenant_id'' (if GetHeader c ''X-Tenant-ID'' = '''' then ''default'' else GetHeader c ''X-Tenant-ID'') c))"
  by (auto simp: AuthMiddleware_def list_ex_iff Let_def)

text \<open>The answer of the chain to a request, before its handler.\<close>

definition gate_status :: "(rat \<Rightarrow> rat) \<Rightarrow> int \<Rightarrow> handler \<Rightarrow> gin_ctx \<Rightarrow> int option" where
  "gate_status rnd now h c =
     (if gc_Method c = ''OPTIONS'' then Some 204
      else if \<not> fst (rl_Allow rnd now (limit_key c) (hd_limiter h)) then Some 429
      else if cf_APIKeys (hd_config h) \<noteq> [] \<and> presented_key c \<notin> set (cf_APIKeys (hd_config h)) then Some 401
      else None)"

lemma api_request_cases:
  assumes "\<not> gc_aborted c"
  shows "\<exists>d. front_keeps c d \<and> gc_status d = (if gc_Method c = ''OPTIONS'' then Some 204 else gc_status c)
    \<and> gc_aborted d = (gc_Method c = ''OPTIONS'')
    \<and> api_request rnd now stamp clock h c =
      (if gc_Method c = ''OPTIONS'' then (d, h)
       else if \<not> fst (rl_Allow rnd now (limit_key c) (hd_limiter h))
         then (abort_with 429 d, h\<lparr>hd_limiter := snd (rl_Allow rnd now (limit_key c) (hd_limiter h))\<rparr>)
       else (AuthMiddleware (cf_APIKeys (hd_config h)) d, h\<lparr>hd_limiter := snd (rl_Allow rnd now (limit_key c) (hd_limiter h))\<rparr>))"
proof -
  let ?d = "run_chain (front_chain stamp clock) c"
  note run = front_chain_run [OF assms, of stamp clock]
  have key: "limit_key ?d = limit_key c" by (rule front_keeps_keys [OF run(1)])
  have "api_request rnd now stamp clock h c =
      (if gc_Method c = ''OPTIONS'' then (?d, h)
       else if \<not> fst (rl_Allow rnd now (limit_key c) (hd_limiter h))
         then (abort_with 429 ?d, h\<lparr>hd_limiter := snd (rl_Allow rnd now (limit_key c) (hd_limiter h))\<rparr>)
       else (AuthMiddleware (cf_APIKeys (hd_config h)) ?d, h\<lparr>hd_limiter := snd (rl_Allow rnd now (limit_key c) (hd_limiter h))\<rparr>))"
    using run(2) by (simp add: api_request_def RateLimit_def key split_beta Let_def)
  then show ?thesis using run by blast
qed

lemma api_gate_status:
  assumes "\<not> gc_aborted c" and "gc_status c = None"
  shows "gc_status (fst (api_request rnd now stamp clock h c)) = gate_status rnd now h c"
    and "gc_aborted (fst (api_request rnd now stamp clock h c)) \<longleftrightarrow> gate_status rnd now h c \<noteq> None"
    and "gate_status rnd now h c = None \<Longrightarrow> GetString (fst (api_request rnd now stamp clock h c)) ''tenant_id''
      = (if GetHeader c ''X-Tenant-ID'' = '''' then ''default'' else GetHeader c ''X-Tenant-ID'')"
    and "gc_resp (fst (api_request rnd now stamp clock h c)) ''X-Frame-Options'' = Some ''DENY''"
proof -
  obtain d where d: "front_keeps c d" "gc_status d = (if gc_Method c = ''OPTIONS'' then Some 204 else gc_status c)"
    "gc_aborted d = (gc_Method c = ''OPTIONS'')" and req: "api_request rnd now stamp clock h c =
      (if gc_Method c = ''OPTIONS'' then (d, h)
       else if \<not> fst (rl_Allow rnd now (limit_key c) (hd_limiter h))
         then (abort_with 429 d, h\<lparr>hd_limiter := snd (rl_Allow rnd now (limit_key c) (hd_limiter h))\<rparr>)
       else (AuthMiddleware (cf_APIKeys (hd_config h)) d, h\<lparr>hd_limiter := snd (rl_Allow rnd now (limit_key c) (hd_limiter h))\<rparr>))"
    using api_request_cases [OF assms(1)] by blast
  note keys = front_keeps_keys [OF d(1)]
  have frame: "gc_resp d ''X-Frame-Options'' = Some ''DENY''" using d(1) by (simp add: front_keeps_def)
  show "gc_status (fst (api_request rnd now stamp clock h c)) = gate_status rnd now h c"
    and "gc_aborted (fst (api_request rnd now stamp clock h c)) \<longleftrightarrow> gate_status rnd now h c \<noteq> None"
    and "gate_status rnd now h c = None \<Longrightarrow> GetString (fst (api_request rnd now stamp clock h c)) ''tenant_id''
      = (if GetHeader c ''X-Tenant-ID'' = '''' then ''default'' else GetHeader c ''X-Tenant-ID'')"
    and "gc_resp (fst (api_request rnd now stamp clock h c)) ''X-Frame-Options'' = Some ''DENY''"
    using assms(2) d(2,3) frame by (auto simp: req gate_status_def AuthMiddleware_cases keys split: if_splits)
qed

subsection \<open>Properties\<close>

lemma api_gate_facts:
  assumes "\<not> gc_aborted c" and "gc_status c = None"
  shows "gc_status (fst (api_request rnd now stamp clock h c)) = gate_status rnd now h c"
    and "gc_aborted (fst (api_request rnd now stamp clock h c)) \<longleftrightarrow> gate_status rnd now h c \<noteq> None"
    and "gate_status rnd now h c = None \<Longrightarrow> GetString (fst (api_request rnd now stamp clock h c)) ''tenant_id''
      = (if GetHeader c ''X-Tenant-ID'' = '''' then ''default'' else GetHeader c ''X-Tenant-ID'')"
    and "gate_status rnd now h c = None \<Longrightarrow> t \<noteq> '''' \<Longrightarrow> d = c\<lparr>gc_header := (gc_header c)(''X-Tenant-ID'' \<mapsto> t)\<rparr>
      \<Longrightarrow> gate_status rnd now h d = None \<and> GetString (fst (api_request rnd now stamp clock h d)) ''tenant_id'' = t"
    and "gc_resp (fst (api_request rnd now stamp clock h c)) ''X-Frame-Options'' = Some ''DENY''"
proof -
  note gate = api_gate_status [OF assms]
  show "gc_status (fst (api_request rnd now stamp clock h c)) = gate_status rnd now h c"
    and "gc_aborted (fst (api_request rnd now stamp clock h c)) \<longleftrightarrow> gate_status rnd now h c \<noteq> None"
    and "gate_status rnd now h c = None \<Longrightarrow> GetString (fst (api_request rnd now stamp clock h c)) ''tenant_id''
      = (if GetHeader c ''X-Tenant-ID'' = '''' then ''default'' else GetHeader c ''X-Tenant-ID'')"
    and "gc_resp (fst (api_request rnd now stamp clock h c)) ''X-Frame-Options'' = Some ''DENY''"
    by (fact gate)+
  assume pass: "gate_status rnd now h c = None" and t: "t \<noteq> ''''" and d: "d = c\<lparr>gc_header := (gc_header c)(''X-Tenant-ID'' \<mapsto> t)\<rparr>"
  have same: "limit_key d = limit_key c" "presented_key d = presented_key c" "gc_Method d = gc_Method c" "GetHeader d ''X-Tenant-ID'' = t"
    "\<not> gc_aborted d" "gc_status d = None"
    using assms by (simp_all add: d limit_key_def presented_key_def GetHeader_def Let_def)
  have "gate_status rnd now h d = None" using pass by (simp add: gate_status_def same(1,2,3) split: if_splits)
  then show "gate_status rnd now h d = None \<and> GetString (fst (api_request rnd now stamp clock h d)) ''tenant_id'' = t"
    using t api_gate_status(3) [OF same(5,6)] same(4) by simp
qed

text \<open>C6. The gate of the API. A request gets to its handler exactly if it is no preflight request, its bucket has a token
  and its key is among the configured ones, or none is configured; else it is answered 204, 429 or 401. The
  handler then acts for the tenant the request names: the tenant is not tied to the key, so a holder of any key
  acts for every tenant. The security headers are on every answer.\<close>

theorem api_gate:
  assumes "\<not> gc_aborted c" and "gc_status c = None"
  shows "(gc_status (fst (api_request rnd now stamp clock h c)) = gate_status rnd now h c) \<and>
    (gc_aborted (fst (api_request rnd now stamp clock h c)) \<longleftrightarrow> gate_status rnd now h c \<noteq> None) \<and>
    ((gate_status rnd now h c = None) \<longrightarrow> (GetString (fst (api_request rnd now stamp clock h c)) ''tenant_id''
      = (if GetHeader c ''X-Tenant-ID'' = '''' then ''default'' else GetHeader c ''X-Tenant-ID''))) \<and>
    ((gate_status rnd now h c = None) \<longrightarrow> t \<noteq> '''' \<longrightarrow> (d = c\<lparr>gc_header := (gc_header c)(''X-Tenant-ID'' \<mapsto> t)\<rparr>) \<longrightarrow> (gate_status rnd now h d = None \<and> GetString (fst (api_request rnd now stamp clock h d)) ''tenant_id'' = t)) \<and>
    (gc_resp (fst (api_request rnd now stamp clock h c)) ''X-Frame-Options'' = Some ''DENY'')"
  by (intro conjI impI)
    (rule api_gate_facts(1) [OF assms], rule api_gate_facts(2) [OF assms], rule api_gate_facts(3) [OF assms], assumption,
      rule api_gate_facts(4) [OF assms, THEN conjunct1], assumption+, rule api_gate_facts(4) [OF assms, THEN conjunct2], assumption+,
      rule api_gate_facts(5) [OF assms])

definition demo_request :: "string \<Rightarrow> gin_ctx" where
  "demo_request key = \<lparr>gc_Method = ''POST'', gc_header = [''X-API-Key'' \<mapsto> key, ''X-Tenant-ID'' \<mapsto> ''acme''], gc_ClientIP = ''1.2.3.4'',
     gc_keys = Map.empty, gc_resp = Map.empty, gc_status = None, gc_aborted = False\<rparr>"

definition demo_handler :: handler where
  "demo_handler = NewRouter (\<lambda>x. x) '''' ''release'' True None ((unmarshal_settings setDefaults)\<lparr>cf_APIKeys := [''k1'']\<rparr>)"

lemma demo_limiter: "rl_clients (hd_limiter demo_handler) = Map.empty" "cf_APIKeys (hd_config demo_handler) = [''k1'']"
  by (simp_all add: demo_handler_def NewRouter_def NewRateLimiter_def)

theorem api_gate_witness:
  "GetString (fst (api_request (\<lambda>x. x) 0 ''s'' (\<lambda>i. i) demo_handler (demo_request ''k1''))) ''tenant_id'' = ''acme''
   \<and> gc_status (fst (api_request (\<lambda>x. x) 0 ''s'' (\<lambda>i. i) demo_handler (demo_request ''k2''))) = Some 401"
proof -
  have key: "presented_key (demo_request k) = (if k = '''' then '''' else k)" for k
    by (simp add: presented_key_def demo_request_def GetHeader_def)
  have ok: "\<not> gc_aborted (demo_request k)" "gc_status (demo_request k) = None" "gc_Method (demo_request k) = ''POST''"
    "GetHeader (demo_request k) ''X-Tenant-ID'' = ''acme''" for k
    by (simp_all add: demo_request_def GetHeader_def)
  have "gate_status (\<lambda>x. x) 0 demo_handler (demo_request k) = (if k = ''k1'' then None else Some 401)" for k
    by (simp add: gate_status_def ok key demo_limiter rl_Allow_fresh)
  then show ?thesis using api_gate [OF ok(1,2)] ok(4) by simp
qed

text \<open>A sequence of requests, each with its time, stamp and clock.\<close>

fun serve_all :: "(rat \<Rightarrow> rat) \<Rightarrow> (int \<times> string \<times> (nat \<Rightarrow> nat) \<times> gin_ctx) list \<Rightarrow> handler \<Rightarrow> int option list" where
  "serve_all rnd [] h = []"
| "serve_all rnd ((now, stamp, clock, c) # reqs) h =
     (let (c, h) = api_request rnd now stamp clock h c in gc_status c # serve_all rnd reqs h)"

text \<open>C35. The rate limit can be evaded. It counts per value of \<open>X-API-Key\<close>, which it reads before the key is checked:
  requests that carry different values, valid or not, are never answered 429, from whatever address and however
  fast they come; so trying out keys is not slowed at all.\<close>

theorem rate_limit_evaded:
  assumes "\<forall>(now, stamp, clock, c) \<in> set reqs. \<not> gc_aborted c \<and> gc_status c = None \<and> GetHeader c ''X-API-Key'' \<noteq> ''''
      \<and> rl_clients (hd_limiter h) (''apikey:'' @ GetHeader c ''X-API-Key'') = None"
    and "distinct (map (\<lambda>(now, stamp, clock, c). GetHeader c ''X-API-Key'') reqs)"
  shows "Some 429 \<notin> set (serve_all rnd reqs h)"
  using assms
proof (induction rnd reqs h rule: serve_all.induct)
  case (1 rnd h)
  then show ?case by simp
next
  case (2 rnd now stamp clock c reqs h)
  let ?h = "snd (api_request rnd now stamp clock h c)" and ?k = "\<lambda>c. ''apikey:'' @ GetHeader c ''X-API-Key''"
  have c: "\<not> gc_aborted c" "gc_status c = None" "GetHeader c ''X-API-Key'' \<noteq> ''''" "rl_clients (hd_limiter h) (?k c) = None"
    using "2.prems"(1) by auto
  have key: "limit_key c = ?k c" using c(3) by (simp add: limit_key_def)
  have "gate_status rnd now h c \<noteq> Some 429" using rl_Allow_fresh [OF c(4)] by (simp add: gate_status_def key)
  then have first: "gc_status (fst (api_request rnd now stamp clock h c)) \<noteq> Some 429" using api_gate_status [OF c(1,2)] by simp
  have other: "rl_clients (hd_limiter ?h) k = rl_clients (hd_limiter h) k" if "k \<noteq> ?k c" for k
    using api_request_cases [OF c(1), of rnd now stamp clock h] rl_Allow_other [OF that] by (auto simp: key)
  have fresh: "\<not> gc_aborted d \<and> gc_status d = None \<and> GetHeader d ''X-API-Key'' \<noteq> '''' \<and> rl_clients (hd_limiter ?h) (?k d) = None"
    if r: "(n, s, k, d) \<in> set reqs" for n s k d
  proof -
    have "GetHeader d ''X-API-Key'' \<noteq> GetHeader c ''X-API-Key''" using "2.prems"(2) r by force
    then have "rl_clients (hd_limiter ?h) (?k d) = rl_clients (hd_limiter h) (?k d)" by (intro other) simp
    then show ?thesis using "2.prems"(1) r by fastforce
  qed
  have "Some 429 \<notin> set (serve_all rnd reqs ?h)"
    by (rule "2.IH" [OF refl prod.collapse]) (use fresh "2.prems"(2) in auto)
  then show ?case using first by (simp add: split_beta Let_def)
qed

theorem rate_limit_evaded_witness:
  "Some 429 \<notin> set (serve_all (\<lambda>x. x) (map (\<lambda>k. (0, ''s'', \<lambda>i. i, demo_request k)) [''a'', ''b'', ''c'']) demo_handler)"
  by (rule rate_limit_evaded) (auto simp: demo_request_def GetHeader_def demo_limiter)

text \<open>
  The routes. No two of them share method and path, and every route but the health checks and the
  documentation is behind the gate; the routes of the federation are there if the anchor was made.
\<close>

lemma routes_distinct: "distinct (map (\<lambda>(m, p, h). (m, p)) (routes h))"
proof -
  have "distinct (map (\<lambda>(m, p, h). (m, p)) (public_routes @ map (\<lambda>(m, p, h). (m, ''/api/v1'' @ p, h)) (v1_routes @ rs)))"
    if "rs = [] \<or> rs = federated_routes" for rs
    using that by (elim disjE; hypsubst; code_simp)
  then show ?thesis unfolding routes_def by (cases "hd_federated h") (simp_all only: option.distinct not_False_eq_True if_True if_False not_True_eq_False simp_thms)
qed

lemma routes_behind_gate:
  assumes "(m, p, opn) \<in> set (routes h)"
  shows "opn \<in> {h_Health, h_HealthDetailed, h_Ready, h_Live, h_Swagger} \<or> hasPrefix p ''/api/v1/''"
proof -
  define v1 where "v1 = map (\<lambda>(m, p, h). (m, ''/api/v1'' @ p, h)) (v1_routes @ federated_routes)"
  have "\<forall>r \<in> set v1. hasPrefix (fst (snd r)) ''/api/v1/''" unfolding v1_def by code_simp
  moreover have "\<forall>r \<in> set public_routes. snd (snd r) \<in> {h_Health, h_HealthDetailed, h_Ready, h_Live, h_Swagger}" by code_simp
  moreover have "set (routes h) \<subseteq> set public_routes \<union> set v1"
  proof -
    have "set (v1_routes @ (if hd_federated h \<noteq> None then federated_routes else [])) \<subseteq> set (v1_routes @ federated_routes)" by auto
    then show ?thesis unfolding routes_def v1_def set_append set_map using image_mono by blast
  qed
  ultimately show ?thesis using assms by fastforce
qed

text \<open>
  Without the variable \<open>AI_TRACE_KEK\<close> encryption is on in every mode: a release build derives the master key from
  the empty string, any other from a constant of the source.
\<close>

lemma keystore_without_kek:
  "\<exists>ks. hd_keystore (NewRouter rnd '''' gin_mode ok pair cfg) = Some ks
     \<and> kek ks = sha256_sum (bytes_of (if gin_mode = ''release'' then '''' else default_kek))"
  by (simp add: NewRouter_def kek_string_def NewMemoryKeyStoreFromString_def NewAES256GCMFromString_Ok)

lemma NewRouter_keystore: "hd_keystore (NewRouter rnd env_kek gin_mode ok pair cfg) \<noteq> None"
  using NewMemoryKeyStoreFromString_inv [of "kek_string env_kek gin_mode"] by (auto simp: NewRouter_def)

text \<open>The automatic certificates of a configuration that enables them fire exactly on its models and sizes.\<close>

lemma router_auto_cert:
  "ac_Enabled (cf_AutoCert cfg) \<Longrightarrow> ShouldCert (Evaluate (hd_autoCertEval (NewRouter rnd env_kek gin_mode ok pair cfg)) tc)
     \<longleftrightarrow> matchesModel (tc_Model tc) (ac_Models (cf_AutoCert cfg)) \<or> ac_MinTokens (cf_AutoCert cfg) \<le> tc_TokenCount tc"
  by (simp add: NewRouter_def NewAutoCertEvaluator_def auto_cert_strategy_def Evaluate_def matchesTrigger_def no_condition_def)

lemma router_auto_cert_off:
  "\<not> ac_Enabled (cf_AutoCert cfg) \<Longrightarrow> \<not> ShouldCert (Evaluate (hd_autoCertEval (NewRouter rnd env_kek gin_mode ok pair cfg)) tc)"
  by (simp add: NewRouter_def NewAutoCertEvaluator_def auto_cert_strategy_def Evaluate_def DefaultStrategy_def)

end
