(* ===== verification/Chat.thy ===== *)
theory Chat
  imports Router GatewayStream EventStore
begin

text \<open>
  The chat handlers: \<open>server/internal/api/chat.go\<close>, and the way of a request from the router to a certificate.

  The handlers run after the gate of the router. They put the gateway, the table of events, the evaluator of
  automatic certificates and the trace headers together. \<open>req\<close> is the bound body, \<open>None\<close> if it does not bind.
  The goroutine that stores the events is run to its end; its timing against other requests is not modelled. A
  streamed answer is the list of the server-sent events, and \<open>sa_sent\<close> the headers at the first of them:
  later ones do not reach the client.
\<close>

subsection \<open>What both handlers read from a request\<close>

definition gateway_config :: "Config.GatewayConfig \<Rightarrow> Gateway.GatewayConfig" where
  "gateway_config gw = \<lparr>Ollama_BaseURL = gw_Ollama_BaseURL gw, OpenAI_BaseURL = gw_OpenAI_BaseURL gw, OpenAI_APIKey = gw_OpenAI_APIKey gw\<rparr>"

definition upstream_key :: "gin_ctx \<Rightarrow> string" where
  "upstream_key c =
     (let upstreamAPIKey = GetHeader c ''X-Upstream-API-Key'' in
      if upstreamAPIKey = '''' then
        (let auth = GetHeader c ''Authorization'' in
         if length auth > 7 \<and> take 7 auth = ''Bearer '' then
           (let key = drop 7 auth in if length key > 3 \<and> take 3 key = ''sk-'' then key else '''')
         else '''')
      else upstreamAPIKey)"

definition trace_context :: "gin_ctx \<Rightarrow> Gateway.TraceContext" where
  "trace_context c =
     \<lparr>tx_TraceID = GetHeader c ''X-Trace-ID'', tx_TenantID = GetString c ''tenant_id'', tx_UserID = GetString c ''user_id'',
      tx_SessionID = GetHeader c ''X-Session-ID'', tx_UpstreamAPIKey = upstream_key c,
      tx_UpstreamBaseURL = GetHeader c ''X-Upstream-Base-URL''\<rparr>"

subsection \<open>The chat\<close>

record chat_env =
  ce_world :: Gateway.world
  ce_StartTime :: time
  ce_marshal :: "ChatCompletionRequest \<Rightarrow> string option"
  ce_send :: upstream
  ce_unmarshal :: "string \<Rightarrow> ChatCompletionResponse option"
  ce_accepts :: "event \<Rightarrow> bool"

datatype chat_body = ErrorBody gateway_error | InvalidBody | ChatBody "ChatCompletionResponse option"

record chat_answer =
  ca_ctx :: gin_ctx
  ca_body :: chat_body
  ca_auto_cert :: "EvaluationResult option"

definition c_JSON :: "int \<Rightarrow> gin_ctx \<Rightarrow> gin_ctx" where
  "c_JSON status c = c\<lparr>gc_status := Some status\<rparr>"

definition ChatCompletions :: "chat_env \<Rightarrow> handler \<Rightarrow> ChatCompletionRequest option \<Rightarrow> gin_ctx \<Rightarrow> event list \<Rightarrow> chat_answer \<times> event list" where
  "ChatCompletions env h req c db =
     (case req of
        None \<Rightarrow> (\<lparr>ca_ctx = c_JSON 400 c, ca_body = InvalidBody, ca_auto_cert = None\<rparr>, db)
      | Some req \<Rightarrow>
          let (result, traceCtx) = ProxyChatCompletion (ce_world env) (gateway_config (cf_Gateway (hd_config h))) (ce_marshal env) (ce_send env)
                (ce_unmarshal env) req (trace_context c)
          in case pr_Error result of
               Some e \<Rightarrow> (\<lparr>ca_ctx = c_JSON 500 c, ca_body = ErrorBody e, ca_auto_cert = None\<rparr>, db)
             | None \<Rightarrow>
                 let tokenCount = (case pr_Response result of Some r \<Rightarrow> TotalTokens (cr_Usage r) | None \<Rightarrow> 0);
                     db = store_all (ce_accepts env) (pr_Events result) db;
                     evalResult = Evaluate (hd_autoCertEval h)
                       \<lparr>tc_TraceID = tx_TraceID traceCtx, tc_Model = Model req, tc_TokenCount = tokenCount, tc_Content = '''', tc_Industry = '''',
                        tc_TenantID = tx_TenantID traceCtx, tc_CreatedAt = ce_StartTime env\<rparr>;
                     payloadHash = (if length (pr_Events result) > 0 then PayloadHash (last (pr_Events result)) else '''');
                     c = SetTraceHeaders \<lparr>th_TraceID = tx_TraceID traceCtx, th_EventCount = int (length (pr_Events result)),
                           th_PayloadHash = payloadHash, th_EvidenceHint = BuildCertHint (tx_TraceID traceCtx) ''internal''\<rparr> c;
                     c = c_Header ''X-Latency-Ms'' (itoa (pr_LatencyMs result)) c
                 in (\<lparr>ca_ctx = c_JSON 200 c, ca_body = ChatBody (pr_Response result), ca_auto_cert = Some evalResult\<rparr>, db))"

subsection \<open>The streamed chat\<close>

record stream_io =
  si_env :: stream_env
  si_send :: "string \<Rightarrow> (string \<rightharpoonup> string) \<Rightarrow> string \<Rightarrow> stream_reply"
  si_parse :: "string \<Rightarrow> StreamChunk option"
  si_fingerprint :: "StreamOutputData \<Rightarrow> (string \<times> string) option"
  si_cumulative :: "string \<Rightarrow> string option"

record sse_chunk =
  sc_id :: string
  sc_index :: nat
  sc_content :: string
  sc_done :: bool
  sc_event_hash :: string
  sc_payload_hash :: string
  sc_cumulative_hash :: string
  sc_timestamp :: time

record sse_done =
  sd_trace_id :: string
  sd_chunk_count :: nat
  sd_total_ms :: int
  sd_first_chunk_ms :: int
  sd_final_hash :: string

datatype sse = SseChunk sse_chunk | SseError gateway_error | SseFinished sse_done | SseEnd

definition sse_of_chunk :: "stream_io \<Rightarrow> ChunkEvent \<Rightarrow> sse" where
  "sse_of_chunk io chunk =
     SseChunk \<lparr>sc_id = EventID (ce_Event chunk), sc_index = ce_Index chunk, sc_content = ce_Content chunk, sc_done = ce_Done chunk,
       sc_event_hash = EventHash (ce_Event chunk), sc_payload_hash = PayloadHash (ce_Event chunk),
       sc_cumulative_hash = (case si_cumulative io (Payload (ce_Event chunk)) of Some h \<Rightarrow> h | None \<Rightarrow> ''''),
       sc_timestamp = Timestamp (ce_Event chunk)\<rparr>"

record stream_answer =
  sa_ctx :: gin_ctx
  sa_sent :: "string \<rightharpoonup> string"
  sa_data :: "sse list"

definition sse_headers :: "gin_ctx \<Rightarrow> gin_ctx" where
  "sse_headers c =
     c_Header ''X-Accel-Buffering'' ''no''
       (c_Header ''Transfer-Encoding'' ''chunked''
         (c_Header ''Connection'' ''keep-alive''
           (c_Header ''Cache-Control'' ''no-cache'' (c_Header ''Content-Type'' ''text/event-stream'' c))))"

text \<open>A result without an error has a session; the nil dereference of one without is \<open>Panic\<close>.\<close>

definition ChatCompletionsStream :: "chat_env \<Rightarrow> stream_io \<Rightarrow> handler \<Rightarrow> ChatCompletionRequest option \<Rightarrow> gin_ctx \<Rightarrow> event list
    \<Rightarrow> (unit, stream_answer \<times> event list) outcome" where
  "ChatCompletionsStream env io h req c db =
     (case req of
        None \<Rightarrow> Ok (\<lparr>sa_ctx = c_JSON 400 c, sa_sent = gc_resp c, sa_data = []\<rparr>, db)
      | Some req \<Rightarrow>
          let traceCtx = trace_context c;
              c = sse_headers c;
              (result, traceCtx, chunks) = ProxyStreamingChat (ce_world env) (si_env io) (gateway_config (cf_Gateway (hd_config h))) (ce_marshal env)
                (si_send io) (si_parse io) (si_fingerprint io) req traceCtx;
              data = map (sse_of_chunk io) chunks
          in case sr_Error result of
               Some e \<Rightarrow> Ok (\<lparr>sa_ctx = c_JSON 200 c, sa_sent = gc_resp c, sa_data = data @ [SseError e]\<rparr>, db)
             | None \<Rightarrow>
                 (case sr_Session result of
                    None \<Rightarrow> Panic
                  | Some session \<Rightarrow>
                      let finished = SseFinished \<lparr>sd_trace_id = sr_TraceID result, sd_chunk_count = sn_ChunkCount session,
                            sd_total_ms = sn_TotalMs session, sd_first_chunk_ms = sn_FirstChunkMs session, sd_final_hash = sn_FinalHash session\<rparr>;
                          sent = gc_resp c;
                          db = store_all (ce_accepts env) (sr_Events result) db;
                          c = SetTraceHeaders \<lparr>th_TraceID = sr_TraceID result, th_EventCount = int (length (sr_Events result)), th_PayloadHash = '''',
                                th_EvidenceHint = BuildCertHint (sr_TraceID result) ''internal''\<rparr> (c_JSON 200 c)
                      in Ok (\<lparr>sa_ctx = c, sa_sent = sent, sa_data = data @ [finished, SseEnd]\<rparr>, db)))"

subsection \<open>Lemmas\<close>

lemma proxy_cases:
  assumes "ProxyChatCompletion w cfg mr send un req ctx = (r, ctx')"
  defines "i \<equiv> createInputEvent w req (ensure_trace_id w ctx)"
  defines "m \<equiv> createModelEvent w req (ensure_trace_id w ctx) (EventHash i)"
  shows "ctx' = ensure_trace_id w ctx
    \<and> (pr_Error r = None \<longrightarrow> (\<exists>resp l. pr_Response r = Some resp
        \<and> pr_Events r = [i, m, createOutputEvent w resp (ensure_trace_id w ctx) (EventHash m) l]))
    \<and> (pr_Error r \<noteq> None \<longrightarrow> pr_Events r = [i, m])"
proof -
  obtain U H where uh: "buildUpstreamRequest cfg (Model req) (ensure_trace_id w ctx) = (U, H)"
    by (cases "buildUpstreamRequest cfg (Model req) (ensure_trace_id w ctx)")
  show ?thesis
  proof (cases "mr req")
    case None
    then show ?thesis using assms(1) by (auto simp: ProxyChatCompletion_def Let_def uh i_def m_def)
  next
    case (Some body)
    then show ?thesis using assms(1)
      by (cases "send U H body") (auto simp: ProxyChatCompletion_def Let_def uh i_def m_def split: option.splits)
  qed
qed

lemma gateway_event_ids [simp]:
  "EventID (createInputEvent w req ctx) = event_id w 0" "EventID (createModelEvent w req ctx h) = event_id w 1"
  "EventID (createOutputEvent w resp ctx h l) = event_id w 2"
  "Sequence (createInputEvent w req ctx) = 1" "Sequence (createModelEvent w req ctx h) = 2"
  "Sequence (createOutputEvent w resp ctx h l) = 3"
  "PrevEventHash (createInputEvent w req ctx) = ''''"
  by (simp_all add: gateway_events Let_def split: list.split prod.split)

lemma c_JSON_simps [simp]: "gc_resp (c_JSON s c) = gc_resp c" "gc_status (c_JSON s c) = Some s"
  by (simp_all add: c_JSON_def)

text \<open>What a chat that is answered adds to the table, and what the client sees of it.\<close>

lemma answered_chat:
  assumes "ChatCompletions env h (Some req) c db = (ans, db')" and "ca_body ans = ChatBody body"
  shows "\<exists>i m out. db' = store_all (ce_accepts env) [i, m, out] db \<and> chained (ce_world env) [i, m, out]
    \<and> map EventType [i, m, out] = [EventTypeInput, EventTypeModel, EventTypeOutput]
    \<and> map EventID [i, m, out] = map (event_id (ce_world env)) [0, 1, 2]
    \<and> (\<forall>e \<in> set [i, m, out]. TraceID e = tx_TraceID (ensure_trace_id (ce_world env) (trace_context c)) \<and> TenantID e = GetString c ''tenant_id'')
    \<and> gc_status (ca_ctx ans) = Some 200
    \<and> gc_resp (ca_ctx ans) ''X-Trace-Id'' = Some (tx_TraceID (ensure_trace_id (ce_world env) (trace_context c)))
    \<and> gc_resp (ca_ctx ans) ''X-AI-Trace-Hash'' = Some (truncateHash (PayloadHash out))"
proof -
  let ?w = "ce_world env" let ?ctx = "ensure_trace_id ?w (trace_context c)"
  let ?i = "createInputEvent ?w req ?ctx" let ?m = "createModelEvent ?w req ?ctx (EventHash ?i)"
  obtain r ctx where p: "ProxyChatCompletion ?w (gateway_config (cf_Gateway (hd_config h))) (ce_marshal env) (ce_send env) (ce_unmarshal env) req
      (trace_context c) = (r, ctx)" by force
  have e: "pr_Error r = None" using assms by (auto simp: ChatCompletions_def p split: option.splits)
  obtain resp l where ev: "pr_Events r = [?i, ?m, createOutputEvent ?w resp ?ctx (EventHash ?m) l]" "ctx = ?ctx"
    using proxy_cases [OF p] e by blast
  let ?o = "createOutputEvent ?w resp ?ctx (EventHash ?m) l"
  have "chained ?w ([?i, ?m] @ [?o])" using chained_output [OF chained_request] by simp
  moreover have "TenantID e = GetString c ''tenant_id''" if "e \<in> set [?i, ?m, ?o]" for e
    using that by (auto simp: trace_context_def)
  moreover have "PayloadHash ?o \<noteq> ''''" by (simp add: createOutputEvent_def Let_def SHA256Bytes_def split: list.split prod.split)
  moreover define th where "th = \<lparr>th_TraceID = tx_TraceID ?ctx, th_EventCount = int (length (pr_Events r)), th_PayloadHash = PayloadHash ?o,
      th_EvidenceHint = BuildCertHint (tx_TraceID ?ctx) ''internal''\<rparr>"
  moreover have "db' = store_all (ce_accepts env) (pr_Events r) db
    \<and> ca_ctx ans = c_JSON 200 (c_Header ''X-Latency-Ms'' (itoa (pr_LatencyMs r)) (SetTraceHeaders th c))"
  proof -
    have "length (pr_Events r) > 0" "last (pr_Events r) = ?o" using ev(1) by simp_all
    then show ?thesis using assms(1) unfolding ChatCompletions_def option.case p prod.case e Let_def ev(2) th_def by auto
  qed
  moreover have "th_TraceID th = tx_TraceID ?ctx" "th_PayloadHash th = PayloadHash ?o" by (simp_all add: th_def)
  ultimately show ?thesis
    by (intro exI [of _ ?i] exI [of _ ?m] exI [of _ ?o]) (simp add: SetTraceHeaders_hash SetTraceHeaders_trace ev(1) del: store_all.simps)
qed

lemma failed_chat:
  assumes "ChatCompletions env h (Some req) c db = (ans, db')" and "ca_body ans = ErrorBody e"
  shows "db' = db" and "gc_status (ca_ctx ans) = Some 500" and "ca_auto_cert ans = None"
    and "pr_Error (fst (ProxyChatCompletion (ce_world env) (gateway_config (cf_Gateway (hd_config h))) (ce_marshal env) (ce_send env)
      (ce_unmarshal env) req (trace_context c))) = Some e"
  using assms by (auto simp: ChatCompletions_def split: option.splits prod.splits)

subsection \<open>Properties\<close>

text \<open>C5. From a request to a certificate. Let a request pass the gate and be answered with a chat, with fresh event ids
  and a trace the table does not have. Then the table has three more rows, the causal chain INPUT, MODEL, OUTPUT of
  the tenant the request names; and a certificate the tenant commits for the trace id in the answer's header
  lists exactly their hashes, in this order, and verifies.\<close>

theorem chat_to_certificate:
  assumes "\<not> gc_aborted c0" and "gc_status c0 = None" and "gate_status rnd now h c0 = None"
    and "t = (if GetHeader c0 ''X-Tenant-ID'' = '''' then ''default'' else GetHeader c0 ''X-Tenant-ID'')"
    and "api_request rnd now stamp clk h c0 = (c, h')"
    and "ChatCompletions env h' (Some req) c db = (ans, db')" and "ca_body ans = ChatBody body"
    and "gc_resp (ca_ctx ans) ''X-Trace-Id'' = Some tr"
    and "\<forall>e. ce_accepts env e" and "distinct (map EventID db @ map (event_id (ce_world env)) [0, 1, 2])"
    and "\<forall>e \<in> set db. TraceID e \<noteq> tr \<or> TenantID e \<noteq> t"
    and "cc_query call tr t = Some (trace_hashes db' tr t, False)" and "world_ok cw" and "signing_ok cw call st"
    and "CommitCert cw call t (Some \<lparr>cq_TraceID = tr, cq_EvidenceLevel = l\<rparr>) st = (Ok resp, st')"
  shows "\<exists>evts v. db' = db @ evts \<and> chained (ce_world env) evts
    \<and> map EventType evts = [EventTypeInput, EventTypeModel, EventTypeOutput] \<and> (\<forall>e \<in> set evts. TraceID e = tr \<and> TenantID e = t)
    \<and> VerifyCert cw t (Some \<lparr>vq_CertID = co_cert_id resp, vq_RootHash = rh\<rparr>) st' = Ok v \<and> vr_valid v
    \<and> cs_EventHashes (vr_certificate v) = map EventHash evts \<and> ValidateCausalOrder evts"
proof -
  have tenant: "GetString c ''tenant_id'' = t"
    using api_gate_status(3) [OF assms(1,2,3), of stamp clk] assms(4,5) by simp
  obtain i m out where new: "db' = store_all (ce_accepts env) [i, m, out] db" "chained (ce_world env) [i, m, out]"
    "map EventType [i, m, out] = [EventTypeInput, EventTypeModel, EventTypeOutput]"
    "map EventID [i, m, out] = map (event_id (ce_world env)) [0, 1, 2]"
    "\<forall>e \<in> set [i, m, out]. TraceID e = tx_TraceID (ensure_trace_id (ce_world env) (trace_context c)) \<and> TenantID e = GetString c ''tenant_id''"
    "gc_resp (ca_ctx ans) ''X-Trace-Id'' = Some (tx_TraceID (ensure_trace_id (ce_world env) (trace_context c)))"
    using answered_chat [OF assms(6,7)] by (elim exE conjE) (rule that, assumption+)
  have of_trace: "\<forall>e \<in> set [i, m, out]. TraceID e = tr \<and> TenantID e = t" using new(5,6) assms(8) tenant by simp
  have dist: "distinct (map EventID (db @ [i, m, out]))" using assms(10) unfolding map_append new(4) .
  have rows: "db' = db @ [i, m, out]" unfolding new(1) using dist assms(9) by (intro store_all_fresh) auto
  have acc: "\<forall>e \<in> set [i, m, out]. ce_accepts env e" using assms(9) by blast
  have query: "cc_query call tr t = Some (trace_hashes (store_all (ce_accepts env) [i, m, out] db) tr t, False)"
    using assms(12) unfolding new(1) .
  obtain v where "VerifyCert cw t (Some \<lparr>vq_CertID = co_cert_id resp, vq_RootHash = rh\<rparr>) st' = Ok v" "vr_valid v"
    "cs_EventHashes (vr_certificate v) = map EventHash [i, m, out]" "ValidateCausalOrder [i, m, out]"
    using certified_chain [OF new(2) refl of_trace acc dist assms(11) query assms(13-15), of rh]
    by (elim exE conjE) (rule that, assumption+)
  then show ?thesis using rows new(2,3) of_trace by (intro exI [of _ "[i, m, out]"] exI [of _ v] conjI)
qed

definition chat_request :: gin_ctx where
  "chat_request = (demo_request ''k1'')\<lparr>gc_header := [''X-API-Key'' \<mapsto> ''k1'', ''X-Tenant-ID'' \<mapsto> ''t'', ''X-Trace-ID'' \<mapsto> ''trc'']\<rparr>"

definition demo_chat :: "reply \<Rightarrow> chat_env" where
  "demo_chat answer = \<lparr>ce_world = sample_world, ce_StartTime = 0, ce_marshal = (\<lambda>_. Some ''{}''), ce_send = (\<lambda>_ _ _. answer), ce_unmarshal = (\<lambda>_. Some sample_response),
     ce_accepts = (\<lambda>_. True)\<rparr>"

lemma demo_chat_answers:
  "\<exists>ans db' body. ChatCompletions (demo_chat (Reply s d)) h (Some req) c db = (ans, db') \<and> ca_body ans = ChatBody body"
  by (simp add: ChatCompletions_def demo_chat_def ProxyChatCompletion_def Let_def split_beta)

lemma chat_request_gate:
  "\<not> gc_aborted chat_request" "gc_status chat_request = None" "GetHeader chat_request ''X-Tenant-ID'' = ''t''"
  "gate_status (\<lambda>x. x) 0 demo_handler chat_request = None"
  by (simp_all add: chat_request_def demo_request_def GetHeader_def gate_status_def presented_key_def demo_limiter rl_Allow_fresh Let_def)

lemma gate_keeps_header:
  assumes "\<not> gc_aborted c" and "gate_status rnd now h c = None"
  shows "gc_header (fst (api_request rnd now stamp clk h c)) = gc_header c"
proof -
  obtain d where "front_keeps c d" "api_request rnd now stamp clk h c =
      (if gc_Method c = ''OPTIONS'' then (d, h)
       else if \<not> fst (rl_Allow rnd now (limit_key c) (hd_limiter h))
         then (abort_with 429 d, h\<lparr>hd_limiter := snd (rl_Allow rnd now (limit_key c) (hd_limiter h))\<rparr>)
       else (AuthMiddleware (cf_APIKeys (hd_config h)) d, h\<lparr>hd_limiter := snd (rl_Allow rnd now (limit_key c) (hd_limiter h))\<rparr>))"
    using api_request_cases [OF assms(1)] by blast
  then show ?thesis by (auto simp: front_keeps_def AuthMiddleware_cases)
qed

theorem chat_to_certificate_witness:
  "\<exists>c h' ans db' resp st' v. api_request (\<lambda>x. x) 0 ''s'' (\<lambda>i. i) demo_handler chat_request = (c, h')
     \<and> ChatCompletions (demo_chat (Reply 200 ''{}'')) h' (Some sample_request) c [] = (ans, db')
     \<and> CommitCert demo_world (demo_call_of (trace_hashes db' ''trc'' ''t'')) ''t'' (Some \<lparr>cq_TraceID = ''trc'', cq_EvidenceLevel = ''L2''\<rparr>) demo_state
        = (Ok resp, st')
     \<and> VerifyCert demo_world ''t'' (Some \<lparr>vq_CertID = co_cert_id resp, vq_RootHash = ''''\<rparr>) st' = Ok v \<and> vr_valid v
     \<and> cs_EventHashes (vr_certificate v) = map EventHash db'"
proof -
  let ?env = "demo_chat (Reply 200 ''{}'')"
  obtain c h' where gate: "api_request (\<lambda>x. x) 0 ''s'' (\<lambda>i. i) demo_handler chat_request = (c, h')" by force
  obtain ans db' body where chat: "ChatCompletions ?env h' (Some sample_request) c [] = (ans, db')" "ca_body ans = ChatBody body"
    using demo_chat_answers by blast
  have "gc_header c = gc_header chat_request"
    using gate_keeps_header [OF chat_request_gate(1,4), of "''s''" "\<lambda>i. i"] gate by simp
  then have tr: "tx_TraceID (ensure_trace_id (ce_world ?env) (trace_context c)) = ''trc''"
    by (simp add: trace_context_def GetHeader_def chat_request_def ensure_trace_id_def)
  have tenant: "GetString c ''tenant_id'' = ''t''"
    using api_gate_status(3) [OF chat_request_gate(1,2,4), of "''s''" "\<lambda>i. i"] chat_request_gate(3) gate by simp
  obtain i m out where new: "db' = store_all (ce_accepts ?env) [i, m, out] []" "chained (ce_world ?env) [i, m, out]"
    "map EventType [i, m, out] = [EventTypeInput, EventTypeModel, EventTypeOutput]"
    "map EventID [i, m, out] = map (event_id (ce_world ?env)) [0, 1, 2]"
    "\<forall>e \<in> set [i, m, out]. TraceID e = tx_TraceID (ensure_trace_id (ce_world ?env) (trace_context c)) \<and> TenantID e = GetString c ''tenant_id''"
    "gc_status (ca_ctx ans) = Some 200"
    "gc_resp (ca_ctx ans) ''X-Trace-Id'' = Some (tx_TraceID (ensure_trace_id (ce_world ?env) (trace_context c)))"
    using answered_chat [OF chat] by (elim exE conjE) (rule that, assumption+)
  have ids: "distinct (map EventID ([] :: event list) @ map (event_id (ce_world ?env)) [0, 1, 2])"
    by (simp add: demo_chat_def event_id_def sample_world_def)
  have acc: "\<forall>e. ce_accepts ?env e" by (simp add: demo_chat_def)
  have rows: "db' = [i, m, out]"
  proof -
    have "distinct (map EventID ([] @ [i, m, out]))" unfolding append_Nil new(4) using ids by simp
    then show ?thesis unfolding new(1) using store_all_fresh [of "[i, m, out]" "ce_accepts ?env" "[]"] acc by simp
  qed
  have of_trace: "\<forall>e \<in> set [i, m, out]. TraceID e = ''trc'' \<and> TenantID e = ''t''" using new(5) tr tenant by simp
  have th: "trace_hashes db' ''trc'' ''t'' = map (\<lambda>e. Some (EventHash e)) [i, m, out]"
    unfolding rows by (rule trace_hashes_chain [OF refl new(2) of_trace])
  let ?call = "demo_call_of (trace_hashes db' ''trc'' ''t'')"
  have "\<exists>resp st'. CommitCert demo_world ?call ''t'' (Some \<lparr>cq_TraceID = ''trc'', cq_EvidenceLevel = ''L2''\<rparr>) demo_state = (Ok resp, st')"
    by (rule demo_commit) (simp_all only: th scan_hashes_all, simp_all add: tree_root_step tree_root_stop)
  then obtain resp st' where commit: "CommitCert demo_world ?call ''t'' (Some \<lparr>cq_TraceID = ''trc'', cq_EvidenceLevel = ''L2''\<rparr>) demo_state
      = (Ok resp, st')" by blast
  have sign: "signing_ok demo_world ?call demo_state" by (simp add: signing_ok_def demo_defs sign_start_def)
  have query: "cc_query ?call ''trc'' ''t'' = Some (trace_hashes db' ''trc'' ''t'', False)" by (simp add: demo_call_of_def)
  have t: "''t'' = (if GetHeader chat_request ''X-Tenant-ID'' = '''' then ''default'' else GetHeader chat_request ''X-Tenant-ID'')"
    using chat_request_gate(3) by simp
  have hdr: "gc_resp (ca_ctx ans) ''X-Trace-Id'' = Some ''trc''" using new(7) tr by simp
  obtain evts v where "db' = [] @ evts" "VerifyCert demo_world ''t'' (Some \<lparr>vq_CertID = co_cert_id resp, vq_RootHash = ''''\<rparr>) st' = Ok v" "vr_valid v"
    "cs_EventHashes (vr_certificate v) = map EventHash evts"
    using chat_to_certificate [OF chat_request_gate(1,2,4) t gate chat hdr acc ids _ query demo_ok(1) sign commit, of "''''"]
    by (elim exE conjE meta_impE) (simp, rule that, assumption+)
  then show ?thesis using gate chat commit by (intro exI conjI) simp_all
qed

lemma failed_chats_are_not_recorded_facts:
  assumes "ChatCompletions env h (Some req) c db = (ans, db')" and "ca_body ans = ErrorBody e"
  shows "db' = db \<and> gc_status (ca_ctx ans) = Some 500 \<and> ca_auto_cert ans = None
    \<and> map EventType (pr_Events (fst (ProxyChatCompletion (ce_world env) (gateway_config (cf_Gateway (hd_config h))) (ce_marshal env) (ce_send env)
        (ce_unmarshal env) req (trace_context c)))) = [EventTypeInput, EventTypeModel]"
    and "ChatCompletionsStream env io h (Some req) c db = Ok (sans, db'') \<Longrightarrow> SseError err \<in> set (sa_data sans) \<Longrightarrow> db'' = db"
proof -
  let ?p = "ProxyChatCompletion (ce_world env) (gateway_config (cf_Gateway (hd_config h))) (ce_marshal env) (ce_send env)
        (ce_unmarshal env) req (trace_context c)"
  obtain r ctx where p: "?p = (r, ctx)" by force
  then have "pr_Error r = Some e" using failed_chat(4) [OF assms] by simp
  then have "map EventType (pr_Events r) = [EventTypeInput, EventTypeModel]" using proxy_cases [OF p] by simp
  then show "db' = db \<and> gc_status (ca_ctx ans) = Some 500 \<and> ca_auto_cert ans = None
    \<and> map EventType (pr_Events (fst ?p)) = [EventTypeInput, EventTypeModel]"
    using failed_chat(1-3) [OF assms] p by simp
  assume stream: "ChatCompletionsStream env io h (Some req) c db = Ok (sans, db'')" and err: "SseError err \<in> set (sa_data sans)"
  have no: "SseError err \<notin> set (map (sse_of_chunk io) cs)" for cs by (auto simp: sse_of_chunk_def)
  obtain sr sctx cs where sp: "ProxyStreamingChat (ce_world env) (si_env io) (gateway_config (cf_Gateway (hd_config h))) (ce_marshal env)
                (si_send io) (si_parse io) (si_fingerprint io) req (trace_context c) = (sr, sctx, cs)" by (metis prod_cases3)
  show "db'' = db"
  proof (cases "sr_Error sr")
    case None
    then obtain s where s: "sr_Session sr = Some s" using stream by (cases "sr_Session sr") (simp_all add: ChatCompletionsStream_def sp)
    have "\<exists>fin. sa_data sans = map (sse_of_chunk io) cs @ [SseFinished fin, SseEnd]"
      using stream None s by (auto simp: ChatCompletionsStream_def sp Let_def)
    then show ?thesis using err no [of cs] by auto
  next
    case (Some e)
    then show ?thesis using stream by (simp add: ChatCompletionsStream_def sp Let_def)
  qed
qed

text \<open>C34. A failed chat is not recorded. If the upstream cannot be reached or its answer not be read, the gateway has made the
  INPUT and MODEL events of the attempt, but the handler answers 500 and stores neither, also when it streams; and it
  does not look at the triggers of automatic certificates.\<close>

theorem failed_chats_are_not_recorded:
  assumes "ChatCompletions env h (Some req) c db = (ans, db')" and "ca_body ans = ErrorBody e"
  shows "(db' = db \<and> gc_status (ca_ctx ans) = Some 500 \<and> ca_auto_cert ans = None
    \<and> map EventType (pr_Events (fst (ProxyChatCompletion (ce_world env) (gateway_config (cf_Gateway (hd_config h))) (ce_marshal env) (ce_send env)
        (ce_unmarshal env) req (trace_context c)))) = [EventTypeInput, EventTypeModel]) \<and>
    ((ChatCompletionsStream env io h (Some req) c db = Ok (sans, db'')) \<longrightarrow> SseError err \<in> set (sa_data sans) \<longrightarrow> (db'' = db))"
  by (intro conjI impI) (use failed_chats_are_not_recorded_facts [OF assms] in blast)+

theorem failed_chats_are_not_recorded_witness:
  "\<exists>ans. ChatCompletions (demo_chat BrokenBody) demo_handler (Some sample_request) chat_request [] = (ans, [])
     \<and> gc_status (ca_ctx ans) = Some 500"
proof -
  have "\<exists>ans db' e. ChatCompletions (demo_chat BrokenBody) demo_handler (Some sample_request) chat_request [] = (ans, db') \<and> ca_body ans = ErrorBody e"
    by (simp add: ChatCompletions_def demo_chat_def ProxyChatCompletion_def Let_def split_beta)
  then obtain ans db' e where f: "ChatCompletions (demo_chat BrokenBody) demo_handler (Some sample_request) chat_request [] = (ans, db')"
    "ca_body ans = ErrorBody e" by blast
  show ?thesis using failed_chats_are_not_recorded [OF f] f(1) by auto
qed

lemma sort_two_chats:
  "Sequence i = 1 \<Longrightarrow> Sequence m = 2 \<Longrightarrow> Sequence out = 3 \<Longrightarrow> Sequence i' = 1 \<Longrightarrow> Sequence m' = 2 \<Longrightarrow> Sequence out' = 3 \<Longrightarrow>
     sort_key Sequence [i, m, out, i', m', out'] = [i, i', m, m', out, out']"
  by simp

text \<open>Two chats of one trace interleave. A client that sends the same \<open>X-Trace-ID\<close> again, as for the next turn of a
  conversation, starts numbering from one again and does not link to the first chat. The certificate of the trace
  then lists the events of the two chats in turn, which is the causal chain of neither.\<close>

theorem chats_of_one_trace_interleave:
  assumes "ChatCompletions env h (Some req) c [] = (ans, db1)" and "ca_body ans = ChatBody body"
    and "ChatCompletions env' h' (Some req') c' db1 = (ans', db2)" and "ca_body ans' = ChatBody body'"
    and "GetHeader c ''X-Trace-ID'' = tr" and "GetHeader c' ''X-Trace-ID'' = tr" and "tr \<noteq> ''''"
    and "GetString c ''tenant_id'' = t" and "GetString c' ''tenant_id'' = t"
    and "\<forall>e. ce_accepts env e \<and> ce_accepts env' e"
    and "distinct (map (event_id (ce_world env)) [0, 1, 2] @ map (event_id (ce_world env')) [0, 1, 2])"
  shows "\<exists>chat chat'. db2 = chat @ chat' \<and> chained (ce_world env) chat \<and> chained (ce_world env') chat' \<and> length chat = 3 \<and> length chat' = 3
    \<and> PrevEventHash (hd chat') = ''''
    \<and> trace_hashes db2 tr t = map (\<lambda>e. Some (EventHash e)) (concat (map (\<lambda>(e, e'). [e, e']) (zip chat chat')))
    \<and> (\<forall>w. \<not> chained w (concat (map (\<lambda>(e, e'). [e, e']) (zip chat chat'))))"
proof -
  have id: "tx_TraceID (ensure_trace_id w (trace_context d)) = tr" if "GetHeader d ''X-Trace-ID'' = tr" for w d
    using that assms(7) by (simp add: ensure_trace_id_def trace_context_def)
  obtain i m out where one: "db1 = store_all (ce_accepts env) [i, m, out] []" "chained (ce_world env) [i, m, out]"
    "map EventID [i, m, out] = map (event_id (ce_world env)) [0, 1, 2]"
    "\<forall>e \<in> set [i, m, out]. TraceID e = tr \<and> TenantID e = t"
    using answered_chat [OF assms(1,2)] unfolding id [OF assms(5)] assms(8) by (elim exE conjE) (rule that, assumption+)
  obtain i' m' out' where two: "db2 = store_all (ce_accepts env') [i', m', out'] db1" "chained (ce_world env') [i', m', out']"
    "map EventID [i', m', out'] = map (event_id (ce_world env')) [0, 1, 2]"
    "\<forall>e \<in> set [i', m', out']. TraceID e = tr \<and> TenantID e = t"
    using answered_chat [OF assms(3,4)] unfolding id [OF assms(6)] assms(9) by (elim exE conjE) (rule that, assumption+)
  have dist: "distinct (map EventID ([i, m, out] @ [i', m', out']))" using assms(11) unfolding map_append one(3) two(3) .
  have d1: "distinct (map EventID ([] @ [i, m, out]))" using dist by simp
  have "db1 = [] @ [i, m, out]" unfolding one(1) by (rule store_all_fresh [OF _ d1]) (use assms(10) in blast)
  then have db1: "db1 = [i, m, out]" by simp
  have db2: "db2 = [i, m, out] @ [i', m', out']"
    unfolding two(1) db1 by (rule store_all_fresh [OF _ dist]) (use assms(10) in blast)
  have seq: "Sequence i = 1" "Sequence m = 2" "Sequence out = 3" "Sequence i' = 1" "Sequence m' = 2" "Sequence out' = 3"
    using one(2) two(2) by (simp_all add: chained_def All_less_Suc eval_nat_numeral)
  let ?zip = "concat (map (\<lambda>(e, e'). [e, e']) (zip [i, m, out] [i', m', out']))"
  have "filter (\<lambda>e. TraceID e = tr \<and> TenantID e = t) db2 = [i, m, out, i', m', out']" using one(4) two(4) by (simp add: db2)
  then have "trace_hashes db2 tr t = map (\<lambda>e. Some (EventHash e)) ?zip"
    unfolding trace_hashes_def by (simp only: sort_two_chats [OF seq]) simp
  moreover have "\<not> chained w ?zip" for w
  proof
    assume "chained w ?zip"
    then have "Sequence (?zip ! 1) = int 1 + 1" unfolding chained_def by (drule_tac spec [of _ 1]) simp
    then show False using seq by simp
  qed
  moreover have "PrevEventHash i' = ''''" using two(2) by (simp add: chained_def All_less_Suc)
  ultimately show ?thesis using db2 one(2) two(2) by (intro exI [of _ "[i, m, out]"] exI [of _ "[i', m', out']"]) simp
qed

definition second_chat :: chat_env where
  "second_chat = (demo_chat (Reply 200 ''{}''))\<lparr>ce_world := sample_world\<lparr>uuid := (\<lambda>k. replicate 36 (char_of (65 + k)))\<rparr>\<rparr>"

lemma second_chat_answers:
  "\<exists>ans db' body. ChatCompletions second_chat h (Some req) c db = (ans, db') \<and> ca_body ans = ChatBody body"
  by (simp add: ChatCompletions_def second_chat_def demo_chat_def ProxyChatCompletion_def Let_def split_beta)

theorem chats_of_one_trace_interleave_witness:
  "\<exists>db1 db2 ans ans'. ChatCompletions (demo_chat (Reply 200 ''{}'')) demo_handler (Some sample_request) chat_request [] = (ans, db1)
     \<and> ChatCompletions second_chat demo_handler (Some sample_request) chat_request db1 = (ans', db2)
     \<and> (\<exists>chat chat'. db2 = chat @ chat' \<and> length chat = 3 \<and> length chat' = 3
        \<and> (\<forall>w. \<not> chained w (concat (map (\<lambda>(e, e'). [e, e']) (zip chat chat')))))"
proof -
  obtain ans db1 body where one: "ChatCompletions (demo_chat (Reply 200 ''{}'')) demo_handler (Some sample_request) chat_request [] = (ans, db1)"
    "ca_body ans = ChatBody body" using demo_chat_answers by blast
  obtain ans' db2 body' where two: "ChatCompletions second_chat demo_handler (Some sample_request) chat_request db1 = (ans', db2)"
    "ca_body ans' = ChatBody body'" using second_chat_answers by blast
  have tr: "GetHeader chat_request ''X-Trace-ID'' = ''trc''" by (simp add: chat_request_def GetHeader_def)
  have acc: "\<forall>e. ce_accepts (demo_chat (Reply 200 ''{}'')) e \<and> ce_accepts second_chat e" by (simp add: demo_chat_def second_chat_def)
  have ids: "distinct (map (event_id (ce_world (demo_chat (Reply 200 ''{}'')))) [0, 1, 2] @ map (event_id (ce_world second_chat)) [0, 1, 2])"
    by (simp add: demo_chat_def second_chat_def event_id_def sample_world_def)
  have ne: "''trc'' \<noteq> ''''" by simp
  have "\<exists>chat chat'. db2 = chat @ chat' \<and> chained (ce_world (demo_chat (Reply 200 ''{}''))) chat \<and> chained (ce_world second_chat) chat'
    \<and> length chat = 3 \<and> length chat' = 3 \<and> PrevEventHash (hd chat') = ''''
    \<and> trace_hashes db2 ''trc'' (GetString chat_request ''tenant_id'')
        = map (\<lambda>e. Some (EventHash e)) (concat (map (\<lambda>(e, e'). [e, e']) (zip chat chat')))
    \<and> (\<forall>w. \<not> chained w (concat (map (\<lambda>(e, e'). [e, e']) (zip chat chat'))))"
    by (rule chats_of_one_trace_interleave [OF one two tr tr ne refl refl acc ids])
  with one(1) two(1) show ?thesis by blast
qed

text \<open>A streamed answer. The handler never panics. Every chunk of the answer names an event by its id and hash, in order,
  and the answer ends with the summary and the end mark, or with an error; after a summary exactly the events of the
  gateway's result are stored. The trace headers are set when the headers have long been sent: the client gets the
  five headers of the stream and none of them.\<close>

theorem streamed_answer:
  assumes "ProxyStreamingChat (ce_world env) (si_env io) (gateway_config (cf_Gateway (hd_config h))) (ce_marshal env) (si_send io) (si_parse io)
      (si_fingerprint io) req (trace_context c) = (result, ctx, cbs)"
  shows "\<exists>ans db'. ChatCompletionsStream env io h (Some req) c db = Ok (ans, db')"
    and "ChatCompletionsStream env io h (Some req) c db = Ok (ans, db') \<Longrightarrow> \<exists>tail. sa_data ans = map (sse_of_chunk io) cbs @ tail
      \<and> (if sr_Error result = None
         then (\<exists>fin. tail = [SseFinished fin, SseEnd] \<and> sd_trace_id fin = sr_TraceID result) \<and> db' = store_all (ce_accepts env) (sr_Events result) db
           \<and> (sr_TraceID result \<noteq> '''' \<longrightarrow> gc_resp (sa_ctx ans) ''X-Trace-Id'' = Some (sr_TraceID result))
         else tail = [SseError (the (sr_Error result))] \<and> db' = db)
      \<and> sa_sent ans ''X-Trace-Id'' = gc_resp c ''X-Trace-Id'' \<and> sa_sent ans ''X-AI-Trace-Summary'' = gc_resp c ''X-AI-Trace-Summary''
      \<and> sa_sent ans ''Content-Type'' = Some ''text/event-stream''"
proof -
  have session: "sr_Error result = None \<Longrightarrow> \<exists>s. sr_Session result = Some s"
    using assms by (auto simp: ProxyStreamingChat_def Let_def split: prod.splits option.splits stream_reply.splits if_splits)
  have sent: "gc_resp (sse_headers c) ''X-Trace-Id'' = gc_resp c ''X-Trace-Id''"
    "gc_resp (sse_headers c) ''X-AI-Trace-Summary'' = gc_resp c ''X-AI-Trace-Summary''"
    "gc_resp (sse_headers c) ''Content-Type'' = Some ''text/event-stream''"
    by (simp_all add: sse_headers_def)
  show "\<exists>ans db'. ChatCompletionsStream env io h (Some req) c db = Ok (ans, db')"
    using session by (cases "sr_Error result") (auto simp: ChatCompletionsStream_def assms Let_def)
  assume ans: "ChatCompletionsStream env io h (Some req) c db = Ok (ans, db')"
  show "\<exists>tail. sa_data ans = map (sse_of_chunk io) cbs @ tail
      \<and> (if sr_Error result = None
         then (\<exists>fin. tail = [SseFinished fin, SseEnd] \<and> sd_trace_id fin = sr_TraceID result) \<and> db' = store_all (ce_accepts env) (sr_Events result) db
           \<and> (sr_TraceID result \<noteq> '''' \<longrightarrow> gc_resp (sa_ctx ans) ''X-Trace-Id'' = Some (sr_TraceID result))
         else tail = [SseError (the (sr_Error result))] \<and> db' = db)
      \<and> sa_sent ans ''X-Trace-Id'' = gc_resp c ''X-Trace-Id'' \<and> sa_sent ans ''X-AI-Trace-Summary'' = gc_resp c ''X-AI-Trace-Summary''
      \<and> sa_sent ans ''Content-Type'' = Some ''text/event-stream''"
  proof (cases "sr_Error result")
    case None
    then obtain s where s: "sr_Session result = Some s" using session by blast
    show ?thesis using ans None sent unfolding ChatCompletionsStream_def option.case Let_def assms prod.case s
      by (auto simp: SetTraceHeaders_trace)
  next
    case (Some e)
    then show ?thesis using ans sent by (auto simp: ChatCompletionsStream_def assms Let_def)
  qed
qed

theorem streamed_answer_witness:
  "\<exists>ans db'. ChatCompletionsStream (demo_chat BrokenBody) \<lparr>si_env = \<lparr>seen_at = (\<lambda>_. 0), session_uuid = '''', finished = 0, ended = 0\<rparr>,
       si_send = (\<lambda>_ _ _. StreamUnanswered), si_parse = (\<lambda>_. None), si_fingerprint = (\<lambda>_. None), si_cumulative = (\<lambda>_. None)\<rparr>
       demo_handler (Some sample_request) chat_request [] = Ok (ans, db') \<and> sa_sent ans ''X-Trace-Id'' = None"
proof -
  let ?io = "\<lparr>si_env = \<lparr>seen_at = (\<lambda>_. 0), session_uuid = '''', finished = 0, ended = 0\<rparr>,
       si_send = (\<lambda>_ _ _. StreamUnanswered), si_parse = (\<lambda>_. None), si_fingerprint = (\<lambda>_. None), si_cumulative = (\<lambda>_. None)\<rparr>"
  obtain r ctx cs where p: "ProxyStreamingChat (ce_world (demo_chat BrokenBody)) (si_env ?io) (gateway_config (cf_Gateway (hd_config demo_handler)))
      (ce_marshal (demo_chat BrokenBody)) (si_send ?io) (si_parse ?io) (si_fingerprint ?io) sample_request (trace_context chat_request) = (r, ctx, cs)"
    by (metis prod_cases3)
  obtain ans db' where a: "ChatCompletionsStream (demo_chat BrokenBody) ?io demo_handler (Some sample_request) chat_request [] = Ok (ans, db')"
    using streamed_answer(1) [OF p, of "[]"] by blast
  have "gc_resp chat_request ''X-Trace-Id'' = None" by (simp add: chat_request_def demo_request_def)
  then show ?thesis using streamed_answer(2) [OF p a] a by auto
qed

end
