(* ===== verification/ImageHash.thy ===== *)
theory ImageHash
  imports Middleware Encoding Sha256
begin

text \<open>
  Perceptual hashes of images: \<open>server/internal/fingerprint/image.go\<close>.

  Decoding is an argument: \<open>decode\<close> answers an image or an error, and an image is its bounds and the color at a
  point, in 16 bits a channel, as \<open>color.Color.RGBA\<close> gives it. A \<open>float64\<close> is a rational and \<open>rnd\<close> the rounding of
  a result to it (there is no fused multiply-add on amd64); \<open>float64_ok\<close> adds to the laws of \<open>rounding_ok\<close> that
  multiples of a 64th are exact. The discrete cosine transform of \<open>ComputePHash\<close>, made of cosines, is an argument.
  \<open>parseHash\<close> is \<open>fmt.Sscanf\<close> with the verb \<open>%016x\<close> on ASCII text.
\<close>

type_synonym bytes = "8 word list"

definition float64_ok :: "(rat \<Rightarrow> rat) \<Rightarrow> bool" where
  "float64_ok rnd \<longleftrightarrow> rounding_ok rnd \<and> (\<forall>k :: int. \<bar>k\<bar> \<le> 2 ^ 53 \<longrightarrow> rnd (of_int k / 64) = of_int k / 64)"

text \<open>A \<open>float64\<close> that may be the result of a division by zero.\<close>

datatype float64 = Num rat | Inf | NaN

subsection \<open>Images\<close>

type_synonym color = "nat \<times> nat \<times> nat"

record image =
  im_MinX :: int
  im_MinY :: int
  im_Dx :: nat
  im_Dy :: nat
  im_At :: "int \<Rightarrow> int \<Rightarrow> color"

text \<open>What is left of a color in \<open>image.RGBA\<close>, which has eight bits a channel.\<close>

definition to_rgba :: "color \<Rightarrow> color" where
  "to_rgba c = (case c of (r, g, b) \<Rightarrow> (r div 256 * 257, g div 256 * 257, b div 256 * 257))"

definition resize :: "image \<Rightarrow> nat \<Rightarrow> nat \<Rightarrow> image" where
  "resize img width height =
     \<lparr>im_MinX = 0, im_MinY = 0, im_Dx = width, im_Dy = height,
      im_At = (\<lambda>x y. if 0 \<le> x \<and> x < int width \<and> 0 \<le> y \<and> y < int height
        then to_rgba (im_At img (x * int (im_Dx img) div int width + im_MinX img) (y * int (im_Dy img) div int height + im_MinY img))
        else (0, 0, 0))\<rparr>"

definition luminance :: "(rat \<Rightarrow> rat) \<Rightarrow> color \<Rightarrow> rat" where
  "luminance rnd c =
     (case c of (r, g, b) \<Rightarrow>
        let lum = rnd (rnd (rnd (rnd (299 / 1000) * of_nat r) + rnd (rnd (587 / 1000) * of_nat g)) + rnd (rnd (114 / 1000) * of_nat b))
        in rnd (rnd (lum / 65535) * 255))"

definition toGrayscale :: "(rat \<Rightarrow> rat) \<Rightarrow> image \<Rightarrow> rat list" where
  "toGrayscale rnd img =
     concat (map (\<lambda>y. map (\<lambda>x. luminance rnd (im_At img (int x + im_MinX img) (int y + im_MinY img))) [0..<im_Dx img]) [0..<im_Dy img])"

subsection \<open>The three hashes\<close>

text \<open>\<open>hash |= 1 << (63 - i)\<close> for the true entries.\<close>

definition hash_bits :: "bool list \<Rightarrow> 64 word" where
  "hash_bits bs = foldl (\<lambda>hash i. if bs ! i then hash OR push_bit (63 - i) 1 else hash) 0 [0..<length bs]"

text \<open>The verb \<open>%016x\<close>.\<close>

definition hex16 :: "64 word \<Rightarrow> string" where
  "hex16 x = map (\<lambda>i. hex_digit (unat (drop_bit (60 - 4 * i) x))) [0..<16]"

definition sum_list_rnd :: "(rat \<Rightarrow> rat) \<Rightarrow> rat list \<Rightarrow> rat" where
  "sum_list_rnd rnd xs = foldl (\<lambda>sum v. rnd (sum + v)) 0 xs"

definition ComputePHash :: "(rat \<Rightarrow> rat) \<Rightarrow> (rat list \<Rightarrow> rat list) \<Rightarrow> (bytes \<Rightarrow> image option) \<Rightarrow> bytes \<Rightarrow> string option" where
  "ComputePHash rnd dct decode data =
     (case decode data of
        None \<Rightarrow> None
      | Some img \<Rightarrow>
          let gray = toGrayscale rnd (resize img 32 32);
              d = dct gray;
              lowFreq = concat (map (\<lambda>y. map (\<lambda>x. d ! (y * 32 + x)) [0..<8]) [0..<8]);
              avg = rnd (sum_list_rnd rnd (tl lowFreq) / of_nat (length lowFreq - 1))
          in Some (hex16 (hash_bits (map (\<lambda>v. v > avg) lowFreq))))"

definition ComputeAHash :: "(rat \<Rightarrow> rat) \<Rightarrow> (bytes \<Rightarrow> image option) \<Rightarrow> bytes \<Rightarrow> string option" where
  "ComputeAHash rnd decode data =
     (case decode data of
        None \<Rightarrow> None
      | Some img \<Rightarrow>
          let gray = toGrayscale rnd (resize img 8 8);
              avg = rnd (sum_list_rnd rnd gray / of_nat (length gray))
          in Some (hex16 (hash_bits (map (\<lambda>v. v > avg) gray))))"

definition ComputeDHash :: "(rat \<Rightarrow> rat) \<Rightarrow> (bytes \<Rightarrow> image option) \<Rightarrow> bytes \<Rightarrow> string option" where
  "ComputeDHash rnd decode data =
     (case decode data of
        None \<Rightarrow> None
      | Some img \<Rightarrow>
          let gray = toGrayscale rnd (resize img 9 8)
          in Some (hex16 (hash_bits (concat (map (\<lambda>y. map (\<lambda>x. gray ! (y * 9 + x) > gray ! (y * 9 + x + 1)) [0..<8]) [0..<8])))))"

subsection \<open>Comparing hashes\<close>

lemma and_pred_less: "x \<noteq> 0 \<Longrightarrow> unat (x AND (x - 1)) < unat (x :: 'a :: len word)"
proof -
  assume x: "x \<noteq> 0"
  have "x AND (x - 1) \<le> x - 1" by (rule word_and_le1)
  then have "unat (x AND (x - 1)) \<le> unat (x - 1)" by (simp add: word_le_nat_alt)
  then show ?thesis using x by (simp add: unat_minus_one unat_gt_0 less_le_trans le_less_trans)
qed

function pop_loop :: "'a :: len word \<Rightarrow> nat \<Rightarrow> nat" where
  "pop_loop x count = (if x \<noteq> 0 then pop_loop (x AND (x - 1)) (count + 1) else count)"
  by pat_completeness auto

termination by (relation "measure (\<lambda>(x, count). unat x)") (auto intro: and_pred_less)

declare pop_loop.simps [simp del]

definition popCount :: "64 word \<Rightarrow> nat" where
  "popCount x = pop_loop x 0"

text \<open>\<open>None\<close> is a newline, which the format has not.\<close>

fun SkipSpace :: "string \<Rightarrow> string option" where
  "SkipSpace [] = Some []"
| "SkipSpace (c # s) =
     (if c = CHR 0x0A \<or> (c = CHR 0x0D \<and> s \<noteq> [] \<and> hd s = CHR 0x0A) then None
      else if isSpaceC c then SkipSpace s else Some (c # s))"

definition parseHash :: "string \<Rightarrow> 64 word option" where
  "parseHash hash =
     (case SkipSpace hash of
        None \<Rightarrow> None
      | Some s \<Rightarrow>
          (let digits = takeWhile (\<lambda>c. hex_val c \<noteq> None) (take 16 s) in
           if digits = [] then None
           else Some (word_of_nat (foldl (\<lambda>n c. n * 16 + the (hex_val c)) 0 digits))))"

definition CompareHashes :: "(rat \<Rightarrow> rat) \<Rightarrow> string \<Rightarrow> string \<Rightarrow> rat option" where
  "CompareHashes rnd hash1 hash2 =
     (case parseHash hash1 of
        None \<Rightarrow> None
      | Some h1 \<Rightarrow>
          (case parseHash hash2 of
             None \<Rightarrow> None
           | Some h2 \<Rightarrow> Some (rnd (1 - rnd (of_nat (popCount (h1 XOR h2)) / 64)))))"

text \<open>The histogram: a counter per channel and leading four bits; its 32-bit words are hashed in little-endian order.\<close>

definition le_bytes32 :: "32 word \<Rightarrow> bytes" where
  "le_bytes32 w = map (\<lambda>i. word_of_nat (unat (drop_bit (8 * i) w) mod 256)) [0..<4]"

definition count_color :: "color \<Rightarrow> 32 word list \<Rightarrow> 32 word list" where
  "count_color c h =
     (case c of (r, g, b) \<Rightarrow>
        let h = h[r div 4096 := h ! (r div 4096) + 1];
            h = h[16 + g div 4096 := h ! (16 + g div 4096) + 1]
        in h[32 + b div 4096 := h ! (32 + b div 4096) + 1])"

definition points :: "image \<Rightarrow> (int \<times> int) list" where
  "points img = concat (map (\<lambda>y. map (\<lambda>x. (int x + im_MinX img, int y + im_MinY img)) [0..<im_Dx img]) [0..<im_Dy img])"

definition ComputeColorHistogram :: "(bytes \<Rightarrow> image option) \<Rightarrow> bytes \<Rightarrow> string option" where
  "ComputeColorHistogram decode data =
     (case decode data of
        None \<Rightarrow> None
      | Some img \<Rightarrow>
          let histogram = fold (\<lambda>(x, y). count_color (im_At img x y)) (points img) (replicate 48 0)
          in Some (hex_encode (take 16 (sha256_sum (concat (map le_bytes32 histogram))))))"

subsection \<open>Lemmas\<close>

text \<open>\<open>x & (x - 1)\<close> clears the lowest bit, so the loop counts the bits.\<close>

fun bit_sum :: "nat \<Rightarrow> nat" where
  "bit_sum n = (if n = 0 then 0 else n mod 2 + bit_sum (n div 2))"

declare bit_sum.simps [simp del]

lemma bit_sum_0 [simp]: "bit_sum 0 = 0"
  by (simp add: bit_sum.simps)

lemma bit_sum_double [simp]: "bit_sum (2 * n) = bit_sum n" "bit_sum (Suc (2 * n)) = Suc (bit_sum n)"
  by (subst bit_sum.simps, simp)+

lemma and_pred_double: "(2 * n) AND (2 * n - 1) = 2 * (n AND (n - 1))" if "0 < n" for n :: nat
proof -
  have "2 * n - 1 = Suc (2 * (n - 1))" using that by simp
  then show ?thesis by (simp only:) (subst (1) and_nat_rec, simp)
qed

lemma and_pred_odd: "Suc (2 * n) AND (2 * n) = 2 * n" for n :: nat
  by (subst (1) and_nat_rec) simp

lemma bit_sum_and_pred: "0 < n \<Longrightarrow> bit_sum n = Suc (bit_sum (n AND (n - 1)))"
proof (induction n rule: less_induct)
  case (less n)
  show ?case
  proof (cases "even n")
    case True
    then obtain k where k: "n = 2 * k" by (elim evenE)
    then have "0 < k" "k < n" using less.prems by simp_all
    then show ?thesis using less.IH [of k] and_pred_double [of k] by (simp add: k)
  next
    case False
    then obtain k where "n = Suc (2 * k)" by (auto elim: oddE)
    then show ?thesis using and_pred_odd [of k] by simp
  qed
qed

lemma bit_sum_bits: "n < 2 ^ k \<Longrightarrow> bit_sum n = (\<Sum>i<k. of_bool (bit n i))"
proof (induction k arbitrary: n)
  case 0
  then show ?case by simp
next
  case (Suc k)
  then have "n div 2 < 2 ^ k" by (simp add: less_mult_imp_div_less)
  then have "bit_sum (n div 2) = (\<Sum>i<k. of_bool (bit n (Suc i)))" using Suc.IH by (simp add: bit_Suc)
  moreover have "bit_sum n = of_bool (odd n) + bit_sum (n div 2)" by (subst bit_sum.simps) (simp add: mod2_eq_if)
  ultimately show ?case by (simp add: sum.lessThan_Suc_shift bit_0 del: sum.lessThan_Suc)
qed

lemma pop_loop_bits: "pop_loop (x :: 'a :: len word) count = count + bit_sum (unat x)"
proof (induction x count rule: pop_loop.induct)
  case (1 x count)
  show ?case
  proof (cases "x = 0")
    case True
    then show ?thesis by (simp add: pop_loop.simps)
  next
    case False
    then have "unat (x AND (x - 1)) = unat x AND (unat x - 1)" by (simp add: unsigned_and_eq unat_minus_one)
    then show ?thesis using False 1 bit_sum_and_pred [of "unat x"] by (simp add: pop_loop.simps [of x] unat_gt_0)
  qed
qed

lemma popCount_card: "popCount x = card {i. i < 64 \<and> bit x i}"
proof -
  have "popCount x = (\<Sum>i<64. of_bool (bit (unat x) i))"
    using bit_sum_bits [of "unat x" 64] unsigned_less [of x] by (simp add: popCount_def pop_loop_bits)
  also have "\<dots> = (\<Sum>i<64. of_bool (bit x i))" by (simp add: bit_unsigned_iff)
  also have "\<dots> = card ({..<64} \<inter> {i. bit x i})" by (simp add: sum_of_bool_eq)
  finally show ?thesis by (simp add: Int_def)
qed

lemma popCount_le: "popCount x \<le> 64"
proof -
  have "card {i :: nat. i < 64 \<and> bit x i} \<le> card {..<64 :: nat}" by (intro card_mono) auto
  then show ?thesis by (simp add: popCount_card)
qed

lemma popCount_0_iff: "popCount x = 0 \<longleftrightarrow> x = 0"
proof -
  have "finite {i :: nat. i < 64 \<and> bit x i}" by simp
  then have "popCount x = 0 \<longleftrightarrow> (\<forall>i < 64. \<not> bit x i)" by (auto simp: popCount_card)
  also have "\<dots> \<longleftrightarrow> x = 0" by (auto intro: bit_word_eqI)
  finally show ?thesis .
qed

text \<open>The bits of a hash, and the text of one.\<close>

lemma bit_hash_bits:
  "length bs \<le> 64 \<Longrightarrow> i < 64 \<Longrightarrow> bit (hash_bits bs) i \<longleftrightarrow> 63 - i < length bs \<and> bs ! (63 - i)"
proof -
  have fold: "bit (foldl (\<lambda>hash i. if bs ! i then hash OR push_bit (63 - i) 1 else hash) h [0..<n]) i
      \<longleftrightarrow> bit h i \<or> (63 - i < n \<and> bs ! (63 - i))" if "n \<le> 64" "i < 64" for h :: "64 word" and n
    using that
  proof (induction n)
    case 0
    then show ?case by simp
  next
    case (Suc n)
    have "bit (push_bit (63 - n) 1 :: 64 word) i \<longleftrightarrow> n = 63 - i"
      using Suc.prems by (auto simp: bit_push_bit_iff bit_1_iff bit_exp_iff)
    then show ?case using Suc by (auto simp: bit_or_iff less_Suc_eq)
  qed
  show "length bs \<le> 64 \<Longrightarrow> i < 64 \<Longrightarrow> bit (hash_bits bs) i \<longleftrightarrow> 63 - i < length bs \<and> bs ! (63 - i)"
    using fold [of "length bs" 0] by (simp add: hash_bits_def)
qed

lemma popCount_hash_bits:
  assumes "length a = 64" and "length b = 64"
  shows "popCount (hash_bits a XOR hash_bits b) = card {i. i < 64 \<and> a ! i \<noteq> b ! i}"
proof -
  have "bij_betw (\<lambda>i. 63 - i) {i. i < 64 \<and> bit (hash_bits a XOR hash_bits b) i} {i. i < 64 \<and> a ! i \<noteq> b ! i}"
    by (rule bij_betw_byWitness [where f' = "\<lambda>i. 63 - i"]) (auto simp: bit_xor_iff bit_hash_bits assms)
  then show ?thesis by (simp add: popCount_card bij_betw_same_card)
qed

lemma hex_fold:
  "k \<le> 16 \<Longrightarrow> foldl (\<lambda>n c. n * 16 + the (hex_val c)) 0 (map (\<lambda>i. hex_digit (unat (drop_bit (60 - 4 * i) (x :: 64 word)))) [0..<k])
    = unat x div 16 ^ (16 - k)"
proof (induction k)
  case 0
  then show ?case using unsigned_less [where 'a = nat, of x] by simp
next
  case (Suc k)
  let ?a = "unat x div 16 ^ (15 - k)"
  have "60 - 4 * k = 4 * (15 - k)" by simp
  then have "unat (drop_bit (60 - 4 * k) x) = ?a" by (simp only: unat_drop_bit_eq) (simp add: drop_bit_eq_div power_mult)
  moreover have "hex_digit ?a = hex_digit (?a mod 16)" by (simp add: hex_digit_def)
  moreover have "16 - k = Suc (15 - k)" using Suc.prems by simp
  then have "unat x div 16 ^ (16 - k) = ?a div 16" by (simp only: power_Suc2 div_mult2_eq)
  moreover have "?a div 16 * 16 + ?a mod 16 = ?a" by simp
  ultimately show ?case using Suc hex_val_digit [of "?a mod 16"] by simp
qed

lemma hex_digit_plain: "hex_val (hex_digit n) \<noteq> None" "\<not> isSpaceC (hex_digit n)" "hex_digit n \<noteq> CHR 0x0A" "hex_digit n \<noteq> CHR 0x0D"
proof -
  have "\<forall>n \<in> set [0..<16]. hex_val (hex_digit n) \<noteq> None \<and> \<not> isSpaceC (hex_digit n) \<and> hex_digit n \<noteq> CHR 0x0A \<and> hex_digit n \<noteq> CHR 0x0D"
    by code_simp
  moreover have "hex_digit n = hex_digit (n mod 16)" by (simp add: hex_digit_def)
  moreover have "n mod 16 \<in> set [0..<16]" by simp
  ultimately show "hex_val (hex_digit n) \<noteq> None" "\<not> isSpaceC (hex_digit n)" "hex_digit n \<noteq> CHR 0x0A" "hex_digit n \<noteq> CHR 0x0D"
    by metis+
qed

lemma length_hex16 [simp]: "length (hex16 x) = 16"
  by (simp add: hex16_def)

lemma parse_hex16: "parseHash (hex16 x) = Some x"
proof -
  have skip: "SkipSpace (hex16 x) = Some (hex16 x)"
    by (simp add: hex16_def upt_rec [of 0] hex_digit_plain)
  have all: "takeWhile (\<lambda>c. hex_val c \<noteq> None) (hex16 x) = hex16 x"
    by (rule takeWhile_eq_all_conv [THEN iffD2]) (use hex_digit_plain(1) in \<open>simp add: hex16_def image_iff del: not_None_eq\<close>)
  have "foldl (\<lambda>n c. n * 16 + the (hex_val c)) 0 (hex16 x) = unat x" using hex_fold [of 16 x] by (simp add: hex16_def)
  moreover have "hex16 x \<noteq> []" using length_hex16 [of x] by fastforce
  ultimately show ?thesis by (simp only: parseHash_def skip all take_all length_hex16 order_refl option.case Let_def if_False) simp
qed

text \<open>How similar two hashes are.\<close>

lemma float64_similarity:
  assumes "float64_ok rnd" and "k \<le> 64"
  shows "rnd (1 - rnd (of_nat k / 64)) = 1 - of_nat k / 64"
proof -
  have k: "rnd (of_int m / 64) = of_int m / 64" if "\<bar>m\<bar> \<le> 64" for m :: int using assms(1) that by (simp add: float64_ok_def)
  have "rnd (of_nat k / 64) = of_nat k / 64" using k [of "int k"] assms(2) by simp
  moreover have "rnd (of_int (64 - int k) / 64) = of_int (64 - int k) / 64" using assms(2) by (intro k) simp
  moreover have "(of_int (64 - int k) / 64 :: rat) = 1 - of_nat k / 64" by (simp add: diff_divide_distrib)
  ultimately show ?thesis by metis
qed

lemma CompareHashes_sym: "CompareHashes rnd a b = CompareHashes rnd b a"
  by (simp add: CompareHashes_def xor.commute split: option.split)

lemma CompareHashes_Some:
  assumes "float64_ok rnd" and "CompareHashes rnd a b = Some s"
  shows "\<exists>x y. parseHash a = Some x \<and> parseHash b = Some y \<and> s = 1 - of_nat (popCount (x XOR y)) / 64"
  using assms float64_similarity [OF assms(1) popCount_le] by (auto simp: CompareHashes_def split: option.splits)

lemma CompareHashes_bounds:
  assumes "float64_ok rnd" and "CompareHashes rnd a b = Some s"
  shows "0 \<le> s" and "s \<le> 1" and "s = 1 \<longleftrightarrow> parseHash a = parseHash b"
proof -
  obtain x y where xy: "parseHash a = Some x" "parseHash b = Some y" "s = 1 - of_nat (popCount (x XOR y)) / 64"
    using CompareHashes_Some [OF assms] by blast
  have "(of_nat (popCount (x XOR y)) :: rat) \<le> 64" using popCount_le [of "x XOR y"] of_nat_mono [where 'a = rat] by fastforce
  then show "0 \<le> s" "s \<le> 1" using xy(3) by simp_all
  have "x XOR y = 0 \<longleftrightarrow> x = y" by (auto simp: bit_eq_iff bit_xor_iff)
  then show "s = 1 \<longleftrightarrow> parseHash a = parseHash b" using xy by (simp add: popCount_0_iff)
qed

subsection \<open>Properties\<close>

text \<open>Comparing perceptual hashes. The text of a hash parses to it, and two hashes made of 64 comparisons each are
  similar by the share of the comparisons that agree; the comparison is symmetric, and whatever the two texts are a
  similarity lies between 0 and 1 and is 1 exactly for texts that parse alike. A text of which only the first
  characters are hexadecimal is no error: the rest is not read.\<close>

theorem CompareHashes_correct:
  assumes "float64_ok rnd" and "length a = 64" and "length b = 64"
  shows "CompareHashes rnd (hex16 (hash_bits a)) (hex16 (hash_bits b)) = Some (1 - of_nat (card {i. i < 64 \<and> a ! i \<noteq> b ! i}) / 64)"
    and "CompareHashes rnd s t = CompareHashes rnd t s"
    and "CompareHashes rnd s t = Some v \<Longrightarrow> 0 \<le> v \<and> v \<le> 1 \<and> (v = 1 \<longleftrightarrow> parseHash s = parseHash t)"
    and "CompareHashes rnd (hex16 x @ s) (hex16 x @ t) = Some 1"
proof -
  show "CompareHashes rnd (hex16 (hash_bits a)) (hex16 (hash_bits b)) = Some (1 - of_nat (card {i. i < 64 \<and> a ! i \<noteq> b ! i}) / 64)"
    using float64_similarity [OF assms(1) popCount_le, of "hash_bits a XOR hash_bits b"]
    by (simp add: CompareHashes_def parse_hex16 popCount_hash_bits assms(2,3))
  show "CompareHashes rnd s t = CompareHashes rnd t s" by (rule CompareHashes_sym)
  show "CompareHashes rnd s t = Some v \<Longrightarrow> 0 \<le> v \<and> v \<le> 1 \<and> (v = 1 \<longleftrightarrow> parseHash s = parseHash t)"
    using CompareHashes_bounds [OF assms(1)] by blast
  have "parseHash (hex16 x @ u) = Some x" for u
  proof -
    have "SkipSpace (hex16 x @ u) = Some (hex16 x @ u)" by (simp add: hex16_def upt_rec [of 0] hex_digit_plain)
    moreover have "SkipSpace (hex16 x) = Some (hex16 x)" by (simp add: hex16_def upt_rec [of 0] hex_digit_plain)
    ultimately show ?thesis using parse_hex16 [of x] by (simp add: parseHash_def)
  qed
  then show "CompareHashes rnd (hex16 x @ s) (hex16 x @ t) = Some 1"
    using float64_similarity [OF assms(1), of 0] popCount_0_iff [of 0] by (simp add: CompareHashes_def)
qed

lemma float64_exact: "float64_ok (\<lambda>x. x)"
  by (simp add: float64_ok_def rounding_exact)

theorem CompareHashes_correct_witness:
  "CompareHashes (\<lambda>x. x) (hex16 (hash_bits (replicate 64 True))) (hex16 (hash_bits (replicate 64 False))) = Some 0"
  using CompareHashes_correct(1) [OF float64_exact, of "replicate 64 True" "replicate 64 False"]
  by (simp cong: conj_cong)

end
