(* ===== verification/Audio.thy ===== *)
theory Audio
  imports ImageHash
begin

text \<open>
  Fingerprints of sound: \<open>server/internal/fingerprint/audio.go\<close>.

  The window, the Fourier transform and the twelve shares of a frame are the argument \<open>chroma\<close>; everything else
  is in the model: what is taken for sound, how a WAV file is cut into samples, how many frames there are, and how a
  fingerprint is made of their differences and compared. A \<open>float64\<close> is as in \<open>ImageHash\<close>; \<open>NaN\<close> and infinity
  are values of their own where the code can produce them.
\<close>

datatype media_error = ErrUnsupportedFormat | TooShort | InvalidWAV | InvalidHex | InvalidHash | DecodeFailed | DifferentTypes | NoFeatures

subsection \<open>Reading bytes\<close>

definition le16 :: "bytes \<Rightarrow> nat \<Rightarrow> nat" where
  "le16 d i = unat (d ! i) + 256 * unat (d ! (i + 1))"

definition le32 :: "bytes \<Rightarrow> nat \<Rightarrow> nat" where
  "le32 d i = le16 d i + 65536 * le16 d (i + 2)"

definition be32 :: "bytes \<Rightarrow> nat \<Rightarrow> nat" where
  "be32 d i = ((unat (d ! i) * 256 + unat (d ! (i + 1))) * 256 + unat (d ! (i + 2))) * 256 + unat (d ! (i + 3))"

text \<open>\<open>string(d[i:j]) == s\<close> where the slice is in range.\<close>

definition tag_at :: "bytes \<Rightarrow> nat \<Rightarrow> string \<Rightarrow> bool" where
  "tag_at d i s \<longleftrightarrow> take (length s) (drop i d) = bytes_of s"

subsection \<open>Samples\<close>

record AudioHasher =
  frameSize :: nat
  hopSize :: nat
  numBands :: nat
  minFreq :: rat
  maxFreq :: rat

definition NewAudioHasher :: AudioHasher where
  "NewAudioHasher = \<lparr>frameSize = 4096, hopSize = 2048, numBands = 33, minFreq = 300, maxFreq = 2000\<rparr>"

definition is_wave :: "bytes \<Rightarrow> bool" where
  "is_wave data \<longleftrightarrow> tag_at data 0 ''RIFF'' \<and> tag_at data 8 ''WAVE''"

text \<open>One sample of a channel; a read past the end, which leaves zeros, does not occur.\<close>

definition read_bytes :: "nat \<Rightarrow> bytes \<Rightarrow> bytes" where
  "read_bytes n rest = (if n \<le> length rest then take n rest else replicate n 0)"

definition read_sample :: "(rat \<Rightarrow> rat) \<Rightarrow> nat \<Rightarrow> bytes \<Rightarrow> rat \<times> bytes" where
  "read_sample rnd bits rest =
     (if bits = 8 then (rnd (rnd (of_nat (unat (read_bytes 1 rest ! 0)) - 128) / 128), drop 1 rest)
      else if bits = 16 then (rnd (of_int (sint (word_of_nat (le16 (read_bytes 2 rest) 0) :: 16 word)) / 32768), drop 2 rest)
      else if bits = 24 then
        (let buf = take 3 (rest @ replicate 3 0); s = le16 buf 0 + 65536 * unat (buf ! 2) in
         (rnd (of_int (if s \<ge> 0x800000 then int s - 0x1000000 else int s) / 8388608), drop 3 rest))
      else if bits = 32 then (rnd (of_int (sint (word_of_nat (le32 (read_bytes 4 rest) 0) :: 32 word)) / 2147483648), drop 4 rest)
      else (0, rest))"

primrec mix_channels :: "(rat \<Rightarrow> rat) \<Rightarrow> nat \<Rightarrow> nat \<Rightarrow> rat \<Rightarrow> bytes \<Rightarrow> rat \<times> bytes" where
  "mix_channels rnd bits 0 acc rest = (acc, rest)"
| "mix_channels rnd bits (Suc n) acc rest =
     (let (sample, rest) = read_sample rnd bits rest in mix_channels rnd bits n (rnd (acc + sample)) rest)"

primrec read_samples :: "(rat \<Rightarrow> rat) \<Rightarrow> nat \<Rightarrow> nat \<Rightarrow> nat \<Rightarrow> bytes \<Rightarrow> rat list" where
  "read_samples rnd bits channels 0 rest = []"
| "read_samples rnd bits channels (Suc n) rest =
     (let (acc, rest) = mix_channels rnd bits channels 0 rest in rnd (acc / of_nat channels) # read_samples rnd bits channels n rest)"

text \<open>The first \<open>data\<close> from byte 36 on, else byte 44 is where the samples start. A division by zero panics.\<close>

definition data_offset :: "bytes \<Rightarrow> nat" where
  "data_offset data =
     (case List.find (\<lambda>i. tag_at data i ''data'') [36..<length data - 8] of Some i \<Rightarrow> i + 8 | None \<Rightarrow> 44)"

definition parseWAV :: "(rat \<Rightarrow> rat) \<Rightarrow> bytes \<Rightarrow> (media_error, rat list) outcome" where
  "parseWAV rnd data =
     (if length data < 44 then Err InvalidWAV
      else
        let numChannels = le16 data 22;
            bitsPerSample = le16 data 34;
            audioData = drop (data_offset data) data;
            bytesPerSample = bitsPerSample div 8
        in if bytesPerSample = 0 \<or> numChannels = 0 then Panic
           else Ok (read_samples rnd bitsPerSample numChannels (length audioData div bytesPerSample div numChannels) audioData))"

definition parsePCM :: "(rat \<Rightarrow> rat) \<Rightarrow> bytes \<Rightarrow> (media_error, rat list) outcome" where
  "parsePCM rnd data =
     (if length data < 44 then Err TooShort
      else if is_wave data then parseWAV rnd data
      else Ok (map (\<lambda>i. rnd (of_int (sint (word_of_nat (le16 data (2 * i)) :: 16 word)) / 32768)) [0..<length data div 2]))"

subsection \<open>Fingerprints\<close>

definition computeChroma :: "AudioHasher \<Rightarrow> (rat list \<Rightarrow> rat list) \<Rightarrow> rat list \<Rightarrow> rat list list" where
  "computeChroma h chroma samples =
     (if length samples < frameSize h then []
      else map (\<lambda>i. chroma (take (frameSize h) (drop (i * hopSize h) samples))) [0..<(length samples - frameSize h) div hopSize h])"

definition rise_bits :: "rat list \<Rightarrow> rat list \<Rightarrow> 8 word" where
  "rise_bits prev cur = foldl (\<lambda>bits j. if cur ! j > prev ! j then bits OR push_bit j 1 else bits) 0 [0..<8]"

definition quantizeChroma :: "rat list list \<Rightarrow> string" where
  "quantizeChroma chroma =
     (if chroma = [] then ''''
      else hex_encode (take 16 (sha256_sum (map (\<lambda>i. rise_bits (chroma ! (i - 1)) (chroma ! i)) [1..<length chroma]))))"

definition aud_ComputeFingerprint :: "(rat \<Rightarrow> rat) \<Rightarrow> (rat list \<Rightarrow> rat list) \<Rightarrow> AudioHasher \<Rightarrow> bytes \<Rightarrow> (media_error, string) outcome" where
  "aud_ComputeFingerprint rnd chroma h data =
     (case parsePCM rnd data of
        Panic \<Rightarrow> Panic
      | Err _ \<Rightarrow> Ok (hex_encode (take 16 (sha256_sum data)))
      | Ok samples \<Rightarrow> Ok (quantizeChroma (computeChroma h chroma samples)))"

definition aud_CompareFingerprints :: "(rat \<Rightarrow> rat) \<Rightarrow> string \<Rightarrow> string \<Rightarrow> (media_error, float64) outcome" where
  "aud_CompareFingerprints rnd fp1 fp2 =
     (if fp1 = fp2 then Ok (Num 1)
      else case hex_decode fp1 of
          None \<Rightarrow> Err InvalidHex
        | Some bytes1 \<Rightarrow>
            (case hex_decode fp2 of
               None \<Rightarrow> Err InvalidHex
             | Some bytes2 \<Rightarrow>
                 let minLen = min (length bytes1) (length bytes2);
                     hammingDist = foldl (\<lambda>dist i. pop_loop (bytes1 ! i XOR bytes2 ! i) dist) 0 [0..<minLen];
                     maxBits = minLen * 8
                 in if maxBits = 0 then Ok NaN
                    else Ok (Num (rnd (1 - rnd (of_nat hammingDist / of_nat maxBits))))))"

record AudioMetadata =
  am_Duration :: float64
  am_SampleRate :: nat
  am_Channels :: nat
  am_BitDepth :: nat
  am_Format :: string

definition float_div :: "(rat \<Rightarrow> rat) \<Rightarrow> nat \<Rightarrow> nat \<Rightarrow> float64" where
  "float_div rnd n d = (if d = 0 then (if n = 0 then NaN else Inf) else Num (rnd (of_nat n / of_nat d)))"

definition aud_GetMetadata :: "(rat \<Rightarrow> rat) \<Rightarrow> bytes \<Rightarrow> (media_error, AudioMetadata) outcome" where
  "aud_GetMetadata rnd data =
     (let meta = \<lparr>am_Duration = Num 0, am_SampleRate = 0, am_Channels = 0, am_BitDepth = 0, am_Format = ''''\<rparr> in
      if length data < 44 then Err TooShort
      else if is_wave data then
        let meta = meta\<lparr>am_Format := ''wav'', am_SampleRate := le32 data 24, am_Channels := le16 data 22, am_BitDepth := le16 data 34\<rparr>;
            dataSize = le32 data 40;
            bytesPerSample = am_BitDepth meta div 8 * am_Channels meta
        in Ok (if bytesPerSample > 0
               then meta\<lparr>am_Duration := (case float_div rnd dataSize (am_SampleRate meta) of
                      Num q \<Rightarrow> Num (rnd (q / of_nat bytesPerSample)) | f \<Rightarrow> f)\<rparr>
               else meta)
      else Ok meta)"

subsection \<open>Lemmas\<close>

lemma parseWAV_panics_iff:
  "44 \<le> length data \<Longrightarrow> parseWAV rnd data = Panic \<longleftrightarrow> le16 data 34 < 8 \<or> le16 data 22 = 0"
  by (auto simp: parseWAV_def Let_def div_eq_0_iff)

lemma raw_samples:
  "44 \<le> length data \<Longrightarrow> \<not> is_wave data \<Longrightarrow> \<exists>samples. parsePCM rnd data = Ok samples \<and> length samples = length data div 2"
  by (simp add: parsePCM_def)

lemma few_frames:
  "length samples < 6144 \<Longrightarrow> computeChroma NewAudioHasher chroma samples = []"
  "6144 \<le> length samples \<Longrightarrow> length samples < 8192 \<Longrightarrow> computeChroma NewAudioHasher chroma samples = [chroma (take 4096 samples)]"
proof -
  show "length samples < 6144 \<Longrightarrow> computeChroma NewAudioHasher chroma samples = []"
    by (simp add: computeChroma_def NewAudioHasher_def)
  assume "6144 \<le> length samples" "length samples < 8192"
  then have "(length samples - 4096) div 2048 = 1" by (simp add: div_nat_eqI)
  then show "computeChroma NewAudioHasher chroma samples = [chroma (take 4096 samples)]"
    using \<open>6144 \<le> length samples\<close> by (simp add: computeChroma_def NewAudioHasher_def)
qed

lemma aud_panics_iff:
  "aud_ComputeFingerprint rnd chroma h data = Panic \<longleftrightarrow> 44 \<le> length data \<and> is_wave data \<and> (le16 data 34 < 8 \<or> le16 data 22 = 0)"
  using parseWAV_panics_iff [of data rnd] by (auto simp: aud_ComputeFingerprint_def parsePCM_def split: outcome.split)

subsection \<open>Properties\<close>

text \<open>C40. Short sounds can not be told apart. Data of 44 to 12287 bytes that is no WAV file has the empty fingerprint,
  and data of up to 16383 bytes the fingerprint of no bits at all, whatever the sounds are; so any two of one kind
  compare as identical, and the comparison of one with any other fingerprint of the program is no number. The
  content decides nothing, only its length.\<close>

theorem short_sounds_alike:
  assumes "\<not> is_wave a" and "\<not> is_wave b" and "44 \<le> length a" and "44 \<le> length b"
    and "length a < 12288 \<and> length b < 12288 \<or> {length a, length b} \<subseteq> {12288..16383}"
  shows "\<exists>fp. aud_ComputeFingerprint rnd chroma NewAudioHasher a = Ok fp \<and> aud_ComputeFingerprint rnd chroma NewAudioHasher b = Ok fp
    \<and> aud_CompareFingerprints rnd fp fp = Ok (Num 1)
    \<and> (length a < 12288 \<longrightarrow> fp = '''' \<and> (\<forall>bs. bs \<noteq> [] \<longrightarrow> aud_CompareFingerprints rnd fp (hex_encode bs) = Ok NaN))"
proof -
  have quant: "quantizeChroma [] = ''''" "quantizeChroma [x] = hex_encode (take 16 (sha256_sum []))" for x
    by (simp_all add: quantizeChroma_def)
  have short: "aud_ComputeFingerprint rnd chroma NewAudioHasher d = Ok ''''" if low: "\<not> is_wave d" "44 \<le> length d" "length d < 12288" for d
  proof -
    obtain s where "parsePCM rnd d = Ok s" "length s = length d div 2" using raw_samples [OF low(2,1)] by blast
    then show ?thesis using low(3) by (simp add: aud_ComputeFingerprint_def few_frames(1) quant)
  qed
  have one: "aud_ComputeFingerprint rnd chroma NewAudioHasher d = Ok (hex_encode (take 16 (sha256_sum [])))"
    if long: "\<not> is_wave d" "12288 \<le> length d" "length d < 16384" for d
  proof -
    obtain s where "parsePCM rnd d = Ok s" "length s = length d div 2" using raw_samples [of d] long by fastforce
    then show ?thesis using long(2,3) by (simp add: aud_ComputeFingerprint_def few_frames(2) quant)
  qed
  have nan: "aud_CompareFingerprints rnd '''' (hex_encode bs) = Ok NaN" if "bs \<noteq> []" for bs
  proof -
    have "hex_encode bs \<noteq> ''''" using that length_hex_encode [of bs] by (metis length_0_conv mult_eq_0_iff zero_neq_numeral)
    then show ?thesis by (simp add: aud_CompareFingerprints_def hex_roundtrip)
  qed
  show ?thesis
  proof (cases "length a < 12288")
    case True
    then have "length b < 12288" using assms(5) by auto
    then show ?thesis using short [OF assms(1,3) True] short [OF assms(2,4)] nan by (simp add: aud_CompareFingerprints_def)
  next
    case False
    then have "{length a, length b} \<subseteq> {12288..16383}" using assms(5) by blast
    then show ?thesis using one [OF assms(1)] one [OF assms(2)] False by (simp add: aud_CompareFingerprints_def)
  qed
qed

theorem short_sounds_alike_witness:
  "\<exists>fp. aud_ComputeFingerprint (\<lambda>x. x) (\<lambda>x. x) NewAudioHasher (replicate 44 0) = Ok fp
     \<and> aud_ComputeFingerprint (\<lambda>x. x) (\<lambda>x. x) NewAudioHasher (replicate 5000 7) = Ok fp"
proof -
  have "\<not> is_wave (replicate 44 0)" "\<not> is_wave (replicate 5000 7)"
    by (simp_all add: is_wave_def tag_at_def bytes_of_def byte_of_def)
  from short_sounds_alike [OF this, of "\<lambda>x. x" "\<lambda>x. x"] show ?thesis by auto
qed

end
