(* ===== verification/Video.thy ===== *)
theory Video
  imports Audio "HOL-Library.List_Lexorder" "HOL-Library.Char_ord" "HOL-Library.Multiset"
begin

text \<open>
  Fingerprints of video: \<open>server/internal/fingerprint/video.go\<close>.

  The parsers of the containers work on lists of bytes, with every slice bound and every index of the code: a
  result is a value, an error or \<open>Panic\<close>, and \<open>None\<close> around it is a loop that does not end. Only
  \<open>extractFromMP4\<close> slices beyond the length of its data, so only it depends on the bytes the slice has room for
  behind it, the argument \<open>spare\<close>. Decoding an image and the cosine transform are in the record \<open>media_env\<close>. The
  32-bit sizes read from a file are added to 64-bit offsets, so no sum wraps around.
\<close>

record media_env =
  me_rnd :: "rat \<Rightarrow> rat"
  me_dct :: "rat list \<Rightarrow> rat list"
  me_decode :: "bytes \<Rightarrow> image option"
  me_dimensions :: "bytes \<Rightarrow> (nat \<times> nat) option"
  me_chroma :: "rat list \<Rightarrow> rat list"

record VideoMetadata =
  vm_Duration :: rat
  vm_Width :: nat
  vm_Height :: nat
  vm_FrameRate :: rat
  vm_Codec :: string
  vm_BitRate :: int

record KeyFrame =
  kf_Timestamp :: rat
  kf_Hash :: string
  kf_Index :: nat

record VideoHasher =
  maxKeyFrames :: nat
  frameInterval :: rat
  similarityThreshold :: rat

definition NewVideoHasher :: "(rat \<Rightarrow> rat) \<Rightarrow> VideoHasher" where
  "NewVideoHasher rnd = \<lparr>maxKeyFrames = 16, frameInterval = 2, similarityThreshold = rnd (85 / 100)\<rparr>"

subsection \<open>Formats\<close>

text \<open>\<open>bytes.Index\<close> and \<open>bytes.Contains\<close>.\<close>

definition bytes_Index :: "bytes \<Rightarrow> bytes \<Rightarrow> nat option" where
  "bytes_Index s p = List.find (\<lambda>i. take (length p) (drop i s) = p) [0..<length s + 1 - length p]"

definition containsJPEG :: "bytes \<Rightarrow> bool" where
  "containsJPEG data \<longleftrightarrow> bytes_Index data [0xFF, 0xD8, 0xFF] \<noteq> None"

definition detectFormat :: "bytes \<Rightarrow> string" where
  "detectFormat data =
     (if length data < 12 then ''unknown''
      else if tag_at data 4 ''ftyp'' then ''mp4''
      else if tag_at data 0 ''RIFF'' \<and> tag_at data 8 ''AVI '' then ''avi''
      else if tag_at data 0 ''GIF89a'' \<or> tag_at data 0 ''GIF87a'' then ''gif''
      else if take 4 data = [0x1A, 0x45, 0xDF, 0xA3] then ''webm''
      else if data ! 0 = 0x47 then ''ts''
      else if containsJPEG data then ''mjpeg''
      else ''unknown'')"

subsection \<open>Key frames\<close>

definition hashFrameData :: "media_env \<Rightarrow> bytes \<Rightarrow> (media_error, string) outcome" where
  "hashFrameData E frameData =
     (case me_decode E frameData of
        None \<Rightarrow> Ok (hex_encode (take 8 (sha256_sum frameData)))
      | Some _ \<Rightarrow> (case ComputePHash (me_rnd E) (me_dct E) (me_decode E) frameData of None \<Rightarrow> Err DecodeFailed | Some h \<Rightarrow> Ok h))"

text \<open>The loop of \<open>extractEmbeddedImages\<close> from an offset; \<open>k\<close> is the index of the next frame.\<close>

function embedded_loop :: "media_env \<Rightarrow> nat \<Rightarrow> bytes \<Rightarrow> nat \<Rightarrow> nat \<Rightarrow> KeyFrame list \<Rightarrow> KeyFrame list" where
  "embedded_loop E mx data offset k keyFrames =
     (if offset + 4 < length data \<and> length keyFrames < mx then
        (case bytes_Index (drop offset data) [0xFF, 0xD8] of
           None \<Rightarrow> keyFrames
         | Some i \<Rightarrow>
             let startIdx = i + offset in
             (case bytes_Index (drop (startIdx + 2) data) [0xFF, 0xD9] of
                None \<Rightarrow> keyFrames
              | Some j \<Rightarrow>
                  let endIdx = j + (startIdx + 2 + 2); jpegData = take (endIdx - startIdx) (drop startIdx data)
                  in case hashFrameData E jpegData of
                       Ok h \<Rightarrow> embedded_loop E mx data endIdx (k + 1) (keyFrames @ [\<lparr>kf_Timestamp = 0, kf_Hash = h, kf_Index = k\<rparr>])
                     | _ \<Rightarrow> embedded_loop E mx data endIdx k keyFrames))
      else keyFrames)"
  by pat_completeness auto
termination by (relation "measure (\<lambda>(E, mx, data, offset, k, kfs). length data - offset)") auto

declare embedded_loop.simps [simp del]

definition extractEmbeddedImages :: "media_env \<Rightarrow> VideoHasher \<Rightarrow> bytes \<Rightarrow> KeyFrame list" where
  "extractEmbeddedImages E h data = embedded_loop E (maxKeyFrames h) data 0 0 []"

definition selectRepresentativeFrames :: "media_env \<Rightarrow> VideoHasher \<Rightarrow> KeyFrame list \<Rightarrow> KeyFrame list" where
  "selectRepresentativeFrames E h frames =
     (if length frames \<le> maxKeyFrames h then frames
      else
        let step = me_rnd E (of_nat (length frames) / of_nat (maxKeyFrames h))
        in map (\<lambda>i. let idx = nat \<lfloor>me_rnd E (of_nat i * step)\<rfloor>
             in frames ! (if idx \<ge> length frames then length frames - 1 else idx)) [0..<maxKeyFrames h])"

text \<open>The search for the box \<open>mdat\<close>: its start and size, both zero if there is none.\<close>

function find_mdat :: "bytes \<Rightarrow> nat \<Rightarrow> nat \<times> int" where
  "find_mdat data offset =
     (if offset + 8 < length data then
        let boxSize = be32 data offset in
        if boxSize = 0 then (0, 0)
        else if tag_at data (offset + 4) ''mdat'' then (offset + 8, int boxSize - 8)
        else find_mdat data (offset + boxSize)
      else (0, 0))"
  by pat_completeness auto
termination by (relation "measure (\<lambda>(data, offset). length data - offset)") auto

declare find_mdat.simps [simp del]

definition extractFromMP4 :: "media_env \<Rightarrow> VideoHasher \<Rightarrow> bytes \<Rightarrow> bytes \<Rightarrow> (media_error, KeyFrame list) outcome" where
  "extractFromMP4 E h spare data =
     (let (mdatStart, mdatSize) = find_mdat data 0 in
      if mdatStart > 0 \<and> mdatSize > 0
      then case go_slice (data @ spare) mdatStart (mdatStart + nat mdatSize) of
          None \<Rightarrow> Panic
        | Some mdatData \<Rightarrow>
            let keyFrames = extractEmbeddedImages E h mdatData
            in Ok (if length keyFrames > maxKeyFrames h then selectRepresentativeFrames E h keyFrames else keyFrames)
      else Ok [])"

text \<open>The chunks of a RIFF file, from byte 12 on.\<close>

function avi_loop :: "media_env \<Rightarrow> nat \<Rightarrow> bytes \<Rightarrow> nat \<Rightarrow> KeyFrame list \<Rightarrow> KeyFrame list" where
  "avi_loop E mx data offset keyFrames =
     (if offset + 8 < length data then
        let chunkSize = le32 data (offset + 4) in
        if chunkSize = 0 \<or> offset + 8 + chunkSize > length data then keyFrames
        else
          let keyFrames =
                (if tag_at data (offset + 2) ''dc'' \<or> tag_at data (offset + 2) ''db''
                 then case hashFrameData E (take chunkSize (drop (offset + 8) data)) of
                     Ok hash \<Rightarrow> keyFrames @ [\<lparr>kf_Timestamp = 0, kf_Hash = hash, kf_Index = length keyFrames\<rparr>]
                   | _ \<Rightarrow> keyFrames
                 else keyFrames)
          in if length keyFrames \<ge> mx then keyFrames
             else avi_loop E mx data (offset + (8 + chunkSize) + (if chunkSize mod 2 \<noteq> 0 then 1 else 0)) keyFrames
      else keyFrames)"
  by pat_completeness auto
termination by (relation "measure (\<lambda>(E, mx, data, offset, kfs). length data - offset)") auto

declare avi_loop.simps [simp del]

definition extractFromAVI :: "media_env \<Rightarrow> VideoHasher \<Rightarrow> bytes \<Rightarrow> KeyFrame list" where
  "extractFromAVI E h data = avi_loop E (maxKeyFrames h) data 12 []"

definition extractFromGIF :: "media_env \<Rightarrow> bytes \<Rightarrow> (media_error, KeyFrame list) outcome" where
  "extractFromGIF E data =
     (case me_decode E data of
        None \<Rightarrow> Err DecodeFailed
      | Some _ \<Rightarrow>
          (case ComputePHash (me_rnd E) (me_dct E) (me_decode E) data of
             None \<Rightarrow> Err DecodeFailed
           | Some hash \<Rightarrow> Ok [\<lparr>kf_Timestamp = 0, kf_Hash = hash, kf_Index = 0\<rparr>]))"

definition extractKeyFrames :: "media_env \<Rightarrow> VideoHasher \<Rightarrow> bytes \<Rightarrow> bytes \<Rightarrow> (media_error, KeyFrame list) outcome" where
  "extractKeyFrames E h spare data =
     (let format = detectFormat data in
      if format = ''mp4'' \<or> format = ''mov'' then extractFromMP4 E h spare data
      else if format = ''avi'' then Ok (extractFromAVI E h data)
      else if format = ''gif'' then extractFromGIF E data
      else Ok (extractEmbeddedImages E h data))"

definition ExtractKeyFrameHashes :: "media_env \<Rightarrow> VideoHasher \<Rightarrow> bytes \<Rightarrow> bytes \<Rightarrow> (media_error, string list) outcome" where
  "ExtractKeyFrameHashes E h spare data =
     (case extractKeyFrames E h spare data of Panic \<Rightarrow> Panic | Err e \<Rightarrow> Err e | Ok keyFrames \<Rightarrow> Ok (map kf_Hash keyFrames))"

subsection \<open>Fingerprints and their comparison\<close>

text \<open>\<open>sort.Strings\<close> orders byte strings lexicographically, as the library theories do.\<close>

definition computeCombinedHash :: "string list \<Rightarrow> string" where
  "computeCombinedHash hashes = hex_encode (take 16 (sha256_sum (bytes_of (concat (sort hashes)))))"

definition vid_ComputeFingerprint :: "media_env \<Rightarrow> VideoHasher \<Rightarrow> bytes \<Rightarrow> bytes \<Rightarrow> (media_error, string) outcome" where
  "vid_ComputeFingerprint E h spare data =
     (let fallback = hex_encode (take 16 (sha256_sum data)) in
      case ExtractKeyFrameHashes E h spare data of
        Panic \<Rightarrow> Panic
      | Err _ \<Rightarrow> Ok fallback
      | Ok keyFrameHashes \<Rightarrow> Ok (if keyFrameHashes = [] then fallback else computeCombinedHash keyFrameHashes))"

definition best_score :: "(rat \<Rightarrow> rat) \<Rightarrow> (string \<times> string) list \<Rightarrow> rat" where
  "best_score rnd ps =
     foldl (\<lambda>best (h1, h2). case CompareHashes rnd h1 h2 of None \<Rightarrow> best | Some score \<Rightarrow> if score > best then score else best) 0 ps"

text \<open>One direction of the matching; the code also counts the matches, and does not use the number.\<close>

definition match_step :: "(rat \<Rightarrow> rat) \<Rightarrow> rat \<Rightarrow> (string \<times> string) list \<Rightarrow> rat \<times> nat \<Rightarrow> rat \<times> nat" where
  "match_step rnd threshold ps st =
     (let bestScore = best_score rnd ps in
      if bestScore > threshold then (rnd (fst st + bestScore), snd st + 1) else st)"

definition compareKeyFrameHashes :: "(rat \<Rightarrow> rat) \<Rightarrow> VideoHasher \<Rightarrow> string list \<Rightarrow> string list \<Rightarrow> rat" where
  "compareKeyFrameHashes rnd h hashes1 hashes2 =
     (if hashes1 = [] \<or> hashes2 = [] then 0
      else
        let thr = similarityThreshold h;
            st = fold (\<lambda>h1. match_step rnd thr (map (\<lambda>h2. (h1, h2)) hashes2)) hashes1 (0, 0);
            (totalScore, matchCount) = fold (\<lambda>h2. match_step rnd thr (map (\<lambda>h1. (h1, h2)) hashes1)) hashes2 st;
            maxMatches = length hashes1 + length hashes2
        in rnd (totalScore / of_nat maxMatches))"

subsection \<open>Metadata\<close>

definition no_metadata :: VideoMetadata where
  "no_metadata = \<lparr>vm_Duration = 0, vm_Width = 0, vm_Height = 0, vm_FrameRate = 0, vm_Codec = '''', vm_BitRate = 0\<rparr>"

function parseMP4TrakBox :: "bytes \<Rightarrow> nat \<Rightarrow> VideoMetadata \<Rightarrow> VideoMetadata" where
  "parseMP4TrakBox data offset meta =
     (if offset + 8 < length data then
        let boxSize = be32 data offset in
        if boxSize = 0 \<or> boxSize > length data - offset then meta
        else
          parseMP4TrakBox data (offset + boxSize)
            (if tag_at data (offset + 4) ''tkhd'' \<and> boxSize \<ge> 84 \<and> data ! (offset + 8) = 0
             then meta\<lparr>vm_Width := be32 data (offset + 76) div 65536, vm_Height := be32 data (offset + 80) div 65536\<rparr>
             else meta)
      else meta)"
  by pat_completeness auto
termination by (relation "measure (\<lambda>(data, offset, meta). length data - offset)") auto

text \<open>Of a header of 24 to 27 bytes at the end of the data the code reads the four bytes from the 24th on.\<close>

definition mvhd_step :: "(rat \<Rightarrow> rat) \<Rightarrow> bytes \<Rightarrow> nat \<Rightarrow> nat \<Rightarrow> VideoMetadata \<Rightarrow> (media_error, VideoMetadata) outcome" where
  "mvhd_step rnd data offset boxSize meta =
     (if boxSize \<ge> 24 \<and> data ! (offset + 8) = 0
      then if offset + 28 > length data then Panic
        else let timescale = be32 data (offset + 20); duration = be32 data (offset + 24)
          in Ok (if timescale > 0 then meta\<lparr>vm_Duration := rnd (of_nat duration / of_nat timescale)\<rparr> else meta)
      else Ok meta)"

function parseMP4MoovBox :: "(rat \<Rightarrow> rat) \<Rightarrow> bytes \<Rightarrow> nat \<Rightarrow> VideoMetadata \<Rightarrow> (media_error, VideoMetadata) outcome" where
  "parseMP4MoovBox rnd data offset meta =
     (if offset + 8 < length data then
        let boxSize = be32 data offset in
        if boxSize = 0 \<or> boxSize > length data - offset then Ok meta
        else
          case (if tag_at data (offset + 4) ''mvhd'' then mvhd_step rnd data offset boxSize meta
                else if tag_at data (offset + 4) ''trak''
                then case go_slice data (offset + 8) (offset + boxSize) of None \<Rightarrow> Panic | Some box \<Rightarrow> Ok (parseMP4TrakBox box 0 meta)
                else Ok meta) of
            Ok meta \<Rightarrow> parseMP4MoovBox rnd data (offset + boxSize) meta
          | Err e \<Rightarrow> Err e
          | Panic \<Rightarrow> Panic
      else Ok meta)"
  by pat_completeness auto
termination by (relation "measure (\<lambda>(rnd, data, offset, meta). length data - offset)") auto

function mp4_loop :: "(rat \<Rightarrow> rat) \<Rightarrow> bytes \<Rightarrow> nat \<Rightarrow> VideoMetadata \<Rightarrow> (media_error, VideoMetadata) outcome" where
  "mp4_loop rnd data offset meta =
     (if offset + 8 < length data then
        let boxSize = be32 data offset in
        if boxSize = 0 \<or> boxSize > length data - offset then Ok meta
        else
          case (if tag_at data (offset + 4) ''moov''
                then case go_slice data (offset + 8) (offset + boxSize) of None \<Rightarrow> Panic | Some box \<Rightarrow> parseMP4MoovBox rnd box 0 meta
                else if tag_at data (offset + 4) ''ftyp'' \<and> boxSize \<ge> 12 \<and> tag_at data (offset + 8) ''qt  ''
                then Ok (meta\<lparr>vm_Codec := ''quicktime''\<rparr>)
                else Ok meta) of
            Ok meta \<Rightarrow> mp4_loop rnd data (offset + boxSize) meta
          | Err e \<Rightarrow> Err e
          | Panic \<Rightarrow> Panic
      else Ok meta)"
  by pat_completeness auto
termination by (relation "measure (\<lambda>(rnd, data, offset, meta). length data - offset)") auto

declare parseMP4TrakBox.simps [simp del] parseMP4MoovBox.simps [simp del] mp4_loop.simps [simp del]

definition getMP4Metadata :: "(rat \<Rightarrow> rat) \<Rightarrow> bytes \<Rightarrow> (media_error, VideoMetadata) outcome" where
  "getMP4Metadata rnd data = mp4_loop rnd data 0 (no_metadata\<lparr>vm_Codec := ''h264''\<rparr>)"

function avih_loop :: "(rat \<Rightarrow> rat) \<Rightarrow> bytes \<Rightarrow> nat \<Rightarrow> VideoMetadata \<Rightarrow> (media_error, VideoMetadata) outcome" where
  "avih_loop rnd data offset meta =
     (if offset + 8 < length data then
        let chunkSize = le32 data (offset + 4) in
        if tag_at data offset ''avih'' \<and> chunkSize \<ge> 40
        then if offset + 48 > length data then Panic
          else
            let microsPerFrame = le32 data (offset + 8);
                meta = (if microsPerFrame > 0 then meta\<lparr>vm_FrameRate := rnd (1000000 / of_nat microsPerFrame)\<rparr> else meta);
                totalFrames = le32 data (offset + 24);
                meta = meta\<lparr>vm_Width := le32 data (offset + 40), vm_Height := le32 data (offset + 44)\<rparr>
            in Ok (if vm_FrameRate meta > 0 then meta\<lparr>vm_Duration := rnd (of_nat totalFrames / vm_FrameRate meta)\<rparr> else meta)
        else if tag_at data offset ''LIST'' then avih_loop rnd data (offset + 12) meta
        else avih_loop rnd data (offset + (8 + chunkSize) + (if chunkSize mod 2 \<noteq> 0 then 1 else 0)) meta
      else Ok meta)"
  by pat_completeness auto
termination by (relation "measure (\<lambda>(rnd, data, offset, meta). length data - offset)") auto

declare avih_loop.simps [simp del]

definition getAVIMetadata :: "(rat \<Rightarrow> rat) \<Rightarrow> bytes \<Rightarrow> (media_error, VideoMetadata) outcome" where
  "getAVIMetadata rnd data =
     (let meta = no_metadata\<lparr>vm_Codec := ''avi''\<rparr> in if length data < 56 then Ok meta else avih_loop rnd data 12 meta)"

text \<open>The blocks of a GIF: the loop over the sub-blocks ends, the loop over the blocks may not.\<close>

function skip_blocks :: "bytes \<Rightarrow> nat \<Rightarrow> nat" where
  "skip_blocks data offset =
     (if offset < length data \<and> data ! offset \<noteq> 0 then skip_blocks data (offset + (1 + unat (data ! offset))) else offset)"
  by pat_completeness auto
termination by (relation "measure (\<lambda>(data, offset). length data - offset)") auto

declare skip_blocks.simps [simp del]

definition color_table :: "8 word \<Rightarrow> nat" where
  "color_table b = (if b AND 0x80 \<noteq> 0 then 2 ^ (unat (b AND 0x07) + 1) * 3 else 0)"

partial_function (option) gif_loop :: "bytes \<Rightarrow> nat \<Rightarrow> nat \<Rightarrow> nat option" where
  "gif_loop data offset cnt =
     (if offset + 1 < length data then
        if data ! offset = 0x21 then
          gif_loop data (if offset + 2 < length data then skip_blocks data (offset + 2) + 1 else offset) cnt
        else if data ! offset = 0x2C then
          gif_loop data
            (if offset + 10 < length data then skip_blocks data (offset + 10 + color_table (data ! (offset + 9)) + 1) + 1 else offset)
            (cnt + 1)
        else if data ! offset = 0x3B then Some cnt
        else gif_loop data (offset + 1) cnt
      else Some cnt)"

definition countGIFFrames :: "bytes \<Rightarrow> nat option" where
  "countGIFFrames data = gif_loop data (13 + (if length data > 10 then color_table (data ! 10) else 0)) 0"

definition getGIFMetadata :: "(rat \<Rightarrow> rat) \<Rightarrow> bytes \<Rightarrow> VideoMetadata option" where
  "getGIFMetadata rnd data =
     (let meta = no_metadata\<lparr>vm_Codec := ''gif''\<rparr> in
      if length data < 10 then Some meta
      else
        let meta = meta\<lparr>vm_Width := le16 data 6, vm_Height := le16 data 8\<rparr>
        in map_option (\<lambda>frameCount.
             let meta = meta\<lparr>vm_Duration := rnd (of_nat frameCount * rnd (1 / 10))\<rparr>
             in if vm_Duration meta > 0 then meta\<lparr>vm_FrameRate := rnd (of_nat frameCount / vm_Duration meta)\<rparr> else meta)
           (countGIFFrames data))"

definition GetMetadata :: "(rat \<Rightarrow> rat) \<Rightarrow> bytes \<Rightarrow> (media_error, VideoMetadata) outcome option" where
  "GetMetadata rnd data =
     (let format = detectFormat data in
      if format = ''mp4'' \<or> format = ''mov'' then Some (getMP4Metadata rnd data)
      else if format = ''avi'' then Some (getAVIMetadata rnd data)
      else if format = ''gif'' then map_option Ok (getGIFMetadata rnd data)
      else Some (Ok (no_metadata\<lparr>vm_Codec := format\<rparr>)))"

subsection \<open>Scenes and detailed fingerprints\<close>

definition DetectSceneChanges :: "(rat \<Rightarrow> rat) \<Rightarrow> rat \<Rightarrow> KeyFrame list \<Rightarrow> nat list" where
  "DetectSceneChanges rnd threshold frames =
     (if length frames < 2 then []
      else filter (\<lambda>i. case CompareHashes rnd (kf_Hash (frames ! (i - 1))) (kf_Hash (frames ! i)) of
             None \<Rightarrow> False | Some similarity \<Rightarrow> similarity < threshold) [1..<length frames])"

record VideoFingerprint =
  vf_ContentHash :: string
  vf_PerceptualHash :: string
  vf_KeyFrameHashes :: "string list"
  vf_Duration :: rat
  vf_FrameRate :: rat
  vf_SceneCount :: nat
  vf_Width :: nat
  vf_Height :: nat
  vf_SceneChanges :: "rat list"

definition ComputeContentHash :: "bytes \<Rightarrow> string" where
  "ComputeContentHash data = hex_encode (sha256_sum data)"

definition ComputeDetailedFingerprint :: "media_env \<Rightarrow> VideoHasher \<Rightarrow> bytes \<Rightarrow> bytes \<Rightarrow> (media_error, VideoFingerprint) outcome option" where
  "ComputeDetailedFingerprint E h spare data =
     (let rnd = me_rnd E;
          fp = \<lparr>vf_ContentHash = ComputeContentHash data, vf_PerceptualHash = '''', vf_KeyFrameHashes = [], vf_Duration = 0,
                vf_FrameRate = 0, vf_SceneCount = 0, vf_Width = 0, vf_Height = 0, vf_SceneChanges = []\<rparr>
      in case GetMetadata rnd data of
           None \<Rightarrow> None
         | Some Panic \<Rightarrow> Some Panic
         | Some r \<Rightarrow>
             let fp = (case r of
                   Ok meta \<Rightarrow> fp\<lparr>vf_Duration := vm_Duration meta, vf_FrameRate := vm_FrameRate meta, vf_Width := vm_Width meta,
                     vf_Height := vm_Height meta\<rparr>
                 | _ \<Rightarrow> fp)
             in (case extractKeyFrames E h spare data of
                   Panic \<Rightarrow> Some Panic
                 | Err _ \<Rightarrow> Some (Ok (fp\<lparr>vf_PerceptualHash := hex_encode (take 16 (sha256_sum data))\<rparr>))
                 | Ok keyFrames \<Rightarrow>
                     let hashes = map kf_Hash keyFrames;
                         fp = fp\<lparr>vf_KeyFrameHashes := hashes, vf_PerceptualHash := computeCombinedHash hashes\<rparr>;
                         indices = DetectSceneChanges rnd (rnd (7 / 10)) keyFrames;
                         fp = fp\<lparr>vf_SceneCount := length indices + 1\<rparr>
                     in Some (Ok (if vf_Duration fp > 0 \<and> keyFrames \<noteq> []
                          then fp\<lparr>vf_SceneChanges := map (\<lambda>idx. rnd (rnd (of_nat idx / of_nat (length keyFrames)) * vf_Duration fp)) indices\<rparr>
                          else fp))))"

text \<open>The scores with their weights. The product of width and height wraps around in 64 bits.\<close>

definition area :: "(rat \<Rightarrow> rat) \<Rightarrow> VideoFingerprint \<Rightarrow> rat" where
  "area rnd fp = rnd (of_int (wrap64 (int (vf_Width fp) * int (vf_Height fp))))"

definition relative_similarity :: "(rat \<Rightarrow> rat) \<Rightarrow> rat \<Rightarrow> rat \<Rightarrow> rat" where
  "relative_similarity rnd x y = rnd (1 - min (rnd (rnd \<bar>x - y\<bar> / max x y)) 1)"

definition detailed_scores :: "(rat \<Rightarrow> rat) \<Rightarrow> VideoHasher \<Rightarrow> VideoFingerprint \<Rightarrow> VideoFingerprint \<Rightarrow> (rat \<times> rat) list" where
  "detailed_scores rnd h fp1 fp2 =
     (if vf_PerceptualHash fp1 \<noteq> '''' \<and> vf_PerceptualHash fp2 \<noteq> ''''
      then (case CompareHashes rnd (vf_PerceptualHash fp1) (vf_PerceptualHash fp2) of None \<Rightarrow> [] | Some s \<Rightarrow> [(s, rnd (1 / 2))])
      else []) @
     (if vf_KeyFrameHashes fp1 \<noteq> [] \<and> vf_KeyFrameHashes fp2 \<noteq> []
      then [(compareKeyFrameHashes rnd h (vf_KeyFrameHashes fp1) (vf_KeyFrameHashes fp2), rnd (3 / 10))] else []) @
     (if vf_Duration fp1 > 0 \<and> vf_Duration fp2 > 0
      then [(relative_similarity rnd (vf_Duration fp1) (vf_Duration fp2), rnd (1 / 10))] else []) @
     (if vf_Width fp1 > 0 \<and> vf_Height fp1 > 0 \<and> vf_Width fp2 > 0 \<and> vf_Height fp2 > 0
      then [(relative_similarity rnd (area rnd fp1) (area rnd fp2), rnd (1 / 10))] else [])"

definition CompareDetailedFingerprints :: "(rat \<Rightarrow> rat) \<Rightarrow> VideoHasher \<Rightarrow> VideoFingerprint \<Rightarrow> VideoFingerprint \<Rightarrow> (media_error, rat) outcome" where
  "CompareDetailedFingerprints rnd h fp1 fp2 =
     (let scores = detailed_scores rnd h fp1 fp2 in
      if scores = [] then Err NoFeatures
      else
        let (weightedSum, totalWeight) = foldl (\<lambda>(ws, tw) (s, w). (rnd (ws + rnd (s * w)), rnd (tw + w))) (0, 0) scores
        in Ok (rnd (weightedSum / totalWeight)))"

subsection \<open>Lemmas on the parsers\<close>

text \<open>The boxes a parser visits, from an offset on: the position and size of each.\<close>

function boxes :: "bytes \<Rightarrow> nat \<Rightarrow> (nat \<times> nat) list" where
  "boxes data offset =
     (if offset + 8 < length data \<and> be32 data offset \<noteq> 0 \<and> be32 data offset \<le> length data - offset
      then (offset, be32 data offset) # boxes data (offset + be32 data offset) else [])"
  by pat_completeness auto
termination by (relation "measure (\<lambda>(data, offset). length data - offset)") auto

declare boxes.simps [simp del]

lemma boxes_in_range: "(p, n) \<in> set (boxes data offset) \<Longrightarrow> p + n \<le> length data \<and> 0 < n \<and> p + 8 < length data"
proof (induction data offset rule: boxes.induct)
  case (1 data offset)
  then show ?case by (subst (asm) (2) boxes.simps) (auto split: if_splits)
qed

definition box_data :: "bytes \<Rightarrow> nat \<times> nat \<Rightarrow> bytes" where
  "box_data data b = (case b of (p, n) \<Rightarrow> take (n - 8) (drop (p + 8) data))"

lemma box_slice:
  "(p, n) \<in> set (boxes data offset) \<Longrightarrow>
     go_slice data (p + 8) (p + n) = (if n < 8 then None else Some (box_data data (p, n)))"
  using boxes_in_range [of p n data offset] by (auto simp: go_slice_def box_data_def)

text \<open>What makes the parser of a \<open>moov\<close> box and of a file panic.\<close>

definition bad_moov_box :: "bytes \<Rightarrow> nat \<times> nat \<Rightarrow> bool" where
  "bad_moov_box d b \<longleftrightarrow> (case b of (p, n) \<Rightarrow>
     tag_at d (p + 4) ''mvhd'' \<and> 24 \<le> n \<and> d ! (p + 8) = 0 \<and> length d < p + 28 \<or> tag_at d (p + 4) ''trak'' \<and> n < 8)"

definition bad_mp4_box :: "bytes \<Rightarrow> nat \<times> nat \<Rightarrow> bool" where
  "bad_mp4_box d b \<longleftrightarrow> tag_at d (fst b + 4) ''moov'' \<and> (snd b < 8 \<or> list_ex (bad_moov_box (box_data d b)) (boxes (box_data d b) 0))"

lemma tag_nth:
  assumes "tag_at d i s" and "k < length s"
  shows "d ! (i + k) = byte_of (s ! k)"
proof -
  have s: "take (length s) (drop i d) = bytes_of s" using assms(1) by (simp add: tag_at_def)
  have "length (take (length s) (drop i d)) = length s" unfolding s by simp
  then have "length s \<le> length d - i" by simp
  moreover have "take (length s) (drop i d) ! k = byte_of (s ! k)" using s assms(2) by (simp add: bytes_of_def)
  ultimately show ?thesis using assms(2) by simp
qed

lemma tags_differ: "tag_at d i ''mvhd'' \<Longrightarrow> \<not> tag_at d i ''trak''"
  by (auto simp: tag_at_def bytes_of_def byte_of_def)

lemma parseMP4MoovBox_cases:
  "(parseMP4MoovBox rnd d offset meta = Panic \<longleftrightarrow> list_ex (bad_moov_box d) (boxes d offset))
    \<and> (\<forall>e. parseMP4MoovBox rnd d offset meta \<noteq> Err e)"
proof (induction rnd d offset meta rule: parseMP4MoovBox.induct)
  case (1 rnd d offset meta)
  show ?case
  proof (cases "offset + 8 < length d \<and> be32 d offset \<noteq> 0 \<and> be32 d offset \<le> length d - offset")
    case False
    then show ?thesis by (subst (1 2) parseMP4MoovBox.simps, subst boxes.simps) (auto simp: Let_def)
  next
    case True
    let ?n = "be32 d offset"
    define step where "step = (if tag_at d (offset + 4) ''mvhd'' then mvhd_step rnd d offset ?n meta
                else if tag_at d (offset + 4) ''trak''
                then case go_slice d (offset + 8) (offset + ?n) of None \<Rightarrow> Panic | Some box \<Rightarrow> Ok (parseMP4TrakBox box 0 meta)
                else Ok meta)"
    have bs: "boxes d offset = (offset, ?n) # boxes d (offset + ?n)" using True by (subst boxes.simps) simp
    have eq: "parseMP4MoovBox rnd d offset meta = (case step of
            Ok meta \<Rightarrow> parseMP4MoovBox rnd d (offset + ?n) meta | Err e \<Rightarrow> Err e | Panic \<Rightarrow> Panic)"
      using True by (subst parseMP4MoovBox.simps) (simp add: Let_def step_def)
    have slice: "go_slice d (offset + 8) (offset + ?n) = (if ?n < 8 then None else Some (box_data d (offset, ?n)))"
      by (rule box_slice [of _ _ d offset]) (simp add: bs)
    have panic: "step = Panic \<longleftrightarrow> bad_moov_box d (offset, ?n)"
      using tags_differ [of d "offset + 4"] by (auto simp: step_def bad_moov_box_def slice mvhd_step_def Let_def)
    have "step \<noteq> Err e" for e by (auto simp: step_def slice mvhd_step_def Let_def)
    moreover have "step = Ok m \<Longrightarrow> (parseMP4MoovBox rnd d (offset + ?n) m = Panic \<longleftrightarrow> list_ex (bad_moov_box d) (boxes d (offset + ?n)))
        \<and> (\<forall>e. parseMP4MoovBox rnd d (offset + ?n) m \<noteq> Err e)" for m
      using "1.IH" [of ?n m] True unfolding step_def by auto
    ultimately show ?thesis using panic by (cases step) (auto simp: eq bs)
  qed
qed

lemma mp4_loop_cases:
  "(mp4_loop rnd d offset meta = Panic \<longleftrightarrow> list_ex (bad_mp4_box d) (boxes d offset)) \<and> (\<forall>e. mp4_loop rnd d offset meta \<noteq> Err e)"
proof (induction rnd d offset meta rule: mp4_loop.induct)
  case (1 rnd d offset meta)
  show ?case
  proof (cases "offset + 8 < length d \<and> be32 d offset \<noteq> 0 \<and> be32 d offset \<le> length d - offset")
    case False
    then show ?thesis by (subst (1 2) mp4_loop.simps, subst boxes.simps) (auto simp: Let_def)
  next
    case True
    let ?n = "be32 d offset"
    define step where "step = (if tag_at d (offset + 4) ''moov''
                then case go_slice d (offset + 8) (offset + ?n) of None \<Rightarrow> Panic | Some box \<Rightarrow> parseMP4MoovBox rnd box 0 meta
                else if tag_at d (offset + 4) ''ftyp'' \<and> ?n \<ge> 12 \<and> tag_at d (offset + 8) ''qt  ''
                then Ok (meta\<lparr>vm_Codec := ''quicktime''\<rparr>)
                else Ok meta)"
    have bs: "boxes d offset = (offset, ?n) # boxes d (offset + ?n)" using True by (subst boxes.simps) simp
    have eq: "mp4_loop rnd d offset meta = (case step of
            Ok meta \<Rightarrow> mp4_loop rnd d (offset + ?n) meta | Err e \<Rightarrow> Err e | Panic \<Rightarrow> Panic)"
      using True by (subst mp4_loop.simps) (simp add: Let_def step_def)
    have slice: "go_slice d (offset + 8) (offset + ?n) = (if ?n < 8 then None else Some (box_data d (offset, ?n)))"
      by (rule box_slice [of _ _ d offset]) (simp add: bs)
    have panic: "step = Panic \<longleftrightarrow> bad_mp4_box d (offset, ?n)"
      using parseMP4MoovBox_cases [of rnd "box_data d (offset, ?n)" 0 meta] by (simp add: step_def bad_mp4_box_def slice)
    have "step \<noteq> Err e" for e
      using parseMP4MoovBox_cases [of rnd "box_data d (offset, ?n)" 0 meta] by (simp add: step_def slice)
    moreover have "step = Ok m \<Longrightarrow> (mp4_loop rnd d (offset + ?n) m = Panic \<longleftrightarrow> list_ex (bad_mp4_box d) (boxes d (offset + ?n)))
        \<and> (\<forall>e. mp4_loop rnd d (offset + ?n) m \<noteq> Err e)" for m
      using "1.IH" [of ?n m] True unfolding step_def by auto
    ultimately show ?thesis using panic by (cases step) (auto simp: eq bs)
  qed
qed

lemma getMP4Metadata_cases:
  "getMP4Metadata rnd d = Panic \<longleftrightarrow> list_ex (bad_mp4_box d) (boxes d 0)" "getMP4Metadata rnd d \<noteq> Err e"
  by (simp_all add: getMP4Metadata_def mp4_loop_cases)

text \<open>The box \<open>mdat\<close> is found at a box the walk over the sizes reaches; its size is not compared with what is left.\<close>

function raw_boxes :: "bytes \<Rightarrow> nat \<Rightarrow> (nat \<times> nat) list" where
  "raw_boxes data offset =
     (if offset + 8 < length data \<and> be32 data offset \<noteq> 0 then (offset, be32 data offset) # raw_boxes data (offset + be32 data offset) else [])"
  by pat_completeness auto
termination by (relation "measure (\<lambda>(data, offset). length data - offset)") auto

declare raw_boxes.simps [simp del]

lemma find_mdat_find:
  "find_mdat d offset =
     (case List.find (\<lambda>(p, n). tag_at d (p + 4) ''mdat'') (raw_boxes d offset) of None \<Rightarrow> (0, 0) | Some (p, n) \<Rightarrow> (p + 8, int n - 8))"
proof (induction d offset rule: find_mdat.induct)
  case (1 d offset)
  show ?case using 1 by (subst find_mdat.simps, subst raw_boxes.simps) (auto simp: Let_def)
qed

lemma extractFromMP4_panics_iff:
  "extractFromMP4 E h spare d = Panic \<longleftrightarrow>
     (\<exists>p n. List.find (\<lambda>(p, n). tag_at d (p + 4) ''mdat'') (raw_boxes d 0) = Some (p, n) \<and> 8 < n \<and> length d + length spare < p + n)"
proof (cases "List.find (\<lambda>(p, n). tag_at d (p + 4) ''mdat'') (raw_boxes d 0)")
  case None
  then show ?thesis by (simp add: extractFromMP4_def find_mdat_find)
next
  case (Some b)
  then show ?thesis
    by (cases b) (auto simp: extractFromMP4_def find_mdat_find go_slice_def Let_def nat_diff_distrib split: if_splits)
qed

lemma extractFromMP4_no_error: "extractFromMP4 E h spare d \<noteq> Err e"
  by (simp add: extractFromMP4_def Let_def split: prod.split option.split)

text \<open>The loop over GIF blocks. A block is cut off when the data ends before the code can skip it.\<close>

definition gif_next :: "bytes \<Rightarrow> nat \<Rightarrow> nat option" where
  "gif_next d p =
     (if p + 1 < length d \<and> d ! p \<noteq> 0x3B then
        Some (if d ! p = 0x21 then (if p + 2 < length d then skip_blocks d (p + 2) + 1 else p)
              else if d ! p = 0x2C then
                (if p + 10 < length d then skip_blocks d (p + 10 + color_table (d ! (p + 9)) + 1) + 1 else p)
              else p + 1)
      else None)"

definition cut_off :: "bytes \<Rightarrow> nat \<Rightarrow> bool" where
  "cut_off d p \<longleftrightarrow> p + 1 < length d \<and> (d ! p = 0x21 \<and> length d \<le> p + 2 \<or> d ! p = 0x2C \<and> length d \<le> p + 10)"

inductive gif_reaches :: "bytes \<Rightarrow> nat \<Rightarrow> nat \<Rightarrow> bool" for d where
  here: "gif_reaches d p p"
| step: "gif_next d p = Some q \<Longrightarrow> gif_reaches d q r \<Longrightarrow> gif_reaches d p r"

lemma skip_blocks_ge: "p \<le> skip_blocks d p"
proof (induction d p rule: skip_blocks.induct)
  case (1 d p)
  show ?case
  proof (cases "p < length d \<and> d ! p \<noteq> 0")
    case True
    then have "p + (1 + unat (d ! p)) \<le> skip_blocks d (p + (1 + unat (d ! p)))" by (rule "1.IH")
    then show ?thesis using True by (subst skip_blocks.simps) simp
  next
    case False
    then show ?thesis unfolding skip_blocks.simps [of d p] by (simp only: if_False order_refl)
  qed
qed

lemma gif_next_progress:
  assumes "gif_next d p = Some q"
  shows "q = p \<longleftrightarrow> cut_off d p" and "p \<le> q"
proof -
  have "p + 2 \<le> skip_blocks d (p + 2)" "p + 10 + t \<le> skip_blocks d (p + 10 + t + 1)" for t
    using skip_blocks_ge [of "p + 2" d] skip_blocks_ge [of "p + 10 + t + 1" d] by simp_all
  from this(1) this(2) [of "color_table (d ! (p + 9))"] show "q = p \<longleftrightarrow> cut_off d p" "p \<le> q"
    using assms by (auto simp: gif_next_def cut_off_def split: if_splits)
qed

lemma gif_loop_next:
  "gif_next d p = None \<Longrightarrow> gif_loop d p cnt = Some cnt"
  "gif_next d p = Some q \<Longrightarrow> gif_loop d p cnt = gif_loop d q (if d ! p = 0x2C then cnt + 1 else cnt)"
  by (subst gif_loop.simps, auto simp: gif_next_def split: if_splits)+

lemma gif_loop_ends: "(\<forall>r. gif_reaches d p r \<longrightarrow> \<not> cut_off d r) \<Longrightarrow> \<exists>n. gif_loop d p cnt = Some n"
proof (induction "length d - p" arbitrary: p cnt rule: less_induct)
  case less
  show ?case
  proof (cases "gif_next d p")
    case None
    then show ?thesis by (simp add: gif_loop_next(1))
  next
    case (Some q)
    have "\<not> cut_off d p" using less.prems gif_reaches.here by blast
    then have "p < q" using gif_next_progress [OF Some] by simp
    moreover have "p < length d" using Some by (simp add: gif_next_def split: if_splits)
    ultimately have "length d - q < length d - p" by simp
    moreover have "\<forall>r. gif_reaches d q r \<longrightarrow> \<not> cut_off d r" using less.prems gif_reaches.step [OF Some] by blast
    ultimately show ?thesis using less.hyps gif_loop_next(2) [OF Some] by simp
  qed
qed

lemma gif_loop_returned:
  assumes "gif_loop d p cnt = Some n"
  shows "gif_reaches d p r \<Longrightarrow> \<not> cut_off d r"
proof -
  have "\<forall>r. gif_reaches d p r \<longrightarrow> \<not> cut_off d r"
  proof (rule gif_loop.raw_induct [OF _ assms, where P = "\<lambda>d p cnt n. \<forall>r. gif_reaches d p r \<longrightarrow> \<not> cut_off d r"])
    fix loop :: "bytes \<Rightarrow> nat \<Rightarrow> nat \<Rightarrow> nat option" and d p cnt n
    assume IH: "\<And>d p c n. loop d p c = Some n \<Longrightarrow> \<forall>r. gif_reaches d p r \<longrightarrow> \<not> cut_off d r"
      and step: "(if p + 1 < length d then
        if d ! p = 0x21 then
          loop d (if p + 2 < length d then skip_blocks d (p + 2) + 1 else p) cnt
        else if d ! p = 0x2C then
          loop d
            (if p + 10 < length d then skip_blocks d (p + 10 + color_table (d ! (p + 9)) + 1) + 1 else p)
            (cnt + 1)
        else if d ! p = 0x3B then Some cnt
        else loop d (p + 1) cnt
      else Some cnt) = Some n"
    have cut: "gif_next d p = Some p" if "cut_off d p" using that gif_next_progress(1) [of d p]
      by (auto simp: cut_off_def gif_next_def)
    show "\<forall>r. gif_reaches d p r \<longrightarrow> \<not> cut_off d r"
    proof (cases "gif_next d p")
      case None
      then show ?thesis using cut by (auto elim: gif_reaches.cases)
    next
      case (Some q)
      have "\<exists>c. loop d q c = Some n" using step Some by (auto simp: gif_next_def split: if_splits)
      then have q: "\<forall>r. gif_reaches d q r \<longrightarrow> \<not> cut_off d r" using IH by blast
      then have "\<not> cut_off d p" using cut Some gif_reaches.here by fastforce
      then show ?thesis using q Some by (auto elim: gif_reaches.cases)
    qed
  qed
  then show "gif_reaches d p r \<Longrightarrow> \<not> cut_off d r" by blast
qed

definition gif_start :: "bytes \<Rightarrow> nat" where
  "gif_start d = 13 + (if length d > 10 then color_table (d ! 10) else 0)"

lemma countGIFFrames_None_iff: "countGIFFrames d = None \<longleftrightarrow> (\<exists>r. gif_reaches d (gif_start d) r \<and> cut_off d r)"
proof
  show "\<exists>r. gif_reaches d (gif_start d) r \<and> cut_off d r" if "countGIFFrames d = None"
    using that gif_loop_ends [of d "gif_start d" 0] unfolding countGIFFrames_def gif_start_def by (metis not_Some_eq)
  show "countGIFFrames d = None" if "\<exists>r. gif_reaches d (gif_start d) r \<and> cut_off d r"
    using that gif_loop_returned [of d "gif_start d" 0] by (cases "countGIFFrames d") (auto simp: countGIFFrames_def gif_start_def)
qed

subsection \<open>Properties of the parsers\<close>

text \<open>Counting the frames of a GIF does not always end. The loop visits a sequence of blocks, each determined by the
  one before; it returns exactly if no block it visits is cut off, an extension with less than three bytes left or an
  image with less than eleven. There the code does not move on, and the loop runs for ever. A header with a trailing
  \<open>0x21\<close> and one more byte is enough, and the program then never returns from \<open>GetMetadata\<close>.\<close>

theorem countGIFFrames_ends_iff:
  shows "(countGIFFrames d = None \<longleftrightarrow> (\<exists>r. gif_reaches d (gif_start d) r \<and> cut_off d r))
    \<and> (\<forall>h x. length h = 13 \<and> h ! 10 AND 0x80 = 0 \<longrightarrow> countGIFFrames (h @ [0x21, x]) = None)
    \<and> (\<forall>h x. length h = 13 \<and> h ! 10 AND 0x80 = 0 \<and> tag_at h 0 ''GIF89a'' \<longrightarrow> GetMetadata rnd (h @ [0x21, x]) = None)"
proof -
  have stuck: "countGIFFrames (h @ [0x21, x]) = None" if "length h = 13" "h ! 10 AND 0x80 = 0" for h x
  proof -
    have "gif_start (h @ [0x21, x]) = 13" using that by (simp add: gif_start_def color_table_def nth_append)
    moreover have "cut_off (h @ [0x21, x]) 13" using that by (simp add: cut_off_def nth_append)
    ultimately show ?thesis using countGIFFrames_None_iff gif_reaches.here by metis
  qed
  have "GetMetadata rnd (h @ [0x21, x]) = None"
    if h: "length h = 13" "h ! 10 AND 0x80 = 0" "tag_at h 0 ''GIF89a''" for h x
  proof -
    have gif: "tag_at (h @ [0x21, x]) 0 ''GIF89a''" using h by (simp add: tag_at_def)
    have "\<not> tag_at (h @ [0x21, x]) 4 ''ftyp''" "\<not> tag_at (h @ [0x21, x]) 0 ''RIFF''"
      using tag_nth [OF gif, of 4] tag_nth [OF gif, of 0] tag_nth [of "h @ [0x21, x]" 4 "''ftyp''" 0]
        tag_nth [of "h @ [0x21, x]" 0 "''RIFF''" 0] by (auto simp: byte_of_def)
    then have "detectFormat (h @ [0x21, x]) = ''gif''" using h(1) gif by (simp add: detectFormat_def)
    then show ?thesis using stuck [OF h(1,2)] h(1) by (simp add: GetMetadata_def getGIFMetadata_def Let_def)
  qed
  then show ?thesis using stuck countGIFFrames_None_iff by blast
qed

theorem countGIFFrames_ends_iff_witness:
  "GetMetadata (\<lambda>x. x) (bytes_of ''GIF89a'' @ replicate 7 0 @ [0x21, 0]) = None"
proof -
  let ?h = "bytes_of ''GIF89a'' @ replicate 7 0"
  have "length ?h = 13" "tag_at ?h 0 ''GIF89a''" "?h ! 10 AND 0x80 = 0" by (simp_all add: tag_at_def nth_append)
  then show ?thesis using countGIFFrames_ends_iff [of "[]" "\<lambda>x. x"] by (metis append.assoc)
qed

text \<open>Crafted MP4 files. The parser of the metadata panics exactly if one of the boxes it visits is malformed: a
  \<open>moov\<close> box, or a \<open>trak\<close> box in one, that states a size of less than its header of eight bytes, or a movie header of
  version zero that is cut off. The search for frames does not compare the size of the media data with what is
  left: it panics if that exceeds the capacity of the slice, and below it hashes bytes that are not of the file.
  There are such files of 22 bytes.\<close>

theorem mp4_panics_iff:
  shows "(getMP4Metadata rnd d = Panic \<longleftrightarrow> list_ex (bad_mp4_box d) (boxes d 0))
    \<and> (extractFromMP4 E h spare d = Panic \<longleftrightarrow>
        (\<exists>p n. List.find (\<lambda>(p, n). tag_at d (p + 4) ''mdat'') (raw_boxes d 0) = Some (p, n) \<and> 8 < n \<and> length d + length spare < p + n))
    \<and> (\<exists>f. length f = 22 \<and> GetMetadata rnd f = Some Panic)
    \<and> (\<exists>f. length f = 22 \<and> extractKeyFrames E h [] f = Panic)"
proof (intro conjI)
  show "getMP4Metadata rnd d = Panic \<longleftrightarrow> list_ex (bad_mp4_box d) (boxes d 0)" by (rule getMP4Metadata_cases)
  show "extractFromMP4 E h spare d = Panic \<longleftrightarrow>
        (\<exists>p n. List.find (\<lambda>(p, n). tag_at d (p + 4) ''mdat'') (raw_boxes d 0) = Some (p, n) \<and> 8 < n \<and> length d + length spare < p + n)"
    by (rule extractFromMP4_panics_iff)
  let ?f = "\<lambda>t n. [0, 0, 0, 12] @ bytes_of ''ftypisom'' @ [0, 0, 0, n] @ bytes_of t @ [0, 0]"
  have f: "?f ''moov'' n = [0, 0, 0, 12, 0x66, 0x74, 0x79, 0x70, 0x69, 0x73, 0x6F, 0x6D, 0, 0, 0, n, 0x6D, 0x6F, 0x6F, 0x76, 0, 0]"
    "?f ''mdat'' n = [0, 0, 0, 12, 0x66, 0x74, 0x79, 0x70, 0x69, 0x73, 0x6F, 0x6D, 0, 0, 0, n, 0x6D, 0x64, 0x61, 0x74, 0, 0]" for n
    by (simp_all add: bytes_of_def byte_of_def)
  have format: "detectFormat (?f ''moov'' n) = ''mp4''" "detectFormat (?f ''mdat'' n) = ''mp4''" for n
    unfolding f by (simp_all add: detectFormat_def tag_at_def bytes_of_def byte_of_def)
  have size: "be32 (?f ''moov'' n) 0 = 12" "be32 (?f ''moov'' n) 12 = unat n" "be32 (?f ''mdat'' n) 0 = 12" "be32 (?f ''mdat'' n) 12 = unat n" for n
    unfolding f by (simp_all add: be32_def)
  define m where "m = ?f ''moov'' 1"
  define a where "a = ?f ''mdat'' 11"
  have m: "length m = 22" "be32 m 0 = 12" "be32 m 12 = 1" "bad_mp4_box m (12, 1)"
    using size [of 1] f(1) [of 1] by (simp_all add: m_def bad_mp4_box_def tag_at_def bytes_of_def byte_of_def)
  have a: "length a = 22" "be32 a 0 = 12" "be32 a 12 = 11" "\<not> tag_at a 4 ''mdat''" "tag_at a 16 ''mdat''"
    using size [of 11] f(2) [of 11] by (simp_all add: a_def tag_at_def bytes_of_def byte_of_def)
  have fmt: "detectFormat m = ''mp4''" "detectFormat a = ''mp4''" unfolding m_def a_def by (rule format)+
  have "boxes m 0 = (0, 12) # boxes m 12" "boxes m 12 = (12, 1) # boxes m 13" by (subst boxes.simps, simp add: m)+
  then have "getMP4Metadata rnd m = Panic" using m(4) by (simp add: getMP4Metadata_cases)
  then have "GetMetadata rnd m = Some Panic" by (simp add: GetMetadata_def fmt)
  then show "\<exists>f. length f = 22 \<and> GetMetadata rnd f = Some Panic" using m(1) by blast
  have "raw_boxes a 0 = (0, 12) # raw_boxes a 12" "raw_boxes a 12 = (12, 11) # raw_boxes a 23" by (subst raw_boxes.simps, simp add: a)+
  then have "extractFromMP4 E h [] a = Panic" using a by (subst extractFromMP4_panics_iff) simp
  then show "\<exists>f. length f = 22 \<and> extractKeyFrames E h [] f = Panic"
    using a(1) by (intro exI [of _ a]) (simp add: extractKeyFrames_def fmt)
qed

subsection \<open>Comparing key frames\<close>

text \<open>With the similarities in 64ths every sum is exact, so the order of the frames does not matter.\<close>

definition matched :: "(rat \<Rightarrow> rat) \<Rightarrow> rat \<Rightarrow> (string \<times> string) list \<Rightarrow> rat" where
  "matched rnd thr ps = (if best_score rnd ps > thr then best_score rnd ps else 0)"

lemma best_score_64:
  assumes "float64_ok rnd"
  shows "\<exists>k :: int. 0 \<le> k \<and> k \<le> 64 \<and> best_score rnd ps = of_int k / 64"
proof (induction ps rule: rev_induct)
  case Nil
  then show ?case by (auto simp: best_score_def)
next
  case (snoc p ps)
  obtain h1 h2 where p: "p = (h1, h2)" by force
  show ?case
  proof (cases "CompareHashes rnd h1 h2")
    case None
    then show ?thesis using snoc by (simp add: best_score_def p)
  next
    case (Some s)
    obtain x y where "s = 1 - of_nat (popCount (x XOR y)) / 64" using CompareHashes_Some [OF assms Some] by blast
    then have s: "s = of_int (64 - int (popCount (x XOR y))) / 64" by (simp add: diff_divide_distrib)
    have j: "0 \<le> 64 - int (popCount (x XOR y))" "64 - int (popCount (x XOR y)) \<le> 64" using popCount_le [of "x XOR y"] by simp_all
    have "best_score rnd (ps @ [p]) = (if s > best_score rnd ps then s else best_score rnd ps)" using Some by (simp add: best_score_def p)
    then show ?thesis using snoc s j by metis
  qed
qed

lemma best_score_swap: "best_score rnd (map (\<lambda>h2. (h1, h2)) hs) = best_score rnd (map (\<lambda>h2. (h2, h1)) hs)"
  by (induction hs rule: rev_induct) (simp_all add: best_score_def CompareHashes_sym [of rnd h1])

lemma matched_swap: "matched rnd thr (map (\<lambda>h1. (h1, h2)) hs) = matched rnd thr (map (\<lambda>h1. (h2, h1)) hs)"
  unfolding matched_def best_score_swap ..

lemma matched_64:
  assumes "float64_ok rnd"
  shows "\<exists>k :: int. 0 \<le> k \<and> k \<le> 64 \<and> matched rnd thr ps = of_int k / 64"
proof -
  obtain k :: int where "0 \<le> k" "k \<le> 64" "best_score rnd ps = of_int k / 64" using best_score_64 [OF assms] by blast
  then show ?thesis by (intro exI [of _ "if best_score rnd ps > thr then k else 0"]) (simp add: matched_def)
qed

lemma match_fold:
  assumes "float64_ok rnd" and "0 \<le> K" and "K + 64 * int (length xs) \<le> 2 ^ 53"
  shows "\<exists>m K'. fold (\<lambda>x. match_step rnd thr (g x)) xs (of_int K / 64, n) = (of_int K' / 64, m) \<and> 0 \<le> K' \<and> K' \<le> K + 64 * int (length xs)
    \<and> of_int K' / 64 = of_int K / 64 + sum_list (map (\<lambda>x. matched rnd thr (g x)) xs)"
  using assms(2,3)
proof (induction xs arbitrary: K n)
  case Nil
  then show ?case by simp
next
  case (Cons x xs)
  obtain k :: int where k: "0 \<le> k" "k \<le> 64" "matched rnd thr (g x) = of_int k / 64" using matched_64 [OF assms(1)] by blast
  have "\<bar>K + k\<bar> \<le> 2 ^ 53" using Cons.prems k by simp
  then have "rnd (of_int (K + k) / 64) = of_int (K + k) / 64" using assms(1) unfolding float64_ok_def by blast
  then have "\<exists>n'. match_step rnd thr (g x) (of_int K / 64, n) = (of_int (K + k) / 64, n')"
  proof (cases "best_score rnd (g x) > thr")
    case True
    then have "best_score rnd (g x) = of_int k / 64" using k(3) by (simp only: matched_def if_True)
    moreover have "rnd (of_int K / 64 + of_int k / 64) = of_int (K + k) / 64"
      using \<open>rnd (of_int (K + k) / 64) = _\<close> by (simp only: of_int_add add_divide_distrib)
    moreover have "match_step rnd thr (g x) (of_int K / 64, n) = (rnd (of_int K / 64 + best_score rnd (g x)), n + 1)"
      using True by (simp add: match_step_def Let_def)
    ultimately show ?thesis by (intro exI [of _ "n + 1"]) (simp only:)
  next
    case False
    then show ?thesis using k(3) by (simp add: matched_def match_step_def)
  qed
  then obtain n' where step: "match_step rnd thr (g x) (of_int K / 64, n) = (of_int (K + k) / 64, n')" by blast
  have "0 \<le> K + k" "K + k + 64 * int (length xs) \<le> 2 ^ 53" using Cons.prems k by simp_all
  from Cons.IH [OF this, of n'] obtain m K' where
    "fold (\<lambda>x. match_step rnd thr (g x)) xs (of_int (K + k) / 64, n') = (of_int K' / 64, m)" "0 \<le> K'"
    "K' \<le> K + k + 64 * int (length xs)" "of_int K' / 64 = of_int (K + k) / 64 + sum_list (map (\<lambda>x. matched rnd thr (g x)) xs)"
    by blast
  then show ?case using k by (intro exI [of _ m] exI [of _ K']) (simp add: step add_divide_distrib)
qed

lemma compareKeyFrameHashes_sum:
  fixes h :: VideoHasher
  assumes "float64_ok rnd" and "64 * (length a + length b) \<le> 2 ^ 53" and "a \<noteq> []" and "b \<noteq> []"
  defines "S \<equiv> sum_list (map (\<lambda>h1. matched rnd (similarityThreshold h) (map (\<lambda>h2. (h1, h2)) b)) a)
    + sum_list (map (\<lambda>h2. matched rnd (similarityThreshold h) (map (\<lambda>h1. (h2, h1)) a)) b)"
  shows "compareKeyFrameHashes rnd h a b = rnd (S / of_nat (length a + length b)) \<and> 0 \<le> S \<and> S \<le> of_nat (length a + length b)"
proof -
  let ?thr = "similarityThreshold h"
  have len: "64 * int (length a) + 64 * int (length b) \<le> 2 ^ 53" using assms(2) [folded of_nat_le_iff [where 'a = int]] by simp
  obtain m K where one: "fold (\<lambda>h1. match_step rnd ?thr (map (\<lambda>h2. (h1, h2)) b)) a (0, 0) = (of_int K / 64, m)" "0 \<le> K"
    "K \<le> 64 * int (length a)" "of_int K / 64 = sum_list (map (\<lambda>h1. matched rnd ?thr (map (\<lambda>h2. (h1, h2)) b)) a)"
    using match_fold [OF assms(1), of 0 a ?thr "\<lambda>h1. map (\<lambda>h2. (h1, h2)) b" 0] len by auto
  have "K + 64 * int (length b) \<le> 2 ^ 53" using one(3) len by linarith
  from match_fold [OF assms(1) one(2) this, of ?thr "\<lambda>h2. map (\<lambda>h1. (h1, h2)) a" m] obtain m' L where
    two: "fold (\<lambda>h2. match_step rnd ?thr (map (\<lambda>h1. (h1, h2)) a)) b (of_int K / 64, m) = (of_int L / 64, m')" "0 \<le> L"
    "L \<le> K + 64 * int (length b)" "of_int L / 64 = of_int K / 64 + sum_list (map (\<lambda>h2. matched rnd ?thr (map (\<lambda>h1. (h1, h2)) a)) b)"
    by blast
  have "map (\<lambda>h2. matched rnd ?thr (map (\<lambda>h1. (h1, h2)) a)) b = map (\<lambda>h2. matched rnd ?thr (map (\<lambda>h1. (h2, h1)) a)) b"
    by (intro map_cong refl matched_swap)
  then have S: "of_int L / 64 = S" unfolding S_def two(4) one(4) by (simp only:)
  have "(of_int L :: rat) \<le> of_int (64 * int (length a + length b))" using two(3) one(3) by (subst of_int_le_iff) simp
  then have "S \<le> of_nat (length a + length b)" unfolding S [symmetric] by simp
  moreover have "0 \<le> S" unfolding S [symmetric] using two(2) by simp
  ultimately show ?thesis using one(1) two(1) S assms(3,4) by (simp add: compareKeyFrameHashes_def Let_def)
qed

text \<open>C39. The similarity of two videos by their key frames is symmetric and between 0 and 1; it is 1 for the same frames,
  in any order, if the hashes parse.\<close>

theorem key_frame_similarity:
  assumes "float64_ok rnd" and "64 * (length a + length b) \<le> 2 ^ 53"
  shows "compareKeyFrameHashes rnd h a b = compareKeyFrameHashes rnd h b a
    \<and> 0 \<le> compareKeyFrameHashes rnd h a b \<and> compareKeyFrameHashes rnd h a b \<le> 1
    \<and> (a \<noteq> [] \<and> set a = set b \<and> (\<forall>x \<in> set a. parseHash x \<noteq> None) \<and> similarityThreshold h < 1 \<longrightarrow> compareKeyFrameHashes rnd h a b = 1)"
proof (cases "a = [] \<or> b = []")
  case True
  then show ?thesis by (auto simp: compareKeyFrameHashes_def)
next
  case False
  let ?thr = "similarityThreshold h"
  let ?S = "\<lambda>a b. sum_list (map (\<lambda>h1. matched rnd ?thr (map (\<lambda>h2. (h1, h2)) b)) a)
    + sum_list (map (\<lambda>h2. matched rnd ?thr (map (\<lambda>h1. (h2, h1)) a)) b)"
  have ne: "a \<noteq> []" "b \<noteq> []" using False by auto
  note ab = compareKeyFrameHashes_sum [OF assms ne, of h]
  have ba: "compareKeyFrameHashes rnd h b a = rnd (?S b a / of_nat (length b + length a))"
    using compareKeyFrameHashes_sum [OF assms(1) _ ne(2,1), of h] assms(2) by (simp add: add.commute)
  have "0 < length a + length b" using ne by simp
  then have pos: "(0 :: rat) < of_nat (length a + length b)" by (simp only: of_nat_0_less_iff)
  have rng: "0 \<le> ?S a b / of_nat (length a + length b)" "?S a b / of_nat (length a + length b) \<le> 1"
    using ab pos by (simp_all add: divide_le_eq_1)
  have r: "rounding_ok rnd" using assms(1) by (simp add: float64_ok_def)
  have "0 \<le> compareKeyFrameHashes rnd h a b" using ab rounding_nonneg [OF r rng(1)] by simp
  moreover have "compareKeyFrameHashes rnd h a b \<le> 1" using ab rounding_mono [OF r rng(2)] rounding_int [OF r, of 1] by simp
  moreover have "compareKeyFrameHashes rnd h a b = 1"
    if same: "set a = set b" "\<forall>x \<in> set a. parseHash x \<noteq> None" "?thr < 1"
  proof -
    have full: "matched rnd ?thr (map (\<lambda>h2. (x, h2)) hs) = 1" if px: "x \<in> set hs" "parseHash x \<noteq> None" for x hs
    proof -
      obtain v where v: "CompareHashes rnd x x = Some v" using px(2) by (auto simp: CompareHashes_def)
      have "v = 1" using CompareHashes_bounds(3) [OF assms(1) v] by simp
      have "best_score rnd (map (\<lambda>h2. (x, h2)) hs) = 1" if "x \<in> set hs" for hs
        using that
      proof (induction hs rule: rev_induct)
        case (snoc y hs)
        obtain k :: int where k: "k \<le> 64" "best_score rnd (map (\<lambda>h2. (x, h2)) hs) = of_int k / 64" using best_score_64 [OF assms(1)] by blast
        have "(of_int k :: rat) \<le> of_int 64" using k(1) by (subst of_int_le_iff)
        then have le: "best_score rnd (map (\<lambda>h2. (x, h2)) hs) \<le> 1" using k(2) by simp
        show ?case
        proof (cases "x = y")
          case True
          then show ?thesis using v \<open>v = 1\<close> le by (auto simp: best_score_def)
        next
          case False
          then have "best_score rnd (map (\<lambda>h2. (x, h2)) hs) = 1" using snoc by simp
          then show ?thesis using CompareHashes_bounds(2) [OF assms(1), of x y] by (auto simp: best_score_def split: option.split)
        qed
      qed simp
      then show ?thesis using px(1) same(3) by (simp add: matched_def)
    qed
    have ones: "map (\<lambda>h1. matched rnd ?thr (map (\<lambda>h2. (h1, h2)) b)) a = map (\<lambda>_. 1) a"
      "map (\<lambda>h2. matched rnd ?thr (map (\<lambda>h1. (h2, h1)) a)) b = map (\<lambda>_. 1) b"
      using full same(1,2) by auto
    have "?S a b = of_nat (length a + length b)" unfolding ones by (simp add: sum_list_triv)
    then show ?thesis using ab pos rounding_int [OF r, of 1] by simp
  qed
  ultimately show ?thesis using ab ba by (simp add: add.commute)
qed

theorem key_frame_similarity_witness:
  "compareKeyFrameHashes (\<lambda>x. x) (NewVideoHasher (\<lambda>x. x)) [hex16 5, hex16 9] [hex16 9, hex16 5] = 1"
  using key_frame_similarity [OF float64_exact, of "[hex16 5, hex16 9]" "[hex16 9, hex16 5]" "NewVideoHasher (\<lambda>x. x)"]
  by (simp add: NewVideoHasher_def parse_hex16 insert_commute)

subsection \<open>The combined hash\<close>

text \<open>What the hash of a video binds. The fingerprint of a list of frames does not depend on their order; two lists of
  frame hashes of sixteen characters, as the program makes them, have one fingerprint only if they hold the same
  hashes equally often, or if SHA-256 cut to sixteen bytes collides.\<close>

theorem combined_hash_binds:
  shows "(mset a = mset b \<longrightarrow> computeCombinedHash a = computeCombinedHash b)
    \<and> ((\<forall>s \<in> set a \<union> set b. length s = 16) \<and> computeCombinedHash a = computeCombinedHash b \<longrightarrow>
        mset a = mset b \<or> (\<exists>x y. x \<noteq> y \<and> take 16 (sha256_sum x) = take 16 (sha256_sum y)))"
proof (intro conjI impI)
  assume "mset a = mset b"
  then have "sort a = sort b" using properties_for_sort [of "sort b" a] by simp
  then show "computeCombinedHash a = computeCombinedHash b" by (simp add: computeCombinedHash_def)
next
  assume "(\<forall>s \<in> set a \<union> set b. length s = 16) \<and> computeCombinedHash a = computeCombinedHash b"
  then have len: "\<forall>s \<in> set (sort a) \<union> set (sort b). length s = 16" and eq: "computeCombinedHash a = computeCombinedHash b" by auto
  have digest: "take 16 (sha256_sum (bytes_of (concat (sort a)))) = take 16 (sha256_sum (bytes_of (concat (sort b))))"
    using eq hex_roundtrip unfolding computeCombinedHash_def by (metis option.inject)
  show "mset a = mset b \<or> (\<exists>x y. x \<noteq> y \<and> take 16 (sha256_sum x) = take 16 (sha256_sum y))"
  proof (cases "concat (sort a) = concat (sort b)")
    case True
    have blocks: "length (concat xs) = 16 * length xs" if "\<forall>s \<in> set xs. length s = 16" for xs :: "string list"
      using that by (induction xs) auto
    have "length (sort a) = length (sort b)" using blocks [of "sort a"] blocks [of "sort b"] len True by auto
    moreover have "length x = length y" if xy: "(x, y) \<in> set (zip (sort a) (sort b))" for x y
      using len set_zip_leftD [OF xy] set_zip_rightD [OF xy] by (auto simp del: set_sort)
    then have "\<forall>(x, y) \<in> set (zip (sort a) (sort b)). length x = length y" by blast
    ultimately have "sort a = sort b" using concat_injective [OF True] by blast
    then show ?thesis by (metis mset_sort)
  next
    case False
    then have "bytes_of (concat (sort a)) \<noteq> bytes_of (concat (sort b))" using inj_bytes_of by blast
    then show ?thesis using digest by blast
  qed
qed

theorem combined_hash_binds_witness:
  "computeCombinedHash [hex16 1, hex16 2] = computeCombinedHash [hex16 2, hex16 1]"
  using combined_hash_binds [of "[hex16 1, hex16 2]" "[hex16 2, hex16 1]"] by simp

text \<open>Frames are searched in AVI files where they are not. The search skips every \<open>LIST\<close> chunk as a whole, and the
  frames of an AVI file are in one; so of a file whose chunks are lists, indexes and padding no frame is found, the
  fingerprint is a hash of the bytes, and the detailed fingerprint that of any other file without frames.\<close>

function avi_chunks :: "bytes \<Rightarrow> nat \<Rightarrow> nat list" where
  "avi_chunks d p =
     (if p + 8 < length d \<and> le32 d (p + 4) \<noteq> 0 \<and> p + 8 + le32 d (p + 4) \<le> length d
      then p # avi_chunks d (p + (8 + le32 d (p + 4)) + (if le32 d (p + 4) mod 2 \<noteq> 0 then 1 else 0)) else [])"
  by pat_completeness auto
termination by (relation "measure (\<lambda>(d, p). length d - p)") auto

declare avi_chunks.simps [simp del]

lemma avi_loop_no_frames:
  "0 < mx \<Longrightarrow> \<forall>p \<in> set (avi_chunks d offset). \<not> tag_at d (p + 2) ''dc'' \<and> \<not> tag_at d (p + 2) ''db'' \<Longrightarrow> avi_loop E mx d offset [] = []"
proof (induction d offset rule: avi_chunks.induct)
  case (1 d p)
  show ?case
  proof (cases "p + 8 < length d \<and> le32 d (p + 4) \<noteq> 0 \<and> p + 8 + le32 d (p + 4) \<le> length d")
    case True
    then have "avi_chunks d p = p # avi_chunks d (p + (8 + le32 d (p + 4)) + (if le32 d (p + 4) mod 2 \<noteq> 0 then 1 else 0))"
      by (subst avi_chunks.simps) simp
    then show ?thesis using 1 True by (subst avi_loop.simps) (simp add: Let_def)
  next
    case False
    then show ?thesis by (subst avi_loop.simps) (auto simp: Let_def)
  qed
qed

theorem avi_frames_never_found:
  assumes "detectFormat d = ''avi''" and "0 < maxKeyFrames h"
    and "\<forall>p \<in> set (avi_chunks d 12). tag_at d p ''LIST'' \<or> tag_at d p ''idx1'' \<or> tag_at d p ''JUNK''"
  shows "extractKeyFrames E h spare d = Ok []
    \<and> vid_ComputeFingerprint E h spare d = Ok (hex_encode (take 16 (sha256_sum d)))
    \<and> (\<forall>fp. ComputeDetailedFingerprint E h spare d = Some (Ok fp) \<longrightarrow> vf_PerceptualHash fp = hex_encode (take 16 (sha256_sum [])))"
proof -
  have "\<not> tag_at d (p + 2) ''dc'' \<and> \<not> tag_at d (p + 2) ''db''"
    if "tag_at d p ''LIST'' \<or> tag_at d p ''idx1'' \<or> tag_at d p ''JUNK''" for p
    using that tag_nth [of d p "''LIST''" 2] tag_nth [of d p "''idx1''" 2] tag_nth [of d p "''JUNK''" 2]
      tag_nth [of d "p + 2" "''dc''" 0] tag_nth [of d "p + 2" "''db''" 0] by (auto simp: byte_of_def)
  then have "extractFromAVI E h d = []"
    unfolding extractFromAVI_def using assms(2,3) by (intro avi_loop_no_frames) auto
  then have none: "extractKeyFrames E h spare d = Ok []" using assms(1) by (simp add: extractKeyFrames_def)
  moreover have "vf_PerceptualHash fp = hex_encode (take 16 (sha256_sum []))" if "ComputeDetailedFingerprint E h spare d = Some (Ok fp)" for fp
    using that none by (auto simp: ComputeDetailedFingerprint_def Let_def computeCombinedHash_def bytes_of_def split: option.splits outcome.splits)
  ultimately show ?thesis by (simp add: vid_ComputeFingerprint_def ExtractKeyFrameHashes_def Let_def)
qed

theorem avi_frames_never_found_witness:
  "\<exists>d. vid_ComputeFingerprint (E\<lparr>me_rnd := \<lambda>x. x\<rparr>) (NewVideoHasher (\<lambda>x. x)) [] d = Ok (hex_encode (take 16 (sha256_sum d))) \<and> length d = 22"
proof -
  let ?d = "bytes_of ''RIFF....AVI LIST'' @ [2, 0, 0, 0, 1, 2]"
  have d: "?d = [0x52, 0x49, 0x46, 0x46, 0x2E, 0x2E, 0x2E, 0x2E, 0x41, 0x56, 0x49, 0x20, 0x4C, 0x49, 0x53, 0x54, 2, 0, 0, 0, 1, 2]"
    by (simp add: bytes_of_def byte_of_def)
  define v where "v = ?d"
  have len: "length v = 22" and format: "detectFormat v = ''avi''" and size: "le32 v 16 = 2" and list: "tag_at v 12 ''LIST''"
    unfolding v_def d by (simp_all add: detectFormat_def tag_at_def bytes_of_def byte_of_def le32_def le16_def)
  have "avi_chunks v 12 = [12]"
    by (subst avi_chunks.simps, simp add: len size, subst avi_chunks.simps, simp add: len)
  then have "\<forall>p \<in> set (avi_chunks v 12). tag_at v p ''LIST'' \<or> tag_at v p ''idx1'' \<or> tag_at v p ''JUNK''" using list by simp
  from avi_frames_never_found [OF format _ this, of "NewVideoHasher (\<lambda>x. x)"] len
  show ?thesis by (intro exI [of _ v]) (simp add: NewVideoHasher_def)
qed

end
