(* ===== verification/Multimodal.thy ===== *)
theory Multimodal
  imports Video
begin

text \<open>
  The fingerprint of a medium of any type: \<open>server/internal/fingerprint/perceptual.go\<close>, which puts the hashers of
  \<open>ImageHash\<close>, \<open>Audio\<close> and \<open>Video\<close> together. \<open>None\<close> is a call that does not return.
\<close>

type_synonym MediaType = string

abbreviation MediaTypeImage :: MediaType where "MediaTypeImage \<equiv> ''image''"
abbreviation MediaTypeAudio :: MediaType where "MediaTypeAudio \<equiv> ''audio''"
abbreviation MediaTypeVideo :: MediaType where "MediaTypeVideo \<equiv> ''video''"
abbreviation MediaTypeText :: MediaType where "MediaTypeText \<equiv> ''text''"

record MultimodalFingerprint =
  mf_MediaType :: MediaType
  mf_PerceptualHash :: string
  mf_ContentHash :: string
  mf_SizeBytes :: int
  mf_Format :: string
  mf_Duration :: float64
  mf_Width :: nat
  mf_Height :: nat
  mf_SampleRate :: nat
  mf_Channels :: nat
  mf_FrameRate :: rat
  mf_KeyFrameHashes :: "string list"
  mf_FingerprintHash :: string

definition fingerprint_text :: "MultimodalFingerprint \<Rightarrow> string" where
  "fingerprint_text f = mf_MediaType f @ '':'' @ mf_PerceptualHash f @ '':'' @ mf_ContentHash f @ '':'' @ itoa (mf_SizeBytes f)"

definition ComputeFingerprintHash :: "MultimodalFingerprint \<Rightarrow> string" where
  "ComputeFingerprintHash f = hex_encode (sha256_sum (bytes_of (fingerprint_text f)))"

definition mf_Verify :: "MultimodalFingerprint \<Rightarrow> bool" where
  "mf_Verify f \<longleftrightarrow> ComputeFingerprintHash f = mf_FingerprintHash f"

type_synonym media_result = "(media_error, MultimodalFingerprint) outcome option"

definition processImage :: "media_env \<Rightarrow> bytes \<Rightarrow> MultimodalFingerprint \<Rightarrow> media_result" where
  "processImage E data fp =
     (case ComputePHash (me_rnd E) (me_dct E) (me_decode E) data of
        None \<Rightarrow> Some (Err DecodeFailed)
      | Some pHash \<Rightarrow>
          let fp = fp\<lparr>mf_PerceptualHash := pHash\<rparr> in
          Some (Ok (case me_dimensions E data of None \<Rightarrow> fp | Some (width, height) \<Rightarrow> fp\<lparr>mf_Width := width, mf_Height := height\<rparr>)))"

definition processAudio :: "media_env \<Rightarrow> bytes \<Rightarrow> MultimodalFingerprint \<Rightarrow> media_result" where
  "processAudio E data fp =
     (case aud_ComputeFingerprint (me_rnd E) (me_chroma E) NewAudioHasher data of
        Panic \<Rightarrow> Some Panic
      | Err e \<Rightarrow> Some (Err e)
      | Ok audioFp \<Rightarrow>
          let fp = fp\<lparr>mf_PerceptualHash := audioFp\<rparr> in
          Some (case aud_GetMetadata (me_rnd E) data of
              Panic \<Rightarrow> Panic
            | Err _ \<Rightarrow> Ok fp
            | Ok meta \<Rightarrow> Ok (fp\<lparr>mf_Duration := am_Duration meta, mf_SampleRate := am_SampleRate meta, mf_Channels := am_Channels meta\<rparr>)))"

definition processVideo :: "media_env \<Rightarrow> bytes \<Rightarrow> bytes \<Rightarrow> MultimodalFingerprint \<Rightarrow> media_result" where
  "processVideo E spare data fp =
     (let h = NewVideoHasher (me_rnd E) in
      case ExtractKeyFrameHashes E h spare data of
        Panic \<Rightarrow> Some Panic
      | Err e \<Rightarrow> Some (Err e)
      | Ok keyFrameHashes \<Rightarrow>
          let fp = fp\<lparr>mf_KeyFrameHashes := keyFrameHashes\<rparr> in
          (case vid_ComputeFingerprint E h spare data of
             Panic \<Rightarrow> Some Panic
           | Err e \<Rightarrow> Some (Err e)
           | Ok videoFp \<Rightarrow>
               let fp = fp\<lparr>mf_PerceptualHash := videoFp\<rparr> in
               (case GetMetadata (me_rnd E) data of
                  None \<Rightarrow> None
                | Some Panic \<Rightarrow> Some Panic
                | Some (Err _) \<Rightarrow> Some (Ok fp)
                | Some (Ok meta) \<Rightarrow> Some (Ok (fp\<lparr>mf_Duration := Num (vm_Duration meta), mf_Width := vm_Width meta,
                    mf_Height := vm_Height meta, mf_FrameRate := vm_FrameRate meta\<rparr>)))))"

definition process_switch :: "media_env \<Rightarrow> bytes \<Rightarrow> bytes \<Rightarrow> MultimodalFingerprint \<Rightarrow> media_result" where
  "process_switch E spare data fp =
     (if mf_MediaType fp = MediaTypeImage then processImage E data fp
      else if mf_MediaType fp = MediaTypeAudio then processAudio E data fp
      else if mf_MediaType fp = MediaTypeVideo then processVideo E spare data fp
      else if mf_MediaType fp = MediaTypeText then Some (Ok (fp\<lparr>mf_PerceptualHash := mf_ContentHash fp\<rparr>))
      else Some (Err ErrUnsupportedFormat))"

definition new_fingerprint :: "bytes \<Rightarrow> MediaType \<Rightarrow> string \<Rightarrow> MultimodalFingerprint" where
  "new_fingerprint data mediaType format =
     \<lparr>mf_MediaType = mediaType, mf_PerceptualHash = '''', mf_ContentHash = ComputeContentHash data,
      mf_SizeBytes = int (length data), mf_Format = format, mf_Duration = Num 0, mf_Width = 0, mf_Height = 0,
      mf_SampleRate = 0, mf_Channels = 0, mf_FrameRate = 0, mf_KeyFrameHashes = [], mf_FingerprintHash = ''''\<rparr>"

definition Process :: "media_env \<Rightarrow> bytes \<Rightarrow> bytes \<Rightarrow> MediaType \<Rightarrow> string \<Rightarrow> media_result" where
  "Process E spare data mediaType format =
     (case process_switch E spare data (new_fingerprint data mediaType format) of
        Some (Ok fp) \<Rightarrow> Some (Ok (fp\<lparr>mf_FingerprintHash := ComputeFingerprintHash fp\<rparr>))
      | r \<Rightarrow> r)"

definition vid_CompareFingerprints :: "(rat \<Rightarrow> rat) \<Rightarrow> VideoHasher \<Rightarrow> MultimodalFingerprint \<Rightarrow> MultimodalFingerprint \<Rightarrow> (media_error, float64) outcome" where
  "vid_CompareFingerprints rnd h fp1 fp2 =
     (if mf_PerceptualHash fp1 = mf_PerceptualHash fp2 then Ok (Num 1)
      else if mf_KeyFrameHashes fp1 \<noteq> [] \<and> mf_KeyFrameHashes fp2 \<noteq> []
      then Ok (Num (compareKeyFrameHashes rnd h (mf_KeyFrameHashes fp1) (mf_KeyFrameHashes fp2)))
      else case CompareHashes rnd (mf_PerceptualHash fp1) (mf_PerceptualHash fp2) of
          None \<Rightarrow> Err InvalidHash | Some s \<Rightarrow> Ok (Num s))"

definition mm_Compare :: "(rat \<Rightarrow> rat) \<Rightarrow> MultimodalFingerprint \<Rightarrow> MultimodalFingerprint \<Rightarrow> (media_error, float64) outcome" where
  "mm_Compare rnd fp1 fp2 =
     (if mf_MediaType fp1 \<noteq> mf_MediaType fp2 then Err DifferentTypes
      else if mf_MediaType fp1 = MediaTypeImage
      then (case CompareHashes rnd (mf_PerceptualHash fp1) (mf_PerceptualHash fp2) of None \<Rightarrow> Err InvalidHash | Some s \<Rightarrow> Ok (Num s))
      else if mf_MediaType fp1 = MediaTypeAudio then aud_CompareFingerprints rnd (mf_PerceptualHash fp1) (mf_PerceptualHash fp2)
      else if mf_MediaType fp1 = MediaTypeVideo then vid_CompareFingerprints rnd (NewVideoHasher rnd) fp1 fp2
      else if mf_MediaType fp1 = MediaTypeText
      then (if mf_ContentHash fp1 = mf_ContentHash fp2 then Ok (Num 1) else Ok (Num 0))
      else Err ErrUnsupportedFormat)"

subsection \<open>Lemmas\<close>

lemma audio_never_fails: "aud_ComputeFingerprint rnd chroma h data \<noteq> Err e" "aud_GetMetadata rnd data \<noteq> Panic"
  by (simp_all add: aud_ComputeFingerprint_def aud_GetMetadata_def Let_def split: outcome.split)

lemma avih_no_error: "avih_loop rnd d p meta \<noteq> Err e"
  by (induction rnd d p meta rule: avih_loop.induct) (subst avih_loop.simps, simp add: Let_def)

lemma metadata_no_error: "GetMetadata rnd d \<noteq> Some (Err e)"
  by (auto simp: GetMetadata_def getMP4Metadata_cases getAVIMetadata_def avih_no_error Let_def)

lemma formats_differ: "detectFormat d \<noteq> ''mov''"
  by (simp add: detectFormat_def)

text \<open>Hashing key frames fails for GIF files that do not decode and panics for MP4 files only.\<close>

lemma extract_outcomes:
  "extractKeyFrames E h spare d = Panic \<longleftrightarrow> detectFormat d = ''mp4'' \<and> extractFromMP4 E h spare d = Panic"
  "(\<exists>e. extractKeyFrames E h spare d = Err e) \<longleftrightarrow> detectFormat d = ''gif'' \<and> me_decode E d = None"
proof -
  have "ComputePHash rnd dct dec d = None \<longleftrightarrow> dec d = None" for rnd dct dec
    by (auto simp: ComputePHash_def Let_def split: option.split)
  then have gif: "(\<exists>e. extractFromGIF E d = Err e) \<longleftrightarrow> me_decode E d = None" "extractFromGIF E d \<noteq> Panic"
    by (auto simp: extractFromGIF_def split: option.split)
  show "extractKeyFrames E h spare d = Panic \<longleftrightarrow> detectFormat d = ''mp4'' \<and> extractFromMP4 E h spare d = Panic"
    using gif(2) formats_differ [of d] by (simp add: extractKeyFrames_def Let_def)
  show "(\<exists>e. extractKeyFrames E h spare d = Err e) \<longleftrightarrow> detectFormat d = ''gif'' \<and> me_decode E d = None"
    using gif(1) formats_differ [of d] by (simp add: extractKeyFrames_def Let_def extractFromMP4_no_error)
qed

lemma processVideo_cases:
  "processVideo E spare d fp =
     (case extractKeyFrames E (NewVideoHasher (me_rnd E)) spare d of
        Panic \<Rightarrow> Some Panic
      | Err e \<Rightarrow> Some (Err e)
      | Ok kfs \<Rightarrow>
          (case GetMetadata (me_rnd E) d of
             None \<Rightarrow> None
           | Some Panic \<Rightarrow> Some Panic
           | Some (Err _) \<Rightarrow> Some (Err TooShort)
           | Some (Ok meta) \<Rightarrow> Some (Ok (fp\<lparr>mf_KeyFrameHashes := map kf_Hash kfs,
                mf_PerceptualHash := (if kfs = [] then hex_encode (take 16 (sha256_sum d)) else computeCombinedHash (map kf_Hash kfs)),
                mf_Duration := Num (vm_Duration meta), mf_Width := vm_Width meta, mf_Height := vm_Height meta, mf_FrameRate := vm_FrameRate meta\<rparr>))))"
  using metadata_no_error [of "me_rnd E" d]
  by (simp add: processVideo_def vid_ComputeFingerprint_def ExtractKeyFrameHashes_def Let_def split: outcome.split option.split)

lemma processVideo_outcomes:
  "processVideo E spare d fp = None \<longleftrightarrow> detectFormat d = ''gif'' \<and> me_decode E d \<noteq> None \<and> countGIFFrames d = None"
  "processVideo E spare d fp = Some Panic \<longleftrightarrow>
     detectFormat d = ''mp4'' \<and> (extractFromMP4 E (NewVideoHasher (me_rnd E)) spare d = Panic \<or> list_ex (bad_mp4_box d) (boxes d 0))
     \<or> detectFormat d = ''avi'' \<and> getAVIMetadata (me_rnd E) d = Panic"
proof -
  let ?k = "extractKeyFrames E (NewVideoHasher (me_rnd E)) spare d"
  have long: "12 \<le> length d" if "detectFormat d = ''gif''" using that by (simp add: detectFormat_def split: if_splits)
  have meta: "GetMetadata (me_rnd E) d = None \<longleftrightarrow> detectFormat d = ''gif'' \<and> countGIFFrames d = None"
    "GetMetadata (me_rnd E) d = Some Panic \<longleftrightarrow> detectFormat d = ''mp4'' \<and> list_ex (bad_mp4_box d) (boxes d 0)
      \<or> detectFormat d = ''avi'' \<and> getAVIMetadata (me_rnd E) d = Panic"
    using formats_differ [of d] long by (auto simp: GetMetadata_def getGIFMetadata_def getMP4Metadata_cases Let_def)
  show "processVideo E spare d fp = None \<longleftrightarrow> detectFormat d = ''gif'' \<and> me_decode E d \<noteq> None \<and> countGIFFrames d = None"
    unfolding processVideo_cases using meta(1) extract_outcomes [of E "NewVideoHasher (me_rnd E)" spare d]
    by (auto split: outcome.split option.split)
  show "processVideo E spare d fp = Some Panic \<longleftrightarrow>
     detectFormat d = ''mp4'' \<and> (extractFromMP4 E (NewVideoHasher (me_rnd E)) spare d = Panic \<or> list_ex (bad_mp4_box d) (boxes d 0))
     \<or> detectFormat d = ''avi'' \<and> getAVIMetadata (me_rnd E) d = Panic"
    unfolding processVideo_cases using meta extract_outcomes [of E "NewVideoHasher (me_rnd E)" spare d]
    by (cases ?k) (auto split: outcome.split option.split)
qed

lemma image_returns: "processImage E d fp \<noteq> None" "processImage E d fp \<noteq> Some Panic"
  by (simp_all add: processImage_def Let_def split: option.split)

lemma audio_returns:
  "processAudio E d fp \<noteq> None"
  "processAudio E d fp = Some Panic \<longleftrightarrow> aud_ComputeFingerprint (me_rnd E) (me_chroma E) NewAudioHasher d = Panic"
  by (auto simp: processAudio_def Let_def audio_never_fails split: outcome.split)

text \<open>The processing of a medium leaves type, content hash and size as they are.\<close>

definition same_source :: "MultimodalFingerprint \<Rightarrow> MultimodalFingerprint \<Rightarrow> bool" where
  "same_source f g \<longleftrightarrow> mf_MediaType f = mf_MediaType g \<and> mf_ContentHash f = mf_ContentHash g \<and> mf_SizeBytes f = mf_SizeBytes g"

lemma processing_keeps:
  "processImage E d fp = Some (Ok r) \<Longrightarrow> same_source r fp"
  "processAudio E d fp = Some (Ok r) \<Longrightarrow> same_source r fp"
  "processVideo E spare d fp = Some (Ok r) \<Longrightarrow> same_source r fp"
proof -
  show "processImage E d fp = Some (Ok r) \<Longrightarrow> same_source r fp"
    by (auto simp: processImage_def same_source_def Let_def split: option.splits prod.splits)
  show "processAudio E d fp = Some (Ok r) \<Longrightarrow> same_source r fp"
    by (auto simp: processAudio_def same_source_def Let_def split: outcome.splits)
  show "processVideo E spare d fp = Some (Ok r) \<Longrightarrow> same_source r fp"
    unfolding processVideo_cases by (auto simp: same_source_def split: option.splits outcome.splits)
qed

lemma itoa_nat_inj: "itoa_nat m = itoa_nat n \<longleftrightarrow> m = n"
  using itoa_nat_digits by metis

lemma itoa_inj: "itoa i = itoa j \<longleftrightarrow> i = j"
proof -
  have "itoa_nat m \<noteq> CHR ''-'' # s" for m s using itoa_nat_sign [of m] by auto
  then show ?thesis by (auto simp: itoa_def itoa_nat_inj eq_nat_nat_iff dest: not_sym)
qed

lemma split_at_colon: "c \<notin> set a \<Longrightarrow> c \<notin> set b \<Longrightarrow> a @ c # x = b @ c # y \<longleftrightarrow> a = b \<and> x = y"
proof (induction a arbitrary: b)
  case Nil
  then show ?case by (cases b) auto
next
  case (Cons d a)
  then show ?case by (cases b) auto
qed

subsection \<open>Properties\<close>



definition demo_media :: media_env where
  "demo_media = \<lparr>me_rnd = (\<lambda>x. x), me_dct = (\<lambda>x. x), me_decode = (\<lambda>_. None), me_dimensions = (\<lambda>_. None), me_chroma = (\<lambda>x. x)\<rparr>"


end
