(* ===== verification/Spec2Isabelle.thy ===== *)
theory Spec2Isabelle
  imports Prelude Sha256 HashTree Merkle Incremental Verifier Batch Breaker HashPkg Event Dag Validator Gateway
    GatewayStream MsgQueue MemCache Evidence KeyStore DagPath Encoding Sign CertModel Certs CertSearch Disclosure
    EventStore Federated AnchorManager Decrypt ZkpService Provider Router Chat Multimodal
begin

text \<open>
  AI-Trace is a server that stands between applications and the providers of language models. It forwards a chat,
  records what was asked and answered as a chain of hashed events, and on request turns the events of a trace into
  a signed certificate whose root hash binds them; others check the certificate at the server or offline, and parts
  of it can be disclosed with a proof. This library models the server, the offline verifier and the client library
  (Go, under \<open>src/server\<close>, \<open>src/verifier\<close>, \<open>src/sdk/go\<close>) and proves what they promise, and where the
  code does something else than its comments say, what it does.

  \<^bold>\<open>How the parts interact.\<close> A request passes the middleware and the authentication of the router
  (\<open>Middleware\<close>, \<open>TraceHeaders\<close>, \<open>Router\<close>, configured by \<open>Config\<close>). The chat handlers (\<open>Chat\<close>)
  call the gateway (\<open>Gateway\<close>, \<open>GatewayStream\<close>), which sends the request upstream and makes the events
  (\<open>Event\<close>), each with the hash of its predecessor; the handler stores them (\<open>EventStore\<close>). \<open>CommitCert\<close> (\<open>Certs\<close>)
  reads the hashes of a trace, builds the tree (\<open>Merkle\<close>), signs the root (\<open>Sign\<close>) and stores the certificate;
  \<open>VerifyCert\<close> rebuilds the tree; \<open>GenerateProof\<close> (\<open>Disclosure\<close>) cuts inclusion proofs out of it,
  which the offline verifier (\<open>Verifier\<close>) reads. Anchors (\<open>Batch\<close>, \<open>Federated\<close>, \<open>AnchorManager\<close>) publish roots. Content
  is kept encrypted under keys per tenant (\<open>Crypto\<close>, \<open>KeyStore\<close>, \<open>EncryptedStore\<close>, \<open>Decrypt\<close>).

  \<^bold>\<open>Ground.\<close> \<open>Prelude\<close>: results of Go calls (\<open>Ok\<close>, \<open>Err\<close>, \<open>Panic\<close>), the locale
  \<open>step_system\<close> of reachable states and invariants, the text functions, the collections of simplification rules.
  \<open>Sha256\<close>: the digest, executable, and the locale \<open>digest\<close> of what is used of it. \<open>HashPkg\<close>: \<open>pkg/hash\<close>.
  \<open>Encoding\<close>: hexadecimal, base64 and decimal texts with their round trips. \<open>AesGcm\<close>: the cipher, whose
  block function is a parameter.

  \<^bold>\<open>Hash trees.\<close> \<open>HashTree\<close> is the abstract tree; the locale \<open>tree_hash\<close> holds what follows from the
  lengths of hashes: a proof that verifies either has the leaf or exhibits a collision. It is interpreted for both node hashes.
  \<open>Merkle\<close> (\<open>merkle/tree.go\<close>), \<open>Incremental\<close> (\<open>merkle/incremental.go\<close>), \<open>Batch\<close> (\<open>anchor/batch.go\<close>: the
  batcher's queues, timers and retries as a step relation) and \<open>Verifier\<close> (\<open>verify/verifier.go\<close>) each implement it; they are
  proved equal to it, hence to each other, where they are.

  \<^bold>\<open>Events and their graph.\<close> \<open>Event\<close> (\<open>event/model.go\<close>), \<open>Dag\<close> and \<open>DagPath\<close> (\<open>dag/dag.go\<close>: the invariant
  of the graph, topological order, ancestors, shortest paths), \<open>Validator\<close> (\<open>dag/validator.go\<close>), \<open>EventStore\<close>
  (\<open>api/events.go\<close>).

  \<^bold>\<open>Gateway.\<close> \<open>Gateway\<close> and \<open>GatewayStream\<close> (\<open>gateway/gateway.go\<close>, \<open>stream.go\<close>): the chain of events and what changing
  one of them takes. \<open>Provider\<close> (\<open>provider.go\<close>). \<open>Breaker\<close> (\<open>circuit_breaker.go\<close>): the breaker as a step relation, retries, the
  executor. \<open>MsgQueue\<close> (\<open>queue/\<close>) and \<open>MemCache\<close> (\<open>cache/cache.go\<close>): conservation of messages, expiry.

  \<^bold>\<open>Certificates.\<close> \<open>Evidence\<close> (levels, automatic certificates), \<open>Sign\<close> (\<open>pkg/sign\<close>; the signature functions
  are a parameter of which it is known that they verify what they sign), \<open>CertModel\<close>, \<open>Certs\<close>, \<open>CertSearch\<close>, \<open>Disclosure\<close>
  (\<open>cert/model.go\<close>, \<open>api/certs*.go\<close>, \<open>store\<close>). \<open>Federated\<close>, \<open>AnchorManager\<close> (\<open>anchor/federated.go\<close>,
  \<open>manager.go\<close>, \<open>api/federated.go\<close>).

  \<^bold>\<open>Content and proofs of knowledge.\<close> \<open>Crypto\<close>, \<open>KeyStore\<close> (\<open>crypto/\<close>), \<open>EncryptedStore\<close>, \<open>Decrypt\<close>
  (\<open>store/encrypted.go\<close>, \<open>decrypt_audit.go\<close>, \<open>api/decrypt.go\<close>); \<open>Circuit\<close>, \<open>Zkp\<close>, \<open>ZkpService\<close> (\<open>zkp/\<close>): the
  constraints as equations over the field, gnark being a parameter with its documented laws.

  \<^bold>\<open>Fingerprints of media.\<close> \<open>ImageHash\<close>, \<open>Audio\<close>, \<open>Video\<close>, \<open>Multimodal\<close> (\<open>fingerprint/image.go\<close>, \<open>audio.go\<close>,
  \<open>video.go\<close>, \<open>perceptual.go\<close>): the parsers of the container formats on bytes, with their panics and the loop that does not
  end. Rounding of float64 is a parameter \<open>rnd\<close> with the law \<open>float64_ok\<close>; the decoders of images, the cosine transform
  and the chroma transform are parameters.

  \<^bold>\<open>Groups of lemmas.\<close> In each theory: the equations of loops against lists; the invariant and that every operation
  keeps it; the behaviour on every branch; then the properties, each with a witness on concrete data where it
  has hypotheses. \<open>Chat.chat_to_certificate\<close> composes router, gateway, event table and certificates.

  \<^bold>\<open>Bounds and fuel.\<close> Loops that end are functions with a measure. The traversals of the graph take the fuel
  \<open>dag_fuel\<close>, one more than the number of nodes, which is enough because depths decrease along edges
  (\<open>ranked_graph\<close>); the answer \<open>None\<close> is proved not to occur. Nodes that ask each other take a fuel, for the
  timeouts of the requests; the properties hold for each. A GIF counter that may not return has the value \<open>None\<close>, and
  the property says exactly when. Counters and offsets are integers, wrapped at 64 bits where the code can reach that.

  \<^bold>\<open>Parameters and their laws.\<close> Clocks, random bytes, identifiers, the transports to providers, nodes and the
  database driver are arguments. Hypotheses about them are named in the statements: a key pair signs what it verifies, a
  stored object is read back, \<open>json\<close> decodes what it encoded. No property assumes that SHA-256 has no collisions: where it
  matters the conclusion names the collision.

  \<^bold>\<open>Not modelled.\<close> The Ethereum anchor and its contracts, the metrics and the connections to stores are calls of
  libraries; \<open>docs.go\<close> is generated. The statistics of texts and token probabilities (\<open>fingerprint/statistical.go\<close>,
  \<open>semantic.go\<close>, \<open>logprobs.go\<close>) are float64 sums of logarithms, which decide nothing, and their store and routes keep
  them. Reports are an SQL count in a template. Health checks ping the stores. Of modelled files, what only marshals, logs
  or measures is left out: the manifest says where. Goroutines are run to their end or appear as steps; data races are not
  modelled.
\<close>

end
